(* ===== verification/Prelude.thy ===== *)
theory Prelude
  imports Main "HOL-Library.Word" "HOL-Library.Monad_Syntax"
begin

text \<open>
  Shared vocabulary of the development: the machine integer types of the C sources, the
  little-endian layout of integers in memory (the daemon copies packed structs byte by byte to
  and from the disk), C string helpers, checked division, and the generic list and word lemmas
  the component theories use.
\<close>

unbundle bit_operations_syntax

section \<open>Machine integers\<close>

type_synonym byte = "8 word"
type_synonym u16 = "16 word"
type_synonym u32 = "32 word"
type_synonym u64 = "64 word"

named_theorems frame_simps \<open>which parts of the daemon's state an operation leaves alone\<close>
named_theorems layout_simps \<open>sizes of packed structs and byte encodings\<close>

text \<open>
  A call that does not return is the value \<^term>\<open>None\<close>: the daemon loops for ever or dies from a
  signal. Integer division by zero raises SIGFPE.
\<close>

definition cdiv :: "nat \<Rightarrow> nat \<Rightarrow> nat option" where
  "cdiv a b = (if b = 0 then None else Some (a div b))"

text \<open>A loop whose body may fail, over a list.\<close>

primrec fold_option :: "('a \<Rightarrow> 'b \<Rightarrow> 'b option) \<Rightarrow> 'a list \<Rightarrow> 'b \<Rightarrow> 'b option" where
  "fold_option f [] s = Some s"
| "fold_option f (x # xs) s = Option.bind (f x s) (fold_option f xs)"

text \<open>Conversion of an unsigned value to C's \<open>int\<close> (32-bit two's complement).\<close>

definition to_int32 :: "nat \<Rightarrow> int" where
  "to_int32 n = sint (of_nat n :: u32)"

section \<open>Integers in memory\<close>

primrec le_bytes :: "nat \<Rightarrow> 'a::len word \<Rightarrow> byte list" where
  "le_bytes 0 w = []"
| "le_bytes (Suc n) w = ucast w # le_bytes n (drop_bit 8 w)"

primrec le_word :: "byte list \<Rightarrow> 'a::len word" where
  "le_word [] = 0"
| "le_word (b # bs) = ucast b OR push_bit 8 (le_word bs)"

section \<open>C strings\<close>

definition cstr :: "string \<Rightarrow> byte list" where
  "cstr s = map of_char s"

text \<open>\<open>strncpy (dst, src, n)\<close>: at most \<open>n\<close> characters, padded with zeros up to \<open>n\<close>.\<close>

definition strncpy :: "byte list \<Rightarrow> byte list \<Rightarrow> nat \<Rightarrow> byte list" where
  "strncpy dst src n = take n (src @ replicate n 0) @ drop n dst"

text \<open>\<open>memcpy\<close> to the start of a buffer.\<close>

definition memcpy :: "byte list \<Rightarrow> byte list \<Rightarrow> nat \<Rightarrow> byte list" where
  "memcpy dst src n = take n src @ drop n dst"

section \<open>Lemmas on words and bytes\<close>

lemma cdiv_Some [simp]: "b \<noteq> 0 \<Longrightarrow> cdiv a b = Some (a div b)"
  by (simp add: cdiv_def)

lemma cdiv_zero [simp]: "cdiv a 0 = None"
  by (simp add: cdiv_def)

lemma to_int32_small: "n < 2 ^ 31 \<Longrightarrow> to_int32 n = int n"
  by (simp add: to_int32_def sint_uint unsigned_of_nat signed_take_bit_int_eq_self
      take_bit_nat_eq_self)

lemma length_le_bytes [simp, layout_simps]: "length (le_bytes n w) = n"
  by (induction n arbitrary: w) simp_all

lemma nth_le_bytes: "k < n \<Longrightarrow> le_bytes n w ! k = ucast (drop_bit (8 * k) w)"
proof (induction n arbitrary: w k)
  case (Suc n)
  show ?case
  proof (cases k)
    case (Suc j)
    with Suc.prems Suc.IH [of j "drop_bit 8 w"] show ?thesis by (simp add: drop_bit_drop_bit ac_simps)
  qed simp
qed simp

lemma bit_le_word:
  "bit (le_word bs :: 'a::len word) i \<longleftrightarrow>
     i < LENGTH('a) \<and> i div 8 < length bs \<and> bit (bs ! (i div 8)) (i mod 8)"
proof (induction bs arbitrary: i)
  case (Cons b bs)
  show ?case
  proof (cases "i < 8")
    case True
    then show ?thesis
      by (auto simp: bit_or_iff bit_push_bit_iff bit_ucast_iff)
  next
    case False
    then have "i div 8 = Suc ((i - 8) div 8)" and "i mod 8 = (i - 8) mod 8"
      by (simp_all add: le_div_geq le_mod_geq)
    moreover have "\<not> bit b i"
      using False by (auto dest: bit_imp_le_length)
    ultimately show ?thesis
      using False Cons.IH [of "i - 8"]
      by (auto simp: bit_or_iff bit_push_bit_iff bit_ucast_iff dest: bit_imp_le_length)
  qed
qed simp

lemma le_word_le_bytes [simp]:
  fixes w :: "'a::len word"
  assumes "LENGTH('a) \<le> 8 * n"
  shows "le_word (le_bytes n w) = w"
proof (rule bit_word_eqI)
  fix i assume i: "i < LENGTH('a)"
  with assms have k: "i div 8 < n" by (simp add: less_mult_imp_div_less mult.commute)
  have "8 * (i div 8) + i mod 8 = i" by simp
  with i k show "bit (le_word (le_bytes n w) :: 'a word) i = bit w i"
    by (simp add: bit_le_word nth_le_bytes bit_ucast_iff bit_drop_bit_eq)
qed

lemma le_bytes_le_word [simp]:
  assumes "8 * length bs \<le> LENGTH('a)"
  shows "le_bytes (length bs) (le_word bs :: 'a::len word) = bs"
proof (rule nth_equalityI)
  fix k assume "k < length (le_bytes (length bs) (le_word bs :: 'a word))"
  then have k: "k < length bs" by simp
  show "le_bytes (length bs) (le_word bs :: 'a word) ! k = bs ! k"
  proof (rule bit_word_eqI)
    fix j assume "j < LENGTH(8)"
    then have j: "j < 8" by simp
    then have "(8 * k + j) div 8 = k" and "(8 * k + j) mod 8 = j" by simp_all
    moreover have "8 * k + j < LENGTH('a)" using k j assms by linarith
    ultimately show "bit (le_bytes (length bs) (le_word bs :: 'a word) ! k) j = bit (bs ! k) j"
      using k j by (simp add: nth_le_bytes bit_ucast_iff bit_drop_bit_eq bit_le_word ac_simps)
  qed
qed simp

lemma le_bytes_inject:
  fixes v w :: "'a::len word"
  assumes "LENGTH('a) \<le> 8 * n"
  shows "le_bytes n v = le_bytes n w \<longleftrightarrow> v = w"
  using assms le_word_le_bytes by metis

lemma le_word_inject:
  assumes "length xs = length ys" and "8 * length xs \<le> LENGTH('a)"
    and "(le_word xs :: 'a::len word) = le_word ys"
  shows "xs = ys"
  using assms le_bytes_le_word by metis

section \<open>Lemmas on lists\<close>

text \<open>Overwriting a stretch of a byte list, as a write at an offset does.\<close>

definition overwrite :: "'a list \<Rightarrow> nat \<Rightarrow> 'a list \<Rightarrow> 'a list" where
  "overwrite xs p ys = take p xs @ ys @ drop (p + length ys) xs"

lemma length_overwrite [simp]:
  "p + length ys \<le> length xs \<Longrightarrow> length (overwrite xs p ys) = length xs"
  by (simp add: overwrite_def)

lemma overwrite_Nil [simp]: "p \<le> length xs \<Longrightarrow> overwrite xs p [] = xs"
  by (simp add: overwrite_def)

lemma nth_overwrite:
  assumes "p + length ys \<le> length xs" and "i < length xs"
  shows "overwrite xs p ys ! i = (if p \<le> i \<and> i < p + length ys then ys ! (i - p) else xs ! i)"
  using assms by (auto simp: overwrite_def nth_append min_def)

lemma overwrite_overwrite:
  assumes "p + length ys + length zs \<le> length xs"
  shows "overwrite (overwrite xs p ys) (p + length ys) zs = overwrite xs p (ys @ zs)"
  using assms by (intro nth_equalityI) (auto simp: nth_overwrite nth_append)

lemma take_drop_eq_iff_nth:
  assumes "p + n \<le> length xs" and "p + n \<le> length ys"
  shows "take n (drop p xs) = take n (drop p ys) \<longleftrightarrow> (\<forall>i < n. xs ! (p + i) = ys ! (p + i))"
  using assms by (auto simp: list_eq_iff_nth_eq)

lemma length_concat_same:
  "\<forall>b \<in> set bs. length b = n \<Longrightarrow> length (concat bs) = length bs * n"
  by (induction bs) auto

lemma take_concat_same:
  "\<forall>b \<in> set bs. length b = n \<Longrightarrow> take (k * n) (concat bs) = concat (take k bs)"
proof (induction bs arbitrary: k)
  case (Cons b bs)
  then show ?case by (cases k) auto
qed simp

lemma drop_concat_same:
  "\<forall>b \<in> set bs. length b = n \<Longrightarrow> drop (k * n) (concat bs) = concat (drop k bs)"
proof (induction bs arbitrary: k)
  case (Cons b bs)
  then show ?case by (cases k) auto
qed simp

lemma nth_concat_same:
  "\<forall>b \<in> set bs. length b = n \<Longrightarrow> k < length bs * n \<Longrightarrow> concat bs ! k = bs ! (k div n) ! (k mod n)"
proof (induction bs arbitrary: k)
  case (Cons b bs)
  show ?case
  proof (cases "k < n")
    case True
    with Cons.prems show ?thesis by (simp add: nth_append)
  next
    case False
    then have "k div n = Suc ((k - n) div n)" and "k mod n = (k - n) mod n"
      using Cons.prems(2) by (cases "n = 0"; simp add: le_div_geq le_mod_geq)+
    with False Cons show ?thesis by (simp add: nth_append)
  qed
qed simp

end
