(* ===== verification/Checksum.thy ===== *)
theory Checksum
  imports Prelude
begin

text \<open>
  \<^verbatim>\<open>src/src/checksum.c\<close>: the CRC-32 of the image format. The file's two static variables, the
  lookup table and the mode selected by \<^verbatim>\<open>init_checksum\<close>, are the record \<open>checksum_statics\<close>;
  the daemon's state extends it. The table-driven code is related to the bit-serial CRC, and
  the error detection that the image format relies on is proved from that.
\<close>

section \<open>Definitions\<close>

record checksum_statics =
  crc_tab32 :: "u32 list"
  cs_mode :: int

definition CSM_NONE :: int where "CSM_NONE = 0"
definition CSM_CRC32 :: int where "CSM_CRC32 = 0x20"
definition CSM_CRC32_0001 :: int where "CSM_CRC32_0001 = 0xFF"

definition CRC32_SEED :: u32 where "CRC32_SEED = 0xFFFFFFFF"

definition get_checksum_size :: "int \<Rightarrow> u32" where
  "get_checksum_size checksum_mode =
     (if checksum_mode = CSM_NONE then 0
      else if checksum_mode = CSM_CRC32 \<or> checksum_mode = CSM_CRC32_0001 then 4
      else 0xFFFFFFFF)"

definition get_checksum_str :: "int \<Rightarrow> string" where
  "get_checksum_str checksum_mode =
     (if checksum_mode = CSM_NONE then ''NONE''
      else if checksum_mode = CSM_CRC32 then ''CRC32''
      else if checksum_mode = CSM_CRC32_0001 then ''CRC32_0001''
      else ''UNKNOWN'')"

text \<open>The body of the \<open>j\<close> loop of \<^verbatim>\<open>init_crc32\<close>, and the loop itself.\<close>

definition crc_bit :: "u32 \<Rightarrow> u32" where
  "crc_bit init_crc =
     (if init_crc AND 1 \<noteq> 0 then drop_bit 1 init_crc XOR 0xEDB88320 else drop_bit 1 init_crc)"

definition crc_entry :: "u32 \<Rightarrow> u32" where
  "crc_entry i = (crc_bit ^^ 8) i"

definition crc_table :: "u32 list" where
  "crc_table = map (\<lambda>i. crc_entry (of_nat i)) [0..<256]"

definition init_crc32 :: "'a checksum_statics_scheme \<Rightarrow> u32 \<times> 'a checksum_statics_scheme" where
  "init_crc32 s =
     (CRC32_SEED, if crc_tab32 s ! 0 = 0 then s\<lparr>crc_tab32 := crc_table\<rparr> else s)"

text \<open>
  The seed is a byte buffer that the C code writes through a \<^verbatim>\<open>uint32_t *\<close>; its caller owns it.
\<close>

definition store32 :: "byte list \<Rightarrow> u32 \<Rightarrow> byte list" where
  "store32 buf x = memcpy buf (le_bytes 4 x) 4"

definition load32 :: "byte list \<Rightarrow> u32" where
  "load32 buf = le_word (take 4 buf)"

definition init_checksum ::
    "int \<Rightarrow> byte list \<Rightarrow> 'a checksum_statics_scheme \<Rightarrow> byte list \<times> 'a checksum_statics_scheme" where
  "init_checksum checksum_mode seed s =
     (if checksum_mode = CSM_CRC32 \<or> checksum_mode = CSM_CRC32_0001
      then (let (x, s') = init_crc32 s in (store32 seed x, s'\<lparr>cs_mode := checksum_mode\<rparr>))
      else (seed, s\<lparr>cs_mode := checksum_mode\<rparr>))"

text \<open>
  \<open>crc32 tab seed buf\<close> runs over all the bytes of \<open>buf\<close>: the C code's pointer and size.
\<close>

definition crc_step :: "u32 list \<Rightarrow> u32 \<Rightarrow> byte \<Rightarrow> u32" where
  "crc_step tab crc long_c =
     (let tmp = crc XOR ucast long_c in drop_bit 8 crc XOR tab ! unat (tmp AND 0xFF))"

primrec crc32 :: "u32 list \<Rightarrow> u32 \<Rightarrow> byte list \<Rightarrow> u32" where
  "crc32 tab crc [] = crc"
| "crc32 tab crc (b # buf) = crc32 tab (crc_step tab crc b) buf"

text \<open>The \<open>0001\<close> variant never advances the pointer: it reads the first byte \<open>size\<close> times.\<close>

primrec crc32_0001_loop :: "u32 list \<Rightarrow> u32 \<Rightarrow> byte \<Rightarrow> nat \<Rightarrow> u32" where
  "crc32_0001_loop tab crc b 0 = crc"
| "crc32_0001_loop tab crc b (Suc n) = crc32_0001_loop tab (crc_step tab crc b) b n"

definition crc32_0001 :: "u32 list \<Rightarrow> u32 \<Rightarrow> byte list \<Rightarrow> u32" where
  "crc32_0001 tab seed buf =
     (case buf of [] \<Rightarrow> seed | b # _ \<Rightarrow> crc32_0001_loop tab seed b (length buf))"

definition update_checksum ::
    "byte list \<Rightarrow> byte list \<Rightarrow> 'a checksum_statics_scheme \<Rightarrow> byte list" where
  "update_checksum checksum buf s =
     (if cs_mode s = CSM_CRC32 then store32 checksum (crc32 (crc_tab32 s) (load32 checksum) buf)
      else if cs_mode s = CSM_CRC32_0001
      then store32 checksum (crc32_0001 (crc_tab32 s) (load32 checksum) buf)
      else checksum)"

section \<open>The bit-serial CRC as reference\<close>

text \<open>
  The textbook definition: a byte is added to the low end of the register, which is then
  shifted out bit by bit.
\<close>

definition crc_feed :: "u32 \<Rightarrow> byte \<Rightarrow> u32" where
  "crc_feed c b = (crc_bit ^^ 8) (c XOR ucast b)"

definition crc32_spec :: "u32 \<Rightarrow> byte list \<Rightarrow> u32" where
  "crc32_spec c bs = foldl crc_feed c bs"

subsection \<open>The register map is linear and injective\<close>

lemma crc_bit_alt: "crc_bit x = drop_bit 1 x XOR (if bit x 0 then 0xEDB88320 else 0)"
proof -
  have "x AND 1 \<noteq> 0 \<longleftrightarrow> bit x 0" by (simp only: and_one_eq bit_0 mod_2_eq_odd) simp
  then show ?thesis by (simp add: crc_bit_def)
qed

lemma crc_bit_xor: "crc_bit (x XOR y) = crc_bit x XOR crc_bit y"
  by (auto simp: crc_bit_alt bit_xor_iff drop_bit_xor ac_simps)

lemma crc_bits_xor: "(crc_bit ^^ n) (x XOR y) = (crc_bit ^^ n) x XOR (crc_bit ^^ n) y"
  by (induction n) (simp_all add: crc_bit_xor)

lemma bit_crc_poly_top: "bit (0xEDB88320 :: u32) 31"
  by simp

lemma crc_bit_eq_0: "crc_bit x = 0 \<Longrightarrow> x = 0"
proof -
  assume *: "crc_bit x = 0"
  have top: "\<not> bit (drop_bit 1 x) 31"
    using bit_imp_le_length [of x 32] by (auto simp: bit_drop_bit_eq)
  have "\<not> bit x 0"
  proof
    assume "bit x 0"
    with * have "bit (drop_bit 1 x XOR 0xEDB88320) 31 = bit (0 :: u32) 31"
      by (simp add: crc_bit_alt)
    with top bit_crc_poly_top show False by (simp only: bit_xor_iff bit_0_eq) simp
  qed
  with * have "drop_bit 1 x = 0" by (simp add: crc_bit_alt)
  have "bit x i = bit 0 i" for i
  proof (cases i)
    case (Suc j)
    have "bit (drop_bit 1 x) j = bit (0 :: u32) j" using \<open>drop_bit 1 x = 0\<close> by simp
    with Suc show ?thesis by (simp add: bit_drop_bit_eq)
  qed (use \<open>\<not> bit x 0\<close> in simp)
  then show "x = 0" by (intro bit_eqI) simp
qed

lemma crc_bit_inject: "crc_bit x = crc_bit y \<longleftrightarrow> x = y"
proof
  assume "crc_bit x = crc_bit y"
  then have "crc_bit (x XOR y) = 0" by (simp add: crc_bit_xor)
  then have "x XOR y = 0" by (rule crc_bit_eq_0)
  then show "x = y" by (metis bit.xor_left_self xor.right_neutral)
qed simp

lemma crc_bits_inject: "(crc_bit ^^ n) x = (crc_bit ^^ n) y \<longleftrightarrow> x = y"
  by (induction n) (simp_all add: crc_bit_inject)

lemma crc_bit_even: "\<not> bit x 0 \<Longrightarrow> crc_bit x = drop_bit 1 x"
  by (simp add: crc_bit_alt)

lemma crc_bits_low_zero: "(\<forall>i < n. \<not> bit x i) \<Longrightarrow> (crc_bit ^^ n) x = drop_bit n x"
proof (induction n)
  case (Suc n)
  then have "(crc_bit ^^ n) x = drop_bit n x" by simp
  moreover have "\<not> bit (drop_bit n x) 0" using Suc.prems by (simp add: bit_drop_bit_eq)
  ultimately show ?case by (simp add: crc_bit_even drop_bit_drop_bit)
qed simp

subsection \<open>The table-driven step\<close>

lemma crc_entry_0: "crc_entry 0 = 0"
  by (simp add: crc_entry_def crc_bits_low_zero)

lemma length_crc_table [simp]: "length crc_table = 256"
  by (simp add: crc_table_def)

lemma crc_table_0 [simp]: "crc_table ! 0 = 0"
  by (simp add: crc_table_def crc_entry_0)

lemma nth_crc_table: "n < 256 \<Longrightarrow> crc_table ! n = crc_entry (of_nat n)"
  by (simp add: crc_table_def)

lemma low_byte_bound: "unat (x AND 0xFF :: u32) < 256"
proof -
  have "x AND 0xFF = take_bit 8 x" by (simp add: take_bit_eq_mask mask_eq_exp_minus_1)
  then show ?thesis by (simp add: unsigned_take_bit_eq take_bit_nat_less_exp [of 8, simplified])
qed

lemma nth_crc_table_low: "crc_table ! unat (x AND 0xFF) = crc_entry (x AND 0xFF)"
  by (subst nth_crc_table) (simp_all add: low_byte_bound)

lemma drop_byte_ucast [simp]: "drop_bit 8 (ucast (b :: byte) :: u32) = 0"
  by (rule bit_eqI) (auto simp: bit_drop_bit_eq bit_ucast_iff dest: bit_imp_le_length)

text \<open>One table step is eight bit steps: the lemma behind every table-driven CRC.\<close>

lemma crc_step_eq_feed: "crc_step crc_table c b = crc_feed c b"
proof -
  let ?x = "c XOR ucast b"
  let ?lo = "?x AND 0xFF" and ?hi = "?x AND NOT 0xFF"
  have ff: "(0xFF :: u32) = mask 8" by (simp add: mask_eq_exp_minus_1)
  have hi_low: "\<not> bit ?hi i" if "i < 8" for i
    using that by (simp only: ff bit_and_iff bit_not_iff bit_mask_iff) simp
  have hi_drop: "drop_bit 8 ?hi = drop_bit 8 ?x"
    by (rule bit_eqI)
      (simp only: ff bit_drop_bit_eq bit_and_iff bit_not_iff bit_mask_iff comp_def,
        auto dest: bit_imp_le_length)
  have "?x = ?lo XOR ?hi"
    by (rule bit_eqI) (auto simp: bit_simps)
  then have "(crc_bit ^^ 8) ?x = crc_entry ?lo XOR (crc_bit ^^ 8) ?hi"
    by (metis crc_bits_xor crc_entry_def)
  also have "(crc_bit ^^ 8) ?hi = drop_bit 8 ?x"
    using crc_bits_low_zero [of 8 ?hi] hi_low hi_drop by simp
  also have "drop_bit 8 ?x = drop_bit 8 c" by (simp add: drop_bit_xor)
  finally show ?thesis
    by (simp add: crc_step_def crc_feed_def Let_def nth_crc_table_low xor.commute)
qed

lemma crc32_eq_spec: "crc32 crc_table c bs = crc32_spec c bs"
  by (induction bs arbitrary: c) (simp_all add: crc32_spec_def crc_step_eq_feed)

lemma crc32_append: "crc32 tab c (xs @ ys) = crc32 tab (crc32 tab c xs) ys"
  by (induction xs arbitrary: c) simp_all

subsection \<open>Error detection\<close>

lemma xor_cancel_left: "(c :: u32) XOR x = c XOR y \<longleftrightarrow> x = y"
proof
  assume "c XOR x = c XOR y"
  then have "c XOR (c XOR x) = c XOR (c XOR y)" by simp
  then show "x = y" by (simp add: xor.assoc [symmetric])
qed simp

lemma xor_cancel_right: "(x :: u32) XOR c = y XOR c \<longleftrightarrow> x = y"
  using xor_cancel_left [of c x y] by (simp add: xor.commute)

lemma crc32_inject_seed: "crc32 crc_table c xs = crc32 crc_table d xs \<longleftrightarrow> c = d"
  by (induction xs arbitrary: c d)
    (simp_all add: crc_step_eq_feed crc_feed_def crc_bits_inject xor_cancel_right)

lemma crc_bits_push:
  "(\<forall>i \<ge> 32 - n. \<not> bit y i) \<Longrightarrow> (crc_bit ^^ n) (push_bit n y) = y"
proof -
  assume y: "\<forall>i \<ge> 32 - n. \<not> bit y i"
  have "(crc_bit ^^ n) (push_bit n y) = drop_bit n (push_bit n y)"
    by (rule crc_bits_low_zero) (simp add: bit_push_bit_iff)
  also have "\<dots> = y"
  proof (rule bit_eqI)
    fix i
    have "n + i < 32" if "bit y i"
    proof -
      from y that have "\<not> 32 - n \<le> i" by blast
      then show ?thesis by linarith
    qed
    then show "bit (drop_bit n (push_bit n y)) i = bit y i"
      by (auto simp: bit_drop_bit_eq bit_push_bit_iff)
  qed
  finally show ?thesis .
qed

text \<open>Up to four bytes act like one addition of their little-endian value to the register.\<close>

lemma crc32_short:
  "length m \<le> 4 \<Longrightarrow> crc32 crc_table c m = (crc_bit ^^ (8 * length m)) (c XOR le_word m)"
proof (induction m arbitrary: c)
  case (Cons b m)
  have "\<forall>i \<ge> 32 - 8. \<not> bit (le_word m :: u32) i"
    using Cons.prems by (auto simp: bit_le_word)
  then have m: "(crc_bit ^^ 8) (push_bit 8 (le_word m)) = (le_word m :: u32)"
    by (rule crc_bits_push)
  have "(ucast b :: u32) OR push_bit 8 (le_word m) = ucast b XOR push_bit 8 (le_word m)"
    by (rule bit_eqI) (auto simp: bit_simps dest: bit_imp_le_length)
  then have "crc_feed c b XOR le_word m = (crc_bit ^^ 8) (c XOR le_word (b # m))"
    by (simp add: crc_feed_def crc_bits_xor m xor.assoc)
  then have "crc32 crc_table c (b # m) =
      (crc_bit ^^ (8 * length m)) ((crc_bit ^^ 8) (c XOR le_word (b # m)))"
    using Cons by (simp add: crc_step_eq_feed)
  also have "\<dots> = (crc_bit ^^ (8 * length m + 8)) (c XOR le_word (b # m))"
    by (simp only: funpow_add o_apply)
  finally show ?case by (simp add: add.commute)
qed simp

lemma crc32_short_inject:
  assumes "length m = length m'" and "length m \<le> 4"
    and "crc32 crc_table c m = crc32 crc_table c m'"
  shows "m = m'"
proof -
  from assms have "c XOR le_word m = c XOR (le_word m' :: u32)"
    by (simp add: crc32_short crc_bits_inject)
  then have "(le_word m :: u32) = le_word m'" by (simp only: xor_cancel_left)
  with assms show ?thesis using le_word_inject [of m m', where 'a = 32] by simp
qed

text \<open>A block followed by its CRC has the CRC 0, and only then.\<close>

lemma crc32_residue:
  assumes "length cb = 4"
  shows "crc32 crc_table c (bs @ cb) = 0 \<longleftrightarrow> crc32 crc_table c bs = le_word cb"
proof -
  let ?x = "crc32 crc_table c bs"
  have "crc32 crc_table c (bs @ cb) = (crc_bit ^^ 32) (?x XOR le_word cb)"
    using assms by (simp add: crc32_append crc32_short)
  moreover have "(crc_bit ^^ 32) (0 :: u32) = 0" by (simp add: crc_bits_low_zero)
  ultimately have "crc32 crc_table c (bs @ cb) = 0 \<longleftrightarrow> ?x XOR le_word cb = 0"
    by (metis crc_bits_inject)
  also have "\<dots> \<longleftrightarrow> ?x = le_word cb"
    using xor_cancel_right [of ?x "le_word cb" "le_word cb"] by simp
  finally show ?thesis .
qed

lemma crc32_burst:
  assumes "length m = length m'" and "length m \<le> 4" and "m \<noteq> m'"
  shows "crc32 crc_table c (p @ m @ s) \<noteq> crc32 crc_table c (p @ m' @ s)"
proof
  assume "crc32 crc_table c (p @ m @ s) = crc32 crc_table c (p @ m' @ s)"
  then have "crc32 crc_table (crc32 crc_table c p) m = crc32 crc_table (crc32 crc_table c p) m'"
    by (simp add: crc32_append crc32_inject_seed)
  with assms show False using crc32_short_inject by blast
qed

section \<open>Properties\<close>



text \<open>
  C37: Error detection: two byte strings that differ only inside one stretch of at most four bytes
  never have the same CRC, whatever the seed and wherever the stretch lies.
\<close>

theorem crc32_detects_burst:
  assumes "length m = length m'" and "length m \<le> 4" and "m \<noteq> m'"
  shows "crc32 crc_table seed (p @ m @ s) \<noteq> crc32 crc_table seed (p @ m' @ s)"
  using assms by (rule crc32_burst)

theorem crc32_detects_burst_witness:
  "crc32 crc_table CRC32_SEED ([1, 2] @ [3, 4] @ [5]) \<noteq> crc32 crc_table CRC32_SEED ([1, 2] @ [4, 3] @ [5])"
  by (rule crc32_detects_burst) simp_all

end
