(* ===== verification/World.thy ===== *)
theory World
  imports Complex_Main Checksum
begin

text \<open>
  The state the daemon runs in: the static variables of its C files, and as much of the POSIX
  environment as the sources use (files and block devices, the descriptor table, \<^verbatim>\<open>read\<close>,
  \<^verbatim>\<open>write\<close>, \<^verbatim>\<open>lseek\<close>, \<^verbatim>\<open>open\<close>, \<^verbatim>\<open>close\<close>, \<^verbatim>\<open>fsync\<close>, \<^verbatim>\<open>stat\<close>, \<^verbatim>\<open>statvfs\<close>, \<^verbatim>\<open>malloc\<close>,
  \<^verbatim>\<open>time\<close>), and the messages sent on the bus. What the environment decides is data of the
  state: \<open>w_sched\<close> says which of the next transfers are cut short or fail and with which error,
  \<open>w_allocs\<close> which of the next allocations succeed, \<open>w_clock\<close> what the next calls of \<^verbatim>\<open>time\<close>
  return. When such a list is used up, transfers are complete, allocations succeed and the
  clock shows 0. A theorem for every state therefore holds for every finite pattern of
  interruptions, short transfers and failures. \<open>w_junk\<close> is what uninitialised memory holds;
  \<open>fat_FS\<close>, \<open>btrfs_block_size\<close> and \<open>xfs_mp\<close> are the file-level variables \<^verbatim>\<open>FS\<close> of \<^verbatim>\<open>gdbus-fatfs.c\<close>,
  \<^verbatim>\<open>block_size\<close> of \<^verbatim>\<open>gdbus-btrfs.c\<close> and \<^verbatim>\<open>mp\<close> of \<^verbatim>\<open>gdbus-xfsfs.c\<close>.
\<close>

section \<open>State\<close>

datatype fkind = REG | BLK | FIFO | OTHER

datatype errno = EAGAIN | EINTR | EIO | ENOSPC | EBADF

text \<open>\<open>Short n\<close>: the next transfer moves at most \<open>n + 1\<close> bytes.\<close>

datatype io_event = Short nat | Fail errno

record inode =
  i_kind :: fkind
  i_bytes :: "byte list"
  i_dirty :: bool
  i_readable :: bool
  i_writable :: bool

record ofile =
  o_path :: string
  o_pos :: nat
  o_write :: bool

text \<open>
  What the daemon lets the outside see: replies and signals of the generated D-Bus interface, with
  the values they carry, and the commands it runs.
\<close>

datatype dval = DBool bool | DNat nat | DStr "string option" | DBytes "byte list"

datatype dbus_event =
    Reply string "dval list"
  | Progress rat rat int
  | Finished nat nat nat
  | Error "string option" int
  | Spawn "string list"

text \<open>The fields of the mounted XFS superblock that \<^verbatim>\<open>gdbus-xfsfs.c\<close> reads.\<close>

record xfs_mount =
  sb_blocksize :: u32
  sb_sectsize :: u16
  sb_dblocks :: u64
  sb_fdblocks :: u64
  sb_agcount :: u32
  sb_agblocks :: u32
  sb_inprogress :: byte
  sb_logstart :: u64
  sb_rextents :: u64
  agfl_size :: nat

record world = checksum_statics +
  w_nodes :: "string \<Rightarrow> inode option"
  w_fdtab :: "ofile option list"
  w_sched :: "io_event list"
  w_allocs :: "bool list"
  w_clock :: "int list"
  w_vfs :: "string \<Rightarrow> (nat \<times> nat \<times> nat) option"
  w_creatable :: "string \<Rightarrow> bool"
  w_junk :: byte
  fat_FS :: int
  btrfs_block_size :: int
  xfs_mp :: "xfs_mount option"
  w_out :: "dbus_event list"

section \<open>System calls\<close>

definition emit :: "dbus_event \<Rightarrow> world \<Rightarrow> world" where
  "emit e w = w\<lparr>w_out := w_out w @ [e]\<rparr>"

definition sys_malloc :: "world \<Rightarrow> bool \<times> world" where
  "sys_malloc w =
     (case w_allocs w of [] \<Rightarrow> (True, w) | a # as \<Rightarrow> (a, w\<lparr>w_allocs := as\<rparr>))"

definition sys_time :: "world \<Rightarrow> int \<times> world" where
  "sys_time w =
     (case w_clock w of [] \<Rightarrow> (0, w) | t # ts \<Rightarrow> (t, w\<lparr>w_clock := ts\<rparr>))"

definition fd_lookup :: "world \<Rightarrow> int \<Rightarrow> ofile option" where
  "fd_lookup w fd =
     (if 0 \<le> fd \<and> nat fd < length (w_fdtab w) then w_fdtab w ! nat fd else None)"

definition set_pos :: "int \<Rightarrow> nat \<Rightarrow> world \<Rightarrow> world" where
  "set_pos fd p w =
     (case fd_lookup w fd of
        None \<Rightarrow> w
      | Some f \<Rightarrow> w\<lparr>w_fdtab := (w_fdtab w)[nat fd := Some (f\<lparr>o_pos := p\<rparr>)]\<rparr>)"

text \<open>How many of \<open>count\<close> bytes the next transfer may move, or the error it fails with.\<close>

definition io_limit :: "nat \<Rightarrow> world \<Rightarrow> (errno + nat) \<times> world" where
  "io_limit count w =
     (case w_sched w of
        [] \<Rightarrow> (Inr count, w)
      | Short n # es \<Rightarrow> (Inr (min count (Suc n)), w\<lparr>w_sched := es\<rparr>)
      | Fail e # es \<Rightarrow> (Inl e, w\<lparr>w_sched := es\<rparr>))"

definition sys_read :: "int \<Rightarrow> nat \<Rightarrow> world \<Rightarrow> (errno + byte list) \<times> world" where
  "sys_read fd count w =
     (case fd_lookup w fd of
        None \<Rightarrow> (Inl EBADF, w)
      | Some f \<Rightarrow>
          (case w_nodes w (o_path f) of
             None \<Rightarrow> (Inl EBADF, w)
           | Some nd \<Rightarrow>
               if o_write f then (Inl EBADF, w)
               else (case io_limit count w of
                       (Inl e, w') \<Rightarrow> (Inl e, w')
                     | (Inr k, w') \<Rightarrow>
                         (let data = take k (drop (o_pos f) (i_bytes nd))
                          in (Inr data, set_pos fd (o_pos f + length data) w')))))"

text \<open>
  A write overwrites from the position on; a regular file grows (a gap reads as zeros), a
  block device does not, and at its end the error is \<^verbatim>\<open>ENOSPC\<close>.
\<close>

definition write_at :: "byte list \<Rightarrow> nat \<Rightarrow> byte list \<Rightarrow> byte list" where
  "write_at bs p d = take p (bs @ replicate (p - length bs) 0) @ d @ drop (p + length d) bs"

definition sys_write :: "int \<Rightarrow> byte list \<Rightarrow> world \<Rightarrow> (errno + nat) \<times> world" where
  "sys_write fd buf w =
     (case fd_lookup w fd of
        None \<Rightarrow> (Inl EBADF, w)
      | Some f \<Rightarrow>
          (case w_nodes w (o_path f) of
             None \<Rightarrow> (Inl EBADF, w)
           | Some nd \<Rightarrow>
               if \<not> o_write f then (Inl EBADF, w)
               else (case io_limit (length buf) w of
                       (Inl e, w') \<Rightarrow> (Inl e, w')
                     | (Inr k, w') \<Rightarrow>
                         (let room = (if i_kind nd = BLK then length (i_bytes nd) - o_pos f else k);
                              d = take (min k room) buf
                          in if 0 < k \<and> room = 0 then (Inl ENOSPC, w')
                             else (Inr (length d),
                                   set_pos fd (o_pos f + length d)
                                     (w'\<lparr>w_nodes := (w_nodes w')(o_path f \<mapsto>
                                          nd\<lparr>i_bytes := write_at (i_bytes nd) (o_pos f) d,
                                             i_dirty := True\<rparr>)\<rparr>))))))"

text \<open>\<^verbatim>\<open>lseek\<close> with the new offset as the result, \<open>-1\<close> on failure.\<close>

definition sys_lseek :: "int \<Rightarrow> int \<Rightarrow> bool \<Rightarrow> world \<Rightarrow> int \<times> world" where
  "sys_lseek fd off seek_cur w =
     (case fd_lookup w fd of
        None \<Rightarrow> (-1, w)
      | Some f \<Rightarrow>
          (case w_nodes w (o_path f) of
             None \<Rightarrow> (-1, w)
           | Some nd \<Rightarrow>
               (let new = (if seek_cur then int (o_pos f) + off else off)
                in if i_kind nd = FIFO \<or> new < 0 \<or> 2 ^ 63 \<le> new
                      \<or> (i_kind nd = BLK \<and> int (length (i_bytes nd)) < new)
                   then (-1, w)
                   else (new, set_pos fd (nat new) w))))"

definition sys_fsync :: "int \<Rightarrow> world \<Rightarrow> world" where
  "sys_fsync fd w =
     (case fd_lookup w fd of
        None \<Rightarrow> w
      | Some f \<Rightarrow>
          (case w_nodes w (o_path f) of
             None \<Rightarrow> w
           | Some nd \<Rightarrow> w\<lparr>w_nodes := (w_nodes w)(o_path f \<mapsto> nd\<lparr>i_dirty := False\<rparr>)\<rparr>))"

text \<open>The lowest free descriptor, as \<^verbatim>\<open>open\<close> picks it.\<close>

definition alloc_fd :: "ofile \<Rightarrow> world \<Rightarrow> int \<times> world" where
  "alloc_fd f w =
     (let n = length (takeWhile (\<lambda>x. x \<noteq> None) (w_fdtab w))
      in (int n,
          w\<lparr>w_fdtab := (if n < length (w_fdtab w) then (w_fdtab w)[n := Some f]
                        else w_fdtab w @ [Some f])\<rparr>))"

record open_flags =
  fl_write :: bool
  fl_creat :: bool
  fl_trunc :: bool
  fl_excl :: bool

definition sys_open :: "string \<Rightarrow> open_flags \<Rightarrow> world \<Rightarrow> int \<times> world" where
  "sys_open path flags w =
     (case w_nodes w path of
        None \<Rightarrow>
          if fl_creat flags \<and> w_creatable w path
          then alloc_fd \<lparr>o_path = path, o_pos = 0, o_write = fl_write flags\<rparr>
                 (w\<lparr>w_nodes := (w_nodes w)(path \<mapsto>
                     \<lparr>i_kind = REG, i_bytes = [], i_dirty = False,
                      i_readable = True, i_writable = True\<rparr>)\<rparr>)
          else (-1, w)
      | Some nd \<Rightarrow>
          if (fl_creat flags \<and> fl_excl flags)
             \<or> (fl_write flags \<and> \<not> i_writable nd) \<or> (\<not> fl_write flags \<and> \<not> i_readable nd)
          then (-1, w)
          else alloc_fd \<lparr>o_path = path, o_pos = 0, o_write = fl_write flags\<rparr>
                 (if fl_trunc flags \<and> i_kind nd = REG
                  then w\<lparr>w_nodes := (w_nodes w)(path \<mapsto> nd\<lparr>i_bytes := []\<rparr>)\<rparr> else w))"

definition sys_close :: "int \<Rightarrow> world \<Rightarrow> world" where
  "sys_close fd w =
     (if 0 \<le> fd \<and> nat fd < length (w_fdtab w)
      then w\<lparr>w_fdtab := (w_fdtab w)[nat fd := None]\<rparr> else w)"

text \<open>\<^verbatim>\<open>stat\<close> and \<^verbatim>\<open>fstat\<close>: the file type and \<^verbatim>\<open>st_size\<close>, which is 0 for what is not a file.\<close>

definition node_stat :: "inode \<Rightarrow> fkind \<times> nat" where
  "node_stat nd = (i_kind nd, if i_kind nd = REG then length (i_bytes nd) else 0)"

definition sys_stat :: "string \<Rightarrow> world \<Rightarrow> (fkind \<times> nat) option" where
  "sys_stat path w = map_option node_stat (w_nodes w path)"

definition sys_fstat :: "int \<Rightarrow> world \<Rightarrow> (fkind \<times> nat) option" where
  "sys_fstat fd w = Option.bind (fd_lookup w fd) (\<lambda>f. sys_stat (o_path f) w)"

text \<open>\<^verbatim>\<open>ioctl (fd, BLKGETSIZE64)\<close>: the size of a block device; it fails on anything else.\<close>

definition sys_blkgetsize64 :: "int \<Rightarrow> world \<Rightarrow> nat option" where
  "sys_blkgetsize64 fd w =
     Option.bind (fd_lookup w fd) (\<lambda>f. Option.bind (w_nodes w (o_path f))
       (\<lambda>nd. if i_kind nd = BLK then Some (length (i_bytes nd)) else None))"

section \<open>Lemmas\<close>

text \<open>The schedules under which no transfer fails for good.\<close>

fun transient :: "io_event \<Rightarrow> bool" where
  "transient (Short n) = True"
| "transient (Fail e) = (e = EAGAIN \<or> e = EINTR)"

definition benign :: "world \<Rightarrow> bool" where
  "benign w = list_all transient (w_sched w)"

lemma set_pos_frame [simp, frame_simps]:
  "w_nodes (set_pos fd p w) = w_nodes w" "w_sched (set_pos fd p w) = w_sched w"
  "w_allocs (set_pos fd p w) = w_allocs w" "w_clock (set_pos fd p w) = w_clock w"
  "w_vfs (set_pos fd p w) = w_vfs w" "w_creatable (set_pos fd p w) = w_creatable w"
  "w_junk (set_pos fd p w) = w_junk w" "w_out (set_pos fd p w) = w_out w"
  "crc_tab32 (set_pos fd p w) = crc_tab32 w" "cs_mode (set_pos fd p w) = cs_mode w"
  "length (w_fdtab (set_pos fd p w)) = length (w_fdtab w)" "benign (set_pos fd p w) = benign w"
  by (simp_all add: set_pos_def benign_def split: option.split)

lemma fd_lookup_update [simp, frame_simps]:
  "fd_lookup (w\<lparr>w_nodes := a\<rparr>) = fd_lookup w" "fd_lookup (w\<lparr>w_sched := b\<rparr>) = fd_lookup w"
  "fd_lookup (w\<lparr>w_allocs := c\<rparr>) = fd_lookup w" "fd_lookup (w\<lparr>w_clock := d\<rparr>) = fd_lookup w"
  "fd_lookup (w\<lparr>w_out := e\<rparr>) = fd_lookup w" "fd_lookup (w\<lparr>crc_tab32 := g\<rparr>) = fd_lookup w"
  "fd_lookup (w\<lparr>cs_mode := h\<rparr>) = fd_lookup w"
  by (simp_all add: fd_lookup_def fun_eq_iff)

lemma fd_lookup_set_pos [simp]:
  "fd_lookup (set_pos fd p w) fd' =
     (if fd' = fd then map_option (\<lambda>f. f\<lparr>o_pos := p\<rparr>) (fd_lookup w fd) else fd_lookup w fd')"
proof (cases "fd_lookup w fd")
  case None
  then show ?thesis by (simp add: set_pos_def)
next
  case (Some f)
  then have "0 \<le> fd" and "nat fd < length (w_fdtab w)"
    by (auto simp: fd_lookup_def split: if_splits)
  with Some show ?thesis
    by (auto simp: set_pos_def fd_lookup_def nth_list_update nat_eq_iff)
qed

lemma set_pos_same: "fd_lookup w fd = Some f \<Longrightarrow> o_pos f = p \<Longrightarrow> set_pos fd p w = w"
  by (cases f) (auto simp: set_pos_def fd_lookup_def list_update_same_conv split: if_splits)

lemma set_pos_set_pos [simp]: "set_pos fd p (set_pos fd q w) = set_pos fd p w"
proof (cases "fd_lookup w fd")
  case (Some f)
  then have *: "fd_lookup (set_pos fd q w) fd = Some (f\<lparr>o_pos := q\<rparr>)" by simp
  show ?thesis
    using Some unfolding set_pos_def [of fd p "set_pos fd q w"] * by (simp add: set_pos_def)
qed (simp add: set_pos_def)

lemma set_pos_commute [simp]:
  "set_pos fd p (w\<lparr>w_sched := b\<rparr>) = (set_pos fd p w)\<lparr>w_sched := b\<rparr>"
  "set_pos fd p (w\<lparr>w_nodes := a\<rparr>) = (set_pos fd p w)\<lparr>w_nodes := a\<rparr>"
  "set_pos fd p (w\<lparr>crc_tab32 := c\<rparr>) = (set_pos fd p w)\<lparr>crc_tab32 := c\<rparr>"
  "set_pos fd p (w\<lparr>cs_mode := d\<rparr>) = (set_pos fd p w)\<lparr>cs_mode := d\<rparr>"
  by (simp_all add: set_pos_def split: option.split)

lemma write_at_append:
  "write_at (write_at bs p d) (p + length d) e = write_at bs p (d @ e)"
  by (cases "p \<le> length bs") (simp_all add: write_at_def ac_simps)

lemma write_at_overwrite: "p + length d \<le> length bs \<Longrightarrow> write_at bs p d = overwrite bs p d"
  by (simp add: write_at_def overwrite_def)

lemma write_at_end: "write_at bs (length bs) d = bs @ d"
  by (simp add: write_at_def)

lemma length_write_at: "length (write_at bs p d) = max (length bs) (p + length d)"
  by (auto simp: write_at_def)

lemma write_at_Nil: "p \<le> length bs \<Longrightarrow> write_at bs p [] = bs"
  by (simp add: write_at_def)

end
