(* ===== verification/Bitmap.thy ===== *)
theory Bitmap
  imports World
begin

text \<open>
  \<^verbatim>\<open>src/src/gdbus-bitmap.h\<close>: the block bitmap, an array of 64-bit words (\<^verbatim>\<open>unsigned long\<close> on the
  platforms the daemon is built for). A \<^verbatim>\<open>NULL\<close> pointer is \<^term>\<open>None\<close>. The locale \<open>bit_store\<close>
  is the contract that the file-system readers and the copy engine rely on; its client lemmas
  are about loops that mark or count runs of blocks.
\<close>

section \<open>Definitions\<close>

type_synonym bitmap = "u64 list option"

definition BITS_TO_BYTES :: "nat \<Rightarrow> nat" where
  "BITS_TO_BYTES bits = (bits + 8 - 1) mod 2 ^ 64 div 8"

definition BITS_TO_LONGS :: "nat \<Rightarrow> nat" where
  "BITS_TO_LONGS bits = (bits + 64 - 1) mod 2 ^ 64 div 64"

definition pc_test_bit :: "nat \<Rightarrow> bitmap \<Rightarrow> nat \<Rightarrow> int" where
  "pc_test_bit nr bitmap tot =
     (case bitmap of
        None \<Rightarrow> -1
      | Some ws \<Rightarrow>
          if nr \<ge> tot then -1
          else (let offset = nr div 64; b = nr AND (64 - 1)
                in uint (drop_bit b (ws ! offset) AND 1)))"

definition pc_set_bit :: "nat \<Rightarrow> bitmap \<Rightarrow> nat \<Rightarrow> bool \<times> bitmap" where
  "pc_set_bit nr bitmap tot =
     (case bitmap of
        None \<Rightarrow> (False, None)
      | Some ws \<Rightarrow>
          if nr \<ge> tot then (False, Some ws)
          else (let offset = nr div 64; b = nr AND (64 - 1)
                in (True, Some (ws[offset := ws ! offset OR push_bit b 1]))))"

definition pc_clear_bit :: "nat \<Rightarrow> bitmap \<Rightarrow> nat \<Rightarrow> bool \<times> bitmap" where
  "pc_clear_bit nr bitmap tot =
     (case bitmap of
        None \<Rightarrow> (False, None)
      | Some ws \<Rightarrow>
          if nr \<ge> tot then (False, Some ws)
          else (let offset = nr div 64; b = nr AND (64 - 1)
                in (True, Some (ws[offset := ws ! offset AND NOT (push_bit b 1)]))))"

definition pc_alloc_bitmap :: "nat \<Rightarrow> world \<Rightarrow> bitmap \<times> world" where
  "pc_alloc_bitmap bits w =
     (let (ok, w) = sys_malloc w
      in (if ok then Some (replicate (BITS_TO_LONGS bits) 0) else None, w))"

text \<open>\<^verbatim>\<open>memset\<close> over the words for \<open>bits\<close> bits; it faults on \<^verbatim>\<open>NULL\<close>.\<close>

definition pc_init_bitmap :: "bitmap \<Rightarrow> byte \<Rightarrow> nat \<Rightarrow> bitmap option" where
  "pc_init_bitmap bitmap value bits =
     (case bitmap of
        None \<Rightarrow> None
      | Some ws \<Rightarrow>
          (let n = BITS_TO_LONGS bits
           in Some (Some (replicate n (le_word (replicate 8 value)) @ drop n ws))))"

text \<open>The bitmap as bytes in memory, and back: what the image file stores.\<close>

definition words_bytes :: "u64 list \<Rightarrow> byte list" where
  "words_bytes ws = concat (map (le_bytes 8) ws)"

definition bytes_words :: "byte list \<Rightarrow> u64 list" where
  "bytes_words bs = map (\<lambda>k. le_word (take 8 (drop (8 * k) bs))) [0..<length bs div 8]"

text \<open>
  The loops of the sources over a run of \<open>n\<close> blocks from \<open>blk\<close> on: one that marks every block
  with \<^verbatim>\<open>pc_set_bit\<close> or \<^verbatim>\<open>pc_clear_bit\<close> and ignores the result, and one that counts the blocks
  for which \<^verbatim>\<open>pc_test_bit\<close> is not zero.
\<close>

primrec for_blocks :: "(nat \<Rightarrow> 'm \<Rightarrow> nat \<Rightarrow> bool \<times> 'm) \<Rightarrow> nat \<Rightarrow> nat \<Rightarrow> nat \<Rightarrow> 'm \<Rightarrow> 'm" where
  "for_blocks mark tot blk 0 m = m"
| "for_blocks mark tot blk (Suc n) m = for_blocks mark tot (Suc blk) n (snd (mark blk m tot))"

primrec count_blocks :: "(nat \<Rightarrow> 'm \<Rightarrow> nat \<Rightarrow> int) \<Rightarrow> nat \<Rightarrow> 'm \<Rightarrow> nat \<Rightarrow> nat" where
  "count_blocks test tot m 0 = 0"
| "count_blocks test tot m (Suc n) =
     count_blocks test tot m n + (if test n m tot \<noteq> 0 then 1 else 0)"

section \<open>The contract of a bitmap\<close>

definition bm_wf :: "nat \<Rightarrow> bitmap \<Rightarrow> bool" where
  "bm_wf tot bitmap = (case bitmap of None \<Rightarrow> False | Some ws \<Rightarrow> tot \<le> 64 * length ws)"

definition bm_mem :: "bitmap \<Rightarrow> nat \<Rightarrow> bool" where
  "bm_mem bitmap i =
     (case bitmap of
        None \<Rightarrow> False
      | Some ws \<Rightarrow> i < 64 * length ws \<and> bit (ws ! (i div 64)) (i mod 64))"

locale bit_store =
  fixes test :: "nat \<Rightarrow> 'm \<Rightarrow> nat \<Rightarrow> int"
    and put :: "nat \<Rightarrow> 'm \<Rightarrow> nat \<Rightarrow> bool \<times> 'm"
    and clear :: "nat \<Rightarrow> 'm \<Rightarrow> nat \<Rightarrow> bool \<times> 'm"
    and wf :: "nat \<Rightarrow> 'm \<Rightarrow> bool"
    and mem :: "'m \<Rightarrow> nat \<Rightarrow> bool"
  assumes test_in: "wf tot m \<Longrightarrow> i < tot \<Longrightarrow> test i m tot = (if mem m i then 1 else 0)"
    and test_out: "tot \<le> i \<Longrightarrow> test i m tot = -1"
    and put_in: "wf tot m \<Longrightarrow> i < tot \<Longrightarrow> fst (put i m tot)"
    and put_mem: "wf tot m \<Longrightarrow> i < tot \<Longrightarrow> mem (snd (put i m tot)) j = (j = i \<or> mem m j)"
    and put_wf: "wf tot m \<Longrightarrow> wf tot (snd (put i m tot))"
    and put_out: "tot \<le> i \<Longrightarrow> put i m tot = (False, m)"
    and clear_in: "wf tot m \<Longrightarrow> i < tot \<Longrightarrow> fst (clear i m tot)"
    and clear_mem: "wf tot m \<Longrightarrow> i < tot \<Longrightarrow> mem (snd (clear i m tot)) j = (j \<noteq> i \<and> mem m j)"
    and clear_wf: "wf tot m \<Longrightarrow> wf tot (snd (clear i m tot))"
    and clear_out: "tot \<le> i \<Longrightarrow> clear i m tot = (False, m)"
begin

lemma for_put_wf: "wf tot m \<Longrightarrow> wf tot (for_blocks put tot blk n m)"
  by (induction n arbitrary: blk m) (simp_all add: put_wf)

lemma for_clear_wf: "wf tot m \<Longrightarrow> wf tot (for_blocks clear tot blk n m)"
  by (induction n arbitrary: blk m) (simp_all add: clear_wf)

lemma for_put_mem:
  "wf tot m \<Longrightarrow>
   mem (for_blocks put tot blk n m) j = ((blk \<le> j \<and> j < blk + n \<and> j < tot) \<or> mem m j)"
proof (induction n arbitrary: blk m)
  case (Suc n)
  show ?case
  proof (cases "blk < tot")
    case True
    with Suc show ?thesis by (auto simp: put_wf put_mem)
  next
    case False
    with Suc show ?thesis by (auto simp: put_out)
  qed
qed auto

lemma for_clear_mem:
  "wf tot m \<Longrightarrow>
   mem (for_blocks clear tot blk n m) j = (\<not> (blk \<le> j \<and> j < blk + n \<and> j < tot) \<and> mem m j)"
proof (induction n arbitrary: blk m)
  case (Suc n)
  show ?case
  proof (cases "blk < tot")
    case True
    with Suc show ?thesis by (auto simp: clear_wf clear_mem)
  next
    case False
    with Suc show ?thesis by (auto simp: clear_out)
  qed
qed auto

lemma count_blocks_filter:
  "wf tot m \<Longrightarrow> n \<le> tot \<Longrightarrow> count_blocks test tot m n = length (filter (mem m) [0..<n])"
  by (induction n) (simp_all add: test_in)

end

section \<open>The bitmap of the sources meets the contract\<close>

lemma and_63_eq_mod: "(n :: nat) AND 63 = n mod 64"
proof -
  have "n AND 63 = n AND mask 6" by (simp add: mask_eq_exp_minus_1)
  also have "\<dots> = n mod 2 ^ 6" by (simp only: take_bit_eq_mask [symmetric] take_bit_eq_mod)
  finally show ?thesis by simp
qed

lemma test_word: "uint (drop_bit b (x :: u64) AND 1) = (if bit x b then 1 else 0)"
  by (simp add: and_one_eq bit_iff_odd_drop_bit uint_mod_distrib mod_2_eq_odd)

lemma bm_offset: "i < tot \<Longrightarrow> tot \<le> 64 * length ws \<Longrightarrow> i div 64 < length ws"
  by (simp add: less_mult_imp_div_less mult.commute)

lemma bit_set_word: "b < 64 \<Longrightarrow> bit (x OR 2 ^ b :: u64) k \<longleftrightarrow> bit x k \<or> k = b"
  by (auto simp: bit_or_iff bit_exp_iff)

lemma bit_clear_word: "bit (x AND NOT (2 ^ b) :: u64) k \<longleftrightarrow> bit x k \<and> k \<noteq> b"
  by (auto simp: bit_and_iff bit_not_iff bit_exp_iff dest: bit_imp_le_length)

lemma div_mod_64_eq: "i div 64 = j div 64 \<Longrightarrow> i mod 64 = j mod 64 \<Longrightarrow> i = (j :: nat)"
  by (metis div_mult_mod_eq)

interpretation pc: bit_store pc_test_bit pc_set_bit pc_clear_bit bm_wf bm_mem
proof
  fix tot i j :: nat and m :: bitmap
  show "tot \<le> i \<Longrightarrow> pc_test_bit i m tot = -1"
    by (simp add: pc_test_bit_def split: option.split)
  show "tot \<le> i \<Longrightarrow> pc_set_bit i m tot = (False, m)"
    by (simp add: pc_set_bit_def split: option.split)
  show "tot \<le> i \<Longrightarrow> pc_clear_bit i m tot = (False, m)"
    by (simp add: pc_clear_bit_def split: option.split)
  show "bm_wf tot m \<Longrightarrow> bm_wf tot (snd (pc_set_bit i m tot))"
    by (simp add: bm_wf_def pc_set_bit_def Let_def split: option.splits)
  show "bm_wf tot m \<Longrightarrow> bm_wf tot (snd (pc_clear_bit i m tot))"
    by (simp add: bm_wf_def pc_clear_bit_def Let_def split: option.splits)
  assume "bm_wf tot m" and i: "i < tot"
  then obtain ws where m: "m = Some ws" and len: "tot \<le> 64 * length ws"
    by (auto simp: bm_wf_def split: option.splits)
  have off: "i div 64 < length ws" using i len by (rule bm_offset)
  show "pc_test_bit i m tot = (if bm_mem m i then 1 else 0)"
    using i len by (simp add: pc_test_bit_def bm_mem_def m Let_def and_63_eq_mod test_word)
  show "fst (pc_set_bit i m tot)" "fst (pc_clear_bit i m tot)"
    using i by (simp_all add: pc_set_bit_def pc_clear_bit_def m Let_def)
  show "bm_mem (snd (pc_set_bit i m tot)) j = (j = i \<or> bm_mem m j)"
    using i len off div_mod_64_eq [of j i]
    by (auto simp: pc_set_bit_def bm_mem_def m Let_def and_63_eq_mod bit_set_word nth_list_update)
  show "bm_mem (snd (pc_clear_bit i m tot)) j = (j \<noteq> i \<and> bm_mem m j)"
    using i len off div_mod_64_eq [of j i]
    by (auto simp: pc_clear_bit_def bm_mem_def m Let_def and_63_eq_mod bit_clear_word nth_list_update)
qed

section \<open>Allocation, initialisation and the byte view\<close>

lemma BITS_TO_BYTES_small: "n < 2 ^ 63 \<Longrightarrow> BITS_TO_BYTES n = (n + 7) div 8"
  by (simp add: BITS_TO_BYTES_def)

lemma BITS_TO_LONGS_small: "n < 2 ^ 63 \<Longrightarrow> BITS_TO_LONGS n = (n + 63) div 64"
  by (simp add: BITS_TO_LONGS_def)

lemma BITS_TO_BYTES_ge: "n < 2 ^ 63 \<Longrightarrow> n \<le> 8 * BITS_TO_BYTES n"
  by (simp add: BITS_TO_BYTES_small)

lemma BITS_TO_BYTES_le_LONGS: "n < 2 ^ 63 \<Longrightarrow> BITS_TO_BYTES n \<le> 8 * BITS_TO_LONGS n"
  by (simp add: BITS_TO_BYTES_small BITS_TO_LONGS_small)

lemma bm_wf_alloc: "n < 2 ^ 63 \<Longrightarrow> bm_wf n (Some (replicate (BITS_TO_LONGS n) x))"
  by (simp add: bm_wf_def BITS_TO_LONGS_small)

lemma bm_mem_zeros: "\<not> bm_mem (Some (replicate n 0)) i"
  by (auto simp: bm_mem_def less_mult_imp_div_less mult.commute)

lemma le_word_ones: "(le_word (replicate 8 0xFF) :: u64) = -1"
proof (rule bit_word_eqI)
  fix k assume k: "k < LENGTH(64)"
  have "(0xFF :: byte) = -1" by simp
  with k show "bit (le_word (replicate 8 0xFF) :: u64) k = bit (-1 :: u64) k"
    by (simp only: bit_le_word) (simp add: less_mult_imp_div_less)
qed

lemma bm_mem_init:
  assumes "n < 2 ^ 63" and "pc_init_bitmap bm 0xFF n = Some bm'" and "i < n"
  shows "bm_mem bm' i"
proof -
  let ?k = "BITS_TO_LONGS n"
  from assms(2) obtain ws where bm': "bm' = Some (replicate ?k (-1) @ drop ?k ws)"
    by (auto simp: pc_init_bitmap_def le_word_ones Let_def split: option.splits)
  have "n \<le> 64 * ?k" using assms(1) by (simp add: BITS_TO_LONGS_small)
  with \<open>i < n\<close> have "i div 64 < ?k" by (simp add: less_mult_imp_div_less mult.commute)
  with \<open>i < n\<close> \<open>n \<le> 64 * ?k\<close> show ?thesis
    by (simp add: bm' bm_mem_def nth_append)
qed

lemma bm_wf_init:
  assumes "pc_init_bitmap bm v n = Some bm'" and "bm_wf n bm"
  shows "bm_wf n bm'"
  using assms by (auto simp: pc_init_bitmap_def bm_wf_def Let_def split: option.splits)

lemma length_words_bytes [simp, layout_simps]: "length (words_bytes ws) = 8 * length ws"
  using length_concat_same [of "map (le_bytes 8) ws" 8] by (simp add: words_bytes_def)

lemma nth_words_bytes:
  "k < 8 * length ws \<Longrightarrow> words_bytes ws ! k = ucast (drop_bit (8 * (k mod 8)) (ws ! (k div 8)))"
proof -
  assume k: "k < 8 * length ws"
  then have "words_bytes ws ! k = map (le_bytes 8) ws ! (k div 8) ! (k mod 8)"
    unfolding words_bytes_def by (subst nth_concat_same [where n = 8]) simp_all
  also have "\<dots> = le_bytes 8 (ws ! (k div 8)) ! (k mod 8)"
    using k by (simp add: less_mult_imp_div_less mult.commute)
  finally show ?thesis by (simp add: nth_le_bytes)
qed

text \<open>Block \<open>i\<close> is bit \<open>i mod 8\<close> of byte \<open>i div 8\<close>, the layout that the image file has.\<close>

lemma bm_mem_bytes:
  "bm_mem (Some ws) i \<longleftrightarrow> i < 64 * length ws \<and> bit (words_bytes ws ! (i div 8)) (i mod 8)"
proof (cases "i < 64 * length ws")
  case True
  then have "i div 8 < 8 * length ws" by (simp add: less_mult_imp_div_less mult.commute)
  moreover have "i div 8 div 8 = i div 64" by (simp add: div_mult2_eq [of i 8 8, symmetric])
  moreover have "8 * (i div 8 mod 8) + i mod 8 = i mod 64"
    using mod_mult2_eq [of i 8 8] by simp
  ultimately show ?thesis
    using True by (simp add: bm_mem_def nth_words_bytes bit_ucast_iff bit_drop_bit_eq)
qed (simp add: bm_mem_def)

lemma length_bytes_words [simp, layout_simps]: "length (bytes_words bs) = length bs div 8"
  by (simp add: bytes_words_def)

lemma words_bytes_bytes_words:
  assumes "8 dvd length bs"
  shows "words_bytes (bytes_words bs) = bs"
proof (rule nth_equalityI)
  show len: "length (words_bytes (bytes_words bs)) = length bs" using assms by simp
  fix k assume "k < length (words_bytes (bytes_words bs))"
  then have k: "k < length bs" using len by simp
  then have k8: "k div 8 < length bs div 8" using assms by auto
  let ?c = "take 8 (drop (8 * (k div 8)) bs)"
  have "length ?c = 8" using k8 assms by auto
  then have "le_bytes 8 (le_word ?c :: u64) = ?c"
    using le_bytes_le_word [of ?c, where 'a = 64] by simp
  moreover have "words_bytes (bytes_words bs) ! k = le_bytes 8 (le_word ?c :: u64) ! (k mod 8)"
    using k k8 assms by (simp add: nth_words_bytes bytes_words_def nth_le_bytes)
  ultimately show "words_bytes (bytes_words bs) ! k = bs ! k"
    using k by (simp add: mult_div_mod_eq)
qed

lemma bm_mem_bytes_words:
  assumes "8 dvd length bs"
  shows "bm_mem (Some (bytes_words bs)) i \<longleftrightarrow> i < 8 * length bs \<and> bit (bs ! (i div 8)) (i mod 8)"
  using assms by (auto simp: bm_mem_bytes words_bytes_bytes_words)

text \<open>
  Reading the stored bytes of a bitmap into freshly allocated words gives a bitmap with the
  same members.
\<close>

lemma bm_mem_reload:
  assumes "n < 2 ^ 63" and "i < n" and "bm_wf n (Some ws)" and "length zs = BITS_TO_LONGS n"
    and "data = take (BITS_TO_BYTES n) (words_bytes ws)"
  shows "bm_mem (Some (bytes_words (data @ drop (BITS_TO_BYTES n) (words_bytes zs)))) i
         = bm_mem (Some ws) i"
proof -
  let ?B = "BITS_TO_BYTES n" and ?L = "BITS_TO_LONGS n"
  have "n \<le> 64 * length ws" using assms(3) by (simp add: bm_wf_def)
  then have B_ws: "?B \<le> 8 * length ws" using assms(1) by (simp add: BITS_TO_BYTES_small)
  have B_L: "?B \<le> 8 * ?L" using assms(1) by (rule BITS_TO_BYTES_le_LONGS)
  have len: "length data = ?B" using assms(5) B_ws by simp
  have i8: "i div 8 < ?B"
    using assms(1,2) by (simp add: BITS_TO_BYTES_small)
  let ?bs = "data @ drop ?B (words_bytes zs)"
  have len_bs: "length ?bs = 8 * ?L" using len B_L assms(4) by simp
  have "bm_mem (Some (bytes_words ?bs)) i \<longleftrightarrow> i < 8 * length ?bs \<and> bit (?bs ! (i div 8)) (i mod 8)"
    by (rule bm_mem_bytes_words) (simp only: len_bs dvd_triv_left)
  also have "\<dots> \<longleftrightarrow> bit (data ! (i div 8)) (i mod 8)"
  proof -
    have "i < 64 * ?L" using assms(1,2) by (simp add: BITS_TO_LONGS_small)
    then show ?thesis using i8 len len_bs by (simp add: nth_append)
  qed
  also have "\<dots> \<longleftrightarrow> bm_mem (Some ws) i"
    using i8 B_ws assms(2) \<open>n \<le> 64 * length ws\<close> by (simp add: bm_mem_bytes assms(5))
  finally show ?thesis .
qed

section \<open>Properties\<close>

text \<open>
  C35: Setting and clearing a bit of the bitmap succeeds for every block of the file system, changes
  what \<^verbatim>\<open>pc_test_bit\<close> says of this block and of no other, and keeps the bitmap large enough.
\<close>

theorem bitmap_set_clear_test:
  assumes "bm_wf tot bm" and "i < tot" and "j < tot"
  shows "fst (pc_set_bit i bm tot) \<and> fst (pc_clear_bit i bm tot) \<and>
    pc_test_bit j (snd (pc_set_bit i bm tot)) tot = (if j = i then 1 else pc_test_bit j bm tot) \<and>
    pc_test_bit j (snd (pc_clear_bit i bm tot)) tot = (if j = i then 0 else pc_test_bit j bm tot) \<and>
    bm_wf tot (snd (pc_set_bit i bm tot)) \<and> bm_wf tot (snd (pc_clear_bit i bm tot))"
  using assms by (simp add: pc.test_in pc.put_wf pc.clear_wf pc.put_in pc.clear_in pc.put_mem pc.clear_mem)

theorem bitmap_set_clear_test_witness:
  "fst (pc_set_bit 69 (Some [0, 0x10]) 70) \<and> fst (pc_clear_bit 69 (Some [0, 0x10]) 70) \<and>
   pc_test_bit 68 (snd (pc_set_bit 69 (Some [0, 0x10]) 70)) 70 = (if (68 :: nat) = 69 then 1 else pc_test_bit 68 (Some [0, 0x10]) 70) \<and>
   pc_test_bit 68 (snd (pc_clear_bit 69 (Some [0, 0x10]) 70)) 70 = (if (68 :: nat) = 69 then 0 else pc_test_bit 68 (Some [0, 0x10]) 70) \<and>
   bm_wf 70 (snd (pc_set_bit 69 (Some [0, 0x10]) 70)) \<and> bm_wf 70 (snd (pc_clear_bit 69 (Some [0, 0x10]) 70))"
  by (rule bitmap_set_clear_test) (simp_all add: bm_wf_def)

text \<open>
  A block number outside the file system is refused by all three operations: \<^verbatim>\<open>pc_test_bit\<close> answers
  \<open>-1\<close>, and \<^verbatim>\<open>pc_set_bit\<close> and \<^verbatim>\<open>pc_clear_bit\<close> answer \<^verbatim>\<open>FALSE\<close> and leave the bitmap alone.
\<close>

theorem bitmap_out_of_range:
  assumes "tot \<le> i"
  shows "pc_test_bit i bm tot = -1 \<and> pc_set_bit i bm tot = (False, bm) \<and> pc_clear_bit i bm tot = (False, bm)"
  using assms by (simp add: pc.test_out pc.put_out pc.clear_out)

theorem bitmap_out_of_range_witness:
  "pc_test_bit 64 (Some [- 1]) 64 = -1 \<and> pc_set_bit 64 (Some [- 1]) 64 = (False, Some [- 1]) \<and>
   pc_clear_bit 64 (Some [- 1]) 64 = (False, Some [- 1])"
  by (rule bitmap_out_of_range) simp

end
