(* ===== verification/IoAll.thy ===== *)
theory IoAll
  imports Bitmap
begin

text \<open>
  \<^verbatim>\<open>write_read_io_all\<close> of \<^verbatim>\<open>src/src/gdbus-share.c\<close>: the loop that repeats \<^verbatim>\<open>read\<close> or \<^verbatim>\<open>write\<close>
  until the whole buffer is moved. It terminates on every schedule of the environment, and its
  effect under any schedule is that of one transfer of some first part of the buffer, of all
  of it when only transient events occur.
\<close>

section \<open>The transfer loop\<close>

lemma io_limit_cases:
  assumes "io_limit n w = (r, w')"
  shows "(w_sched w = [] \<and> w' = w \<and> r = Inr n)
    \<or> (\<exists>e es. w_sched w = e # es \<and> w' = w\<lparr>w_sched := es\<rparr> \<and>
         (\<forall>k. r = Inr k \<longrightarrow> (k \<le> n \<and> (0 < n \<longrightarrow> 0 < k))) \<and> (\<forall>er. r = Inl er \<longrightarrow> e = Fail er))"
  using assms by (auto simp: io_limit_def split: list.splits io_event.splits)

lemma sys_write_sched:
  assumes "sys_write fd buf w = (r, w')"
  shows "(\<exists>e es. w_sched w = e # es \<and> w_sched w' = es) \<or>
         (w_sched w' = w_sched w \<and> r \<noteq> Inl EAGAIN \<and> r \<noteq> Inl EINTR)"
  using assms
  by (auto simp: sys_write_def Let_def split: option.splits if_splits prod.splits sum.splits
      dest!: io_limit_cases)

lemma sys_read_sched:
  assumes "sys_read fd n w = (r, w')"
  shows "(\<exists>e es. w_sched w = e # es \<and> w_sched w' = es) \<or>
         (w_sched w' = w_sched w \<and> r \<noteq> Inl EAGAIN \<and> r \<noteq> Inl EINTR)"
  using assms
  by (auto simp: sys_read_def Let_def split: option.splits if_splits prod.splits sum.splits
      dest!: io_limit_cases)

lemma sys_write_le: "sys_write fd buf w = (Inr k, w') \<Longrightarrow> k \<le> length buf"
  by (auto simp: sys_write_def Let_def split: option.splits if_splits prod.splits sum.splits)

lemma sys_read_le: "sys_read fd n w = (Inr d, w') \<Longrightarrow> length d \<le> n"
  by (auto simp: sys_read_def Let_def split: option.splits if_splits prod.splits sum.splits
      dest!: io_limit_cases)

text \<open>
  The loop of \<^verbatim>\<open>write_read_io_all\<close>: \<open>buf\<close> is what is left to write, the second result is what was
  read. \<open>sz\<close> is the value returned at the end, converted to \<open>int\<close>.
\<close>

function io_all_loop ::
    "int \<Rightarrow> nat \<Rightarrow> byte list \<Rightarrow> nat \<Rightarrow> bool \<Rightarrow> world \<Rightarrow> int \<times> byte list \<times> world" where
  "io_all_loop fd sz buf count do_write w =
     (if count = 0 then (to_int32 sz, [], w)
      else if do_write
      then (case sys_write fd (take count buf) w of
              (Inl e, w') \<Rightarrow>
                if e \<noteq> EAGAIN \<and> e \<noteq> EINTR then (-1, [], w')
                else io_all_loop fd sz buf count do_write w'
            | (Inr i, w') \<Rightarrow>
                if i = 0 then (0, [], w')
                else io_all_loop fd sz (drop i buf) (count - i) do_write w')
      else (case sys_read fd count w of
              (Inl e, w') \<Rightarrow>
                if e \<noteq> EAGAIN \<and> e \<noteq> EINTR then (-1, [], w')
                else io_all_loop fd sz buf count do_write w'
            | (Inr d, w') \<Rightarrow>
                if length d = 0 then (0, [], w')
                else (case io_all_loop fd sz buf (count - length d) do_write w' of
                        (r, ds, w'') \<Rightarrow> (r, d @ ds, w''))))"
  by pat_completeness auto
termination
  by (relation "measures [\<lambda>(fd, sz, buf, count, do_write, w). length (w_sched w),
                          \<lambda>(fd, sz, buf, count, do_write, w). count]")
    (auto dest: sys_write_sched [OF sym] sys_read_sched [OF sym])

declare io_all_loop.simps [simp del]

definition write_read_io_all :: "int \<Rightarrow> byte list \<Rightarrow> nat \<Rightarrow> bool \<Rightarrow> world \<Rightarrow> int \<times> byte list \<times> world" where
  "write_read_io_all fd buf count do_write w = io_all_loop fd count buf count do_write w"

section \<open>What the loop does\<close>

text \<open>The effect of writing \<open>d\<close> at the position of \<open>fd\<close>.\<close>

definition put_bytes :: "int \<Rightarrow> byte list \<Rightarrow> world \<Rightarrow> world" where
  "put_bytes fd d w =
     (case fd_lookup w fd of
        None \<Rightarrow> w
      | Some f \<Rightarrow>
          (case w_nodes w (o_path f) of
             None \<Rightarrow> w
           | Some nd \<Rightarrow>
               if d = [] then w
               else set_pos fd (o_pos f + length d)
                      (w\<lparr>w_nodes := (w_nodes w)(o_path f \<mapsto>
                           nd\<lparr>i_bytes := write_at (i_bytes nd) (o_pos f) d, i_dirty := True\<rparr>)\<rparr>)))"

lemma put_bytes_Nil [simp]: "put_bytes fd [] w = w"
  by (simp add: put_bytes_def split: option.split)

lemma put_bytes_append: "put_bytes fd e (put_bytes fd d w) = put_bytes fd (d @ e) w"
  by (auto simp: put_bytes_def write_at_append add.assoc split: option.split)

lemma put_bytes_sched [simp]:
  "put_bytes fd d (w\<lparr>w_sched := s\<rparr>) = (put_bytes fd d w)\<lparr>w_sched := s\<rparr>"
  "put_bytes fd d (w\<lparr>crc_tab32 := t\<rparr>) = (put_bytes fd d w)\<lparr>crc_tab32 := t\<rparr>"
  "put_bytes fd d (w\<lparr>cs_mode := m\<rparr>) = (put_bytes fd d w)\<lparr>cs_mode := m\<rparr>"
  by (simp_all add: put_bytes_def split: option.split)

lemma w_sched_same: "w_sched w = s \<Longrightarrow> w\<lparr>w_sched := s\<rparr> = w"
  by auto

lemma sys_write_Inr:
  assumes "fd_lookup w fd = Some f" and "w_nodes w (o_path f) = Some nd" and "o_write f"
    and "sys_write fd buf w = (Inr k, w')" and "buf \<noteq> []"
  shows "\<exists>s. w' = put_bytes fd (take k buf) (w\<lparr>w_sched := s\<rparr>) \<and> 0 < k \<and> k \<le> length buf \<and>
           (benign w \<longrightarrow> list_all transient s) \<and>
           (i_kind nd = BLK \<longrightarrow> o_pos f + k \<le> length (i_bytes nd))"
proof (cases "w_sched w")
  case Nil
  with assms show ?thesis
    by (intro exI [of _ "[]"])
      (auto simp: sys_write_def put_bytes_def io_limit_def benign_def Let_def min_def
        w_sched_same split: if_splits)
next
  case (Cons ev es)
  with assms show ?thesis
    by (intro exI [of _ es])
      (auto simp: sys_write_def put_bytes_def io_limit_def benign_def Let_def min_def
        split: if_splits io_event.splits)
qed

lemma sys_write_Inl:
  assumes "fd_lookup w fd = Some f" and "w_nodes w (o_path f) = Some nd" and "o_write f"
    and "sys_write fd buf w = (Inl e, w')"
  shows "\<exists>s. w' = w\<lparr>w_sched := s\<rparr> \<and> (benign w \<longrightarrow> list_all transient s) \<and>
           (benign w \<and> (i_kind nd = BLK \<longrightarrow> o_pos f + length buf \<le> length (i_bytes nd)) \<and> buf \<noteq> []
              \<longrightarrow> e = EAGAIN \<or> e = EINTR)"
proof (cases "w_sched w")
  case Nil
  with assms show ?thesis
    by (intro exI [of _ "[]"])
      (cases buf; auto simp: sys_write_def io_limit_def benign_def Let_def w_sched_same
        split: if_splits)
next
  case (Cons ev es)
  with assms show ?thesis
    by (intro exI [of _ es])
      (cases buf; auto simp: sys_write_def io_limit_def benign_def Let_def
        split: if_splits io_event.splits)
qed

lemma fd_lookup_put_bytes:
  "fd_lookup w fd = Some f \<Longrightarrow> w_nodes w (o_path f) = Some nd \<Longrightarrow>
   fd_lookup (put_bytes fd d w) fd' =
     (if fd' = fd then Some (f\<lparr>o_pos := o_pos f + length d\<rparr>) else fd_lookup w fd')"
  by (auto simp: put_bytes_def)

lemma w_nodes_put_bytes:
  "fd_lookup w fd = Some f \<Longrightarrow> w_nodes w (o_path f) = Some nd \<Longrightarrow>
   w_nodes (put_bytes fd d w) =
     (if d = [] then w_nodes w
      else (w_nodes w)(o_path f \<mapsto>
             nd\<lparr>i_bytes := write_at (i_bytes nd) (o_pos f) d, i_dirty := True\<rparr>))"
  by (simp add: put_bytes_def)

lemma put_bytes_frame [simp, frame_simps]:
  "w_sched (put_bytes fd d w) = w_sched w" "w_allocs (put_bytes fd d w) = w_allocs w"
  "w_clock (put_bytes fd d w) = w_clock w" "w_vfs (put_bytes fd d w) = w_vfs w"
  "w_junk (put_bytes fd d w) = w_junk w" "w_out (put_bytes fd d w) = w_out w"
  "crc_tab32 (put_bytes fd d w) = crc_tab32 w" "cs_mode (put_bytes fd d w) = cs_mode w"
  "w_creatable (put_bytes fd d w) = w_creatable w" "benign (put_bytes fd d w) = benign w"
  by (simp_all add: put_bytes_def benign_def split: option.split)

text \<open>
  The outcome of a write of \<open>n\<close> bytes: some first \<open>k\<close> of them are written, all of them when only
  transient events occur and there is room.
\<close>

definition write_outcome ::
    "int \<Rightarrow> nat \<Rightarrow> byte list \<Rightarrow> nat \<Rightarrow> world \<Rightarrow> ofile \<Rightarrow> inode \<Rightarrow> int \<times> byte list \<times> world \<Rightarrow> bool" where
  "write_outcome fd sz buf n w f nd res \<longleftrightarrow>
     (\<exists>k s r. res = (r, [], (put_bytes fd (take k buf) w)\<lparr>w_sched := s\<rparr>) \<and>
        k \<le> n \<and> (if k = n then r = to_int32 sz else r = 0 \<or> r = -1) \<and>
        (benign w \<longrightarrow> list_all transient s) \<and>
        (i_kind nd = BLK \<longrightarrow> k = 0 \<or> o_pos f + k \<le> length (i_bytes nd)) \<and>
        (benign w \<and> (i_kind nd = BLK \<longrightarrow> o_pos f + n \<le> length (i_bytes nd)) \<longrightarrow> k = n))"

lemma write_outcomeI:
  assumes "res = (r, [], (put_bytes fd (take k buf) w)\<lparr>w_sched := s\<rparr>)" and "k \<le> n"
    and "if k = n then r = to_int32 sz else r = 0 \<or> r = -1"
    and "benign w \<Longrightarrow> list_all transient s"
    and "i_kind nd = BLK \<Longrightarrow> k = 0 \<or> o_pos f + k \<le> length (i_bytes nd)"
    and "benign w \<Longrightarrow> i_kind nd = BLK \<longrightarrow> o_pos f + n \<le> length (i_bytes nd) \<Longrightarrow> k = n"
  shows "write_outcome fd sz buf n w f nd res"
  unfolding write_outcome_def using assms by blast

lemma write_outcomeE:
  assumes "write_outcome fd sz buf n w f nd res"
  obtains k s r where "res = (r, [], (put_bytes fd (take k buf) w)\<lparr>w_sched := s\<rparr>)" and "k \<le> n"
    and "if k = n then r = to_int32 sz else r = 0 \<or> r = -1"
    and "benign w \<Longrightarrow> list_all transient s"
    and "i_kind nd = BLK \<Longrightarrow> k = 0 \<or> o_pos f + k \<le> length (i_bytes nd)"
    and "benign w \<Longrightarrow> i_kind nd = BLK \<longrightarrow> o_pos f + n \<le> length (i_bytes nd) \<Longrightarrow> k = n"
  using assms unfolding write_outcome_def by blast

lemma write_outcome_done: "write_outcome fd sz buf 0 w f nd (to_int32 sz, [], w)"
  unfolding write_outcome_def
  by (rule exI [of _ 0], rule exI [of _ "w_sched w"]) (simp add: benign_def w_sched_same)

lemma write_outcome_error:
  assumes "0 < n" and "benign w \<longrightarrow> list_all transient s"
    and "\<not> (benign w \<and> (i_kind nd = BLK \<longrightarrow> o_pos f + n \<le> length (i_bytes nd)))"
  shows "write_outcome fd sz buf n w f nd (-1, [], w\<lparr>w_sched := s\<rparr>)"
  unfolding write_outcome_def using assms
  by (intro exI [of _ 0] exI [of _ s] exI [of _ "-1"]) simp

lemma write_outcome_retry:
  assumes "write_outcome fd sz buf n (w\<lparr>w_sched := s\<rparr>) f nd res" and "benign w \<longrightarrow> list_all transient s"
  shows "write_outcome fd sz buf n w f nd res"
  using assms(1)
proof (rule write_outcomeE, goal_cases)
  case (1 k s' r)
  from 1(2-) assms(2) show ?case
    by (intro write_outcomeI [where k = k and s = s' and r = r]) (simp_all add: 1(1) benign_def)
qed

lemma write_outcome_step:
  assumes w: "fd_lookup w fd = Some f" "w_nodes w (o_path f) = Some nd"
    and i: "0 < i" "i \<le> n" "n \<le> length buf" and s: "benign w \<longrightarrow> list_all transient s"
    and room: "i_kind nd = BLK \<longrightarrow> o_pos f + i \<le> length (i_bytes nd)"
    and rest: "write_outcome fd sz (drop i buf) (n - i) ((put_bytes fd (take i buf) w)\<lparr>w_sched := s\<rparr>)
          (f\<lparr>o_pos := o_pos f + i\<rparr>)
          (nd\<lparr>i_bytes := write_at (i_bytes nd) (o_pos f) (take i buf), i_dirty := True\<rparr>) res"
  shows "write_outcome fd sz buf n w f nd res"
proof -
  let ?len = "length (write_at (i_bytes nd) (o_pos f) (take i buf))"
  have blk: "i_kind nd = BLK \<Longrightarrow> ?len = length (i_bytes nd)"
    using room i by (auto simp: length_write_at)
  show ?thesis
    using rest
  proof (rule write_outcomeE, goal_cases)
    case (1 k s' r)
    have benign: "benign ((put_bytes fd (take i buf) w)\<lparr>w_sched := s\<rparr>)" if "benign w"
      using that s by (simp add: benign_def)
    show ?case
    proof (rule write_outcomeI [where k = "i + k" and s = s' and r = r])
      show "res = (r, [], (put_bytes fd (take (i + k) buf) w)\<lparr>w_sched := s'\<rparr>)"
        by (simp add: 1(1) put_bytes_append take_add)
      show "i + k \<le> n" using 1(2) i(2) by simp
      show "if i + k = n then r = to_int32 sz else r = 0 \<or> r = -1"
        using 1(3) i(2) by (cases "k = n - i") auto
      show "benign w \<Longrightarrow> list_all transient s'" using 1(4) benign by simp
      show "i_kind nd = BLK \<Longrightarrow> i + k = 0 \<or> o_pos f + (i + k) \<le> length (i_bytes nd)"
        using 1(5) room blk by auto
      show "benign w \<Longrightarrow> i_kind nd = BLK \<longrightarrow> o_pos f + n \<le> length (i_bytes nd) \<Longrightarrow> i + k = n"
        using 1(6) [OF benign] blk i(2) by simp
    qed
  qed
qed

lemma io_write_loop:
  assumes "fd_lookup w fd = Some f" and "w_nodes w (o_path f) = Some nd" and "o_write f"
    and "n \<le> length buf"
  shows "write_outcome fd sz buf n w f nd (io_all_loop fd sz buf n True w)"
  using assms
proof (induction fd sz buf n "True" w arbitrary: f nd rule: io_all_loop.induct)
  case (1 fd sz buf n w)
  show ?case
  proof (cases "n = 0")
    case True
    then show ?thesis by (simp add: io_all_loop.simps write_outcome_done)
  next
    case n: False
    with "1.prems"(4) have ne: "take n buf \<noteq> []" and len: "length (take n buf) = n" by auto
    obtain r w1 where wr: "sys_write fd (take n buf) w = (r, w1)" by fastforce
    show ?thesis
    proof (cases r)
      case (Inl e)
      from sys_write_Inl [OF "1.prems"(1,2,3) wr [unfolded Inl]] obtain s where w1: "w1 = w\<lparr>w_sched := s\<rparr>"
        and s: "benign w \<longrightarrow> list_all transient s"
        and fine: "benign w \<and> (i_kind nd = BLK \<longrightarrow> o_pos f + n \<le> length (i_bytes nd))
              \<longrightarrow> e = EAGAIN \<or> e = EINTR"
        unfolding len using ne by auto
      show ?thesis
      proof (cases "e = EAGAIN \<or> e = EINTR")
        case True
        then have "write_outcome fd sz buf n w1 f nd (io_all_loop fd sz buf n True w1)"
          using n wr Inl "1.prems" w1 by (intro "1.hyps"(1)) auto
        with True n wr Inl s w1 show ?thesis
          by (auto simp: io_all_loop.simps [of fd sz buf n True w] intro: write_outcome_retry)
      next
        case False
        with n wr Inl fine s w1 show ?thesis
          by (auto simp: io_all_loop.simps [of fd sz buf n True w] intro!: write_outcome_error)
      qed
    next
      case (Inr i)
      from sys_write_Inr [OF "1.prems"(1,2,3) wr [unfolded Inr] ne] obtain s where
          w1: "w1 = (put_bytes fd (take i buf) w)\<lparr>w_sched := s\<rparr>" and i: "0 < i" "i \<le> n"
        and s: "benign w \<longrightarrow> list_all transient s"
        and room: "i_kind nd = BLK \<longrightarrow> o_pos f + i \<le> length (i_bytes nd)"
        unfolding len using "1.prems"(4) by (auto simp: min_def)
      have "io_all_loop fd sz buf n True w = io_all_loop fd sz (drop i buf) (n - i) True w1"
        using n wr i Inr by (simp add: io_all_loop.simps [of fd sz buf n True w])
      moreover have "write_outcome fd sz (drop i buf) (n - i) w1 (f\<lparr>o_pos := o_pos f + i\<rparr>)
          (nd\<lparr>i_bytes := write_at (i_bytes nd) (o_pos f) (take i buf), i_dirty := True\<rparr>)
          (io_all_loop fd sz (drop i buf) (n - i) True w1)"
        using n wr i Inr "1.prems"
        by (intro "1.hyps"(2)) (auto simp: w1 fd_lookup_put_bytes w_nodes_put_bytes)
      ultimately show ?thesis
        using write_outcome_step [OF "1.prems"(1,2) i "1.prems"(4) s room] by (simp only: w1)
    qed
  qed
qed

text \<open>The outcome of a read of \<open>n\<close> bytes: some first \<open>k\<close> of them, all of them likewise.\<close>

definition read_outcome ::
    "int \<Rightarrow> nat \<Rightarrow> nat \<Rightarrow> world \<Rightarrow> ofile \<Rightarrow> inode \<Rightarrow> int \<times> byte list \<times> world \<Rightarrow> bool" where
  "read_outcome fd sz n w f nd res \<longleftrightarrow>
     (\<exists>k s r. res = (r, take k (drop (o_pos f) (i_bytes nd)),
                    (set_pos fd (o_pos f + k) w)\<lparr>w_sched := s\<rparr>) \<and>
        k \<le> n \<and> (k = 0 \<or> o_pos f + k \<le> length (i_bytes nd)) \<and>
        (if k = n then r = to_int32 sz else r = 0 \<or> r = -1) \<and>
        (benign w \<longrightarrow> list_all transient s) \<and>
        (benign w \<and> o_pos f + n \<le> length (i_bytes nd) \<longrightarrow> k = n))"

lemma read_outcomeI:
  assumes "res = (r, take k (drop (o_pos f) (i_bytes nd)), (set_pos fd (o_pos f + k) w)\<lparr>w_sched := s\<rparr>)"
    and "k \<le> n" and "k = 0 \<or> o_pos f + k \<le> length (i_bytes nd)"
    and "if k = n then r = to_int32 sz else r = 0 \<or> r = -1"
    and "benign w \<Longrightarrow> list_all transient s"
    and "benign w \<Longrightarrow> o_pos f + n \<le> length (i_bytes nd) \<Longrightarrow> k = n"
  shows "read_outcome fd sz n w f nd res"
  unfolding read_outcome_def using assms by blast

lemma read_outcomeE:
  assumes "read_outcome fd sz n w f nd res"
  obtains k s r where "res = (r, take k (drop (o_pos f) (i_bytes nd)), (set_pos fd (o_pos f + k) w)\<lparr>w_sched := s\<rparr>)"
    and "k \<le> n" and "k = 0 \<or> o_pos f + k \<le> length (i_bytes nd)"
    and "if k = n then r = to_int32 sz else r = 0 \<or> r = -1"
    and "benign w \<Longrightarrow> list_all transient s"
    and "benign w \<Longrightarrow> o_pos f + n \<le> length (i_bytes nd) \<Longrightarrow> k = n"
  using assms unfolding read_outcome_def by blast

lemma read_outcome_retry:
  assumes "read_outcome fd sz n (w\<lparr>w_sched := s\<rparr>) f nd res" and "benign w \<longrightarrow> list_all transient s"
  shows "read_outcome fd sz n w f nd res"
  using assms(1)
proof (rule read_outcomeE, goal_cases)
  case (1 k s' r)
  from 1(2-) assms(2) show ?case
    by (intro read_outcomeI [where k = k and s = s' and r = r]) (simp_all add: 1(1) benign_def)
qed

lemma take_drop_min: "take (min (length xs - p) n) (drop p xs) = take n (drop p xs)"
  by (simp add: min_def)

lemma sys_read_Inr:
  assumes "fd_lookup w fd = Some f" and "w_nodes w (o_path f) = Some nd" and "\<not> o_write f"
    and "sys_read fd n w = (Inr d, w')" and "0 < n"
  shows "\<exists>s. w' = (set_pos fd (o_pos f + length d) w)\<lparr>w_sched := s\<rparr> \<and> length d \<le> n \<and>
           d = take (length d) (drop (o_pos f) (i_bytes nd)) \<and>
           (benign w \<longrightarrow> list_all transient s) \<and>
           (d = [] \<longrightarrow> length (i_bytes nd) \<le> o_pos f)"
proof (cases "w_sched w")
  case Nil
  with assms show ?thesis
    by (intro exI [of _ "[]"])
      (auto simp: sys_read_def io_limit_def benign_def Let_def w_sched_same take_drop_min
        split: if_splits)
next
  case (Cons ev es)
  with assms show ?thesis
    by (intro exI [of _ es])
      (auto simp: sys_read_def io_limit_def benign_def Let_def take_drop_min
        split: if_splits io_event.splits)
qed

lemma sys_read_Inl:
  assumes "fd_lookup w fd = Some f" and "w_nodes w (o_path f) = Some nd" and "\<not> o_write f"
    and "sys_read fd n w = (Inl e, w')"
  shows "\<exists>s. w' = w\<lparr>w_sched := s\<rparr> \<and> (benign w \<longrightarrow> list_all transient s) \<and>
           (benign w \<longrightarrow> e = EAGAIN \<or> e = EINTR)"
proof (cases "w_sched w")
  case Nil
  with assms show ?thesis by (simp add: sys_read_def io_limit_def Let_def)
next
  case (Cons ev es)
  with assms show ?thesis
    by (intro exI [of _ es])
      (auto simp: sys_read_def io_limit_def benign_def Let_def split: io_event.splits)
qed

lemma read_outcome_step:
  assumes w: "fd_lookup w fd = Some f"
    and d: "d = take (length d) (drop (o_pos f) (i_bytes nd))" "d \<noteq> []" "length d \<le> n"
    and s: "benign w \<longrightarrow> list_all transient s"
    and rest: "read_outcome fd sz (n - length d) ((set_pos fd (o_pos f + length d) w)\<lparr>w_sched := s\<rparr>)
          (f\<lparr>o_pos := o_pos f + length d\<rparr>) nd (r, ds, w')"
  shows "read_outcome fd sz n w f nd (r, d @ ds, w')"
proof -
  have in_range: "o_pos f + length d \<le> length (i_bytes nd)"
  proof -
    have "length d \<le> length (i_bytes nd) - o_pos f" using d(1) by (metis length_drop length_take min.cobounded1)
    with d(2) show ?thesis by (cases d) auto
  qed
  show ?thesis
    using rest
  proof (rule read_outcomeE, goal_cases)
    case (1 k s' r')
    have benign: "benign ((set_pos fd (o_pos f + length d) w)\<lparr>w_sched := s\<rparr>)" if "benign w"
      using that s by (simp add: benign_def)
    have "d @ ds = take (length d + k) (drop (o_pos f) (i_bytes nd))"
      using 1(1) by (simp add: take_add d(1) [symmetric] add.commute [of "o_pos f"])
    then show ?case
    proof (intro read_outcomeI [where k = "length d + k" and s = s' and r = r])
      show "length d + k \<le> n" using 1(2) d(3) by simp
      show "length d + k = 0 \<or> o_pos f + (length d + k) \<le> length (i_bytes nd)"
        using 1(3) in_range by auto
      show "if length d + k = n then r = to_int32 sz else r = 0 \<or> r = -1"
        using 1(1,4) d(3) by (cases "k = n - length d") auto
      show "benign w \<Longrightarrow> list_all transient s'" using 1(5) benign by simp
      show "benign w \<Longrightarrow> o_pos f + n \<le> length (i_bytes nd) \<Longrightarrow> length d + k = n"
        using 1(6) [OF benign] d(3) by simp
    qed (use 1(1) in \<open>simp add: add.assoc\<close>)
  qed
qed

lemma io_read_loop:
  assumes "fd_lookup w fd = Some f" and "w_nodes w (o_path f) = Some nd" and "\<not> o_write f"
  shows "read_outcome fd sz n w f nd (io_all_loop fd sz buf n False w)"
  using assms
proof (induction fd sz buf n "False" w arbitrary: f rule: io_all_loop.induct)
  case (1 fd sz buf n w)
  show ?case
  proof (cases "n = 0")
    case True
    with "1.prems" show ?thesis
      by (intro read_outcomeI [where k = 0 and s = "w_sched w"])
        (simp_all add: io_all_loop.simps set_pos_same w_sched_same benign_def)
  next
    case n: False
    obtain r w1 where rd: "sys_read fd n w = (r, w1)" by fastforce
    show ?thesis
    proof (cases r)
      case (Inl e)
      from sys_read_Inl [OF "1.prems" rd [unfolded Inl]] obtain s where w1: "w1 = w\<lparr>w_sched := s\<rparr>"
        and s: "benign w \<longrightarrow> list_all transient s" and fine: "benign w \<longrightarrow> e = EAGAIN \<or> e = EINTR"
        by auto
      show ?thesis
      proof (cases "e = EAGAIN \<or> e = EINTR")
        case True
        then have "read_outcome fd sz n w1 f nd (io_all_loop fd sz buf n False w1)"
          using n rd Inl "1.prems" w1 by (intro "1.hyps"(3)) auto
        with True n rd Inl s w1 show ?thesis
          by (auto simp: io_all_loop.simps [of fd sz buf n False w] intro: read_outcome_retry)
      next
        case False
        with n rd Inl fine s w1 "1.prems" show ?thesis
          by (intro read_outcomeI [where k = 0 and s = s and r = "-1"])
            (auto simp: io_all_loop.simps [of fd sz buf n False w] set_pos_same)
      qed
    next
      case (Inr d)
      from sys_read_Inr [OF "1.prems" rd [unfolded Inr]] n obtain s where
          w1: "w1 = (set_pos fd (o_pos f + length d) w)\<lparr>w_sched := s\<rparr>" and dn: "length d \<le> n"
        and d: "d = take (length d) (drop (o_pos f) (i_bytes nd))"
        and s: "benign w \<longrightarrow> list_all transient s"
        and eof: "d = [] \<longrightarrow> length (i_bytes nd) \<le> o_pos f"
        by auto
      show ?thesis
      proof (cases "d = []")
        case True
        with n rd Inr eof s w1 "1.prems" show ?thesis
          by (intro read_outcomeI [where k = 0 and s = s and r = 0])
            (auto simp: io_all_loop.simps [of fd sz buf n False w] set_pos_same)
      next
        case False
        obtain r' ds w2 where rest: "io_all_loop fd sz buf (n - length d) False w1 = (r', ds, w2)"
          by (metis prod_cases3)
        have "read_outcome fd sz (n - length d) w1 (f\<lparr>o_pos := o_pos f + length d\<rparr>) nd
            (io_all_loop fd sz buf (n - length d) False w1)"
          using n rd Inr False "1.prems" by (intro "1.hyps"(4)) (auto simp: w1)
        then have "read_outcome fd sz n w f nd (r', d @ ds, w2)"
          by (intro read_outcome_step [OF "1.prems"(1) d False dn s]) (simp only: rest w1 [symmetric])
        with n rd Inr False rest show ?thesis
          by (simp add: io_all_loop.simps [of fd sz buf n False w])
      qed
    qed
  qed
qed

section \<open>The calls\<close>

text \<open>A descriptor \<open>fd\<close> open on node \<open>nd\<close> at path \<open>p\<close>.\<close>

definition fd_on :: "world \<Rightarrow> int \<Rightarrow> string \<Rightarrow> nat \<Rightarrow> bool \<Rightarrow> inode \<Rightarrow> bool" where
  "fd_on w fd p pos wr nd \<longleftrightarrow>
     fd_lookup w fd = Some \<lparr>o_path = p, o_pos = pos, o_write = wr\<rparr> \<and> w_nodes w p = Some nd"

lemma fd_on_eqs [simp]:
  "fd_on (w\<lparr>w_sched := b\<rparr>) = fd_on w" "fd_on (w\<lparr>w_allocs := c\<rparr>) = fd_on w"
  "fd_on (w\<lparr>w_clock := d\<rparr>) = fd_on w" "fd_on (w\<lparr>w_out := e\<rparr>) = fd_on w"
  "fd_on (w\<lparr>crc_tab32 := g\<rparr>) = fd_on w" "fd_on (w\<lparr>cs_mode := h\<rparr>) = fd_on w"
  by (simp_all add: fd_on_def fun_eq_iff)

lemma fd_on_set_pos:
  "fd_on w fd p pos wr nd \<Longrightarrow> fd_on (set_pos fd q w) fd p q wr nd"
  "fd_on w fd p pos wr nd \<Longrightarrow> fd' \<noteq> fd \<Longrightarrow> fd_on (set_pos fd' q w) fd p pos wr nd"
  by (auto simp: fd_on_def)

definition node_put :: "inode \<Rightarrow> nat \<Rightarrow> byte list \<Rightarrow> inode" where
  "node_put nd pos d =
     (if d = [] then nd else nd\<lparr>i_bytes := write_at (i_bytes nd) pos d, i_dirty := True\<rparr>)"

lemma node_put_fields [simp]:
  "i_kind (node_put nd pos d) = i_kind nd" "i_readable (node_put nd pos d) = i_readable nd"
  "i_writable (node_put nd pos d) = i_writable nd"
  by (simp_all add: node_put_def)

lemma i_bytes_node_put: "pos \<le> length (i_bytes nd) \<Longrightarrow> i_bytes (node_put nd pos d) = write_at (i_bytes nd) pos d"
  by (simp add: node_put_def write_at_Nil)

lemma i_bytes_node_put_end: "i_bytes (node_put nd (length (i_bytes nd)) d) = i_bytes nd @ d"
  by (simp add: node_put_def write_at_end)

lemma node_put_append: "node_put (node_put nd pos d) (pos + length d) e = node_put nd pos (d @ e)"
  by (simp add: node_put_def write_at_append)

lemma fd_on_put_bytes:
  "fd_on w fd p pos wr nd \<Longrightarrow> fd_on (put_bytes fd d w) fd p (pos + length d) wr (node_put nd pos d)"
  by (auto simp: fd_on_def fd_lookup_put_bytes w_nodes_put_bytes node_put_def)

lemma w_nodes_put_on:
  "fd_on w fd p pos wr nd \<Longrightarrow> w_nodes (put_bytes fd d w) = (w_nodes w)(p \<mapsto> node_put nd pos d)"
  by (auto simp: fd_on_def w_nodes_put_bytes node_put_def fun_eq_iff)

lemma fd_on_put_bytes_other:
  "fd_on w fd p pos wr nd \<Longrightarrow> fd_on w fd' p' pos' wr' nd' \<Longrightarrow> p' \<noteq> p \<Longrightarrow>
   fd_on (put_bytes fd' d w) fd p pos wr nd"
  by (auto simp: fd_on_def fd_lookup_put_bytes w_nodes_put_bytes)

lemma io_all_write:
  assumes "fd_on w fd p pos True nd" and "length buf = n" and "n < 2 ^ 31"
  obtains (full) s where
      "write_read_io_all fd buf n True w = (int n, [], (put_bytes fd buf w)\<lparr>w_sched := s\<rparr>)"
      and "benign w \<Longrightarrow> list_all transient s"
      and "i_kind nd = BLK \<Longrightarrow> n = 0 \<or> pos + n \<le> length (i_bytes nd)"
  | (partly) k s r where
      "write_read_io_all fd buf n True w = (r, [], (put_bytes fd (take k buf) w)\<lparr>w_sched := s\<rparr>)"
      and "k < n" and "r = 0 \<or> r = -1"
      and "\<not> (benign w \<and> (i_kind nd = BLK \<longrightarrow> pos + n \<le> length (i_bytes nd)))"
      and "i_kind nd = BLK \<Longrightarrow> k = 0 \<or> pos + k \<le> length (i_bytes nd)"
proof -
  from assms have "write_outcome fd n buf n w \<lparr>o_path = p, o_pos = pos, o_write = True\<rparr> nd
      (write_read_io_all fd buf n True w)"
    unfolding write_read_io_all_def by (intro io_write_loop) (auto simp: fd_on_def)
  then show thesis
  proof (rule write_outcomeE, goal_cases)
    case (1 k s r)
    show ?case
    proof (cases "k = n")
      case True
      with 1 assms(2,3) show ?thesis by (intro full [of s]) (simp_all add: to_int32_small)
    next
      case False
      with 1 show ?thesis by (intro partly [where k = k and s = s and r = r]) auto
    qed
  qed
qed

lemma io_all_write_benign:
  assumes "fd_on w fd p pos True nd" and "length buf = n" and "n < 2 ^ 31" and "benign w"
    and "i_kind nd = BLK \<longrightarrow> pos + n \<le> length (i_bytes nd)"
  obtains s where
    "write_read_io_all fd buf n True w = (int n, [], (put_bytes fd buf w)\<lparr>w_sched := s\<rparr>)"
    and "list_all transient s"
  using assms(4,5) by (cases rule: io_all_write [OF assms(1-3)]) auto

lemma io_all_read:
  assumes "fd_on w fd p pos False nd" and "n < 2 ^ 31"
  obtains (full) s where
      "write_read_io_all fd buf n False w =
         (int n, take n (drop pos (i_bytes nd)), (set_pos fd (pos + n) w)\<lparr>w_sched := s\<rparr>)"
      and "benign w \<Longrightarrow> list_all transient s" and "n = 0 \<or> pos + n \<le> length (i_bytes nd)"
  | (partly) k s r where
      "write_read_io_all fd buf n False w =
         (r, take k (drop pos (i_bytes nd)), (set_pos fd (pos + k) w)\<lparr>w_sched := s\<rparr>)"
      and "k < n" and "r = 0 \<or> r = -1" and "\<not> (benign w \<and> pos + n \<le> length (i_bytes nd))"
      and "benign w \<Longrightarrow> list_all transient s"
proof -
  from assms have "read_outcome fd n n w \<lparr>o_path = p, o_pos = pos, o_write = False\<rparr> nd
      (write_read_io_all fd buf n False w)"
    unfolding write_read_io_all_def by (intro io_read_loop) (auto simp: fd_on_def)
  then show thesis
  proof (rule read_outcomeE, goal_cases)
    case (1 k s r)
    show ?case
    proof (cases "k = n")
      case True
      with 1 assms(2) show ?thesis by (intro full [of s]) (simp_all add: to_int32_small)
    next
      case False
      with 1 show ?thesis by (intro partly [where k = k and s = s and r = r]) auto
    qed
  qed
qed

lemma io_all_read_benign:
  assumes "fd_on w fd p pos False nd" and "n < 2 ^ 31" and "benign w"
    and "pos + n \<le> length (i_bytes nd)"
  obtains s where
    "write_read_io_all fd buf n False w =
       (int n, take n (drop pos (i_bytes nd)), (set_pos fd (pos + n) w)\<lparr>w_sched := s\<rparr>)"
    and "list_all transient s"
  using assms(3,4) by (cases rule: io_all_read [OF assms(1,2), of buf]) auto

section \<open>Properties\<close>

text \<open>
  C18: \<^verbatim>\<open>write_read_io_all\<close> for a write, under every schedule of interruptions, short transfers and
  errors: it puts a prefix of the buffer at the position of the descriptor, its result is the number
  of bytes only when that prefix is the whole buffer and 0 or \<open>-1\<close> otherwise, and it is complete
  whenever no transfer fails for good and the bytes fit on the device.
\<close>

theorem write_all_any_schedule:
  assumes "fd_on w fd p pos True nd" and "length buf = n" and "n < 2 ^ 31"
  shows "\<exists>k s r. write_read_io_all fd buf n True w = (r, [], (put_bytes fd (take k buf) w)\<lparr>w_sched := s\<rparr>) \<and>
    k \<le> n \<and> (r = int n \<and> k = n \<or> (r = 0 \<or> r = -1) \<and> k < n) \<and>
    (benign w \<and> (i_kind nd = BLK \<longrightarrow> pos + n \<le> length (i_bytes nd)) \<longrightarrow> r = int n)"
proof (cases rule: io_all_write [OF assms, case_names full partly])
  case (full s)
  show ?thesis
    by (rule exI [of _ n], rule exI [of _ s], rule exI [of _ "int n"]) (use full(1) assms(2) in simp)
next
  case (partly k s r)
  show ?thesis
    by (rule exI [of _ k], rule exI [of _ s], rule exI [of _ r]) (use partly(1-4) in auto)
qed

text \<open>A file with one open descriptor; the next write is interrupted, then cut to two bytes.\<close>

definition io_node :: inode where
  "io_node = \<lparr>i_kind = REG, i_bytes = [9, 8, 7], i_dirty = False, i_readable = True, i_writable = True\<rparr>"

definition io_world :: "bool \<Rightarrow> world" where
  "io_world wr =
     \<lparr>crc_tab32 = replicate 256 0, cs_mode = 0, w_nodes = [''f'' \<mapsto> io_node],
      w_fdtab = [Some \<lparr>o_path = ''f'', o_pos = 0, o_write = wr\<rparr>], w_sched = [Fail EINTR, Short 1, Fail EIO],
      w_allocs = [], w_clock = [], w_vfs = Map.empty, w_creatable = (\<lambda>p. False), w_junk = 0,
      fat_FS = 0, btrfs_block_size = 0, xfs_mp = None, w_out = []\<rparr>"

lemma io_world_on: "fd_on (io_world wr) 0 ''f'' 0 wr io_node"
  by (simp add: fd_on_def io_world_def fd_lookup_def)

theorem write_all_any_schedule_witness:
  "\<exists>k s r. write_read_io_all 0 [1, 2, 3, 4] 4 True (io_world True) =
      (r, [], (put_bytes 0 (take k [1, 2, 3, 4]) (io_world True))\<lparr>w_sched := s\<rparr>) \<and>
    k \<le> 4 \<and> (r = int 4 \<and> k = 4 \<or> (r = 0 \<or> r = -1) \<and> k < 4) \<and>
    (benign (io_world True) \<and> (i_kind io_node = BLK \<longrightarrow> 0 + 4 \<le> length (i_bytes io_node)) \<longrightarrow> r = int 4)"
  by (rule write_all_any_schedule [OF io_world_on]) simp_all

text \<open>
  \<^verbatim>\<open>write_read_io_all\<close> for a read, under every schedule: it delivers a prefix of what is on the file
  from the position on and moves the position by as much; its result is the number of bytes asked for
  only when all of them are delivered, and 0 or \<open>-1\<close> otherwise.
\<close>

theorem read_all_any_schedule:
  assumes "fd_on w fd p pos False nd" and "n < 2 ^ 31"
  shows "\<exists>k s r. write_read_io_all fd buf n False w =
      (r, take k (drop pos (i_bytes nd)), (set_pos fd (pos + k) w)\<lparr>w_sched := s\<rparr>) \<and>
    k \<le> n \<and> (r = int n \<and> k = n \<and> (n = 0 \<or> pos + n \<le> length (i_bytes nd)) \<or> (r = 0 \<or> r = -1) \<and> k < n) \<and>
    (benign w \<and> pos + n \<le> length (i_bytes nd) \<longrightarrow> r = int n)"
proof (cases rule: io_all_read [OF assms, of buf, case_names full partly])
  case (full s)
  show ?thesis
    by (rule exI [of _ n], rule exI [of _ s], rule exI [of _ "int n"]) (use full(1,3) in simp)
next
  case (partly k s r)
  show ?thesis
    by (rule exI [of _ k], rule exI [of _ s], rule exI [of _ r]) (use partly(1-4) in auto)
qed

theorem read_all_any_schedule_witness:
  "\<exists>k s r. write_read_io_all 0 [] 2 False (io_world False) =
      (r, take k (drop 0 (i_bytes io_node)), (set_pos 0 (0 + k) (io_world False))\<lparr>w_sched := s\<rparr>) \<and>
    k \<le> 2 \<and> (r = int 2 \<and> k = 2 \<and> (2 = (0 :: nat) \<or> 0 + 2 \<le> length (i_bytes io_node)) \<or> (r = 0 \<or> r = -1) \<and> k < 2) \<and>
    (benign (io_world False) \<and> 0 + 2 \<le> length (i_bytes io_node) \<longrightarrow> r = int 2)"
  by (rule read_all_any_schedule [OF io_world_on]) simp

end
