(* ===== verification/Image.thy ===== *)
theory Image
  imports IoAll
begin

text \<open>
  The image header of \<^verbatim>\<open>src/src/gdbus-share.h\<close> and the functions of \<^verbatim>\<open>gdbus-share.c\<close> that
  build, write, read and check it. The structs are packed (\<^verbatim>\<open>#pragma pack (1)\<close>), so an image
  starts with 110 bytes: 36 of \<^verbatim>\<open>image_head\<close>, 52 of \<^verbatim>\<open>file_system_info\<close>, 18 of
  \<^verbatim>\<open>image_options\<close> and 4 of CRC; the byte order is little-endian. A \<^verbatim>\<open>char\<close> array is a byte list
  whose length is part of the well-formedness predicates.
\<close>

section \<open>Definitions\<close>

record file_system_info =
  fs :: "byte list"
  device_size :: u64
  totalblock :: u64
  usedblocks :: u64
  used_bitmap :: u64
  block_size :: u32

record image_options =
  feature_size :: u32
  image_version :: u16
  cpu_bits :: u16
  checksum_mode :: u16
  checksum_size :: u16
  blocks_per_checksum :: u32
  reseed_checksum :: byte
  bitmap_mode :: byte

record image_head =
  magic :: "byte list"
  ptc_version :: "byte list"
  version :: "byte list"
  endianess :: u16

record image_desc =
  head :: image_head
  fs_info :: file_system_info
  options :: image_options
  crc :: u32

definition IMAGE_MAGIC :: "byte list" where "IMAGE_MAGIC = cstr ''partclone-image''"
definition IMAGE_VERSION_0002 :: "byte list" where "IMAGE_VERSION_0002 = cstr ''0002''"
definition VERSION :: "byte list" where "VERSION = cstr ''0.3.13''"
definition ENDIAN_MAGIC :: u16 where "ENDIAN_MAGIC = 0xC0DE"

text \<open>\<^verbatim>\<open>set_image_options\<close>; \<^verbatim>\<open>sizeof (image_options)\<close> is 18, \<^verbatim>\<open>BM_BIT\<close> is 1.\<close>

definition set_image_options :: "image_options \<Rightarrow> image_options" where
  "set_image_options img_opt =
     img_opt\<lparr>feature_size := 18, image_version := 2, checksum_mode := 0x20, checksum_size := 4,
             blocks_per_checksum := 0, reseed_checksum := 1, bitmap_mode := 1\<rparr>"

definition init_file_system_info :: file_system_info where
  "init_file_system_info =
     \<lparr>fs = replicate 16 0, device_size = 0, totalblock = 0, usedblocks = 0, used_bitmap = 0,
      block_size = 0\<rparr>"

definition init_image_options :: image_options where
  "init_image_options =
     set_image_options
       \<lparr>feature_size = 0, image_version = 0, cpu_bits = 64, checksum_mode = 0, checksum_size = 0,
        blocks_per_checksum = 0, reseed_checksum = 0, bitmap_mode = 0\<rparr>"

definition init_image_head :: image_head where
  "init_image_head =
     \<lparr>magic = memcpy (replicate 16 0) IMAGE_MAGIC 15,
      ptc_version = strncpy (replicate 14 0) VERSION 14,
      version = memcpy (replicate 4 0) IMAGE_VERSION_0002 4,
      endianess = ENDIAN_MAGIC\<rparr>"

text \<open>The packed layout of the structs.\<close>

definition head_bytes :: "image_head \<Rightarrow> byte list" where
  "head_bytes h = magic h @ ptc_version h @ version h @ le_bytes 2 (endianess h)"

definition fs_info_bytes :: "file_system_info \<Rightarrow> byte list" where
  "fs_info_bytes i =
     fs i @ le_bytes 8 (device_size i) @ le_bytes 8 (totalblock i) @ le_bytes 8 (usedblocks i) @
     le_bytes 8 (used_bitmap i) @ le_bytes 4 (block_size i)"

definition options_bytes :: "image_options \<Rightarrow> byte list" where
  "options_bytes q =
     le_bytes 4 (feature_size q) @ le_bytes 2 (image_version q) @ le_bytes 2 (cpu_bits q) @
     le_bytes 2 (checksum_mode q) @ le_bytes 2 (checksum_size q) @
     le_bytes 4 (blocks_per_checksum q) @ [reseed_checksum q, bitmap_mode q]"

definition desc_body :: "image_head \<Rightarrow> file_system_info \<Rightarrow> image_options \<Rightarrow> byte list" where
  "desc_body h i q = head_bytes h @ fs_info_bytes i @ options_bytes q"

definition field :: "nat \<Rightarrow> nat \<Rightarrow> byte list \<Rightarrow> byte list" where
  "field off n bs = take n (drop off bs)"

definition parse_head :: "byte list \<Rightarrow> image_head" where
  "parse_head bs =
     \<lparr>magic = field 0 16 bs, ptc_version = field 16 14 bs, version = field 30 4 bs,
      endianess = le_word (field 34 2 bs)\<rparr>"

definition parse_fs_info :: "byte list \<Rightarrow> file_system_info" where
  "parse_fs_info bs =
     \<lparr>fs = field 0 16 bs, device_size = le_word (field 16 8 bs), totalblock = le_word (field 24 8 bs),
      usedblocks = le_word (field 32 8 bs), used_bitmap = le_word (field 40 8 bs),
      block_size = le_word (field 48 4 bs)\<rparr>"

definition parse_options :: "byte list \<Rightarrow> image_options" where
  "parse_options bs =
     \<lparr>feature_size = le_word (field 0 4 bs), image_version = le_word (field 4 2 bs),
      cpu_bits = le_word (field 6 2 bs), checksum_mode = le_word (field 8 2 bs),
      checksum_size = le_word (field 10 2 bs), blocks_per_checksum = le_word (field 12 4 bs),
      reseed_checksum = le_word (field 16 1 bs), bitmap_mode = le_word (field 17 1 bs)\<rparr>"

definition parse_desc :: "byte list \<Rightarrow> image_desc" where
  "parse_desc bs =
     \<lparr>head = parse_head (field 0 36 bs), fs_info = parse_fs_info (field 36 52 bs),
      options = parse_options (field 88 18 bs), crc = le_word (field 106 4 bs)\<rparr>"

definition write_image_desc ::
    "int \<Rightarrow> file_system_info \<Rightarrow> image_options \<Rightarrow> world \<Rightarrow> bool \<times> world" where
  "write_image_desc fd info img_opt w =
     (let body = desc_body init_image_head info img_opt;
          (seed, w) = init_crc32 w;
          c = crc32 (crc_tab32 w) seed body;
          (r, _, w) = write_read_io_all fd (body @ le_bytes 4 c) 110 True w
      in (r = 110, w))"

text \<open>
  \<^verbatim>\<open>crc32\<close> takes the number of bytes as an \<open>int\<close>: with \<open>2 ^ 31\<close> bytes or more its end pointer
  lies before the start and the loop runs out of the address space.
\<close>

definition write_image_bitmap ::
    "int \<Rightarrow> file_system_info \<Rightarrow> bitmap \<Rightarrow> world \<Rightarrow> (bool \<times> world) option" where
  "write_image_bitmap fd info bitmap w =
     (case bitmap of
        None \<Rightarrow> Some (False, w)
      | Some ws \<Rightarrow>
          (let n = BITS_TO_BYTES (unat (totalblock info));
               data = take n (words_bytes ws);
               (r, _, w) = write_read_io_all fd data n True w
           in if r = -1 then Some (False, w)
              else if 2 ^ 31 \<le> n then None
              else (let (seed, w) = init_crc32 w;
                        c = crc32 (crc_tab32 w) seed data;
                        (r, _, w) = write_read_io_all fd (le_bytes 4 c) 4 True w
                    in Some (r = 4, w))))"

definition read_image_desc ::
    "int \<Rightarrow> world \<Rightarrow> (image_head \<times> file_system_info \<times> image_options) option \<times> world" where
  "read_image_desc fd w =
     (let (r_size, bs, w) = write_read_io_all fd [] 110 False w
      in if r_size \<noteq> 110 then (None, w)
         else if take 15 bs \<noteq> IMAGE_MAGIC then (None, w)
         else (let image = parse_desc bs;
                   (seed, w) = init_crc32 w;
                   c = crc32 (crc_tab32 w) seed (take 106 bs)
               in if c \<noteq> crc image then (None, w)
                  else if endianess (head image) \<noteq> ENDIAN_MAGIC then (None, w)
                  else (Some (head image, fs_info image, options image), w)))"

text \<open>
  The results of \<^verbatim>\<open>write_read_io_all\<close> are stored in an \<^verbatim>\<open>unsigned long long\<close> here: a negative
  \<open>int\<close> becomes a number above \<open>2 ^ 63\<close>.
\<close>

definition load_image_bitmap_bits ::
    "int \<Rightarrow> file_system_info \<Rightarrow> bitmap \<Rightarrow> world \<Rightarrow> (bool \<times> bitmap) \<times> world" where
  "load_image_bitmap_bits fd info bitmap w =
     (case bitmap of
        None \<Rightarrow> ((False, None), w)
      | Some ws \<Rightarrow>
          (let bitmap_size = BITS_TO_BYTES (unat (totalblock info));
               (r, data, w) = write_read_io_all fd [] bitmap_size False w;
               bitmap' = Some (bytes_words (data @ drop (length data) (words_bytes ws)))
           in if r mod 2 ^ 64 \<noteq> int bitmap_size then ((False, bitmap'), w)
              else (let (r, cb, w) = write_read_io_all fd [] 4 False w
                    in if r mod 2 ^ 64 \<noteq> 4 then ((False, bitmap'), w)
                       else (let (seed, w) = init_crc32 w;
                                 c = crc32 (crc_tab32 w) seed data
                             in ((c = le_word cb, bitmap'), w)))))"

section \<open>Layout and round trip of the header\<close>

definition head_wf :: "image_head \<Rightarrow> bool" where
  "head_wf h \<longleftrightarrow> length (magic h) = 16 \<and> length (ptc_version h) = 14 \<and> length (version h) = 4"

definition fs_info_wf :: "file_system_info \<Rightarrow> bool" where
  "fs_info_wf i \<longleftrightarrow> length (fs i) = 16"

lemma length_fs_info_bytes [layout_simps]: "fs_info_wf i \<Longrightarrow> length (fs_info_bytes i) = 52"
  by (simp add: fs_info_bytes_def fs_info_wf_def)

lemma length_options_bytes [simp, layout_simps]: "length (options_bytes q) = 18"
  by (simp add: options_bytes_def)

lemma length_head_bytes [layout_simps]: "head_wf h \<Longrightarrow> length (head_bytes h) = 36"
  by (simp add: head_bytes_def head_wf_def)

lemma length_desc_body [layout_simps]:
  "head_wf h \<Longrightarrow> fs_info_wf i \<Longrightarrow> length (desc_body h i q) = 106"
  by (simp add: desc_body_def length_head_bytes length_fs_info_bytes)

lemma field_append_left [simp]: "off + n \<le> length xs \<Longrightarrow> field off n (xs @ ys) = field off n xs"
  by (simp add: field_def)

lemma field_append_right: "length xs \<le> off \<Longrightarrow> field off n (xs @ ys) = field (off - length xs) n ys"
  by (simp add: field_def)

lemma field_all [simp]: "length xs = n \<Longrightarrow> field 0 n xs = xs"
  by (simp add: field_def)

lemma parse_head_bytes: "head_wf h \<Longrightarrow> parse_head (head_bytes h) = h"
  by (cases h) (simp add: parse_head_def head_bytes_def head_wf_def field_append_right)

lemma parse_fs_info_bytes: "fs_info_wf i \<Longrightarrow> parse_fs_info (fs_info_bytes i) = i"
  by (cases i) (simp add: parse_fs_info_def fs_info_bytes_def fs_info_wf_def field_append_right)

lemma parse_options_bytes: "parse_options (options_bytes q) = q"
  by (cases q) (simp add: parse_options_def options_bytes_def field_append_right field_def)

lemma parse_desc_bytes:
  assumes "head_wf h" and "fs_info_wf i"
  shows "parse_desc (desc_body h i q @ le_bytes 4 c) = \<lparr>head = h, fs_info = i, options = q, crc = c\<rparr>"
  using assms
  by (simp add: parse_desc_def desc_body_def field_append_right length_head_bytes
      length_fs_info_bytes parse_head_bytes parse_fs_info_bytes parse_options_bytes)

lemma length_memcpy [simp]: "n \<le> length src \<Longrightarrow> n \<le> length dst \<Longrightarrow> length (memcpy dst src n) = length dst"
  by (simp add: memcpy_def)

lemma length_strncpy [simp]: "n \<le> length dst \<Longrightarrow> length (strncpy dst src n) = length dst"
  by (simp add: strncpy_def)

lemma length_IMAGE_MAGIC [simp]: "length IMAGE_MAGIC = 15"
  by (simp add: IMAGE_MAGIC_def cstr_def)

lemma head_wf_init [simp]: "head_wf init_image_head"
  by (simp add: head_wf_def init_image_head_def IMAGE_VERSION_0002_def cstr_def)

lemma magic_init: "take 15 (magic init_image_head) = IMAGE_MAGIC"
  by (simp add: init_image_head_def memcpy_def)

lemma fs_info_wf_init [simp]: "fs_info_wf init_file_system_info"
  by (simp add: fs_info_wf_def init_file_system_info_def)

text \<open>The lookup table is zero at entry 0 before and after it is built.\<close>

definition crc_ready :: "'a checksum_statics_scheme \<Rightarrow> bool" where
  "crc_ready s \<longleftrightarrow> crc_tab32 s ! 0 = 0"

lemma init_crc32_ready:
  "crc_ready s \<Longrightarrow> init_crc32 s = (CRC32_SEED, s\<lparr>crc_tab32 := crc_table\<rparr>)"
  by (simp add: crc_ready_def init_crc32_def)

lemma crc_ready_table [simp]: "crc_ready (s\<lparr>crc_tab32 := crc_table\<rparr>)"
  by (simp add: crc_ready_def)

text \<open>What \<^verbatim>\<open>write_image_desc\<close> puts at the start of an image, and the bitmap section after it.\<close>

definition image_header :: "file_system_info \<Rightarrow> image_options \<Rightarrow> byte list" where
  "image_header info q =
     (let body = desc_body init_image_head info q
      in body @ le_bytes 4 (crc32 crc_table CRC32_SEED body))"

definition bitmap_section :: "nat \<Rightarrow> u64 list \<Rightarrow> byte list" where
  "bitmap_section tot ws =
     (let data = take (BITS_TO_BYTES tot) (words_bytes ws)
      in data @ le_bytes 4 (crc32 crc_table CRC32_SEED data))"

lemma length_image_header [layout_simps]: "fs_info_wf i \<Longrightarrow> length (image_header i q) = 110"
  by (simp add: image_header_def Let_def length_desc_body)

lemma length_bitmap_section [layout_simps]:
  "tot < 2 ^ 63 \<Longrightarrow> bm_wf tot (Some ws) \<Longrightarrow> length (bitmap_section tot ws) = BITS_TO_BYTES tot + 4"
  by (auto simp: bitmap_section_def Let_def bm_wf_def BITS_TO_BYTES_small)

lemma write_image_desc_cases:
  assumes "fd_on w fd p pos True nd" and "crc_ready w" and "fs_info_wf info"
  obtains (ok) s where "write_image_desc fd info q w =
        (True, (put_bytes fd (image_header info q) (w\<lparr>crc_tab32 := crc_table\<rparr>))\<lparr>w_sched := s\<rparr>)"
      and "benign w \<Longrightarrow> list_all transient s"
  | (failed) k s where "write_image_desc fd info q w =
        (False, (put_bytes fd (take k (image_header info q)) (w\<lparr>crc_tab32 := crc_table\<rparr>))\<lparr>w_sched := s\<rparr>)"
      and "\<not> (benign w \<and> i_kind nd \<noteq> BLK)"
proof -
  let ?w = "w\<lparr>crc_tab32 := crc_table\<rparr>"
  have on: "fd_on ?w fd p pos True nd" using assms(1) by simp
  have len: "length (image_header info q) = 110" using assms(3) by (rule length_image_header)
  have eq: "write_image_desc fd info q w =
      (let (r, _, w') = write_read_io_all fd (image_header info q) 110 True ?w in (r = 110, w'))"
    using assms(2) by (simp add: write_image_desc_def init_crc32_ready image_header_def Let_def)
  show thesis
  proof (rule io_all_write [OF on len])
    fix s assume "write_read_io_all fd (image_header info q) 110 True ?w =
        (int 110, [], (put_bytes fd (image_header info q) ?w)\<lparr>w_sched := s\<rparr>)"
      and "benign ?w \<Longrightarrow> list_all transient s"
    then show thesis by (intro ok [of s]) (simp_all add: eq benign_def)
  next
    fix k s r assume "write_read_io_all fd (image_header info q) 110 True ?w =
        (r, [], (put_bytes fd (take k (image_header info q)) ?w)\<lparr>w_sched := s\<rparr>)"
      and "r = 0 \<or> r = -1"
      and "\<not> (benign ?w \<and> (i_kind nd = BLK \<longrightarrow> pos + 110 \<le> length (i_bytes nd)))"
    then show thesis by (intro failed [where k = k and s = s]) (auto simp: eq benign_def)
  qed simp
qed

lemma write_image_bitmap_benign:
  assumes on: "fd_on w fd p pos True nd" and "crc_ready w" and "benign w" and "i_kind nd \<noteq> BLK"
    and tot: "unat (totalblock info) < 2 ^ 33" "bm_wf (unat (totalblock info)) (Some ws)"
  obtains s where "write_image_bitmap fd info (Some ws) w =
      Some (True, (put_bytes fd (bitmap_section (unat (totalblock info)) ws)
                    (w\<lparr>crc_tab32 := crc_table\<rparr>))\<lparr>w_sched := s\<rparr>)"
    and "list_all transient s"
proof -
  let ?n = "BITS_TO_BYTES (unat (totalblock info))"
  let ?data = "take ?n (words_bytes ws)"
  let ?crc = "le_bytes 4 (crc32 crc_table CRC32_SEED ?data)"
  have n: "?n < 2 ^ 31" using tot by (simp add: BITS_TO_BYTES_small)
  have len: "length ?data = ?n"
    using tot by (auto simp: bm_wf_def BITS_TO_BYTES_small)
  from io_all_write_benign [OF on len n assms(3)] assms(4) obtain s where
      one: "write_read_io_all fd ?data ?n True w = (int ?n, [], (put_bytes fd ?data w)\<lparr>w_sched := s\<rparr>)"
    and s: "list_all transient s"
    by blast
  let ?w = "(put_bytes fd ?data w)\<lparr>w_sched := s, crc_tab32 := crc_table\<rparr>"
  have b: "benign ?w" using s by (simp add: benign_def)
  have on': "fd_on ?w fd p (pos + length ?data) True (node_put nd pos ?data)"
    using fd_on_put_bytes [OF on, of ?data] by simp
  obtain s' where
      two: "write_read_io_all fd ?crc 4 True ?w = (int 4, [], (put_bytes fd ?crc ?w)\<lparr>w_sched := s'\<rparr>)"
    and s': "list_all transient s'"
    by (rule io_all_write_benign [OF on', of ?crc 4]) (use b assms(4) in auto)
  show thesis
  proof (rule that)
    have "crc_ready (put_bytes fd ?data w)" using assms(2) by (simp add: crc_ready_def)
    then show "write_image_bitmap fd info (Some ws) w =
      Some (True, (put_bytes fd (bitmap_section (unat (totalblock info)) ws)
                    (w\<lparr>crc_tab32 := crc_table\<rparr>))\<lparr>w_sched := s'\<rparr>)"
      using one two n
      by (simp add: write_image_bitmap_def init_crc32_ready crc_ready_def Let_def bitmap_section_def
          put_bytes_append)
  qed (rule s')
qed

text \<open>Reading: which headers are accepted, and what is returned for them.\<close>

definition header_valid :: "byte list \<Rightarrow> bool" where
  "header_valid bs \<longleftrightarrow> length bs = 110 \<and> take 15 bs = IMAGE_MAGIC \<and>
     crc32 crc_table CRC32_SEED bs = 0 \<and> endianess (head (parse_desc bs)) = ENDIAN_MAGIC"

lemma header_valid_image: "fs_info_wf info \<Longrightarrow> header_valid (image_header info q)"
proof -
  assume info: "fs_info_wf info"
  let ?body = "desc_body init_image_head info q"
  have "take 15 (image_header info q) = IMAGE_MAGIC"
    by (simp add: image_header_def desc_body_def head_bytes_def Let_def magic_init
        head_wf_init [unfolded head_wf_def])
  moreover have "crc32 crc_table CRC32_SEED (image_header info q) = 0"
    by (simp add: image_header_def Let_def crc32_residue)
  moreover have "parse_desc (image_header info q) =
      \<lparr>head = init_image_head, fs_info = info, options = q, crc = crc32 crc_table CRC32_SEED ?body\<rparr>"
    using info by (simp add: image_header_def Let_def parse_desc_bytes)
  ultimately show ?thesis
    using info by (simp add: header_valid_def length_image_header init_image_head_def)
qed

lemma crc_field_eq:
  assumes "length bs = 110"
  shows "crc32 crc_table c (take 106 bs) = crc (parse_desc bs) \<longleftrightarrow> crc32 crc_table c bs = 0"
proof -
  have "length (drop 106 bs) = 4" using assms by simp
  then have "crc32 crc_table c (take 106 bs @ drop 106 bs) = 0 \<longleftrightarrow>
      crc32 crc_table c (take 106 bs) = le_word (drop 106 bs)"
    by (rule crc32_residue)
  moreover have "crc (parse_desc bs) = le_word (drop 106 bs)"
    using assms by (simp add: parse_desc_def field_def)
  ultimately show ?thesis by simp
qed

lemma read_image_desc_cases:
  assumes on: "fd_on w fd p pos False nd" and "crc_ready w"
  obtains (accepted) s where "header_valid (take 110 (drop pos (i_bytes nd)))"
      and "read_image_desc fd w =
        (let d = parse_desc (take 110 (drop pos (i_bytes nd))) in
         (Some (head d, fs_info d, options d),
          (set_pos fd (pos + 110) w)\<lparr>w_sched := s, crc_tab32 := crc_table\<rparr>))"
      and "benign w \<Longrightarrow> list_all transient s"
  | (rejected) w' where "read_image_desc fd w = (None, w')"
      and "\<not> (benign w \<and> header_valid (take 110 (drop pos (i_bytes nd))))"
proof -
  have "(110 :: nat) < 2 ^ 31" by simp
  show thesis
  proof (cases rule: io_all_read [OF on \<open>110 < 2 ^ 31\<close>, of "[]", case_names full partly])
    case (full s)
    define bs where "bs = take 110 (drop pos (i_bytes nd))"
    have len: "length bs = 110" using full(3) by (auto simp: bs_def)
    let ?w = "(set_pos fd (pos + 110) w)\<lparr>w_sched := s\<rparr>"
    have ready: "crc_ready ?w" using assms(2) by (simp add: crc_ready_def)
    have rd: "write_read_io_all fd [] 110 False w = (110, bs, ?w)" using full(1) by (simp add: bs_def)
    have "fst (read_image_desc fd w) = None" if "\<not> header_valid bs"
      using that len ready by (auto simp: read_image_desc_def rd init_crc32_ready Let_def header_valid_def crc_field_eq)
    moreover have "read_image_desc fd w = (let d = parse_desc bs in
         (Some (head d, fs_info d, options d), ?w\<lparr>crc_tab32 := crc_table\<rparr>))" if "header_valid bs"
      using that len ready by (simp add: read_image_desc_def rd init_crc32_ready Let_def header_valid_def crc_field_eq)
    ultimately show ?thesis
      using accepted [of s] rejected [of "snd (read_image_desc fd w)"] full(2)
      unfolding bs_def by (cases "header_valid bs") (auto simp: bs_def prod_eq_iff)
  next
    case (partly k s r)
    then have "\<not> (benign w \<and> header_valid (take 110 (drop pos (i_bytes nd))))"
      by (auto simp: header_valid_def)
    moreover have "\<exists>w'. read_image_desc fd w = (None, w')"
      using partly(1,3) by (auto simp: read_image_desc_def Let_def)
    ultimately show ?thesis using rejected by blast
  qed
qed

lemma load_image_bitmap_bits_ok:
  assumes on: "fd_on w fd p pos False nd" and "crc_ready w" and "benign w"
    and tot: "tot = unat (totalblock info)" "tot < 2 ^ 33" and wf: "bm_wf tot (Some ws)"
    and sect: "take (BITS_TO_BYTES tot + 4) (drop pos (i_bytes nd)) = bitmap_section tot ws"
  obtains s ws' where "load_image_bitmap_bits fd info (Some (replicate (BITS_TO_LONGS tot) 0)) w =
      ((True, Some ws'), (set_pos fd (pos + (BITS_TO_BYTES tot + 4)) w)\<lparr>w_sched := s, crc_tab32 := crc_table\<rparr>)"
    and "list_all transient s" and "bm_wf tot (Some ws')"
    and "\<And>i. i < tot \<Longrightarrow> bm_mem (Some ws') i = bm_mem (Some ws) i"
proof -
  let ?n = "BITS_TO_BYTES tot"
  let ?data = "take ?n (words_bytes ws)"
  let ?zs = "replicate (BITS_TO_LONGS tot) (0 :: u64)"
  let ?ws = "bytes_words (?data @ drop ?n (words_bytes ?zs))"
  have small: "tot < 2 ^ 63" using tot by simp
  have n: "?n < 2 ^ 31" using tot by (simp add: BITS_TO_BYTES_small)
  have len: "length ?data = ?n" using wf small by (auto simp: bm_wf_def BITS_TO_BYTES_small)
  have "length (take (?n + 4) (drop pos (i_bytes nd))) = ?n + 4"
    unfolding sect using small wf by (rule length_bitmap_section)
  then have room: "pos + (?n + 4) \<le> length (i_bytes nd)" by simp
  have d1: "take ?n (drop pos (i_bytes nd)) = ?data"
    using arg_cong [OF sect, of "take ?n"] len by (simp add: bitmap_section_def Let_def)
  have d2: "take 4 (drop (pos + ?n) (i_bytes nd)) = le_bytes 4 (crc32 crc_table CRC32_SEED ?data)"
    using arg_cong [OF sect, of "drop ?n"] len
    by (simp add: bitmap_section_def Let_def drop_take add.commute)
  obtain s where one: "write_read_io_all fd [] ?n False w =
      (int ?n, ?data, (set_pos fd (pos + ?n) w)\<lparr>w_sched := s\<rparr>)" and s: "list_all transient s"
    using io_all_read_benign [OF on n assms(3), of "[]"] room d1 by auto
  let ?w = "(set_pos fd (pos + ?n) w)\<lparr>w_sched := s\<rparr>"
  have on': "fd_on ?w fd p (pos + ?n) False nd" using fd_on_set_pos(1) [OF on] by simp
  obtain s' where two: "write_read_io_all fd [] 4 False ?w =
      (int 4, le_bytes 4 (crc32 crc_table CRC32_SEED ?data), (set_pos fd (pos + ?n + 4) ?w)\<lparr>w_sched := s'\<rparr>)"
    and s': "list_all transient s'"
    using io_all_read_benign [OF on', of 4 "[]"] room d2 s by (auto simp: benign_def)
  have "load_image_bitmap_bits fd info (Some ?zs) w =
      ((True, Some ?ws), (set_pos fd (pos + (?n + 4)) w)\<lparr>w_sched := s', crc_tab32 := crc_table\<rparr>)"
    using one two len n assms(2) unfolding load_image_bitmap_bits_def tot(1) [symmetric]
    by (simp add: init_crc32_ready crc_ready_def add.assoc Let_def)
  moreover have "bm_wf tot (Some ?ws)"
    using len small by (simp add: bm_wf_def BITS_TO_BYTES_small BITS_TO_LONGS_small)
  ultimately show thesis
    using that s' bm_mem_reload [OF small _ wf, of _ ?zs ?data] by simp
qed

section \<open>Properties\<close>

lemma take_drop_write_at: "take (length d) (drop p (write_at bs p d)) = d"
proof -
  have "length (take p (bs @ replicate (p - length bs) 0)) = p" by auto
  then show ?thesis by (simp add: write_at_def)
qed

lemma written_header:
  assumes "write_image_desc fd info q w = (True, w')" and "fd_on w fd p pos True nd" and "crc_ready w"
    and "fs_info_wf info" and "w_nodes w' p = Some nd'"
  shows "take 110 (drop pos (i_bytes nd')) = image_header info q"
proof -
  let ?h = "image_header info q"
  have len: "length ?h = 110" using assms(4) by (rule length_image_header)
  obtain s where w': "w' = (put_bytes fd ?h (w\<lparr>crc_tab32 := crc_table\<rparr>))\<lparr>w_sched := s\<rparr>"
    using write_image_desc_cases [OF assms(2-4), of q] assms(1) by auto
  have on: "fd_on (w\<lparr>crc_tab32 := crc_table\<rparr>) fd p pos True nd" using assms(2) by simp
  have "w_nodes w' p = Some (node_put nd pos ?h)" using on by (simp add: w' w_nodes_put_on)
  moreover have "?h \<noteq> []" using len by auto
  ultimately have "i_bytes nd' = write_at (i_bytes nd) pos ?h" using assms(5) by (simp add: node_put_def)
  then show ?thesis using take_drop_write_at [of ?h pos "i_bytes nd"] len by simp
qed

lemma read_written_header:
  assumes "fd_on v fd q pos False img" and "take 110 (drop pos (i_bytes img)) = image_header info opt"
    and "crc_ready v" and "benign v" and wf: "fs_info_wf info"
  shows "fst (read_image_desc fd v) = Some (init_image_head, info, opt)"
proof (cases rule: read_image_desc_cases [OF assms(1,3), case_names accepted rejected])
  case (accepted s)
  have "parse_desc (image_header info opt) = \<lparr>head = init_image_head, fs_info = info, options = opt,
      crc = crc32 crc_table CRC32_SEED (desc_body init_image_head info opt)\<rparr>"
    by (simp add: image_header_def Let_def parse_desc_bytes wf)
  then show ?thesis using accepted(2) by (simp add: assms(2) Let_def)
next
  case (rejected w')
  then show ?thesis using assms(2,4) header_valid_image [OF wf, of opt] by simp
qed

text \<open>
  C19: The image header is read back as it was written. Whatever interruptions and short transfers the
  writer met, when \<^verbatim>\<open>write_image_desc\<close> reports success, a reader positioned at the same bytes gets from
  \<^verbatim>\<open>read_image_desc\<close> the same file system information and options, field by field.
\<close>

theorem image_header_round_trip:
  assumes "write_image_desc fd info opt w = (True, w')" and "fd_on w fd p pos True nd" and "crc_ready w"
    and "fs_info_wf info" and "w_nodes w' p = Some nd'"
    and "fd_on v fd' q pos' False img" and "take 110 (drop pos' (i_bytes img)) = take 110 (drop pos (i_bytes nd'))"
    and "crc_ready v" and "benign v"
  shows "fst (read_image_desc fd' v) = Some (init_image_head, info, opt)"
  using read_written_header [OF assms(6) _ assms(8,9,4)] written_header [OF assms(1-5)] assms(7) by simp

theorem image_header_round_trip_witness:
  "\<exists>w' nd'. write_image_desc 0 init_file_system_info init_image_options (io_world True\<lparr>w_sched := [Fail EINTR, Short 99]\<rparr>) = (True, w') \<and>
     w_nodes w' ''f'' = Some nd' \<and>
     fst (read_image_desc 0 (io_world False\<lparr>w_nodes := [''f'' \<mapsto> nd'], w_sched := [Short 7]\<rparr>)) =
       Some (init_image_head, init_file_system_info, init_image_options)"
proof -
  let ?w = "io_world True\<lparr>w_sched := [Fail EINTR, Short 99]\<rparr>"
  have on: "fd_on ?w 0 ''f'' 0 True io_node" using io_world_on by simp
  have r: "crc_ready ?w" "benign ?w" "i_kind io_node \<noteq> BLK"
    by (simp_all add: crc_ready_def io_world_def benign_def io_node_def)
  obtain s where wr: "write_image_desc 0 init_file_system_info init_image_options ?w = (True,
      (put_bytes 0 (image_header init_file_system_info init_image_options) (?w\<lparr>crc_tab32 := crc_table\<rparr>))\<lparr>w_sched := s\<rparr>)"
    by (cases rule: write_image_desc_cases [OF on r(1) fs_info_wf_init, of init_image_options, case_names ok failed])
       (use r(2,3) in auto)
  have on': "fd_on (?w\<lparr>crc_tab32 := crc_table\<rparr>) 0 ''f'' 0 True io_node" using on by simp
  obtain nd' where nd': "w_nodes (snd (write_image_desc 0 init_file_system_info init_image_options ?w)) ''f'' = Some nd'"
    using on' by (simp add: wr w_nodes_put_on)
  let ?v = "io_world False\<lparr>w_nodes := [''f'' \<mapsto> nd'], w_sched := [Short 7]\<rparr>"
  have v: "fd_on ?v 0 ''f'' 0 False nd'" "crc_ready ?v" "benign ?v"
    by (simp_all add: fd_on_def io_world_def fd_lookup_def crc_ready_def benign_def)
  have "fst (read_image_desc 0 ?v) = Some (init_image_head, init_file_system_info, init_image_options)"
    by (rule image_header_round_trip [OF wr on r(1) fs_info_wf_init _ v(1) refl v(2,3)]) (use nd' wr in simp)
  with wr nd' [unfolded wr snd_conv] show ?thesis by blast
qed

text \<open>
  C20: A damaged header is refused. When the header of an image was changed inside one stretch of at most
  four bytes, anywhere in its 110 bytes, \<^verbatim>\<open>read_image_desc\<close> fails, under every schedule.
\<close>

theorem damaged_header_refused:
  assumes "fs_info_wf info" and "image_header info opt = a @ m @ b" and "length m = length m'" and "length m \<le> 4"
    and "m \<noteq> m'" and "fd_on v fd q pos False img" and "take 110 (drop pos (i_bytes img)) = a @ m' @ b" and "crc_ready v"
  shows "fst (read_image_desc fd v) = None"
proof (cases rule: read_image_desc_cases [OF assms(6,8), case_names accepted rejected])
  case (accepted s)
  have "crc32 crc_table CRC32_SEED (a @ m @ b) = 0"
    using header_valid_image [OF assms(1), of opt] by (simp add: header_valid_def assms(2))
  moreover have "crc32 crc_table CRC32_SEED (a @ m' @ b) = 0"
    using accepted(1) by (simp only: header_valid_def assms(7))
  ultimately show ?thesis using crc32_burst [OF assms(3-5)] by metis
next
  case (rejected w')
  then show ?thesis by simp
qed

definition damaged_world :: world where
  "damaged_world =
     io_world False\<lparr>w_nodes := [''f'' \<mapsto> io_node\<lparr>i_bytes :=
       (let h = image_header init_file_system_info init_image_options in take 60 h @ [drop 60 h ! 0 + 1] @ drop 61 h)\<rparr>]\<rparr>"

theorem damaged_header_refused_witness: "fst (read_image_desc 0 damaged_world) = None"
proof -
  let ?h = "image_header init_file_system_info init_image_options"
  have len: "length ?h = 110" by (simp add: length_image_header)
  have split: "?h = take 60 ?h @ [drop 60 ?h ! 0] @ drop 61 ?h"
    using id_take_nth_drop [of 60 ?h] len by simp
  show ?thesis
  proof (rule damaged_header_refused [OF fs_info_wf_init split])
    show "fd_on damaged_world 0 ''f'' 0 False (io_node\<lparr>i_bytes := take 60 ?h @ [drop 60 ?h ! 0 + 1] @ drop 61 ?h\<rparr>)"
      by (simp add: damaged_world_def fd_on_def io_world_def fd_lookup_def Let_def)
    show "crc_ready damaged_world" by (simp add: damaged_world_def io_world_def crc_ready_def)
  qed (use len in simp_all)
qed


definition bitmap_image_world :: world where
  "bitmap_image_world =
     io_world False\<lparr>w_nodes := [''f'' \<mapsto> io_node\<lparr>i_bytes := bitmap_section 70 [5, 0x3F]\<rparr>], w_sched := [Short 2]\<rparr>"


end
