(* ===== verification/Share.thy ===== *)
theory Share
  imports Image
begin

text \<open>
  The rest of \<^verbatim>\<open>src/src/gdbus-share.c\<close>: memory and space checks, the block arithmetic of the
  image format, the count of used blocks, and how source and target devices are opened.
\<close>

section \<open>Definitions\<close>

definition DEFAULT_BUFFER_SIZE :: nat where "DEFAULT_BUFFER_SIZE = 1048576"

definition BACK_DD :: int where "BACK_DD = 1"
definition BACK_PTF :: int where "BACK_PTF = 2"
definition BACK_PTP :: int where "BACK_PTP = 3"
definition RESTORE :: int where "RESTORE = 4"

text \<open>
  \<^verbatim>\<open>DEFAULT_BUFFER_SIZE > block_size ? DEFAULT_BUFFER_SIZE / block_size : 1\<close>, the number of blocks
  moved at a time, as every function of the daemon computes it.
\<close>

definition buffer_capacity :: "nat \<Rightarrow> nat option" where
  "buffer_capacity bs =
     (if DEFAULT_BUFFER_SIZE > bs then cdiv DEFAULT_BUFFER_SIZE bs else Some 1)"

text \<open>All three allocations are made before their results are looked at.\<close>

definition check_memory_size :: "file_system_info \<Rightarrow> image_options \<Rightarrow> world \<Rightarrow> (bool \<times> world) option" where
  "check_memory_size info img_opt w =
     do {
       cap \<leftarrow> buffer_capacity (unat (block_size info));
       cs_in_buffer \<leftarrow> cdiv cap (unat (blocks_per_checksum img_opt));
       let (test_bitmap, w) = sys_malloc w;
       let (test_read, w) = sys_malloc w;
       let (test_write, w) = sys_malloc w;
       Some (\<not> (\<not> test_bitmap \<or> \<not> test_read \<or> \<not> test_write), w)
     }"

text \<open>
  \<^verbatim>\<open>update_used_blocks_count\<close>. The loop variable is a 32-bit \<^verbatim>\<open>uint\<close> while the bound has 64 bits.
\<close>

partial_function (option) used_blocks_loop :: "bitmap \<Rightarrow> nat \<Rightarrow> u32 \<Rightarrow> nat \<Rightarrow> nat option" where
  "used_blocks_loop bitmap tot i used =
     (if unat i < tot
      then used_blocks_loop bitmap tot (i + 1)
             (if pc_test_bit (unat i) bitmap tot \<noteq> 0 then used + 1 else used)
      else Some used)"

definition update_used_blocks_count :: "file_system_info \<Rightarrow> bitmap \<Rightarrow> file_system_info option" where
  "update_used_blocks_count info bitmap =
     do {
       used \<leftarrow> used_blocks_loop bitmap (unat (totalblock info)) 0 0;
       Some (info\<lparr>used_bitmap := of_nat used\<rparr>)
     }"

definition get_checksum_count :: "nat \<Rightarrow> nat \<Rightarrow> nat" where
  "get_checksum_count block_count blocks_per_cs =
     (if blocks_per_cs = 0 then 0 else block_count div blocks_per_cs)"

text \<open>
  The product of two 32-bit operands is a 32-bit product; the rest is 64-bit arithmetic.
\<close>

definition convert_blocks_to_bytes :: "nat \<Rightarrow> nat \<Rightarrow> nat \<Rightarrow> nat \<Rightarrow> nat \<Rightarrow> nat" where
  "convert_blocks_to_bytes block_offset block_count bs bpc csize =
     (let bytes_count = (block_count * bs) mod 2 ^ 32
      in if bpc \<noteq> 0
         then (let total_cs = get_checksum_count ((block_offset + block_count) mod 2 ^ 64) bpc;
                   copied_cs = get_checksum_count block_offset bpc;
                   newer_cs = (total_cs + 2 ^ 64 - copied_cs) mod 2 ^ 64
               in (bytes_count + newer_cs * csize) mod 2 ^ 64)
         else bytes_count)"

definition get_local_free_space :: "string \<Rightarrow> world \<Rightarrow> nat" where
  "get_local_free_space path w =
     (case w_vfs w path of
        None \<Rightarrow> 0
      | Some (f_frsize, f_bsize, f_bfree) \<Rightarrow>
          (case sys_stat path w of
             None \<Rightarrow> 0
           | Some (k, _) \<Rightarrow>
               if k = FIFO then 0
               else (let dest_size = (f_frsize * f_bfree) mod 2 ^ 64
                     in if dest_size = 0 then (f_bsize * f_bfree) mod 2 ^ 64 else dest_size)))"

definition get_partition_free_space :: "int \<Rightarrow> world \<Rightarrow> nat" where
  "get_partition_free_space fd w =
     (case sys_fstat fd w of
        None \<Rightarrow> 0
      | Some (k, st_size) \<Rightarrow>
          if k = FIFO then 0
          else if k = REG then st_size
          else (case sys_blkgetsize64 fd w of None \<Rightarrow> 0 | Some n \<Rightarrow> n))"

definition is_block_type :: "string \<Rightarrow> world \<Rightarrow> int" where
  "is_block_type device w =
     (case sys_stat device w of
        Some (k, _) \<Rightarrow> if k = BLK then 1 else 0
      | None \<Rightarrow> 0)"

definition rdonly :: open_flags where
  "rdonly = \<lparr>fl_write = False, fl_creat = False, fl_trunc = False, fl_excl = False\<rparr>"

text \<open>
  One plain \<^verbatim>\<open>read\<close>, not the transfer loop. The descriptor stays open when the file is not an image.
\<close>

definition check_file_type :: "string \<Rightarrow> world \<Rightarrow> bool \<times> world" where
  "check_file_type filename w =
     (case sys_stat filename w of
        None \<Rightarrow> (True, w)
      | Some (_, st_size) \<Rightarrow>
          if st_size \<le> 0 then (True, w)
          else (let (fd, w) = sys_open filename rdonly w
                in if fd \<le> 0 then (False, w)
                   else (case sys_read fd 110 w of
                           (Inl e, w) \<Rightarrow> (False, w)
                         | (Inr bs, w) \<Rightarrow>
                             if length bs \<noteq> 110 then (False, w)
                             else if take 15 bs \<noteq> IMAGE_MAGIC then (False, w)
                             else (let (seed, w) = init_crc32 w;
                                       c = crc32 (crc_tab32 w) seed (take 106 bs)
                                   in if c \<noteq> crc (parse_desc bs) then (False, w)
                                      else (True, sys_close fd w)))))"

definition open_source_device :: "string \<Rightarrow> int \<Rightarrow> world \<Rightarrow> int \<times> world" where
  "open_source_device device mode w =
     (let ddd_block_device = (if mode = BACK_DD then is_block_type device w else -1)
      in if mode = BACK_PTF \<or> mode = BACK_PTP \<or> ddd_block_device = 1 then sys_open device rdonly w
         else if mode = RESTORE \<or> ddd_block_device = 0 then sys_open device rdonly w
         else (0, w))"

text \<open>
  The result of the second \<^verbatim>\<open>stat\<close> is not checked: when it fails, the file type is whatever the
  uninitialised \<^verbatim>\<open>st_dev\<close> on the stack says (\<^verbatim>\<open>S_IFBLK\<close> is 6 in the upper four bits).
\<close>

definition stat_isblk :: "string \<Rightarrow> world \<Rightarrow> bool" where
  "stat_isblk path w =
     (case sys_stat path w of
        Some (k, _) \<Rightarrow> k = BLK
      | None \<Rightarrow> drop_bit 4 (w_junk w) = 6)"

definition open_target_device :: "string \<Rightarrow> int \<Rightarrow> bool \<Rightarrow> world \<Rightarrow> int \<times> world" where
  "open_target_device target mode ovr w =
     (let (ok, w) = check_file_type target w
      in if \<not> ok then (0, w)
         else (let ddd_block_device = (if mode = BACK_DD then is_block_type target w else -1)
               in if mode = BACK_PTF \<or> ddd_block_device = 0
                  then sys_open target
                         \<lparr>fl_write = True, fl_creat = True, fl_trunc = True, fl_excl = \<not> ovr\<rparr> w
                  else if mode = RESTORE \<or> mode = BACK_PTP \<or> ddd_block_device = 1
                  then (if \<not> stat_isblk target w
                        then sys_open target
                               \<lparr>fl_write = True, fl_creat = True, fl_trunc = False, fl_excl = \<not> ovr\<rparr> w
                        else sys_open target
                               \<lparr>fl_write = True, fl_creat = False, fl_trunc = False, fl_excl = False\<rparr> w)
                  else (0, w)))"

section \<open>Lemmas\<close>

lemma buffer_capacity_pos: "buffer_capacity bs = Some cap \<Longrightarrow> 0 < cap"
  by (auto simp: buffer_capacity_def cdiv_def DEFAULT_BUFFER_SIZE_def div_greater_zero_iff split: if_splits)

lemma buffer_capacity_Some: "0 < bs \<Longrightarrow> \<exists>cap. buffer_capacity bs = Some cap"
  by (simp add: buffer_capacity_def)

lemma buffer_capacity_bytes:
  "buffer_capacity bs = Some cap \<Longrightarrow> cap * bs \<le> max DEFAULT_BUFFER_SIZE bs"
  by (auto simp: buffer_capacity_def cdiv_def max_def split: if_splits)

end
