(* ===== verification/ProgressBar.thy ===== *)
theory ProgressBar
  imports Share
begin

text \<open>
  \<^verbatim>\<open>src/src/progress.c\<close>: the progress figures sent while blocks are copied. The \<^verbatim>\<open>float\<close> values
  are exact rationals here: rounding to the float format is not modelled.
\<close>

section \<open>Definitions\<close>

record progress_bar =
  start :: int
  stop :: nat
  pb_block_size :: int
  initial_time :: int
  pb_unit :: rat

record progress_data =
  percent :: rat
  speed :: rat
  elapsed :: int

text \<open>
  \<^verbatim>\<open>100.0 / (stop - start)\<close> is infinite in C when \<open>stop = start\<close>; the field is then never read,
  because \<^verbatim>\<open>progress_update\<close> returns before.
\<close>

definition progress_init :: "int \<Rightarrow> nat \<Rightarrow> int \<Rightarrow> world \<Rightarrow> progress_bar \<times> world" where
  "progress_init st sp bsize w =
     (let (t, w) = sys_time w
      in (\<lparr>start = st, stop = sp, pb_block_size = bsize, initial_time = t,
           pb_unit = 100 / of_int ((int sp - st) mod 2 ^ 64)\<rparr>, w))"

definition calculate_speed :: "progress_bar \<Rightarrow> nat \<Rightarrow> world \<Rightarrow> progress_data \<times> world" where
  "calculate_speed prog copied w =
     (let p = pb_unit prog * of_nat copied;
          p = (if p \<le> 0 then 1 else if p \<ge> 100 then 9999 / 100 else p);
          (t, w) = sys_time w;
          el = t - initial_time prog;
          el = (if el \<le> 0 then 1 else el);
          speedps = (pb_block_size prog * int copied) mod 2 ^ 64 div el;
          dspeed = (if speedps \<ge> 1000 then of_int speedps / 1000 else of_int speedps)
      in (\<lparr>percent = p, speed = dspeed, elapsed = el\<rparr>, w))"

definition progress_update :: "progress_bar \<Rightarrow> nat \<Rightarrow> progress_data \<Rightarrow> world \<Rightarrow> (bool \<times> progress_data) \<times> world" where
  "progress_update prog copied pdata w =
     (if copied \<ge> stop prog then ((False, pdata), w)
      else (let (pd, w) = calculate_speed prog copied w in ((True, pd), w)))"

text \<open>
  The callers' use of it: on \<^verbatim>\<open>FALSE\<close> only the percentage is set, to 100, and the signal is sent.
  Their \<^verbatim>\<open>pdata\<close> starts uninitialised.
\<close>

definition junk_pdata :: "world \<Rightarrow> progress_data" where
  "junk_pdata w =
     \<lparr>percent = of_nat (unat (w_junk w)), speed = of_nat (unat (w_junk w)), elapsed = uint (w_junk w)\<rparr>"

definition report_progress :: "progress_bar \<Rightarrow> nat \<Rightarrow> progress_data \<Rightarrow> world \<Rightarrow> progress_data \<times> world" where
  "report_progress prog copied pdata w =
     (let ((ok, pd), w) = progress_update prog copied pdata w;
          pd = (if ok then pd else pd\<lparr>percent := 100\<rparr>)
      in (pd, emit (Progress (percent pd) (speed pd) (elapsed pd)) w))"

section \<open>Lemmas\<close>

text \<open>A call changes the clock readings left and, when it reports, the messages sent.\<close>

lemma sys_time_frame:
  "sys_time w = (t, w') \<Longrightarrow> \<exists>c. w' = w\<lparr>w_clock := c\<rparr>"
  by (cases "w_clock w") (auto simp: sys_time_def intro: exI [of _ "w_clock w"])

lemma report_progress_frame:
  "report_progress prog copied pdata w = (pd, w') \<Longrightarrow> \<exists>c l. w' = w\<lparr>w_clock := c, w_out := l\<rparr>"
proof -
  assume *: "report_progress prog copied pdata w = (pd, w')"
  show ?thesis
  proof (cases "copied \<ge> stop prog")
    case True
    with * have "w' = w\<lparr>w_clock := w_clock w, w_out := w_out w'\<rparr>"
      by (auto simp: report_progress_def progress_update_def emit_def)
    then show ?thesis by blast
  next
    case False
    obtain t w1 where t: "sys_time w = (t, w1)" by fastforce
    from sys_time_frame [OF t] obtain c where "w1 = w\<lparr>w_clock := c\<rparr>" by blast
    with * False t show ?thesis
      by (auto simp: report_progress_def progress_update_def calculate_speed_def emit_def Let_def)
  qed
qed

lemma progress_init_frame:
  "progress_init st sp bsize w = (prog, w') \<Longrightarrow> \<exists>c. w' = w\<lparr>w_clock := c\<rparr>"
  by (auto simp: progress_init_def Let_def split: prod.splits dest: sys_time_frame)

end
