(* ===== verification/Copy.thy ===== *)
theory Copy
  imports ProgressBar
begin

text \<open>
  The copy engine: \<^verbatim>\<open>get_read_blocks_size\<close>, \<^verbatim>\<open>check_system_space\<close>, \<^verbatim>\<open>read_write_data_ptf\<close>,
  \<^verbatim>\<open>read_write_data_ptp\<close>, \<^verbatim>\<open>get_blocks_used\<close> and \<^verbatim>\<open>read_write_data_restore\<close>. The first four are
  static functions that \<^verbatim>\<open>gdbus-extfs.c\<close>, \<^verbatim>\<open>gdbus-fatfs.c\<close>, \<^verbatim>\<open>gdbus-btrfs.c\<close> and
  \<^verbatim>\<open>gdbus-xfsfs.c\<close> each have a copy of. The copies differ in two points, which are parameters
  here: whether the target is flushed after every chunk (\<open>sync\<close>), and the block size the code
  uses (\<open>bs\<close>, a file-level variable in \<^verbatim>\<open>gdbus-btrfs.c\<close>, a field of \<^verbatim>\<open>fs_info\<close> elsewhere).
  The static \<^verbatim>\<open>copied_count\<close>, which every handler sets to 0 before it calls the engine, is passed
  as the argument \<open>cc\<close>.
\<close>

section \<open>Choosing the next run of blocks\<close>

function skip_loop :: "bitmap \<Rightarrow> nat \<Rightarrow> nat \<Rightarrow> nat \<Rightarrow> nat" where
  "skip_loop bitmap tot block_id blocks_skip =
     (if block_id + blocks_skip < tot \<and> pc_test_bit (block_id + blocks_skip) bitmap tot = 0
      then skip_loop bitmap tot block_id (blocks_skip + 1) else blocks_skip)"
  by pat_completeness auto
termination
  by (relation "measure (\<lambda>(bitmap, tot, block_id, blocks_skip). tot - (block_id + blocks_skip))") auto

function run_loop :: "bitmap \<Rightarrow> nat \<Rightarrow> nat \<Rightarrow> nat \<Rightarrow> nat \<Rightarrow> nat" where
  "run_loop bitmap tot cap block_id blocks_read =
     (if block_id + blocks_read < tot \<and> blocks_read < cap \<and>
         pc_test_bit (block_id + blocks_read) bitmap tot \<noteq> 0
      then run_loop bitmap tot cap block_id (blocks_read + 1) else blocks_read)"
  by pat_completeness auto
termination
  by (relation "measure (\<lambda>(bitmap, tot, cap, block_id, blocks_read). tot - (block_id + blocks_read))") auto

declare skip_loop.simps [simp del] run_loop.simps [simp del]

text \<open>The number of blocks to read and the updated \<^verbatim>\<open>*block_id\<close>.\<close>

definition get_read_blocks_size :: "nat \<Rightarrow> nat \<Rightarrow> bitmap \<Rightarrow> nat \<Rightarrow> nat \<times> nat" where
  "get_read_blocks_size tot cap bitmap block_id =
     (let blocks_skip = skip_loop bitmap tot block_id 0
      in if block_id + blocks_skip = tot then (0, block_id)
         else (let block_id = (if blocks_skip \<noteq> 0 then block_id + blocks_skip else block_id)
               in (run_loop bitmap tot cap block_id 0, block_id)))"

definition check_system_space :: "file_system_info \<Rightarrow> string \<Rightarrow> image_options \<Rightarrow> world \<Rightarrow> bool" where
  "check_system_space info targer img_opt w =
     (let needed_space = 36 + 52 + 18;
          needed_space = (needed_space + BITS_TO_BYTES (unat (totalblock info))) mod 2 ^ 64;
          needed_space = (needed_space +
            convert_blocks_to_bytes 0 (unat (usedblocks info) mod 2 ^ 32)
              (unat (block_size info)) (unat (blocks_per_checksum img_opt))
              (unat (checksum_size img_opt))) mod 2 ^ 64;
          free_space = get_local_free_space targer w
      in \<not> free_space < needed_space)"

section \<open>Partition to file\<close>

text \<open>
  The \<open>i\<close> loop of \<^verbatim>\<open>read_write_data_ptf\<close>: from the blocks in \<open>rbuf\<close> it fills the write buffer
  (first result), inserting the checksum after every \<open>bpc\<close> blocks; the other results are
  \<^verbatim>\<open>cs_added\<close>, \<^verbatim>\<open>checksum\<close>, \<^verbatim>\<open>blocks_in_cs\<close> and the state.
\<close>

primrec ptf_blocks ::
    "nat \<Rightarrow> nat \<Rightarrow> nat \<Rightarrow> int \<Rightarrow> nat \<Rightarrow> byte list \<Rightarrow> byte list \<Rightarrow> nat \<Rightarrow> world
     \<Rightarrow> byte list \<times> nat \<times> byte list \<times> nat \<times> world" where
  "ptf_blocks bs bpc csize mode 0 rbuf checksum blocks_in_cs w = ([], 0, checksum, blocks_in_cs, w)"
| "ptf_blocks bs bpc csize mode (Suc n) rbuf checksum blocks_in_cs w =
     (let blk = take bs rbuf;
          checksum = update_checksum checksum blk w
      in if bpc > 0 \<and> blocks_in_cs + 1 = bpc
         then (let cs_bytes = take csize checksum;
                   (checksum, w) = init_checksum mode checksum w;
                   (out, cs_added, checksum, blocks_in_cs, w) =
                     ptf_blocks bs bpc csize mode n (drop bs rbuf) checksum 0 w
               in (blk @ cs_bytes @ out, cs_added + 1, checksum, blocks_in_cs, w))
         else (let blocks_in_cs = (if bpc > 0 then blocks_in_cs + 1 else blocks_in_cs);
                   (out, cs_added, checksum, blocks_in_cs, w) =
                     ptf_blocks bs bpc csize mode n (drop bs rbuf) checksum blocks_in_cs w
               in (blk @ out, cs_added, checksum, blocks_in_cs, w)))"

text \<open>\<^verbatim>\<open>(off_t)\<close> of an unsigned 64-bit product.\<close>

definition to_off :: "nat \<Rightarrow> int" where
  "to_off n = sint (of_nat n :: u64)"

lemma skip_loop_bounds:
  "block_id + s \<le> tot \<Longrightarrow> s \<le> skip_loop bitmap tot block_id s \<and> block_id + skip_loop bitmap tot block_id s \<le> tot"
proof (induction bitmap tot block_id s rule: skip_loop.induct)
  case (1 bitmap tot block_id s)
  then show ?case
    by (subst (1 2) skip_loop.simps) auto
qed

lemma run_loop_bounds:
  "block_id + r \<le> tot \<Longrightarrow> r \<le> cap \<Longrightarrow>
   r \<le> run_loop bitmap tot cap block_id r \<and> run_loop bitmap tot cap block_id r \<le> cap \<and>
   block_id + run_loop bitmap tot cap block_id r \<le> tot"
proof (induction bitmap tot cap block_id r rule: run_loop.induct)
  case (1 bitmap tot cap block_id r)
  then show ?case
    by (subst (1 2 3) run_loop.simps) auto
qed

lemma get_read_blocks_size_bounds:
  assumes "get_read_blocks_size tot cap bitmap block_id = (n, block_id')" and "block_id \<le> tot"
  shows "block_id \<le> block_id' \<and> block_id' + n \<le> tot \<and> n \<le> cap"
proof -
  have s: "block_id + skip_loop bitmap tot block_id 0 \<le> tot"
    using skip_loop_bounds [of block_id 0 tot bitmap] assms(2) by simp
  then show ?thesis
    using assms run_loop_bounds [of block_id' 0 tot cap bitmap]
    by (auto simp: get_read_blocks_size_def Let_def split: if_splits)
qed

lemma get_read_blocks_size_progress:
  assumes "get_read_blocks_size tot cap bitmap block_id = (n, block_id')" and "n \<noteq> 0"
  shows "block_id < block_id' + n \<and> block_id' + n \<le> tot"
proof (cases "block_id \<le> tot")
  case True
  with assms get_read_blocks_size_bounds [OF assms(1)] show ?thesis by simp
next
  case False
  then have "run_loop bitmap tot cap block_id 0 = 0" by (subst run_loop.simps) simp
  moreover have "skip_loop bitmap tot block_id 0 = 0" using False by (subst skip_loop.simps) simp
  ultimately show ?thesis using assms False by (auto simp: get_read_blocks_size_def Let_def)
qed

text \<open>
  The \<^verbatim>\<open>do \<dots> while (1)\<close> loop of \<^verbatim>\<open>read_write_data_ptf\<close>. The results are whether it left by \<^verbatim>\<open>break\<close>
  (and not by \<^verbatim>\<open>goto ERROR\<close>), \<^verbatim>\<open>blocks_in_cs\<close>, \<^verbatim>\<open>checksum\<close>, \<^verbatim>\<open>copied_count\<close> and the state.
\<close>

function ptf_loop ::
    "bool \<Rightarrow> nat \<Rightarrow> nat \<Rightarrow> nat \<Rightarrow> image_options \<Rightarrow> bitmap \<Rightarrow> int \<Rightarrow> int \<Rightarrow> progress_bar
     \<Rightarrow> progress_data \<Rightarrow> nat \<Rightarrow> byte list \<Rightarrow> nat \<Rightarrow> nat \<Rightarrow> world
     \<Rightarrow> bool \<times> nat \<times> byte list \<times> nat \<times> world" where
  "ptf_loop sync bs cap tot img_opt bitmap dfr dfw prog pdata block_id checksum blocks_in_cs cc w =
     (let csize = unat (checksum_size img_opt);
          bpc = unat (blocks_per_checksum img_opt);
          mode = uint (checksum_mode img_opt);
          (blocks_read, block_id) = get_read_blocks_size tot cap bitmap block_id
      in if blocks_read = 0 then (True, blocks_in_cs, checksum, cc, w)
         else (let offset = to_off ((block_id * bs) mod 2 ^ 64);
                   (seek, w) = sys_lseek dfr offset False w
               in if seek = -1 then (False, blocks_in_cs, checksum, cc, w)
                  else (let count = (blocks_read * bs) mod 2 ^ 64;
                            (r_size, rbuf, w) = write_read_io_all dfr [] count False w
                        in if r_size \<noteq> to_int32 count then (False, blocks_in_cs, checksum, cc, w)
                           else (let (wbuf, cs_added, checksum, blocks_in_cs, w) =
                                       ptf_blocks bs bpc csize mode blocks_read rbuf checksum blocks_in_cs w;
                                     write_offset = length wbuf;
                                     (w_size, _, w) = write_read_io_all dfw wbuf write_offset True w
                                 in if w_size \<noteq> to_int32 write_offset
                                    then (False, blocks_in_cs, checksum, cc, w)
                                    else (let block_id = block_id + blocks_read;
                                              cc = cc + blocks_read;
                                              (pdata, w) = report_progress prog cc pdata w
                                          in if r_size + int cs_added * int csize \<noteq> w_size
                                             then (False, blocks_in_cs, checksum, cc, w)
                                             else (let w = (if sync then sys_fsync dfw w else w)
                                                   in ptf_loop sync bs cap tot img_opt bitmap dfr dfw prog
                                                        pdata block_id checksum blocks_in_cs cc w))))))"
  by pat_completeness auto
termination
proof (relation "measure (\<lambda>(sync, bs, cap, tot, img_opt, bitmap, dfr, dfw, prog, pdata, block_id, _).
          tot - block_id)", goal_cases)
  case 2
  then show ?case
    by (auto dest!: get_read_blocks_size_progress [OF sym])
qed simp

declare ptf_loop.simps [simp del]

definition read_write_data_ptf ::
    "bool \<Rightarrow> nat \<Rightarrow> file_system_info \<Rightarrow> image_options \<Rightarrow> bitmap \<Rightarrow> int \<Rightarrow> int \<Rightarrow> nat \<Rightarrow> world
     \<Rightarrow> (bool \<times> world) option" where
  "read_write_data_ptf sync bs info img_opt bitmap dfr dfw cc w =
     do {
       cap \<leftarrow> buffer_capacity bs;
       let (prog, w) = progress_init 0 (unat (usedblocks info)) (sint (block_size info)) w;
       let (read_buffer, w) = sys_malloc w;
       let (write_buffer, w) = sys_malloc w;
       if \<not> read_buffer \<or> \<not> write_buffer then Some (False, w)
       else do {
         let (seek, w) = sys_lseek dfr 0 False w;
         if seek = -1 then Some (False, w)
         else do {
           let csize = unat (checksum_size img_opt);
           let checksum = replicate csize (w_junk w);
           let (checksum, w) = init_checksum (uint (checksum_mode img_opt)) checksum w;
           let (ok, blocks_in_cs, checksum, cc, w) =
             ptf_loop sync bs cap (unat (totalblock info)) img_opt bitmap dfr dfw prog (junk_pdata w)
               0 checksum 0 cc w;
           if \<not> ok then Some (False, w)
           else if blocks_in_cs > 0
           then do {
             let (w_size, _, w) = write_read_io_all dfw (take csize checksum) csize True w;
             Some (w_size = int csize, w)
           }
           else Some (True, w)
         }
       }
     }"

section \<open>Partition to partition\<close>

function ptp_loop ::
    "nat \<Rightarrow> nat \<Rightarrow> nat \<Rightarrow> bitmap \<Rightarrow> int \<Rightarrow> int \<Rightarrow> progress_bar \<Rightarrow> progress_data \<Rightarrow> nat \<Rightarrow> world
     \<Rightarrow> bool \<times> world" where
  "ptp_loop bs cap tot bitmap dfr dfw prog pdata block_id w =
     (let (blocks_read, block_id) = get_read_blocks_size tot cap bitmap block_id
      in if blocks_read = 0 then (True, w)
         else (let offset = to_off ((block_id * bs) mod 2 ^ 64);
                   (seek, w) = sys_lseek dfr offset False w
               in if seek = -1 then (False, w)
                  else (let (seek, w) = sys_lseek dfw offset False w
                        in if seek = -1 then (False, w)
                           else (let count = (blocks_read * bs) mod 2 ^ 64;
                                     (r_size, buffer, w) = write_read_io_all dfr [] count False w
                                 in if r_size \<noteq> to_int32 count then (False, w)
                                    else (let (w_size, _, w) = write_read_io_all dfw buffer count True w
                                          in if w_size \<noteq> to_int32 count then (False, w)
                                             else (let block_id = block_id + blocks_read;
                                                       (pdata, w) = report_progress prog block_id pdata w
                                                   in ptp_loop bs cap tot bitmap dfr dfw prog pdata block_id w))))))"
  by pat_completeness auto
termination
proof (relation "measure (\<lambda>(bs, cap, tot, bitmap, dfr, dfw, prog, pdata, block_id, _). tot - block_id)",
    goal_cases)
  case 2
  then show ?case
    by (auto dest!: get_read_blocks_size_progress [OF sym])
qed simp

declare ptp_loop.simps [simp del]

definition read_write_data_ptp ::
    "nat \<Rightarrow> file_system_info \<Rightarrow> bitmap \<Rightarrow> int \<Rightarrow> int \<Rightarrow> world \<Rightarrow> (bool \<times> world) option" where
  "read_write_data_ptp bs info bitmap dfr dfw w =
     do {
       cap \<leftarrow> buffer_capacity bs;
       let (prog, w) = progress_init 0 (unat (usedblocks info)) (sint (block_size info)) w;
       let (buffer, w) = sys_malloc w;
       if \<not> buffer then Some (False, w)
       else do {
         let (seek, w) = sys_lseek dfr 0 False w;
         if seek = -1 then Some (False, w)
         else Some (ptp_loop bs cap (unat (totalblock info)) bitmap dfr dfw prog (junk_pdata w) 0 w)
       }
     }"

section \<open>Restoring an image\<close>

definition get_blocks_used :: "nat \<Rightarrow> bitmap \<Rightarrow> nat \<Rightarrow> nat" where
  "get_blocks_used blocks_total bitmap used_blocks =
     (let blocks_used_fix = count_blocks pc_test_bit blocks_total bitmap blocks_total;
          blocks_used = used_blocks
      in if blocks_used_fix \<noteq> blocks_used then blocks_used_fix else blocks_used)"

text \<open>
  The \<open>i\<close> loop of \<^verbatim>\<open>read_write_data_restore\<close>: \<open>rbuf\<close> is the read buffer from \<^verbatim>\<open>read_offset\<close> on. The
  results are whether every checksum met was right (\<^verbatim>\<open>goto ERROR\<close> otherwise), the blocks put in the
  write buffer, the rest of the read buffer, \<^verbatim>\<open>checksum\<close>, \<^verbatim>\<open>blocks_in_cs\<close> and the state. The C code
  reads behind the allocated buffer when the rest is too short: that is \<^term>\<open>None\<close>.
\<close>

primrec restore_blocks ::
    "nat \<Rightarrow> nat \<Rightarrow> nat \<Rightarrow> int \<Rightarrow> nat \<Rightarrow> byte list \<Rightarrow> byte list \<Rightarrow> nat \<Rightarrow> world
     \<Rightarrow> (bool \<times> byte list \<times> byte list \<times> byte list \<times> nat \<times> world) option" where
  "restore_blocks bs bpc csize mode 0 rbuf checksum blocks_in_cs w =
     Some (True, [], rbuf, checksum, blocks_in_cs, w)"
| "restore_blocks bs bpc csize mode (Suc n) rbuf checksum blocks_in_cs w =
     (if length rbuf < bs then None
      else (let blk = take bs rbuf;
                checksum = update_checksum checksum blk w;
                blocks_in_cs = (blocks_in_cs + 1) mod 2 ^ 32
            in if blocks_in_cs = bpc
               then (if length rbuf < bs + csize then None
                     else if take csize (drop bs rbuf) \<noteq> take csize checksum
                     then Some (False, blk, rbuf, checksum, blocks_in_cs, w)
                     else do {
                       let (checksum, w) = init_checksum mode checksum w;
                       (ok, wbuf, rest, checksum, blocks_in_cs, w) \<leftarrow>
                         restore_blocks bs bpc csize mode n (drop (csize + bs) rbuf) checksum 0 w;
                       Some (ok, blk @ wbuf, rest, checksum, blocks_in_cs, w)
                     })
               else do {
                 (ok, wbuf, rest, checksum, blocks_in_cs, w) \<leftarrow>
                   restore_blocks bs bpc csize mode n (drop bs rbuf) checksum blocks_in_cs w;
                 Some (ok, blk @ wbuf, rest, checksum, blocks_in_cs, w)
               }))"

text \<open>
  The inner \<^verbatim>\<open>do \<dots> while (blocks_written < blocks_read)\<close> loop. It would not end when the bitmap had
  fewer blocks left than were read.
\<close>

partial_function (option) restore_write ::
    "nat \<Rightarrow> nat \<Rightarrow> nat \<Rightarrow> bitmap \<Rightarrow> int \<Rightarrow> progress_bar \<Rightarrow> byte list \<Rightarrow> nat \<Rightarrow> nat \<Rightarrow> nat
     \<Rightarrow> progress_data \<Rightarrow> world \<Rightarrow> (bool \<times> nat \<times> nat \<times> progress_data \<times> world) option" where
  "restore_write bs tot blocks_read bitmap dfw prog wbuf blocks_written block_id cc pdata w =
     (let blocks_skip = skip_loop bitmap tot block_id 0;
          bytes_skip = (blocks_skip * bs) mod 2 ^ 64;
          block_id = block_id + blocks_skip;
          (seek, w) = (if bytes_skip > 0 then sys_lseek dfw (to_off bytes_skip) True w else (0, w))
      in if seek = -1 then Some (False, block_id, cc, pdata, w)
         else (let blocks_write = run_loop bitmap tot (blocks_read - blocks_written) block_id 0;
                   count = (blocks_write * bs) mod 2 ^ 32;
                   (w_size, _, w) =
                     (if blocks_write > 0
                      then write_read_io_all dfw (take count (drop (blocks_written * bs) wbuf)) count True w
                      else (0, [], w))
               in if blocks_write > 0 \<and> w_size \<noteq> to_int32 (blocks_write * bs)
                  then Some (False, block_id, cc, pdata, w)
                  else (let w = (if blocks_write > 0 then sys_fsync dfw w else w);
                            blocks_written = blocks_written + blocks_write;
                            block_id = block_id + blocks_write;
                            cc = cc + blocks_write;
                            (pdata, w) = report_progress prog cc pdata w
                        in if blocks_written < blocks_read
                           then restore_write bs tot blocks_read bitmap dfw prog wbuf blocks_written
                                  block_id cc pdata w
                           else Some (True, block_id, cc, pdata, w))))"

text \<open>
  The outer loop. \<open>rbuf\<close> is the whole read buffer, with what earlier rounds left in it; a read that
  overruns it is \<^term>\<open>None\<close>.
\<close>

partial_function (option) restore_loop ::
    "nat \<Rightarrow> nat \<Rightarrow> nat \<Rightarrow> nat \<Rightarrow> nat \<Rightarrow> image_options \<Rightarrow> bitmap \<Rightarrow> int \<Rightarrow> int \<Rightarrow> progress_bar
     \<Rightarrow> progress_data \<Rightarrow> byte list \<Rightarrow> nat \<Rightarrow> byte list \<Rightarrow> nat \<Rightarrow> nat \<Rightarrow> world
     \<Rightarrow> (bool \<times> world) option" where
  "restore_loop bs cap used tot buffer_size img_opt bitmap dfr dfw prog pdata rbuf block_id checksum
     blocks_in_cs cc w =
     (let csize = unat (checksum_size img_opt);
          bpc = unat (blocks_per_checksum img_opt);
          mode = uint (checksum_mode img_opt);
          blocks_read = (if (cc + cap) mod 2 ^ 64 < used then cap
                         else (used + 2 ^ 64 - cc) mod 2 ^ 64 mod 2 ^ 32)
      in if blocks_read = 0 then Some (True, w)
         else (let read_size = to_int32 (convert_blocks_to_bytes cc blocks_read bs bpc csize);
                   read_size = (if bpc \<noteq> 0 \<and> blocks_read < cap \<and> blocks_read mod bpc \<noteq> 0 \<and> used mod bpc \<noteq> 0
                                then read_size + int csize else read_size);
                   (r_size, data, w) = write_read_io_all dfr [] (nat (read_size mod 2 ^ 64)) False w
               in if length data > buffer_size then None
                  else if r_size \<noteq> read_size then Some (False, w)
                  else do {
                    let rbuf = data @ drop (length data) rbuf;
                    (ok, wbuf, rest, checksum, blocks_in_cs, w) \<leftarrow>
                      restore_blocks bs bpc csize mode blocks_read rbuf checksum blocks_in_cs w;
                    if \<not> ok then Some (False, w)
                    else (let partly = (blocks_in_cs \<noteq> 0 \<and> bpc \<noteq> 0 \<and> blocks_read < cap \<and> blocks_read mod bpc \<noteq> 0)
                          in if partly \<and> length rest < csize then None
                             else if partly \<and> take csize rest \<noteq> take csize checksum then Some (False, w)
                             else do {
                               (ok, block_id, cc, pdata, w) \<leftarrow>
                                 restore_write bs tot blocks_read bitmap dfw prog wbuf 0 block_id cc pdata w;
                               if \<not> ok then Some (False, w)
                               else restore_loop bs cap used tot buffer_size img_opt bitmap dfr dfw prog pdata
                                      rbuf block_id checksum blocks_in_cs cc w
                             })
                  }))"

definition read_write_data_restore ::
    "file_system_info \<Rightarrow> image_options \<Rightarrow> bitmap \<Rightarrow> int \<Rightarrow> int \<Rightarrow> nat \<Rightarrow> world \<Rightarrow> (bool \<times> world) option" where
  "read_write_data_restore info img_opt bitmap dfr dfw cc w =
     do {
       let bs = unat (block_size info);
       let csize = unat (checksum_size img_opt);
       cap \<leftarrow> buffer_capacity bs;
       let (prog, w) = progress_init 0 (unat (usedblocks info)) (sint (block_size info)) w;
       let blocks_used = get_blocks_used (unat (totalblock info)) bitmap (unat (usedblocks info));
       let buffer_size = convert_blocks_to_bytes 0 cap bs (unat (blocks_per_checksum img_opt)) csize mod 2 ^ 32;
       let (read_buffer, w) = sys_malloc w;
       let (write_buffer, w) = sys_malloc w;
       if \<not> read_buffer \<or> \<not> write_buffer then Some (False, w)
       else do {
         let (seek, w) = sys_lseek dfw 0 False w;
         if seek = -1 then Some (False, w)
         else do {
           let (checksum, w) = init_checksum (uint (checksum_mode img_opt)) (replicate csize (w_junk w)) w;
           restore_loop bs cap blocks_used (unat (totalblock info)) buffer_size img_opt bitmap dfr dfw prog
             (junk_pdata w) (replicate buffer_size (w_junk w)) 0 checksum 0 cc w
         }
       }
     }"

end
