(* ===== verification/CheckedStream.thy ===== *)
theory CheckedStream
  imports Copy
begin

text \<open>
  The abstract side of the copy engine: a device as a sequence of blocks, the list of used
  blocks, and the data section of an image as a stream of blocks with a checksum after every
  \<open>bpc\<close> blocks and after the last incomplete group. The locale \<open>running_checksum\<close> is what this
  format needs from a checksum; it is interpreted on the CRC-32 of \<^verbatim>\<open>checksum.c\<close>.
\<close>

section \<open>Blocks of a device\<close>

definition blk :: "nat \<Rightarrow> 'a list \<Rightarrow> nat \<Rightarrow> 'a list" where
  "blk bs d i = take bs (drop (i * bs) d)"

definition used_from :: "bitmap \<Rightarrow> nat \<Rightarrow> nat \<Rightarrow> nat list" where
  "used_from bitmap tot i = filter (bm_mem bitmap) [i..<tot]"

text \<open>Writing the blocks \<open>data\<close> at the block numbers \<open>ids\<close>.\<close>

fun put_blocks :: "nat \<Rightarrow> nat list \<Rightarrow> 'a list list \<Rightarrow> 'a list \<Rightarrow> 'a list" where
  "put_blocks bs (i # ids) (b # data) t = put_blocks bs ids data (overwrite t (i * bs) b)"
| "put_blocks bs ids data t = t"

definition blocks_of :: "nat \<Rightarrow> nat \<Rightarrow> 'a list \<Rightarrow> 'a list list" where
  "blocks_of bs n d = map (blk bs d) [0..<n]"

text \<open>Only bytes of blocks in \<open>U\<close> have changed.\<close>

definition untouched :: "(nat \<Rightarrow> bool) \<Rightarrow> nat \<Rightarrow> 'a list \<Rightarrow> 'a list \<Rightarrow> bool" where
  "untouched U bs t t' \<longleftrightarrow>
     length t' = length t \<and> (\<forall>i < length t. \<not> U (i div bs) \<longrightarrow> t' ! i = t ! i)"

lemma length_blk: "i < n \<Longrightarrow> n * bs \<le> length d \<Longrightarrow> length (blk bs d i) = bs"
proof -
  assume "i < n" and "n * bs \<le> length d"
  moreover from \<open>i < n\<close> have "(i + 1) * bs \<le> n * bs" by (intro mult_right_mono) simp_all
  ultimately show ?thesis by (simp add: blk_def)
qed

lemma length_blocks_of [simp]: "length (blocks_of bs n d) = n"
  by (simp add: blocks_of_def)

lemma blocks_of_length: "n * bs \<le> length d \<Longrightarrow> b \<in> set (blocks_of bs n d) \<Longrightarrow> length b = bs"
  by (auto simp: blocks_of_def length_blk)

lemma blk_drop: "blk bs (drop (i * bs) d) j = blk bs d (i + j)"
  by (simp add: blk_def add_mult_distrib add.commute)

lemma map_blk_upt: "map (blk bs d) [i..<i + n] = blocks_of bs n (drop (i * bs) d)"
  by (rule nth_equalityI) (simp_all add: blocks_of_def blk_drop)

lemma blocks_of_Suc: "blocks_of bs (Suc n) d = take bs d # blocks_of bs n (drop bs d)"
proof -
  have "blocks_of bs (Suc n) d = blk bs d 0 # map (blk bs d) [1..<1 + n]"
    by (simp only: blocks_of_def upt_conv_Cons [of 0 "Suc n"]) simp
  then show ?thesis by (simp only: map_blk_upt) (simp add: blk_def)
qed

lemma concat_blocks_of: "n * bs \<le> length d \<Longrightarrow> concat (blocks_of bs n d) = take (n * bs) d"
proof (induction n arbitrary: d)
  case 0
  then show ?case by (simp add: blocks_of_def)
next
  case (Suc n)
  then have "concat (blocks_of bs n (drop bs d)) = take (n * bs) (drop bs d)" by simp
  then show ?case by (simp add: blocks_of_Suc take_add)
qed

lemma blocks_of_concat:
  "\<forall>b \<in> set D. length b = bs \<Longrightarrow> blocks_of bs (length D) (concat D @ r) = D"
  by (induction D) (simp_all add: blocks_of_Suc, simp add: blocks_of_def)

lemma blocks_of_take: "n * bs \<le> k \<Longrightarrow> blocks_of bs n (take k d) = blocks_of bs n d"
proof (rule nth_equalityI)
  fix j assume k: "n * bs \<le> k" and "j < length (blocks_of bs n (take k d))"
  then have j: "j < n" by simp
  then have "(j + 1) * bs \<le> n * bs" by (intro mult_right_mono) simp_all
  with j k show "blocks_of bs n (take k d) ! j = blocks_of bs n d ! j"
    by (simp add: blocks_of_def blk_def drop_take min_def)
qed simp

lemma blocks_of_0 [simp]: "blocks_of bs 0 d = []"
  by (simp add: blocks_of_def)

lemma blocks_of_split:
  assumes "n \<le> m"
  shows "blocks_of bs m d = blocks_of bs n (take (n * bs) d) @ blocks_of bs (m - n) (drop (n * bs) d)"
proof -
  obtain k where k: "m = n + k" using assms by (metis le_add_diff_inverse)
  have "blocks_of bs m d = map (blk bs d) [0..<n] @ map (blk bs d) [n..<n + k]"
    by (simp only: blocks_of_def k map_append [symmetric] upt_add_eq_append [OF le0])
  then show ?thesis by (simp add: blocks_of_take map_blk_upt k) (simp add: blocks_of_def)
qed

subsection \<open>Used blocks\<close>

lemma used_from_skip: "i \<le> j \<Longrightarrow> \<forall>k. i \<le> k \<and> k < j \<longrightarrow> \<not> bm_mem bm k \<Longrightarrow> j \<le> tot \<Longrightarrow>
    used_from bm tot i = used_from bm tot j"
proof -
  assume "i \<le> j" "j \<le> tot" and no: "\<forall>k. i \<le> k \<and> k < j \<longrightarrow> \<not> bm_mem bm k"
  then have "[i..<tot] = [i..<j] @ [j..<tot]" by (metis le_add_diff_inverse upt_add_eq_append)
  moreover have "filter (bm_mem bm) [i..<j] = []" using no by (simp add: filter_empty_conv)
  ultimately show ?thesis by (simp add: used_from_def)
qed

lemma used_from_run: "\<forall>k. i \<le> k \<and> k < i + n \<longrightarrow> bm_mem bm k \<Longrightarrow> i + n \<le> tot \<Longrightarrow>
    used_from bm tot i = [i..<i + n] @ used_from bm tot (i + n)"
proof -
  assume "i + n \<le> tot" and all: "\<forall>k. i \<le> k \<and> k < i + n \<longrightarrow> bm_mem bm k"
  then have "[i..<tot] = [i..<i + n] @ [i + n..<tot]" by (metis le_add1 le_add_diff_inverse upt_add_eq_append)
  moreover have "filter (bm_mem bm) [i..<i + n] = [i..<i + n]" using all by (simp add: filter_id_conv)
  ultimately show ?thesis by (simp add: used_from_def)
qed

lemma used_from_end [simp]: "used_from bm tot tot = []"
  by (simp add: used_from_def)

lemma length_used_from: "length (used_from bm tot i) \<le> tot - i"
  unfolding used_from_def by (rule order.trans [OF length_filter_le]) simp

lemma in_used_from: "i \<in> set (used_from bm tot k) \<longleftrightarrow> k \<le> i \<and> i < tot \<and> bm_mem bm i"
  by (auto simp: used_from_def)

lemma skip_loop_unused:
  "bm_wf tot bm \<Longrightarrow> s \<le> j \<Longrightarrow> j < skip_loop bm tot i s \<Longrightarrow> \<not> bm_mem bm (i + j)"
proof (induction bm tot i s rule: skip_loop.induct)
  case (1 bm tot i s)
  note sl = skip_loop.simps [of bm tot i s]
  show ?case
  proof (cases "i + s < tot \<and> pc_test_bit (i + s) bm tot = 0")
    case True
    then have "\<not> bm_mem bm (i + s)" using pc.test_in [OF "1.prems"(1), of "i + s"] by auto
    then show ?thesis
      using True "1.IH" "1.prems" sl by (cases "j = s") auto
  next
    case False
    then show ?thesis using sl "1.prems" by auto
  qed
qed

lemma skip_loop_stops:
  "bm_wf tot bm \<Longrightarrow> i + skip_loop bm tot i s < tot \<Longrightarrow> bm_mem bm (i + skip_loop bm tot i s)"
proof (induction bm tot i s rule: skip_loop.induct)
  case (1 bm tot i s)
  note sl = skip_loop.simps [of bm tot i s]
  show ?case
  proof (cases "i + s < tot \<and> pc_test_bit (i + s) bm tot = 0")
    case True
    then show ?thesis using "1.IH" "1.prems" sl by simp
  next
    case False
    then show ?thesis
      using "1.prems" sl pc.test_in [OF "1.prems"(1), of "i + s"] by (auto split: if_splits)
  qed
qed

lemma run_loop_used:
  "bm_wf tot bm \<Longrightarrow> r \<le> j \<Longrightarrow> j < run_loop bm tot cap i r \<Longrightarrow> bm_mem bm (i + j)"
proof (induction bm tot cap i r rule: run_loop.induct)
  case (1 bm tot cap i r)
  note rl = run_loop.simps [of bm tot cap i r]
  show ?case
  proof (cases "i + r < tot \<and> r < cap \<and> pc_test_bit (i + r) bm tot \<noteq> 0")
    case True
    then have "bm_mem bm (i + r)" using pc.test_in [OF "1.prems"(1), of "i + r"] by (auto split: if_splits)
    then show ?thesis using True "1.IH" "1.prems" rl by (cases "j = r") auto
  next
    case False
    then show ?thesis using rl "1.prems" by auto
  qed
qed

lemma run_loop_pos:
  "bm_wf tot bm \<Longrightarrow> i < tot \<Longrightarrow> 0 < cap \<Longrightarrow> bm_mem bm i \<Longrightarrow> 0 < run_loop bm tot cap i 0"
  using run_loop_bounds [of i 1 tot cap bm] pc.test_in [of tot bm i]
  by (subst run_loop.simps) auto

text \<open>The skip and the run together split off the next used blocks.\<close>

lemma skip_used_from:
  assumes "bm_wf tot bm" and "i \<le> tot"
  shows "used_from bm tot i = used_from bm tot (i + skip_loop bm tot i 0)"
    and "i + skip_loop bm tot i 0 < tot \<Longrightarrow> bm_mem bm (i + skip_loop bm tot i 0)"
    and "i + skip_loop bm tot i 0 \<le> tot"
proof -
  let ?s = "skip_loop bm tot i 0"
  show le: "i + ?s \<le> tot" using skip_loop_bounds [of i 0 tot bm] assms by simp
  have "\<not> bm_mem bm k" if "i \<le> k" "k < i + ?s" for k
    using skip_loop_unused [OF assms(1), of 0 "k - i" i] that by simp
  then show "used_from bm tot i = used_from bm tot (i + ?s)"
    using le by (intro used_from_skip) auto
  show "i + ?s < tot \<Longrightarrow> bm_mem bm (i + ?s)" using assms(1) by (rule skip_loop_stops)
qed

lemma run_used_from:
  assumes "bm_wf tot bm" and "i \<le> tot" and "n = run_loop bm tot cap i 0"
  shows "used_from bm tot i = [i..<i + n] @ used_from bm tot (i + n)" and "i + n \<le> tot" and "n \<le> cap"
proof -
  show le: "i + n \<le> tot" and "n \<le> cap"
    using run_loop_bounds [of i 0 tot cap bm] assms by simp_all
  have "bm_mem bm k" if "i \<le> k" "k < i + n" for k
    using run_loop_used [OF assms(1), of 0 "k - i" cap i] that assms(3) by simp
  then show "used_from bm tot i = [i..<i + n] @ used_from bm tot (i + n)"
    using le by (intro used_from_run) auto
qed

lemma get_read_blocks_size_used:
  assumes "bm_wf tot bm" and "i \<le> tot" and "0 < cap"
    and "get_read_blocks_size tot cap bm i = (n, i')"
  shows "used_from bm tot i = (if n = 0 then [] else [i'..<i' + n] @ used_from bm tot (i' + n))"
    and "i' + n \<le> tot" and "n \<le> cap"
proof -
  show "i' + n \<le> tot" "n \<le> cap" using get_read_blocks_size_bounds [OF assms(4,2)] by simp_all
  let ?j = "i + skip_loop bm tot i 0"
  note sk = skip_used_from [OF assms(1,2)]
  show "used_from bm tot i = (if n = 0 then [] else [i'..<i' + n] @ used_from bm tot (i' + n))"
  proof (cases "?j = tot")
    case True
    then show ?thesis using sk(1) assms(4) by (simp add: get_read_blocks_size_def Let_def)
  next
    case False
    then have "?j < tot" using sk(3) by simp
    then have "0 < run_loop bm tot cap ?j 0" using assms(1,3) sk(2) by (intro run_loop_pos)
    moreover have "i' = ?j" "n = run_loop bm tot cap ?j 0"
      using assms(4) False by (auto simp: get_read_blocks_size_def Let_def split: if_splits)
    ultimately show ?thesis
      using sk(1) run_used_from(1) [OF assms(1) sk(3), of n cap] by simp
  qed
qed

lemma get_blocks_used_count: "bm_wf tot bm \<Longrightarrow> get_blocks_used tot bm u = length (used_from bm tot 0)"
  by (simp add: get_blocks_used_def Let_def pc.count_blocks_filter used_from_def)

subsection \<open>Writing blocks\<close>

lemma put_blocks_Nil [simp]: "put_blocks bs ids [] t = t" "put_blocks bs [] D t = t"
  by (cases ids) simp_all

lemma put_blocks_append:
  "length ids = length D \<Longrightarrow> put_blocks bs (ids @ ids') (D @ D') t = put_blocks bs ids' D' (put_blocks bs ids D t)"
  by (induction ids D arbitrary: t rule: list_induct2) simp_all

definition fits :: "nat \<Rightarrow> nat list \<Rightarrow> 'a list list \<Rightarrow> 'a list \<Rightarrow> bool" where
  "fits bs ids D t \<longleftrightarrow>
     length D = length ids \<and> (\<forall>b \<in> set D. length b = bs) \<and> (\<forall>i \<in> set ids. (i + 1) * bs \<le> length t)"

lemma fits_Cons:
  "fits bs (i # ids) (b # D) t \<longleftrightarrow> length b = bs \<and> (i + 1) * bs \<le> length t \<and> fits bs ids D t"
  by (auto simp: fits_def)

lemma fits_cong: "length t = length t' \<Longrightarrow> fits bs ids D t = fits bs ids D t'"
  by (simp add: fits_def)

lemma length_put_blocks: "fits bs ids D t \<Longrightarrow> length (put_blocks bs ids D t) = length t"
proof (induction bs ids D t rule: put_blocks.induct)
  case (1 bs i ids b D t)
  then have "length (overwrite t (i * bs) b) = length t" by (simp add: fits_Cons)
  with 1 show ?case by (simp add: fits_Cons fits_cong [of "overwrite t (i * bs) b" t])
qed (auto simp: fits_def)

lemma overwrite_untouched:
  assumes "i * bs + length d \<le> length t" and "length d \<le> n * bs"
    and "\<forall>k. i \<le> k \<and> k < i + n \<longrightarrow> U k"
  shows "untouched U bs t (overwrite t (i * bs) d)"
  unfolding untouched_def
proof (intro conjI allI impI)
  fix k assume k: "k < length t" and no: "\<not> U (k div bs)"
  have "\<not> (i * bs \<le> k \<and> k < i * bs + length d)"
  proof
    assume h: "i * bs \<le> k \<and> k < i * bs + length d"
    then have "0 < bs" using assms(2) by (cases "bs = 0") auto
    with h have "i \<le> k div bs" by (metis div_le_mono nonzero_mult_div_cancel_right not_gr_zero)
    moreover have "k < (i + n) * bs" using h assms(2) by (simp add: add_mult_distrib)
    then have "k div bs < i + n" by (simp add: less_mult_imp_div_less)
    ultimately show False using assms(3) no by blast
  qed
  with k assms(1) show "overwrite t (i * bs) d ! k = t ! k" by (auto simp: nth_overwrite)
qed (use assms in simp)

lemma untouched_refl [simp]: "untouched U bs t t"
  by (simp add: untouched_def)

lemma untouched_trans: "untouched U bs t t' \<Longrightarrow> untouched U bs t' t'' \<Longrightarrow> untouched U bs t t''"
  by (auto simp: untouched_def)

lemma untouched_length: "untouched U bs t t' \<Longrightarrow> length t' = length t"
  by (simp add: untouched_def)

lemma put_blocks_untouched:
  "fits bs ids D t \<Longrightarrow> \<forall>i \<in> set ids. U i \<Longrightarrow> untouched U bs t (put_blocks bs ids D t)"
proof (induction bs ids D t rule: put_blocks.induct)
  case (1 bs i ids b D t)
  have one: "untouched U bs t (overwrite t (i * bs) b)"
  proof (rule overwrite_untouched [where n = 1])
    show "\<forall>k. i \<le> k \<and> k < i + 1 \<longrightarrow> U k" using "1.prems"(2) by (auto simp: less_Suc_eq_le dest: order.antisym)
  qed (use "1.prems"(1) in \<open>auto simp: fits_Cons\<close>)
  then have "fits bs ids D (overwrite t (i * bs) b)"
    using "1.prems"(1) fits_cong [of "overwrite t (i * bs) b" t] by (simp add: fits_Cons untouched_def)
  with 1 one show ?case by (auto intro: untouched_trans)
qed simp_all

lemma blk_overwrite_other:
  "k \<noteq> i \<Longrightarrow> (i + 1) * bs \<le> length t \<Longrightarrow> length b = bs \<Longrightarrow> (k + 1) * bs \<le> length t \<Longrightarrow>
   blk bs (overwrite t (i * bs) b) k = blk bs t k"
proof -
  assume h: "k \<noteq> i" "(i + 1) * bs \<le> length t" "length b = bs" "(k + 1) * bs \<le> length t"
  consider "k < i" | "i < k" using h(1) by linarith
  then have "\<not> (i * bs \<le> k * bs + j \<and> k * bs + j < i * bs + bs)" if "j < bs" for j
  proof cases
    case 1
    then have "(k + 1) * bs \<le> i * bs" by (intro mult_right_mono) simp_all
    with that show ?thesis by simp
  next
    case 2
    then have "(i + 1) * bs \<le> k * bs" by (intro mult_right_mono) simp_all
    with that show ?thesis by simp
  qed
  then show ?thesis
    using h unfolding blk_def
    by (subst take_drop_eq_iff_nth) (auto simp: nth_overwrite)
qed

lemma blk_overwrite_same:
  "(i + 1) * bs \<le> length t \<Longrightarrow> length b = bs \<Longrightarrow> blk bs (overwrite t (i * bs) b) i = b"
  by (simp add: blk_def overwrite_def)

lemma blk_put_blocks_other:
  "fits bs ids D t \<Longrightarrow> k \<notin> set ids \<Longrightarrow> (k + 1) * bs \<le> length t \<Longrightarrow> blk bs (put_blocks bs ids D t) k = blk bs t k"
proof (induction bs ids D t rule: put_blocks.induct)
  case (1 bs i ids b D t)
  then have "fits bs ids D (overwrite t (i * bs) b)"
    using fits_cong [of "overwrite t (i * bs) b" t] by (simp add: fits_Cons)
  with 1 show ?case by (simp add: fits_Cons blk_overwrite_other)
qed simp_all

lemma blk_put_blocks:
  "fits bs ids D t \<Longrightarrow> distinct ids \<Longrightarrow> j < length ids \<Longrightarrow> blk bs (put_blocks bs ids D t) (ids ! j) = D ! j"
proof (induction bs ids D t arbitrary: j rule: put_blocks.induct)
  case (1 bs i ids b D t)
  then have f: "fits bs ids D (overwrite t (i * bs) b)"
    using fits_cong [of "overwrite t (i * bs) b" t] by (simp add: fits_Cons)
  show ?case
  proof (cases j)
    case 0
    with 1 f show ?thesis by (simp add: fits_Cons blk_put_blocks_other blk_overwrite_same)
  next
    case (Suc j')
    with 1 f show ?thesis by simp
  qed
qed (auto simp: fits_def)

text \<open>One write of a run of blocks.\<close>

lemma put_blocks_run:
  "\<forall>b \<in> set D. length b = bs \<Longrightarrow> (i + length D) * bs \<le> length t \<Longrightarrow>
   put_blocks bs [i..<i + length D] D t = overwrite t (i * bs) (concat D)"
proof (induction D arbitrary: i t)
  case (Cons b D)
  have u: "[i..<i + length (b # D)] = i # [Suc i..<Suc i + length D]" by (simp add: upt_conv_Cons del: upt_Suc)
  have len: "length (concat D) = length D * bs" using Cons.prems(1) by (intro length_concat_same) simp
  have bl: "length b = bs" using Cons.prems(1) by simp
  have "overwrite (overwrite t (i * bs) b) (i * bs + length b) (concat D) = overwrite t (i * bs) (b @ concat D)"
    by (rule overwrite_overwrite) (use Cons.prems(2) bl len in \<open>simp add: algebra_simps\<close>)
  then have "overwrite (overwrite t (i * bs) b) (Suc i * bs) (concat D) = overwrite t (i * bs) (b @ concat D)"
    using bl by (simp add: algebra_simps)
  moreover have "put_blocks bs [Suc i..<Suc i + length D] D (overwrite t (i * bs) b) =
      overwrite (overwrite t (i * bs) b) (Suc i * bs) (concat D)"
    by (rule Cons.IH) (use Cons.prems bl in \<open>auto simp: algebra_simps\<close>)
  ultimately show ?case by (simp only: u put_blocks.simps concat.simps)
qed simp

section \<open>Streams with checksums\<close>

text \<open>
  \<open>cs_body\<close> is what is written for a list of blocks when \<open>k\<close> blocks of the current group are
  already written and \<open>c\<close> is the running checksum; \<open>cs_state\<close> is \<open>(k, c)\<close> afterwards.
\<close>

primrec cs_body :: "('c \<Rightarrow> byte list \<Rightarrow> 'c) \<Rightarrow> ('c \<Rightarrow> byte list) \<Rightarrow> 'c \<Rightarrow> nat \<Rightarrow> nat \<Rightarrow> 'c \<Rightarrow> byte list list \<Rightarrow> byte list" where
  "cs_body upd ser seed bpc k c [] = []"
| "cs_body upd ser seed bpc k c (b # D) =
     (if 0 < bpc \<and> k + 1 = bpc then b @ ser (upd c b) @ cs_body upd ser seed bpc 0 seed D
      else b @ cs_body upd ser seed bpc (if 0 < bpc then k + 1 else k) (upd c b) D)"

primrec cs_state :: "('c \<Rightarrow> byte list \<Rightarrow> 'c) \<Rightarrow> 'c \<Rightarrow> nat \<Rightarrow> nat \<Rightarrow> 'c \<Rightarrow> byte list list \<Rightarrow> nat \<times> 'c" where
  "cs_state upd seed bpc k c [] = (k, c)"
| "cs_state upd seed bpc k c (b # D) =
     (if 0 < bpc \<and> k + 1 = bpc then cs_state upd seed bpc 0 seed D
      else cs_state upd seed bpc (if 0 < bpc then k + 1 else k) (upd c b) D)"

text \<open>The data section: the trailing checksum is written when a group is incomplete.\<close>

definition cs_tail :: "('c \<Rightarrow> byte list) \<Rightarrow> nat \<times> 'c \<Rightarrow> byte list" where
  "cs_tail ser st = (if 0 < fst st then ser (snd st) else [])"

definition checked_stream :: "('c \<Rightarrow> byte list \<Rightarrow> 'c) \<Rightarrow> ('c \<Rightarrow> byte list) \<Rightarrow> 'c \<Rightarrow> nat \<Rightarrow> byte list list \<Rightarrow> byte list" where
  "checked_stream upd ser seed bpc D =
     cs_body upd ser seed bpc 0 seed D @ cs_tail ser (cs_state upd seed bpc 0 seed D)"

text \<open>
  Reading it back: \<open>m\<close> blocks of \<open>bs\<close> bytes in groups of \<open>bpc\<close>, each with its checksum of \<open>csz\<close>
  bytes; \<^term>\<open>None\<close> when bytes are missing or a checksum is wrong.
\<close>

function cs_decode :: "('c \<Rightarrow> byte list \<Rightarrow> 'c) \<Rightarrow> ('c \<Rightarrow> byte list) \<Rightarrow> 'c \<Rightarrow> nat \<Rightarrow> nat \<Rightarrow> nat \<Rightarrow> nat \<Rightarrow> byte list
    \<Rightarrow> byte list list option" where
  "cs_decode upd ser seed csz bs bpc m s =
     (if m = 0 \<or> bpc = 0 then Some []
      else (let n = min bpc m; g = take (n * bs) s
            in if length s < n * bs + csz \<or> take csz (drop (n * bs) s) \<noteq> ser (upd seed g) then None
               else map_option (\<lambda>D. blocks_of bs n s @ D)
                      (cs_decode upd ser seed csz bs bpc (m - n) (drop (n * bs + csz) s))))"
  by pat_completeness auto
termination
  by (relation "measure (\<lambda>(upd, ser, seed, csz, bs, bpc, m, s). m)") auto

declare cs_decode.simps [simp del]

lemma cs_body_append:
  "cs_body upd ser seed bpc k c (D @ E) =
     cs_body upd ser seed bpc k c D @
     (case cs_state upd seed bpc k c D of (k', c') \<Rightarrow> cs_body upd ser seed bpc k' c' E)"
  by (induction D arbitrary: k c) auto

lemma cs_state_append:
  "cs_state upd seed bpc k c (D @ E) =
     (case cs_state upd seed bpc k c D of (k', c') \<Rightarrow> cs_state upd seed bpc k' c' E)"
  by (induction D arbitrary: k c) auto

lemma cs_state_less: "0 < bpc \<Longrightarrow> k < bpc \<Longrightarrow> fst (cs_state upd seed bpc k c D) < bpc"
  by (induction D arbitrary: k c) auto

locale running_checksum =
  fixes upd :: "'c \<Rightarrow> byte list \<Rightarrow> 'c" and ser :: "'c \<Rightarrow> byte list" and seed :: 'c and csz :: nat
  assumes upd_append: "upd (upd c x) y = upd c (x @ y)"
    and upd_Nil: "upd c [] = c"
    and length_ser: "length (ser c) = csz"
begin

lemma group_body:
  "k + length D \<le> bpc \<Longrightarrow> k < bpc \<Longrightarrow> D \<noteq> [] \<Longrightarrow>
   cs_body upd ser seed bpc k c D =
     concat D @ (if k + length D = bpc then ser (upd c (concat D)) else []) \<and>
   cs_state upd seed bpc k c D =
     (if k + length D = bpc then (0, seed) else (k + length D, upd c (concat D)))"
proof (induction D arbitrary: k c)
  case (Cons b D)
  show ?case
  proof (cases "D = []")
    case False
    with Cons.prems have "Suc k + length D \<le> bpc" "Suc k < bpc" by (cases D; simp)+
    with Cons.IH [of "Suc k" "upd c b"] False show ?thesis by (auto simp: upd_append)
  qed (use Cons.prems in auto)
qed simp

lemma stream_one:
  assumes "0 < length D" and "length D \<le> bpc"
  shows "checked_stream upd ser seed bpc D = concat D @ ser (upd seed (concat D))"
  using group_body [of 0 D bpc seed] assms by (auto simp: checked_stream_def cs_tail_def)

lemma stream_group:
  assumes "length D = bpc" and "0 < bpc"
  shows "checked_stream upd ser seed bpc (D @ E) =
    concat D @ ser (upd seed (concat D)) @ checked_stream upd ser seed bpc E"
  using group_body [of 0 D bpc seed] assms
  by (auto simp: checked_stream_def cs_tail_def cs_body_append cs_state_append)

lemma decode_stream:
  assumes "0 < bpc" and "\<forall>b \<in> set D. length b = bs"
  shows "cs_decode upd ser seed csz bs bpc (length D) (checked_stream upd ser seed bpc D @ r) = Some D"
  using assms(2)
proof (induction "length D" arbitrary: D rule: less_induct)
  case less
  show ?case
  proof (cases "D = []")
    case True
    then show ?thesis by (simp add: cs_decode.simps)
  next
    case False
    let ?n = "min bpc (length D)" and ?E = "drop bpc D"
    define G where "G = take bpc D"
    have G: "length G = ?n" "\<forall>b \<in> set G. length b = bs" "D = G @ ?E" "G \<noteq> []"
      using less.prems False assms(1) by (auto simp: G_def dest: in_set_takeD)
    have len: "length (concat G) = ?n * bs" using length_concat_same [OF G(2)] G(1) by simp
    have str: "checked_stream upd ser seed bpc D =
        concat G @ ser (upd seed (concat G)) @ checked_stream upd ser seed bpc ?E"
    proof (cases "length D \<le> bpc")
      case True
      then show ?thesis
        using stream_one [of D bpc] False by (simp add: G_def checked_stream_def cs_tail_def)
    next
      case False
      then show ?thesis using stream_group [of G bpc ?E] G assms(1) by simp
    qed
    have blocks: "blocks_of bs ?n (concat G @ x) = G" for x
      using blocks_of_concat [OF G(2)] G(1) by simp
    have "cs_decode upd ser seed csz bs bpc (length ?E) (checked_stream upd ser seed bpc ?E @ r) = Some ?E"
    proof (rule less.hyps)
      show "length ?E < length D" using False assms(1) by (cases D) simp_all
      show "\<forall>b \<in> set ?E. length b = bs" using less.prems by (auto dest: in_set_dropD)
    qed
    moreover have "length D - ?n = length ?E" by simp
    ultimately show ?thesis
      using False assms(1) G(3) len
      by (subst cs_decode.simps) (simp add: str blocks length_ser Let_def)
  qed
qed

lemma decode_sound:
  assumes "0 < bpc" and "cs_decode upd ser seed csz bs bpc m s = Some D"
  shows "length D = m \<and> (\<forall>b \<in> set D. length b = bs) \<and> (\<exists>r. s = checked_stream upd ser seed bpc D @ r)"
  using assms(2)
proof (induction m arbitrary: s D rule: less_induct)
  case (less m)
  show ?case
  proof (cases "m = 0")
    case True
    then show ?thesis using less.prems by (simp add: cs_decode.simps checked_stream_def cs_tail_def)
  next
    case False
    let ?n = "min bpc m"
    let ?r = "drop (?n * bs + csz) s"
    obtain E where len: "?n * bs + csz \<le> length s"
      and sum: "take csz (drop (?n * bs) s) = ser (upd seed (take (?n * bs) s))"
      and E: "cs_decode upd ser seed csz bs bpc (m - ?n) ?r = Some E"
      and D: "D = blocks_of bs ?n s @ E"
      using less.prems False assms(1) by (subst (asm) cs_decode.simps) (auto simp: Let_def split: if_splits)
    let ?G = "blocks_of bs ?n s"
    have G: "\<forall>b \<in> set ?G. length b = bs" "concat ?G = take (?n * bs) s"
      using blocks_of_length [of ?n bs s] len concat_blocks_of [of ?n bs s] by auto
    from less.IH [OF _ E] False assms(1) obtain r where
        E': "length E = m - ?n" "\<forall>b \<in> set E. length b = bs" "?r = checked_stream upd ser seed bpc E @ r"
      by auto
    have "s = take (?n * bs) s @ take csz (drop (?n * bs) s) @ ?r"
      by (metis add.commute append_take_drop_id drop_drop)
    then have s: "s = concat ?G @ ser (upd seed (concat ?G)) @ checked_stream upd ser seed bpc E @ r"
      by (simp only: sum G(2) E'(3))
    have "checked_stream upd ser seed bpc D = concat ?G @ ser (upd seed (concat ?G)) @ checked_stream upd ser seed bpc E"
    proof (cases "m \<le> bpc")
      case True
      then have "E = []" using E'(1) by simp
      then show ?thesis using stream_one [of ?G bpc] True False D by (simp add: checked_stream_def cs_tail_def)
    next
      case False
      then show ?thesis using stream_group [of ?G bpc E] D assms(1) by simp
    qed
    with s D E' G(1) show ?thesis by auto
  qed
qed

end

text \<open>The CRC-32 of the sources, stored as four little-endian bytes.\<close>

abbreviation crc_upd :: "u32 \<Rightarrow> byte list \<Rightarrow> u32" where "crc_upd \<equiv> crc32 crc_table"
abbreviation crc_ser :: "u32 \<Rightarrow> byte list" where "crc_ser \<equiv> le_bytes 4"

interpretation crc: running_checksum crc_upd crc_ser CRC32_SEED 4
  by unfold_locales (simp_all add: crc32_append)

definition data_section :: "nat \<Rightarrow> byte list list \<Rightarrow> byte list" where
  "data_section bpc D = checked_stream crc_upd crc_ser CRC32_SEED bpc D"

section \<open>Damage\<close>

text \<open>Two strings of the same length that differ only inside one stretch of at most four bytes.\<close>

definition near :: "'a list \<Rightarrow> 'a list \<Rightarrow> bool" where
  "near s t \<longleftrightarrow> (\<exists>a m m' b. s = a @ m @ b \<and> t = a @ m' @ b \<and> length m = length m' \<and> length m \<le> 4)"

lemma nearI: "length m = length m' \<Longrightarrow> length m \<le> 4 \<Longrightarrow> near (a @ m @ b) (a @ m' @ b)"
  unfolding near_def by blast

lemma near_length: "near s t \<Longrightarrow> length s = length t"
  by (auto simp: near_def)

lemma near_take:
  assumes "near s t" shows "near (take n s) (take n t)"
proof -
  from assms obtain a m m' b where st: "s = a @ m @ b" "t = a @ m' @ b" "length m = length m'" "length m \<le> 4"
    by (auto simp: near_def)
  let ?k = "n - length a"
  have "take n s = take n a @ take ?k m @ take (?k - length m) b"
    "take n t = take n a @ take ?k m' @ take (?k - length m) b"
    using st by simp_all
  moreover have "length (take ?k m) = length (take ?k m')" "length (take ?k m) \<le> 4" using st by auto
  ultimately show ?thesis unfolding near_def by blast
qed

lemma near_drop:
  assumes "near s t" shows "near (drop n s) (drop n t)"
proof -
  from assms obtain a m m' b where st: "s = a @ m @ b" "t = a @ m' @ b" "length m = length m'" "length m \<le> 4"
    by (auto simp: near_def)
  let ?k = "n - length a"
  have "drop n s = drop n a @ drop ?k m @ drop (?k - length m) b"
    "drop n t = drop n a @ drop ?k m' @ drop (?k - length m) b"
    using st by simp_all
  moreover have "length (drop ?k m) = length (drop ?k m')" "length (drop ?k m) \<le> 4" using st by auto
  ultimately show ?thesis unfolding near_def by blast
qed

lemma near_crc: "near s t \<Longrightarrow> crc32 crc_table c s = crc32 crc_table c t \<Longrightarrow> s = t"
  unfolding near_def using crc32_burst by metis

text \<open>A checked group of \<open>n\<close> bytes: data and checksum have the residue 0.\<close>

lemma group_residue:
  assumes "n + 4 \<le> length s" and "take 4 (drop n s) = crc_ser (crc_upd CRC32_SEED (take n s))"
  shows "crc32 crc_table CRC32_SEED (take (n + 4) s) = 0"
proof -
  have "take (n + 4) s = take n s @ take 4 (drop n s)" by (rule take_add)
  moreover have "length (take 4 (drop n s)) = 4" using assms(1) by simp
  ultimately show ?thesis by (simp add: crc32_residue assms(2))
qed

lemma decode_near:
  assumes "0 < bpc" and "cs_decode crc_upd crc_ser CRC32_SEED 4 bs bpc m s = Some D"
    and "cs_decode crc_upd crc_ser CRC32_SEED 4 bs bpc m t = Some E" and "near s t"
  shows "D = E"
  using assms(2-4)
proof (induction m arbitrary: s t D E rule: less_induct)
  case (less m)
  show ?case
  proof (cases "m = 0")
    case True
    then show ?thesis using less.prems by (simp add: cs_decode.simps)
  next
    case False
    let ?n = "min bpc m" and ?L = "min bpc m * bs"
    have step: "\<exists>F. ?L + 4 \<le> length u \<and> take 4 (drop ?L u) = crc_ser (crc_upd CRC32_SEED (take ?L u)) \<and>
        cs_decode crc_upd crc_ser CRC32_SEED 4 bs bpc (m - ?n) (drop (?L + 4) u) = Some F \<and> X = blocks_of bs ?n u @ F"
      if "cs_decode crc_upd crc_ser CRC32_SEED 4 bs bpc m u = Some X" for u X
      using that False assms(1) by (subst (asm) cs_decode.simps) (auto simp: Let_def split: if_splits)
    from step [OF less.prems(1)] obtain D' where s: "?L + 4 \<le> length s"
        "take 4 (drop ?L s) = crc_ser (crc_upd CRC32_SEED (take ?L s))"
        "cs_decode crc_upd crc_ser CRC32_SEED 4 bs bpc (m - ?n) (drop (?L + 4) s) = Some D'" "D = blocks_of bs ?n s @ D'"
      by blast
    from step [OF less.prems(2)] obtain E' where t: "?L + 4 \<le> length t"
        "take 4 (drop ?L t) = crc_ser (crc_upd CRC32_SEED (take ?L t))"
        "cs_decode crc_upd crc_ser CRC32_SEED 4 bs bpc (m - ?n) (drop (?L + 4) t) = Some E'" "E = blocks_of bs ?n t @ E'"
      by blast
    have "take (?L + 4) s = take (?L + 4) t"
      by (rule near_crc [OF near_take [OF less.prems(3)], where c = CRC32_SEED])
         (simp only: group_residue [OF s(1,2)] group_residue [OF t(1,2)])
    then have "blocks_of bs ?n s = blocks_of bs ?n t"
      using blocks_of_take [of ?n bs "?L + 4"] by (metis le_add1)
    moreover have "D' = E'"
      using less.IH [OF _ s(3) t(3) near_drop [OF less.prems(3)]] False assms(1) by simp
    ultimately show ?thesis using s(4) t(4) by simp
  qed
qed

end
