(* ===== verification/CopyProofs.thy ===== *)
theory CopyProofs
  imports CheckedStream
begin

text \<open>
  Correctness of the copy engine against the streams and block lists of \<open>CheckedStream\<close>. Every
  lemma holds for every schedule of short transfers, interruptions and errors: the loops either
  do the whole job or report failure after a well-defined part of it, and they never fail when
  only transient events occur.
\<close>

section \<open>What the engine leaves alone\<close>

fun is_progress :: "dbus_event \<Rightarrow> bool" where
  "is_progress (Progress p s e) = True"
| "is_progress ev = False"

definition frame :: "string set \<Rightarrow> int set \<Rightarrow> world \<Rightarrow> world \<Rightarrow> bool" where
  "frame ps fds w w' \<longleftrightarrow>
     (\<forall>p. p \<notin> ps \<longrightarrow> w_nodes w' p = w_nodes w p) \<and>
     (\<forall>fd. fd \<notin> fds \<longrightarrow> fd_lookup w' fd = fd_lookup w fd) \<and>
     length (w_fdtab w') = length (w_fdtab w) \<and> w_vfs w' = w_vfs w \<and>
     w_creatable w' = w_creatable w \<and> w_junk w' = w_junk w \<and>
     (benign w \<longrightarrow> benign w') \<and>
     (\<exists>evs. w_out w' = w_out w @ evs \<and> list_all is_progress evs)"

lemma frame_refl [simp]: "frame ps fds w w"
  by (simp add: frame_def)

lemma frame_trans [trans]:
  assumes "frame ps fds w w'" and "frame ps fds w' w''"
  shows "frame ps fds w w''"
proof -
  from assms obtain e1 e2 where "w_out w' = w_out w @ e1" "list_all is_progress e1"
      "w_out w'' = w_out w' @ e2" "list_all is_progress e2"
    by (auto simp: frame_def)
  then have "\<exists>evs. w_out w'' = w_out w @ evs \<and> list_all is_progress evs" by simp
  with assms show ?thesis by (simp add: frame_def)
qed

lemma frame_mono: "frame ps fds w w' \<Longrightarrow> ps \<subseteq> ps' \<Longrightarrow> fds \<subseteq> fds' \<Longrightarrow> frame ps' fds' w w'"
  by (auto simp: frame_def)

lemma frame_set_pos: "fd \<in> fds \<Longrightarrow> frame ps fds w (set_pos fd p w)"
  by (auto simp: frame_def)

lemma frame_sched: "(benign w \<Longrightarrow> list_all transient s) \<Longrightarrow> frame ps fds w (w\<lparr>w_sched := s\<rparr>)"
  by (simp add: frame_def benign_def)

lemma length_fdtab_put_bytes [simp]: "length (w_fdtab (put_bytes fd d w)) = length (w_fdtab w)"
  by (simp add: put_bytes_def split: option.split)

lemma frame_put_bytes:
  "fd_on w fd p pos wr nd \<Longrightarrow> fd \<in> fds \<Longrightarrow> p \<in> ps \<Longrightarrow> frame ps fds w (put_bytes fd d w)"
  by (auto simp: frame_def fd_lookup_put_bytes w_nodes_put_on benign_def fd_on_def)

lemma frame_statics: "frame ps fds w (w\<lparr>crc_tab32 := t\<rparr>)" "frame ps fds w (w\<lparr>cs_mode := m\<rparr>)"
  by (simp_all add: frame_def benign_def)

lemma frame_clock: "frame ps fds w (w\<lparr>w_clock := c\<rparr>)"
  by (simp add: frame_def benign_def)

lemma frame_allocs: "frame ps fds w (w\<lparr>w_allocs := c\<rparr>)"
  by (simp add: frame_def benign_def)

lemma frame_fsync: "fd_on w fd p pos wr nd \<Longrightarrow> p \<in> ps \<Longrightarrow> frame ps fds w (sys_fsync fd w)"
  by (auto simp: frame_def sys_fsync_def benign_def fd_on_def)

lemma progress_update_out:
  "progress_update prog copied pdata w = ((ok, pd), w') \<Longrightarrow> w_out w' = w_out w"
  by (auto simp: progress_update_def calculate_speed_def Let_def split: if_splits prod.splits
      dest!: sys_time_frame)

lemma report_progress_out:
  "report_progress prog copied pdata w = (pd, w') \<Longrightarrow> \<exists>p s e. w_out w' = w_out w @ [Progress p s e]"
proof -
  assume *: "report_progress prog copied pdata w = (pd, w')"
  obtain ok pd' w1 where u: "progress_update prog copied pdata w = ((ok, pd'), w1)"
    by (metis prod.exhaust)
  define q where "q = (if ok then pd' else pd'\<lparr>percent := 100\<rparr>)"
  have "w' = emit (Progress (percent q) (speed q) (elapsed q)) w1"
    using * u by (auto simp: report_progress_def q_def Let_def)
  then have "w_out w' = w_out w @ [Progress (percent q) (speed q) (elapsed q)]"
    by (simp add: emit_def progress_update_out [OF u])
  then show ?thesis by blast
qed

text \<open>A progress report keeps everything but the clock and the messages.\<close>

lemma report_progress_eq:
  assumes "report_progress prog copied pdata w = (pd, w')"
  obtains c l where "w' = w\<lparr>w_clock := c, w_out := l\<rparr>" and "frame ps fds w w'"
proof -
  from report_progress_frame [OF assms] obtain c l where *: "w' = w\<lparr>w_clock := c, w_out := l\<rparr>" by blast
  moreover have "\<exists>evs. w_out w' = w_out w @ evs \<and> list_all is_progress evs"
    using report_progress_out [OF assms] by auto
  then have "frame ps fds w w'" using * by (simp add: frame_def benign_def)
  ultimately show thesis using that by blast
qed

section \<open>Descriptors during a copy\<close>

text \<open>The source is open for reading, at any position.\<close>

definition reading :: "world \<Rightarrow> int \<Rightarrow> string \<Rightarrow> inode \<Rightarrow> bool" where
  "reading w fd p nd \<longleftrightarrow> (\<exists>pos. fd_on w fd p pos False nd)"

text \<open>The checksum code is set to CRC-32 with its table built.\<close>

definition crc_on :: "world \<Rightarrow> bool" where
  "crc_on w \<longleftrightarrow> crc_tab32 w = crc_table \<and> cs_mode w = CSM_CRC32"

lemma reading_eqs [simp]:
  "reading (w\<lparr>w_sched := b\<rparr>) = reading w" "reading (w\<lparr>w_allocs := c\<rparr>) = reading w"
  "reading (w\<lparr>w_clock := d\<rparr>) = reading w" "reading (w\<lparr>w_out := e\<rparr>) = reading w"
  "reading (w\<lparr>crc_tab32 := g\<rparr>) = reading w" "reading (w\<lparr>cs_mode := h\<rparr>) = reading w"
  by (simp_all add: reading_def fun_eq_iff)

lemma reading_set_pos: "reading w fd p nd \<Longrightarrow> reading (set_pos fd' q w) fd p nd"
  unfolding reading_def using fd_on_set_pos by metis

lemma reading_put_bytes:
  "reading w fd p nd \<Longrightarrow> fd_on w fd' p' pos' wr' nd' \<Longrightarrow> p' \<noteq> p \<Longrightarrow> reading (put_bytes fd' d w) fd p nd"
  unfolding reading_def using fd_on_put_bytes_other by blast

lemma reading_fsync:
  "reading w fd p nd \<Longrightarrow> fd_on w fd' p' pos' wr' nd' \<Longrightarrow> p' \<noteq> p \<Longrightarrow> reading (sys_fsync fd' w) fd p nd"
  by (auto simp: reading_def fd_on_def sys_fsync_def)

lemma fd_on_fsync:
  "fd_on w fd p pos wr nd \<Longrightarrow> fd_on (sys_fsync fd w) fd p pos wr (nd\<lparr>i_dirty := False\<rparr>)"
  by (auto simp: fd_on_def sys_fsync_def)

lemma fd_on_reader_set_pos:
  "fd_on w fd p pos True nd \<Longrightarrow> reading w fd' p' nd' \<Longrightarrow> fd_on (set_pos fd' q w) fd p pos True nd"
  by (auto simp: reading_def fd_on_def)

lemma to_off_small: "n < 2 ^ 63 \<Longrightarrow> to_off n = int n"
  by (simp add: to_off_def sint_uint unsigned_of_nat signed_take_bit_int_eq_self take_bit_nat_eq_self)

lemma sys_lseek_ok:
  assumes "fd_on w fd p pos wr nd" and "i_kind nd \<noteq> FIFO" and "n \<le> length (i_bytes nd)"
    and "length (i_bytes nd) < 2 ^ 63"
  shows "sys_lseek fd (int n) False w = (int n, set_pos fd n w)"
proof -
  have "int n < 2 ^ 63" using assms(3,4) by simp
  then show ?thesis using assms by (simp add: sys_lseek_def fd_on_def Let_def)
qed

lemma sys_lseek_cur_ok:
  assumes "fd_on w fd p pos wr nd" and "i_kind nd \<noteq> FIFO" and "pos + n \<le> length (i_bytes nd)"
    and "length (i_bytes nd) < 2 ^ 63"
  shows "sys_lseek fd (int n) True w = (int (pos + n), set_pos fd (pos + n) w)"
proof -
  have "int (pos + n) < 2 ^ 63" using assms(3,4) by simp
  then show ?thesis using assms by (simp add: sys_lseek_def fd_on_def Let_def nat_add_distrib)
qed

text \<open>Reading \<open>n\<close> bytes at a position, as the backup loops do it.\<close>

lemma read_at:
  assumes on: "fd_on w fd p pos False nd" and "pos + n \<le> length (i_bytes nd)" and "n < 2 ^ 31"
  obtains (full) s where
      "write_read_io_all fd [] n False w =
         (int n, take n (drop pos (i_bytes nd)), (set_pos fd (pos + n) w)\<lparr>w_sched := s\<rparr>)"
      and "benign w \<Longrightarrow> list_all transient s"
  | (failed) data s k r where
      "write_read_io_all fd [] n False w = (r, data, (set_pos fd (pos + k) w)\<lparr>w_sched := s\<rparr>)"
      and "r \<noteq> int n" and "\<not> benign w"
proof (cases rule: io_all_read [OF on assms(3), of "[]", case_names full partly])
  case (full s)
  then show ?thesis by (intro that(1) [of s]) simp_all
next
  case (partly k s r)
  then show ?thesis using assms(2) by (intro that(2)) auto
qed

lemma reading_seek: "reading w fd p nd \<Longrightarrow> fd_on (set_pos fd pos w) fd p pos False nd"
  using fd_on_set_pos(1) unfolding reading_def by blast

section \<open>Partition to file\<close>

lemma update_checksum_crc:
  "crc_on w \<Longrightarrow> update_checksum (le_bytes 4 c) b w = le_bytes 4 (crc_upd c b)"
  by (simp add: update_checksum_def crc_on_def store32_def load32_def memcpy_def)

lemma init_checksum_crc:
  "crc_on w \<Longrightarrow> init_checksum CSM_CRC32 (le_bytes 4 c) w = (le_bytes 4 CRC32_SEED, w)"
proof -
  assume on: "crc_on w"
  then have "w\<lparr>crc_tab32 := crc_table, cs_mode := CSM_CRC32\<rparr> = w" by (simp add: crc_on_def)
  with on show ?thesis
    by (simp add: init_checksum_def init_crc32_ready crc_ready_def crc_on_def store32_def memcpy_def)
qed

text \<open>The write buffer filled from \<open>n\<close> blocks is the next part of the stream.\<close>

lemma ptf_blocks_stream:
  assumes "crc_on w" and "n * bs \<le> length rbuf"
  shows "\<exists>a. ptf_blocks bs bpc 4 CSM_CRC32 n rbuf (le_bytes 4 c) k w =
      (let D = blocks_of bs n rbuf; (k', c') = cs_state crc_upd CRC32_SEED bpc k c D
       in (cs_body crc_upd crc_ser CRC32_SEED bpc k c D, a, le_bytes 4 c', k', w)) \<and>
      length (cs_body crc_upd crc_ser CRC32_SEED bpc k c (blocks_of bs n rbuf)) = n * bs + 4 * a \<and> a \<le> n"
  using assms(2)
proof (induction n arbitrary: rbuf c k)
  case 0
  then show ?case by (simp add: blocks_of_def)
next
  case (Suc n)
  have l: "length (take bs rbuf) = bs" using Suc.prems by simp
  have r: "n * bs \<le> length (drop bs rbuf)" using Suc.prems by simp
  show ?case
  proof (cases "0 < bpc \<and> k + 1 = bpc")
    case True
    from Suc.IH [OF r, of CRC32_SEED 0] obtain a where a: "ptf_blocks bs bpc 4 CSM_CRC32 n (drop bs rbuf) (le_bytes 4 CRC32_SEED) 0 w =
      (let D = blocks_of bs n (drop bs rbuf); (k', c') = cs_state crc_upd CRC32_SEED bpc 0 CRC32_SEED D
       in (cs_body crc_upd crc_ser CRC32_SEED bpc 0 CRC32_SEED D, a, le_bytes 4 c', k', w))"
      "length (cs_body crc_upd crc_ser CRC32_SEED bpc 0 CRC32_SEED (blocks_of bs n (drop bs rbuf))) = n * bs + 4 * a" "a \<le> n"
      by blast
    with True l show ?thesis
      by (intro exI [of _ "Suc a"])
        (auto simp: blocks_of_Suc update_checksum_crc [OF assms(1)] init_checksum_crc [OF assms(1)] Let_def
          split: prod.split)
  next
    case False
    let ?k = "if 0 < bpc then k + 1 else k"
    from Suc.IH [OF r, of "crc_upd c (take bs rbuf)" ?k] obtain a where a:
      "ptf_blocks bs bpc 4 CSM_CRC32 n (drop bs rbuf) (le_bytes 4 (crc_upd c (take bs rbuf))) ?k w =
      (let D = blocks_of bs n (drop bs rbuf); (k', c') = cs_state crc_upd CRC32_SEED bpc ?k (crc_upd c (take bs rbuf)) D
       in (cs_body crc_upd crc_ser CRC32_SEED bpc ?k (crc_upd c (take bs rbuf)) D, a, le_bytes 4 c', k', w))"
      "length (cs_body crc_upd crc_ser CRC32_SEED bpc ?k (crc_upd c (take bs rbuf)) (blocks_of bs n (drop bs rbuf))) = n * bs + 4 * a" "a \<le> n"
      by blast
    with False l show ?thesis
      by (intro exI [of _ a])
        (auto simp: blocks_of_Suc update_checksum_crc [OF assms(1)] Let_def split: prod.split if_splits)
  qed
qed

text \<open>
  The sizes for which the engine's 32-bit and 64-bit arithmetic is exact: blocks of less than a
  gigabyte, and a device that holds all its blocks.
\<close>

definition geometry :: "nat \<Rightarrow> nat \<Rightarrow> nat \<Rightarrow> inode \<Rightarrow> bool" where
  "geometry bs cap tot nd \<longleftrightarrow>
     0 < bs \<and> bs < 2 ^ 30 \<and> buffer_capacity bs = Some cap \<and> i_kind nd \<noteq> FIFO \<and>
     tot * bs \<le> length (i_bytes nd) \<and> length (i_bytes nd) < 2 ^ 63"

definition crc_opts :: "image_options \<Rightarrow> bool" where
  "crc_opts q \<longleftrightarrow> checksum_mode q = 0x20 \<and> checksum_size q = 4"

lemma geometry_cap: "geometry bs cap tot nd \<Longrightarrow> 0 < cap"
  by (auto simp: geometry_def dest: buffer_capacity_pos)

lemma geometry_chunk:
  assumes "geometry bs cap tot nd" and "n \<le> cap"
  shows "n * bs < 2 ^ 30" and "n * bs + 4 * n < 2 ^ 31"
proof -
  have "n * bs \<le> cap * bs" using assms(2) by simp
  also have "\<dots> \<le> max DEFAULT_BUFFER_SIZE bs"
    using assms(1) by (intro buffer_capacity_bytes) (simp add: geometry_def)
  also have "\<dots> < 2 ^ 30" using assms(1) by (simp add: geometry_def DEFAULT_BUFFER_SIZE_def)
  finally show *: "n * bs < 2 ^ 30" .
  have "n \<le> max DEFAULT_BUFFER_SIZE 1"
    using assms by (auto simp: geometry_def buffer_capacity_def cdiv_def DEFAULT_BUFFER_SIZE_def split: if_splits
        intro: order.trans [OF _ div_le_dividend])
  then show "n * bs + 4 * n < 2 ^ 31" using * by (simp add: DEFAULT_BUFFER_SIZE_def)
qed

lemma geometry_range:
  assumes "geometry bs cap tot nd" and "i + n \<le> tot"
  shows "i * bs + n * bs \<le> length (i_bytes nd)" and "i * bs < 2 ^ 63"
proof -
  have "(i + n) * bs \<le> tot * bs" using assms(2) by (rule mult_right_mono) simp
  with assms(1) show *: "i * bs + n * bs \<le> length (i_bytes nd)" by (simp add: geometry_def add_mult_distrib)
  with assms(1) show "i * bs < 2 ^ 63" by (simp add: geometry_def)
qed

definition ptf_outcome ::
    "int \<Rightarrow> string \<Rightarrow> inode \<Rightarrow> int \<Rightarrow> string \<Rightarrow> nat \<Rightarrow> inode \<Rightarrow> world \<Rightarrow> byte list \<Rightarrow> nat \<times> u32
     \<Rightarrow> bool \<times> nat \<times> byte list \<times> nat \<times> world \<Rightarrow> bool" where
  "ptf_outcome dfr p src dfw q pos nd w strm st res \<longleftrightarrow>
     (case res of (ok, k', cs', cc', w') \<Rightarrow>
        \<exists>out rest nd'. frame {q} {dfr, dfw} w w' \<and> reading w' dfr p src \<and> crc_on w' \<and>
          fd_on w' dfw q (pos + length out) True nd' \<and> i_kind nd' = i_kind nd \<and>
          i_bytes nd' = i_bytes nd @ out \<and> strm = out @ rest \<and>
          (if ok then rest = [] \<and> k' = fst st \<and> cs' = le_bytes 4 (snd st) else \<not> benign w))"

lemma ptf_outcome_stop:
  assumes "frame {q} {dfr, dfw} w w'" "reading w' dfr p src" "crc_on w'"
    and "fd_on w' dfw q (pos + length out) True nd'" "i_kind nd' = i_kind nd"
    and "i_bytes nd' = i_bytes nd @ out" "strm = out @ rest" "\<not> benign w"
  shows "ptf_outcome dfr p src dfw q pos nd w strm st (False, k', cs', cc', w')"
  using assms unfolding ptf_outcome_def by auto

lemma ptf_outcome_step:
  assumes "frame {q} {dfr, dfw} w w1" and "fd_on w1 dfw q pos1 True nd1"
    and "i_kind nd1 = i_kind nd" and "i_bytes nd1 = i_bytes nd @ out" and "pos1 = pos + length out"
    and "ptf_outcome dfr p src dfw q pos1 nd1 w1 strm st res"
  shows "ptf_outcome dfr p src dfw q pos nd w (out @ strm) st res"
proof -
  obtain ok k' cs' cc' w' where res: "res = (ok, k', cs', cc', w')" by (cases res)
  from assms(6) obtain out' rest nd' where
      f: "frame {q} {dfr, dfw} w1 w'" "reading w' dfr p src" "crc_on w'"
      "fd_on w' dfw q (pos1 + length out') True nd'" "i_kind nd' = i_kind nd1"
      "i_bytes nd' = i_bytes nd1 @ out'" "strm = out' @ rest"
      "if ok then rest = [] \<and> k' = fst st \<and> cs' = le_bytes 4 (snd st) else \<not> benign w1"
    unfolding ptf_outcome_def res by auto
  have "\<not> benign w" if "\<not> benign w1" using that assms(1) by (auto simp: frame_def)
  then show ?thesis
    unfolding ptf_outcome_def res
    using f assms frame_trans [OF assms(1) f(1)]
    by (intro case_prodI exI [of _ "out @ out'"] exI [of _ rest] exI [of _ nd'])
      (auto simp: add.assoc split: if_splits)
qed

lemma crc_on_eqs [simp]:
  "crc_on (w\<lparr>w_sched := b\<rparr>) = crc_on w" "crc_on (w\<lparr>w_clock := c\<rparr>) = crc_on w"
  "crc_on (w\<lparr>w_out := d\<rparr>) = crc_on w" "crc_on (w\<lparr>w_allocs := e\<rparr>) = crc_on w"
  "crc_on (set_pos fd p w) = crc_on w" "crc_on (put_bytes fd x w) = crc_on w"
  by (simp_all add: crc_on_def)

lemma crc_on_fsync [simp]: "crc_on (sys_fsync fd w) = crc_on w"
  by (simp add: crc_on_def sys_fsync_def split: option.split)

text \<open>The write of one chunk, its progress report and the flush.\<close>

lemma write_chunk:
  assumes on: "fd_on w dfw q (length (i_bytes nd)) True nd" and rd: "reading w dfr p src" and "p \<noteq> q"
    and "crc_on w" and len: "length buf < 2 ^ 31" and "i_kind nd \<noteq> BLK"
  obtains (full) w1 nd1 where
      "write_read_io_all dfw buf (length buf) True w = (int (length buf), [], w1)"
      "frame {q} {dfr, dfw} w w1" "reading w1 dfr p src" "crc_on w1"
      "fd_on w1 dfw q (length (i_bytes nd1)) True nd1" "i_kind nd1 = i_kind nd" "i_bytes nd1 = i_bytes nd @ buf"
  | (failed) w1 nd1 out rest r where
      "write_read_io_all dfw buf (length buf) True w = (r, [], w1)" "r \<noteq> int (length buf)"
      "frame {q} {dfr, dfw} w w1" "reading w1 dfr p src" "crc_on w1"
      "fd_on w1 dfw q (length (i_bytes nd) + length out) True nd1" "i_kind nd1 = i_kind nd"
      "i_bytes nd1 = i_bytes nd @ out" "buf = out @ rest" "\<not> benign w"
proof (cases rule: io_all_write [OF on refl len, case_names full partly])
  case (full s)
  let ?w = "(put_bytes dfw buf w)\<lparr>w_sched := s\<rparr>"
  have "frame {q} {dfr, dfw} w ?w"
    using frame_trans [OF frame_put_bytes [OF on] frame_sched] full(2) by (simp add: benign_def)
  then show ?thesis
    using full assms fd_on_put_bytes [OF on, of buf] reading_put_bytes [OF rd on, of buf]
    by (intro that(1) [of ?w "node_put nd (length (i_bytes nd)) buf"]) (simp_all add: i_bytes_node_put_end)
next
  case (partly k s r)
  let ?w = "(put_bytes dfw (take k buf) w)\<lparr>w_sched := s\<rparr>"
  have nb: "\<not> benign w" using partly(4) assms(6) by simp
  have "frame {q} {dfr, dfw} w ?w"
    using frame_trans [OF frame_put_bytes [OF on] frame_sched] nb by (simp add: benign_def)
  then show ?thesis
    using partly assms fd_on_put_bytes [OF on, of "take k buf"] reading_put_bytes [OF rd on, of "take k buf"] nb
    by (intro that(2) [of r ?w "take k buf" "node_put nd (length (i_bytes nd)) (take k buf)" "drop k buf"])
      (auto simp: i_bytes_node_put_end)
qed

lemma frame_read:
  "fd \<in> fds \<Longrightarrow> (benign w \<Longrightarrow> list_all transient s) \<Longrightarrow> frame ps fds w ((set_pos fd p w)\<lparr>w_sched := s\<rparr>)"
  using frame_trans [OF frame_set_pos frame_sched] by (simp add: benign_def)

lemma seek_block:
  assumes "fd_on w fd p pos wr nd" and "geometry bs cap tot nd" and "i \<le> tot"
  obtains sk where "sys_lseek fd (to_off ((i * bs) mod 2 ^ 64)) False w = (sk, set_pos fd (i * bs) w)"
    and "sk \<noteq> -1"
proof -
  have range: "i * bs \<le> length (i_bytes nd)" "i * bs < 2 ^ 63"
    using geometry_range [OF assms(2), of i 0] assms(3) by simp_all
  have "sys_lseek fd (int (i * bs)) False w = (int (i * bs), set_pos fd (i * bs) w)"
    by (rule sys_lseek_ok [OF assms(1)]) (use assms(2) range in \<open>auto simp: geometry_def\<close>)
  moreover have "to_off ((i * bs) mod 2 ^ 64) = int (i * bs)" using range(2) by (simp add: to_off_small)
  moreover have "int (i * bs) \<noteq> -1" by linarith
  ultimately show thesis using that by metis
qed

lemma ptf_loop_outcome:
  assumes geo: "geometry bs cap tot src" and opts: "crc_opts opt" and bm: "bm_wf tot bm" and pq: "p \<noteq> q"
  shows "i_kind nd \<noteq> BLK \<Longrightarrow> reading w dfr p src \<Longrightarrow> fd_on w dfw q (length (i_bytes nd)) True nd \<Longrightarrow>
    crc_on w \<Longrightarrow> i \<le> tot \<Longrightarrow> bpc = unat (blocks_per_checksum opt) \<Longrightarrow>
    D = map (blk bs (i_bytes src)) (used_from bm tot i) \<Longrightarrow>
    ptf_outcome dfr p src dfw q (length (i_bytes nd)) nd w
      (cs_body crc_upd crc_ser CRC32_SEED bpc k c D) (cs_state crc_upd CRC32_SEED bpc k c D)
      (ptf_loop sync bs cap tot opt bm dfr dfw prog pdata i (le_bytes 4 c) k cc w)"
proof (induction "tot - i" arbitrary: i c k cc w nd pdata D rule: less_induct)
  case less
  obtain n i' where g: "get_read_blocks_size tot cap bm i = (n, i')" by fastforce
  note used = get_read_blocks_size_used [OF bm less.prems(5) geometry_cap [OF geo] g]
  note rd = less.prems(2) and on = less.prems(3) and crc = less.prems(4)
  have o: "unat (checksum_size opt) = 4" "uint (checksum_mode opt) = CSM_CRC32"
    using opts by (simp_all add: crc_opts_def CSM_CRC32_def)
  note loop = ptf_loop.simps [of sync bs cap tot opt bm dfr dfw prog pdata i "le_bytes 4 c" k cc w]
  show ?case
  proof (cases "n = 0")
    case True
    with loop g have "ptf_loop sync bs cap tot opt bm dfr dfw prog pdata i (le_bytes 4 c) k cc w =
        (True, k, le_bytes 4 c, cc, w)"
      by (simp add: Let_def)
    moreover have "D = []" using used(1) True less.prems(7) by simp
    ultimately show ?thesis
      using less.prems by (auto simp: ptf_outcome_def)
  next
    case False
    let ?src = "i_bytes src"
    have range: "i' * bs + n * bs \<le> length ?src" "i' * bs < 2 ^ 63"
      using geometry_range [OF geo used(2)] by simp_all
    note chunk = geometry_chunk [OF geo used(3)]
    have cnt: "(n * bs) mod 2 ^ 64 = n * bs" and cnt32: "to_int32 (n * bs) = int (n * bs)"
      using chunk(1) by (simp_all add: to_int32_small)
    obtain pos where on_r: "fd_on w dfr p pos False src" using rd by (auto simp: reading_def)
    obtain sk where seek: "sys_lseek dfr (to_off ((i' * bs) mod 2 ^ 64)) False w = (sk, set_pos dfr (i' * bs) w)"
      "sk \<noteq> -1"
      using seek_block [OF on_r geo, of i'] used(2) by (metis add_leD1)
    define G where "G = blocks_of bs n (take (n * bs) (drop (i' * bs) ?src))"
    define E where "E = map (blk bs ?src) (used_from bm tot (i' + n))"
    have D: "D = G @ E"
      using used(1) False less.prems(7) by (simp add: G_def E_def blocks_of_take map_blk_upt)
    obtain k1 c1 where st: "cs_state crc_upd CRC32_SEED bpc k c G = (k1, c1)" by fastforce
    let ?out = "cs_body crc_upd crc_ser CRC32_SEED bpc k c G"
    have nb: "n * bs < 2 ^ 31" using chunk(1) by simp
    show ?thesis
    proof (cases rule: read_at [OF reading_seek [OF rd] range(1) nb, case_names full failed])
      case (failed data s m r)
      let ?w = "(set_pos dfr (i' * bs + m) w)\<lparr>w_sched := s\<rparr>"
      have "ptf_loop sync bs cap tot opt bm dfr dfw prog pdata i (le_bytes 4 c) k cc w =
          (False, k, le_bytes 4 c, cc, ?w)"
        using loop g False seek failed(1,2) cnt cnt32 by (simp add: Let_def)
      moreover have "frame {q} {dfr, dfw} w ?w"
        by (rule frame_read) (use failed(3) in auto)
      ultimately show ?thesis
        using fd_on_reader_set_pos [OF on rd] reading_set_pos [OF rd] crc failed(3)
        by (auto intro: ptf_outcome_stop [where out = "[]" and nd' = nd])
    next
      case (full s)
      let ?w = "(set_pos dfr (i' * bs + n * bs) w)\<lparr>w_sched := s\<rparr>"
      have fr: "frame {q} {dfr, dfw} w ?w"
        by (rule frame_read) (use full(2) in auto)
      have crc1: "crc_on ?w" and rd1: "reading ?w dfr p src"
        and on1: "fd_on ?w dfw q (length (i_bytes nd)) True nd"
        using crc reading_set_pos [OF rd] fd_on_reader_set_pos [OF on rd] by simp_all
      have "n * bs \<le> length (take (n * bs) (drop (i' * bs) ?src))" using range(1) by simp
      from ptf_blocks_stream [OF crc1 this, of bpc c k] st obtain a where
          pb: "ptf_blocks bs bpc 4 CSM_CRC32 n (take (n * bs) (drop (i' * bs) ?src)) (le_bytes 4 c) k ?w =
            (?out, a, le_bytes 4 c1, k1, ?w)"
        and len: "length ?out = n * bs + 4 * a" and a: "a \<le> n"
        by (auto simp: G_def Let_def)
      have len31: "length ?out < 2 ^ 31" using len a chunk(2) by linarith
      have out32: "to_int32 (length ?out) = int (length ?out)" using len31 by (rule to_int32_small)
      show ?thesis
      proof (cases rule: write_chunk [OF on1 rd1 pq crc1 len31 less.prems(1), case_names full failed])
        case (failed w1 nd1 out rest r)
        have "ptf_loop sync bs cap tot opt bm dfr dfw prog pdata i (le_bytes 4 c) k cc w =
            (False, k1, le_bytes 4 c1, cc, w1)"
          using loop g False seek full(1) cnt cnt32 pb failed(1,2) out32 o less.prems(6) by (simp add: Let_def)
        moreover have "\<not> benign w" using failed(10) fr by (auto simp: frame_def)
        ultimately show ?thesis
          using failed frame_trans [OF fr failed(3)]
          by (auto simp: D cs_body_append intro: ptf_outcome_stop [where out = out and nd' = nd1])
      next
        case wr: (full w1 nd1)
        obtain pd w2 where rp: "report_progress prog (cc + n) pdata w1 = (pd, w2)" by fastforce
        obtain t l where w2: "w2 = w1\<lparr>w_clock := t, w_out := l\<rparr>" and f2: "frame {q} {dfr, dfw} w1 w2"
          by (rule report_progress_eq [OF rp])
        define w3 where "w3 = (if sync then sys_fsync dfw w2 else w2)"
        define nd3 where "nd3 = (if sync then nd1\<lparr>i_dirty := False\<rparr> else nd1)"
        have on2: "fd_on w2 dfw q (length (i_bytes nd1)) True nd1" and rd2: "reading w2 dfr p src"
          using wr w2 by simp_all
        have on3: "fd_on w3 dfw q (length (i_bytes nd3)) True nd3"
          using on2 fd_on_fsync [OF on2] by (simp add: w3_def nd3_def)
        have rd3: "reading w3 dfr p src" using rd2 reading_fsync [OF rd2 on2] pq by (simp add: w3_def)
        have crc3: "crc_on w3" using wr(4) w2 by (simp add: w3_def)
        have "frame {q} {dfr, dfw} w2 w3" using frame_fsync [OF on2] by (simp add: w3_def)
        then have f3: "frame {q} {dfr, dfw} w w3" by (meson fr wr(2) f2 frame_trans)
        have nd3: "i_kind nd3 = i_kind nd" "i_bytes nd3 = i_bytes nd @ ?out"
          using wr by (simp_all add: nd3_def)
        have eq: "ptf_loop sync bs cap tot opt bm dfr dfw prog pdata i (le_bytes 4 c) k cc w =
            ptf_loop sync bs cap tot opt bm dfr dfw prog pd (i' + n) (le_bytes 4 c1) k1 (cc + n) w3"
          using loop g False seek full(1) cnt cnt32 pb wr(1) out32 o less.prems(6) len rp
          by (simp add: Let_def w3_def)
        have "i < i' + n" using get_read_blocks_size_progress [OF g False] by simp
        then have "tot - (i' + n) < tot - i" using used(2) by linarith
        then have "ptf_outcome dfr p src dfw q (length (i_bytes nd3)) nd3 w3
            (cs_body crc_upd crc_ser CRC32_SEED bpc k1 c1 E) (cs_state crc_upd CRC32_SEED bpc k1 c1 E)
            (ptf_loop sync bs cap tot opt bm dfr dfw prog pd (i' + n) (le_bytes 4 c1) k1 (cc + n) w3)"
          by (rule less.hyps) (use less.prems(1,6) rd3 on3 crc3 used(2) nd3 in \<open>simp_all add: E_def\<close>)
        from ptf_outcome_step [OF f3 on3 nd3(1,2) _ this]
        show ?thesis by (simp add: eq D cs_body_append cs_state_append st nd3)
      qed
    qed
  qed
qed

text \<open>No allocation fails.\<close>

definition allocs_ok :: "world \<Rightarrow> bool" where
  "allocs_ok w \<longleftrightarrow> list_all id (w_allocs w)"

lemma sys_malloc_frame:
  assumes "sys_malloc w = (a, w')"
  obtains c where "w' = w\<lparr>w_allocs := c\<rparr>" and "allocs_ok w \<longrightarrow> a \<and> allocs_ok w'"
proof (cases "w_allocs w")
  case Nil
  with assms show ?thesis by (intro that [of "[]"]) (auto simp: sys_malloc_def allocs_ok_def)
next
  case (Cons b bs)
  with assms show ?thesis by (intro that [of bs]) (auto simp: sys_malloc_def allocs_ok_def)
qed

lemma init_checksum_fresh:
  "crc_ready w \<Longrightarrow> length buf = 4 \<Longrightarrow>
   init_checksum CSM_CRC32 buf w = (le_bytes 4 CRC32_SEED, w\<lparr>crc_tab32 := crc_table, cs_mode := CSM_CRC32\<rparr>)"
  by (simp add: init_checksum_def init_crc32_ready store32_def memcpy_def)

text \<open>
  Both ends of a copy: source open for reading, target for writing at its end, and the block
  geometry. This is the state in which the handlers call the backup engine.
\<close>

definition ptf_ready :: "world \<Rightarrow> int \<Rightarrow> string \<Rightarrow> inode \<Rightarrow> int \<Rightarrow> string \<Rightarrow> inode \<Rightarrow> bool" where
  "ptf_ready w dfr p src dfw q nd \<longleftrightarrow>
     reading w dfr p src \<and> fd_on w dfw q (length (i_bytes nd)) True nd \<and> i_kind nd \<noteq> BLK \<and>
     p \<noteq> q \<and> crc_ready w"

lemma ptf_ready_eqs [simp]:
  "ptf_ready (w\<lparr>w_allocs := a\<rparr>) = ptf_ready w" "ptf_ready (w\<lparr>w_clock := c\<rparr>) = ptf_ready w"
  "ptf_ready (w\<lparr>w_out := d\<rparr>) = ptf_ready w"
  by (simp_all add: ptf_ready_def crc_ready_def fun_eq_iff)

text \<open>What is known of a finished backup to a file: what was appended, and when that is all.\<close>

definition ptf_result :: "int \<Rightarrow> string \<Rightarrow> inode \<Rightarrow> int \<Rightarrow> string \<Rightarrow> inode \<Rightarrow> world \<Rightarrow> byte list \<Rightarrow> bool \<Rightarrow> world \<Rightarrow> bool" where
  "ptf_result dfr p src dfw q nd w strm ok w' \<longleftrightarrow>
     (\<exists>out rest nd'. frame {q} {dfr, dfw} w w' \<and> ptf_ready w' dfr p src dfw q nd' \<and>
        i_kind nd' = i_kind nd \<and> i_bytes nd' = i_bytes nd @ out \<and> strm = out @ rest \<and>
        (ok \<longrightarrow> rest = []) \<and> (benign w \<and> allocs_ok w \<longrightarrow> ok))"

lemma ptf_resultI:
  assumes "frame {q} {dfr, dfw} w w'" "reading w' dfr p src" "crc_ready w'"
    and "fd_on w' dfw q (length (i_bytes nd')) True nd'" "i_kind nd' = i_kind nd" "i_kind nd \<noteq> BLK" "p \<noteq> q"
    and "i_bytes nd' = i_bytes nd @ out" "strm = out @ rest" "ok \<longrightarrow> rest = []" "benign w \<and> allocs_ok w \<longrightarrow> ok"
  shows "ptf_result dfr p src dfw q nd w strm ok w'"
  using assms unfolding ptf_result_def ptf_ready_def by metis

lemma ptf_result_fail:
  assumes "ptf_ready w' dfr p src dfw q nd" and "frame {q} {dfr, dfw} w w'" and "\<not> (benign w \<and> allocs_ok w)"
  shows "ptf_result dfr p src dfw q nd w strm False w'"
  using assms by (intro ptf_resultI [where nd' = nd and out = "[]" and rest = strm]) (auto simp: ptf_ready_def)

lemma crc_ready_on: "crc_on w \<Longrightarrow> crc_ready w"
  by (simp add: crc_on_def crc_ready_def)

text \<open>The trailing checksum.\<close>

lemma ptf_tail:
  assumes "ptf_outcome dfr p src dfw q (length (i_bytes nd)) nd w strm st (True, k, cs, cc, w1)"
    and "i_kind nd \<noteq> BLK" "p \<noteq> q"
  shows "\<exists>ok w2. (if k > 0 then let (w_size, _, w2) = write_read_io_all dfw (take 4 cs) 4 True w1 in Some (w_size = int 4, w2)
           else Some (True, w1)) = Some (ok, w2) \<and>
         ptf_result dfr p src dfw q nd w (strm @ cs_tail crc_ser st) ok w2"
proof -
  from assms(1) obtain nd1 where f: "frame {q} {dfr, dfw} w w1" "reading w1 dfr p src" "crc_on w1"
      "fd_on w1 dfw q (length (i_bytes nd1)) True nd1" "i_kind nd1 = i_kind nd"
      "i_bytes nd1 = i_bytes nd @ strm" and st: "k = fst st" "cs = le_bytes 4 (snd st)"
    by (auto simp: ptf_outcome_def)
  show ?thesis
  proof (cases "k > 0")
    case False
    then have tl: "cs_tail crc_ser st = []" using st by (simp add: cs_tail_def)
    have "ptf_result dfr p src dfw q nd w (strm @ cs_tail crc_ser st) True w1"
      unfolding tl using f assms
      by (intro ptf_resultI [where nd' = nd1 and out = strm and rest = "[]"]) (simp_all add: crc_ready_on)
    with False show ?thesis by auto
  next
    case True
    let ?b = "le_bytes 4 (snd st)"
    have nb: "i_kind nd1 \<noteq> BLK" using f assms by simp
    have l: "length ?b < 2 ^ 31" by simp
    show ?thesis
    proof (cases rule: write_chunk [OF f(4,2) assms(3) f(3) l nb, case_names full failed])
      case (full w2 nd2)
      have "ptf_result dfr p src dfw q nd w (strm @ ?b) True w2"
        using full f assms frame_trans [OF f(1) full(2)]
        by (intro ptf_resultI [where nd' = nd2 and out = "strm @ ?b" and rest = "[]"]) (simp_all add: crc_ready_on)
      with full True st show ?thesis by (auto simp: cs_tail_def)
    next
      case (failed w2 nd2 out rest r)
      then have nb: "\<not> benign w" using f(1) by (auto simp: frame_def)
      have "ptf_result dfr p src dfw q nd w (strm @ ?b) False w2"
        using failed f assms frame_trans [OF f(1) failed(3)]
        by (intro ptf_resultI [where nd' = nd2 and out = "strm @ out" and rest = rest])
          (simp_all add: crc_ready_on add.assoc nb)
      moreover have "write_read_io_all dfw (take 4 cs) 4 True w1 = (r, [], w2)" "r \<noteq> 4"
        using failed(1,2) st by simp_all
      ultimately show ?thesis using True st by (auto simp: cs_tail_def)
    qed
  qed
qed

lemma read_write_data_ptf_result:
  assumes geo: "geometry bs cap (unat (totalblock info)) src" and opts: "crc_opts opt"
    and bm: "bm_wf (unat (totalblock info)) bm" and rdy: "ptf_ready w dfr p src dfw q nd"
    and D: "D = map (blk bs (i_bytes src)) (used_from bm (unat (totalblock info)) 0)"
  shows "\<exists>ok w'. read_write_data_ptf sync bs info opt bm dfr dfw cc w = Some (ok, w') \<and>
    ptf_result dfr p src dfw q nd w (data_section (unat (blocks_per_checksum opt)) D) ok w'"
proof -
  let ?tot = "unat (totalblock info)"
  obtain prog w1 where pi: "progress_init 0 (unat (usedblocks info)) (sint (block_size info)) w = (prog, w1)" by fastforce
  then obtain t where w1: "w1 = w\<lparr>w_clock := t\<rparr>" using progress_init_frame by blast
  obtain a w2 where m1: "sys_malloc w1 = (a, w2)" by fastforce
  obtain b w3 where m2: "sys_malloc w2 = (b, w3)" by fastforce
  obtain c2 where w2: "w2 = w1\<lparr>w_allocs := c2\<rparr>" and a: "allocs_ok w1 \<longrightarrow> a \<and> allocs_ok w2"
    by (rule sys_malloc_frame [OF m1])
  obtain c3 where w3: "w3 = w2\<lparr>w_allocs := c3\<rparr>" and b: "allocs_ok w2 \<longrightarrow> b \<and> allocs_ok w3"
    by (rule sys_malloc_frame [OF m2])
  have f3: "frame {q} {dfr, dfw} w w3" by (simp add: w1 w2 w3 frame_def benign_def)
  have r3: "ptf_ready w3 dfr p src dfw q nd" using rdy by (simp add: w1 w2 w3)
  have ab: "a \<and> b" if "allocs_ok w" using that a b by (simp add: w1 allocs_ok_def)
  have cap: "buffer_capacity bs = Some cap" using geo by (simp add: geometry_def)
  show ?thesis
  proof (cases "a \<and> b")
    case False
    with ab have "ptf_result dfr p src dfw q nd w (data_section (unat (blocks_per_checksum opt)) D) False w3"
      by (intro ptf_result_fail r3 f3) auto
    with False show ?thesis by (auto simp: read_write_data_ptf_def pi m1 m2 cap)
  next
    case True
    from r3 obtain pos where onr: "fd_on w3 dfr p pos False src" and rd: "reading w3 dfr p src"
      and on: "fd_on w3 dfw q (length (i_bytes nd)) True nd" and kq: "i_kind nd \<noteq> BLK" "p \<noteq> q"
      and cr: "crc_ready w3"
      by (auto simp: ptf_ready_def reading_def)
    have seek: "sys_lseek dfr 0 False w3 = (0, set_pos dfr 0 w3)"
      using sys_lseek_ok [OF onr, of 0] geo by (simp add: geometry_def)
    define w4 where "w4 = (set_pos dfr 0 w3)\<lparr>crc_tab32 := crc_table, cs_mode := CSM_CRC32\<rparr>"
    have ic: "init_checksum CSM_CRC32 (replicate 4 (w_junk w3)) (set_pos dfr 0 w3) = (le_bytes 4 CRC32_SEED, w4)"
      using cr by (simp add: w4_def init_checksum_fresh crc_ready_def)
    have "frame {q} {dfr, dfw} w3 w4" by (auto simp: w4_def frame_def benign_def)
    with f3 have f4: "frame {q} {dfr, dfw} w w4" by (rule frame_trans)
    have r4: "reading w4 dfr p src" "fd_on w4 dfw q (length (i_bytes nd)) True nd" "crc_on w4"
      using reading_set_pos [OF rd] fd_on_reader_set_pos [OF on rd] by (simp_all add: w4_def crc_on_def)
    obtain ok k cs cc' w5 where loop: "ptf_loop sync bs cap ?tot opt bm dfr dfw prog (junk_pdata w4) 0
        (le_bytes 4 CRC32_SEED) 0 cc w4 = (ok, k, cs, cc', w5)"
      by (metis prod_cases5)
    have "ptf_outcome dfr p src dfw q (length (i_bytes nd)) nd w4
        (cs_body crc_upd crc_ser CRC32_SEED (unat (blocks_per_checksum opt)) 0 CRC32_SEED D)
        (cs_state crc_upd CRC32_SEED (unat (blocks_per_checksum opt)) 0 CRC32_SEED D) (ok, k, cs, cc', w5)"
      unfolding loop [symmetric] by (rule ptf_loop_outcome [OF geo opts bm kq(2) kq(1) r4]) (simp_all add: D)
    from ptf_outcome_step [OF f4 r4(2) refl _ _ this, where out = "[]"]
    have out: "ptf_outcome dfr p src dfw q (length (i_bytes nd)) nd w
        (cs_body crc_upd crc_ser CRC32_SEED (unat (blocks_per_checksum opt)) 0 CRC32_SEED D)
        (cs_state crc_upd CRC32_SEED (unat (blocks_per_checksum opt)) 0 CRC32_SEED D) (ok, k, cs, cc', w5)"
      by simp
    have o: "unat (checksum_size opt) = 4" "uint (checksum_mode opt) = CSM_CRC32"
      using opts by (simp_all add: crc_opts_def CSM_CRC32_def)
    have eq: "read_write_data_ptf sync bs info opt bm dfr dfw cc w =
        (if \<not> ok then Some (False, w5)
         else if k > 0 then let (w_size, _, w2) = write_read_io_all dfw (take 4 cs) 4 True w5 in Some (w_size = int 4, w2)
         else Some (True, w5))"
      using True ic loop by (simp add: read_write_data_ptf_def pi m1 m2 cap seek o)
    show ?thesis
    proof (cases ok)
      case True
      then show ?thesis
        using ptf_tail [of dfr p src dfw q nd w _ _ k cs cc' w5] out kq
        by (simp add: eq data_section_def checked_stream_def)
    next
      case False
      from out False obtain o' rest nd' where "frame {q} {dfr, dfw} w w5" "reading w5 dfr p src" "crc_on w5"
          "fd_on w5 dfw q (length (i_bytes nd')) True nd'" "i_kind nd' = i_kind nd"
          "i_bytes nd' = i_bytes nd @ o'"
          "cs_body crc_upd crc_ser CRC32_SEED (unat (blocks_per_checksum opt)) 0 CRC32_SEED D = o' @ rest" "\<not> benign w"
        by (auto simp: ptf_outcome_def)
      then have "ptf_result dfr p src dfw q nd w (data_section (unat (blocks_per_checksum opt)) D) False w5"
        using kq
        by (intro ptf_resultI [where nd' = nd' and out = o' and rest = "rest @ cs_tail crc_ser
              (cs_state crc_upd CRC32_SEED (unat (blocks_per_checksum opt)) 0 CRC32_SEED D)"])
          (simp_all add: crc_ready_on data_section_def checked_stream_def)
      with False show ?thesis by (auto simp: eq)
    qed
  qed
qed

section \<open>Properties\<close>

text \<open>
  The bitmap drives the copy: \<^verbatim>\<open>get_read_blocks_size\<close> called on a block number gives the next run of
  used blocks. There is no used block before the run, the run has at most the capacity of the buffer, and
  it is empty only when no used block is left.
\<close>

theorem next_run_of_used_blocks:
  assumes "bm_wf tot bm" and "i \<le> tot" and "0 < cap" and "get_read_blocks_size tot cap bm i = (n, i')"
  shows "filter (\<lambda>k. pc_test_bit k bm tot = 1) [i..<tot] =
      (if n = 0 then [] else [i'..<i' + n] @ filter (\<lambda>k. pc_test_bit k bm tot = 1) [i' + n..<tot]) \<and>
    n \<le> cap \<and> i' + n \<le> tot"
proof -
  have "filter (\<lambda>k. pc_test_bit k bm tot = 1) [a..<tot] = used_from bm tot a" for a
    unfolding used_from_def using pc.test_in [OF assms(1)] by (intro filter_cong) auto
  then show ?thesis using get_read_blocks_size_used [OF assms] by simp
qed

theorem next_run_of_used_blocks_witness:
  "filter (\<lambda>k. pc_test_bit k (Some [0x36]) 6 = 1) [0..<6] =
     (if (2 :: nat) = 0 then [] else [1..<1 + 2] @ filter (\<lambda>k. pc_test_bit k (Some [0x36]) 6 = 1) [1 + 2..<6]) \<and>
   (2 :: nat) \<le> 4 \<and> 1 + 2 \<le> (6 :: nat)"
proof (rule next_run_of_used_blocks)
  show "get_read_blocks_size 6 4 (Some [0x36]) 0 = (2, 1)" by code_simp
qed (simp_all add: bm_wf_def)

text \<open>
  C4: The copy of a partition to an image, under every schedule of interruptions, short transfers and
  errors: \<^verbatim>\<open>read_write_data_ptf\<close> returns, and has appended to the image a prefix of the data section
  (the used blocks in order, with a checksum after every full group and one after the last). It reports
  success only when the section is complete, it succeeds whenever no transfer or allocation fails for
  good, it changes no other file and sends nothing but progress.
\<close>

theorem copy_to_image_any_schedule:
  assumes "geometry bs cap (unat (totalblock info)) src" and "crc_opts opt" and "bm_wf (unat (totalblock info)) bm"
    and "ptf_ready w dfr p src dfw q nd"
  shows "\<exists>ok w' nd' out rest evs. read_write_data_ptf sync bs info opt bm dfr dfw cc w = Some (ok, w') \<and>
    w_nodes w' q = Some nd' \<and> i_bytes nd' = i_bytes nd @ out \<and>
    data_section (unat (blocks_per_checksum opt))
      (map (blk bs (i_bytes src)) (used_from bm (unat (totalblock info)) 0)) = out @ rest \<and>
    (ok \<longrightarrow> rest = []) \<and> (benign w \<and> allocs_ok w \<longrightarrow> ok) \<and> (w_nodes w')(q := None) = (w_nodes w)(q := None) \<and>
    w_out w' = w_out w @ evs \<and> list_all is_progress evs"
proof -
  obtain ok w' where run: "read_write_data_ptf sync bs info opt bm dfr dfw cc w = Some (ok, w')"
    and res: "ptf_result dfr p src dfw q nd w (data_section (unat (blocks_per_checksum opt))
      (map (blk bs (i_bytes src)) (used_from bm (unat (totalblock info)) 0))) ok w'"
    using read_write_data_ptf_result [OF assms refl] by blast
  from res obtain out rest nd' where f: "frame {q} {dfr, dfw} w w'" and r: "ptf_ready w' dfr p src dfw q nd'"
    and o: "i_bytes nd' = i_bytes nd @ out"
      "data_section (unat (blocks_per_checksum opt)) (map (blk bs (i_bytes src)) (used_from bm (unat (totalblock info)) 0)) = out @ rest"
      "ok \<longrightarrow> rest = []" "benign w \<and> allocs_ok w \<longrightarrow> ok"
    unfolding ptf_result_def by blast
  from f obtain evs where e: "w_out w' = w_out w @ evs" "list_all is_progress evs" "(w_nodes w')(q := None) = (w_nodes w)(q := None)"
    by (auto simp: frame_def fun_eq_iff)
  have "w_nodes w' q = Some nd'" using r by (simp add: ptf_ready_def fd_on_def)
  with run o e show ?thesis by blast
qed

text \<open>A source of four blocks of 512 bytes, two of them used, and a target with an open descriptor.\<close>

definition engine_info :: file_system_info where
  "engine_info = init_file_system_info\<lparr>totalblock := 4, usedblocks := 2, block_size := 512, device_size := 2048\<rparr>"

definition engine_options :: image_options where
  "engine_options = init_image_options\<lparr>blocks_per_checksum := 2048\<rparr>"

definition engine_source :: inode where
  "engine_source = \<lparr>i_kind = BLK, i_bytes = replicate 2048 5, i_dirty = False, i_readable = True, i_writable = True\<rparr>"

definition engine_image :: inode where
  "engine_image = \<lparr>i_kind = REG, i_bytes = [1, 2, 3], i_dirty = False, i_readable = True, i_writable = True\<rparr>"

definition engine_world :: "inode \<Rightarrow> nat \<Rightarrow> inode \<Rightarrow> nat \<Rightarrow> world" where
  "engine_world src rpos tgt wpos =
     \<lparr>crc_tab32 = replicate 256 0, cs_mode = 0, w_nodes = [''s'' \<mapsto> src, ''t'' \<mapsto> tgt],
      w_fdtab = [Some \<lparr>o_path = ''s'', o_pos = rpos, o_write = False\<rparr>, Some \<lparr>o_path = ''t'', o_pos = wpos, o_write = True\<rparr>],
      w_sched = [Short 10, Fail EINTR, Short 700, Fail ENOSPC], w_allocs = [True], w_clock = [1, 2, 3], w_vfs = Map.empty,
      w_creatable = (\<lambda>p. False), w_junk = 0xAA, fat_FS = 0, btrfs_block_size = 0, xfs_mp = None, w_out = []\<rparr>"

lemma engine_world_on:
  "fd_on (engine_world src rpos tgt wpos) 0 ''s'' rpos False src"
  "fd_on (engine_world src rpos tgt wpos) 1 ''t'' wpos True tgt"
  "crc_ready (engine_world src rpos tgt wpos)"
  by (simp_all add: fd_on_def engine_world_def fd_lookup_def crc_ready_def)

lemma engine_facts:
  "geometry 512 2048 (unat (totalblock engine_info)) engine_source" "crc_opts engine_options"
  "bm_wf (unat (totalblock engine_info)) (Some [10])"
  by (simp_all add: geometry_def engine_info_def engine_source_def buffer_capacity_def DEFAULT_BUFFER_SIZE_def cdiv_def
      crc_opts_def engine_options_def init_image_options_def set_image_options_def bm_wf_def)

theorem copy_to_image_any_schedule_witness:
  "\<exists>ok w' nd' out rest evs. read_write_data_ptf True 512 engine_info engine_options (Some [10]) 0 1 0
      (engine_world engine_source 0 engine_image 3) = Some (ok, w') \<and>
    w_nodes w' ''t'' = Some nd' \<and> i_bytes nd' = i_bytes engine_image @ out \<and>
    data_section (unat (blocks_per_checksum engine_options))
      (map (blk 512 (i_bytes engine_source)) (used_from (Some [10]) (unat (totalblock engine_info)) 0)) = out @ rest \<and>
    (ok \<longrightarrow> rest = []) \<and>
    (benign (engine_world engine_source 0 engine_image 3) \<and> allocs_ok (engine_world engine_source 0 engine_image 3) \<longrightarrow> ok) \<and>
    (w_nodes w')(''t'' := None) = (w_nodes (engine_world engine_source 0 engine_image 3))(''t'' := None) \<and>
    w_out w' = w_out (engine_world engine_source 0 engine_image 3) @ evs \<and> list_all is_progress evs"
proof (rule copy_to_image_any_schedule [OF engine_facts])
  show "ptf_ready (engine_world engine_source 0 engine_image 3) 0 ''s'' engine_source 1 ''t'' engine_image"
    unfolding ptf_ready_def reading_def
  proof (intro conjI exI)
    show "fd_on (engine_world engine_source 0 engine_image 3) 1 ''t'' (length (i_bytes engine_image)) True engine_image"
      using engine_world_on(2) [of engine_source 0 engine_image 3] by (simp add: engine_image_def numeral_3_eq_3)
    show "i_kind engine_image \<noteq> BLK" by (simp add: engine_image_def)
  qed (rule engine_world_on | simp)+
qed

end
