(* ===== verification/PtpProofs.thy ===== *)
theory PtpProofs
  imports CopyProofs
begin

text \<open>
  Correctness of \<^verbatim>\<open>read_write_data_ptp\<close>: used blocks are copied to the same place of the target,
  and no byte of an unused block of the target changes, not even when the copy fails half-way.
\<close>

section \<open>Writing a run of blocks in place\<close>

lemma put_bytes_in_place:
  assumes on: "fd_on w fd q pos True nd" and "pos + length d \<le> length (i_bytes nd)"
  obtains nd' where "fd_on (put_bytes fd d w) fd q (pos + length d) True nd'"
    and "i_kind nd' = i_kind nd" and "i_bytes nd' = overwrite (i_bytes nd) pos d"
  using fd_on_put_bytes [OF on, of d] assms(2)
  by (intro that [of "node_put nd pos d"]) (simp_all add: i_bytes_node_put write_at_overwrite)

lemma fd_on_frame:
  "fd_on w fd p pos wr nd \<Longrightarrow> frame ps fds w w' \<Longrightarrow> p \<notin> ps \<Longrightarrow> fd \<notin> fds \<Longrightarrow> fd_on w' fd p pos wr nd"
  by (auto simp: frame_def fd_on_def)

lemma reading_frame:
  "reading w fd p nd \<Longrightarrow> frame ps fds w w' \<Longrightarrow> p \<notin> ps \<Longrightarrow> fd \<notin> fds \<Longrightarrow> reading w' fd p nd"
  unfolding reading_def using fd_on_frame by blast

lemma write_run:
  assumes on: "fd_on w dfw q (i * bs) True nd"
    and geo: "geometry bs cap tot nd" and "i + n \<le> tot" "n \<le> cap" and len: "length buf = n * bs"
  obtains (full) w1 nd1 where
      "write_read_io_all dfw buf (n * bs) True w = (int (n * bs), [], w1)"
      "frame {q} {dfw} w w1" "crc_on w1 = crc_on w"
      "fd_on w1 dfw q ((i + n) * bs) True nd1" "i_kind nd1 = i_kind nd"
      "i_bytes nd1 = overwrite (i_bytes nd) (i * bs) buf"
  | (failed) w1 nd1 pos1 r where
      "write_read_io_all dfw buf (n * bs) True w = (r, [], w1)" "r \<noteq> int (n * bs)"
      "frame {q} {dfw} w w1" "crc_on w1 = crc_on w"
      "fd_on w1 dfw q pos1 True nd1" "i_kind nd1 = i_kind nd"
      "untouched (\<lambda>j. i \<le> j \<and> j < i + n) bs (i_bytes nd) (i_bytes nd1)" "\<not> benign w"
proof -
  have b: "n * bs < 2 ^ 31" using geometry_chunk(1) [OF geo assms(4)] by simp
  have room: "i * bs + n * bs \<le> length (i_bytes nd)" using geometry_range(1) [OF geo assms(3)] .
  show thesis
  proof (cases rule: io_all_write [OF on len b, case_names full partly])
    case (full s)
    let ?w = "(put_bytes dfw buf w)\<lparr>w_sched := s\<rparr>"
    obtain nd1 where nd1: "fd_on (put_bytes dfw buf w) dfw q (i * bs + length buf) True nd1"
        "i_kind nd1 = i_kind nd" "i_bytes nd1 = overwrite (i_bytes nd) (i * bs) buf"
      using put_bytes_in_place [OF on, of buf] room len by metis
    have "frame {q} {dfw} w (put_bytes dfw buf w)" by (rule frame_put_bytes [OF on]) simp_all
    then have "frame {q} {dfw} w ?w"
      by (rule frame_trans) (rule frame_sched, use full(2) in \<open>simp add: benign_def\<close>)
    then show ?thesis
      using full nd1 len
      by (intro that(1) [of ?w nd1]) (simp_all add: add_mult_distrib)
  next
    case (partly k s r)
    let ?w = "(put_bytes dfw (take k buf) w)\<lparr>w_sched := s\<rparr>"
    have nb: "\<not> benign w" using partly(4) room by simp
    have k: "i * bs + length (take k buf) \<le> length (i_bytes nd)" using partly(2) room len by simp
    obtain nd1 where nd1: "fd_on (put_bytes dfw (take k buf) w) dfw q (i * bs + length (take k buf)) True nd1"
        "i_kind nd1 = i_kind nd" "i_bytes nd1 = overwrite (i_bytes nd) (i * bs) (take k buf)"
      using put_bytes_in_place [OF on k] by metis
    have "frame {q} {dfw} w (put_bytes dfw (take k buf) w)" by (rule frame_put_bytes [OF on]) simp_all
    then have "frame {q} {dfw} w ?w"
      by (rule frame_trans) (rule frame_sched, use nb in \<open>simp add: benign_def\<close>)
    moreover have "untouched (\<lambda>j. i \<le> j \<and> j < i + n) bs (i_bytes nd) (i_bytes nd1)"
      unfolding nd1(3) by (rule overwrite_untouched [OF k, where n = n]) (use partly(2) len in auto)
    moreover have "r \<noteq> int (n * bs)"
      using partly(2,3) by linarith
    ultimately show ?thesis
      using partly(1) nd1 nb
      by (intro that(2) [of r ?w "i * bs + length (take k buf)" nd1]) simp_all
  qed
qed

lemma geometry_cong:
  "i_kind nd' = i_kind nd \<Longrightarrow> length (i_bytes nd') = length (i_bytes nd) \<Longrightarrow>
   geometry bs cap tot nd' = geometry bs cap tot nd"
  by (simp add: geometry_def)

lemma untouched_mono:
  "untouched U bs t t' \<Longrightarrow> (\<And>j. U j \<Longrightarrow> V j) \<Longrightarrow> untouched V bs t t'"
  by (auto simp: untouched_def)

section \<open>The loop\<close>

definition ptp_outcome ::
    "int \<Rightarrow> string \<Rightarrow> inode \<Rightarrow> int \<Rightarrow> string \<Rightarrow> inode \<Rightarrow> nat \<Rightarrow> nat list \<Rightarrow> world \<Rightarrow> bool \<times> world \<Rightarrow> bool" where
  "ptp_outcome dfr p src dfw q nd bs ids w res \<longleftrightarrow>
     (case res of (ok, w') \<Rightarrow>
        \<exists>pos' nd'. frame {q} {dfr, dfw} w w' \<and> reading w' dfr p src \<and> fd_on w' dfw q pos' True nd' \<and>
          i_kind nd' = i_kind nd \<and> untouched (\<lambda>j. j \<in> set ids) bs (i_bytes nd) (i_bytes nd') \<and>
          (ok \<longrightarrow> i_bytes nd' = put_blocks bs ids (map (blk bs (i_bytes src)) ids) (i_bytes nd)) \<and>
          (\<not> ok \<longrightarrow> \<not> benign w))"

lemma ptp_outcomeI:
  assumes "frame {q} {dfr, dfw} w w'" "reading w' dfr p src" "fd_on w' dfw q pos' True nd'"
    and "i_kind nd' = i_kind nd" "untouched (\<lambda>j. j \<in> set ids) bs (i_bytes nd) (i_bytes nd')"
    and "ok \<Longrightarrow> i_bytes nd' = put_blocks bs ids (map (blk bs (i_bytes src)) ids) (i_bytes nd)"
    and "\<not> ok \<Longrightarrow> \<not> benign w"
  shows "ptp_outcome dfr p src dfw q nd bs ids w (ok, w')"
  using assms unfolding ptp_outcome_def by auto

lemma ptp_outcome_step:
  assumes "frame {q} {dfr, dfw} w w1" and "i_kind nd1 = i_kind nd"
    and "i_bytes nd1 = put_blocks bs ids (map (blk bs (i_bytes src)) ids) (i_bytes nd)"
    and "untouched (\<lambda>j. j \<in> set ids) bs (i_bytes nd) (i_bytes nd1)"
    and "ptp_outcome dfr p src dfw q nd1 bs ids' w1 res"
  shows "ptp_outcome dfr p src dfw q nd bs (ids @ ids') w res"
proof -
  obtain ok w' where res: "res = (ok, w')" by (cases res)
  from assms(5) obtain pos' nd' where f: "frame {q} {dfr, dfw} w1 w'" "reading w' dfr p src"
      "fd_on w' dfw q pos' True nd'" "i_kind nd' = i_kind nd1"
      "untouched (\<lambda>j. j \<in> set ids') bs (i_bytes nd1) (i_bytes nd')"
      "ok \<longrightarrow> i_bytes nd' = put_blocks bs ids' (map (blk bs (i_bytes src)) ids') (i_bytes nd1)"
      "\<not> ok \<longrightarrow> \<not> benign w1"
    unfolding ptp_outcome_def res by auto
  have "untouched (\<lambda>j. j \<in> set (ids @ ids')) bs (i_bytes nd) (i_bytes nd')"
    by (rule untouched_trans [OF untouched_mono [OF assms(4)] untouched_mono [OF f(5)]]) auto
  moreover have "frame {q} {dfr, dfw} w w'" by (rule frame_trans [OF assms(1) f(1)])
  moreover have "\<not> benign w" if "\<not> ok" using that f(7) assms(1) by (auto simp: frame_def)
  ultimately show ?thesis
    unfolding res using f assms(2,3) by (intro ptp_outcomeI [of q dfr dfw w w' p src pos' nd']) (auto simp: put_blocks_append)
qed

lemma run_fits:
  assumes "geometry bs cap tot nd" "i + n \<le> tot" "tot * bs \<le> length d"
  shows "fits bs [i..<i + n] (map (blk bs d) [i..<i + n]) (i_bytes nd)"
proof -
  have "(j + 1) * bs \<le> length (i_bytes nd)" if "j < i + n" for j
    using geometry_range(1) [OF assms(1), of j 1] that assms(2) by simp
  then show ?thesis using assms by (auto simp: fits_def length_blk [where n = tot])
qed

lemma ptp_loop_outcome:
  assumes gs: "geometry bs cap tot src" and bm: "bm_wf tot bm" and pq: "p \<noteq> q"
  shows "geometry bs cap tot nd \<Longrightarrow> reading w dfr p src \<Longrightarrow> fd_on w dfw q pos True nd \<Longrightarrow> i \<le> tot \<Longrightarrow>
    ptp_outcome dfr p src dfw q nd bs (used_from bm tot i) w
      (ptp_loop bs cap tot bm dfr dfw prog pdata i w)"
proof (induction "tot - i" arbitrary: i w nd pos pdata rule: less_induct)
  case less
  obtain n i' where g: "get_read_blocks_size tot cap bm i = (n, i')" by fastforce
  note used = get_read_blocks_size_used [OF bm less.prems(4) geometry_cap [OF gs] g]
  note gt = less.prems(1) and rd = less.prems(2) and on = less.prems(3)
  note loop = ptp_loop.simps [of bs cap tot bm dfr dfw prog pdata i w]
  show ?case
  proof (cases "n = 0")
    case True
    with loop g have "ptp_loop bs cap tot bm dfr dfw prog pdata i w = (True, w)" by (simp add: Let_def)
    moreover have "used_from bm tot i = []" using used(1) True by simp
    ultimately show ?thesis using rd on by (auto intro: ptp_outcomeI)
  next
    case False
    let ?ids = "[i'..<i' + n]" and ?E = "used_from bm tot (i' + n)"
    have U: "used_from bm tot i = ?ids @ ?E" using used(1) False by simp
    have i': "i' \<le> tot" using used(2) by simp
    note chunk = geometry_chunk(1) [OF gs used(3)]
    have cnt: "(n * bs) mod 2 ^ 64 = n * bs" and cnt32: "to_int32 (n * bs) = int (n * bs)"
      using chunk by (simp_all add: to_int32_small)
    obtain rpos where on_r: "fd_on w dfr p rpos False src" using rd by (auto simp: reading_def)
    obtain sk where seek: "sys_lseek dfr (to_off ((i' * bs) mod 2 ^ 64)) False w = (sk, set_pos dfr (i' * bs) w)"
      "sk \<noteq> -1" using seek_block [OF on_r gs i'] by metis
    let ?w0 = "set_pos dfr (i' * bs) w" and ?w1 = "set_pos dfw (i' * bs) (set_pos dfr (i' * bs) w)"
    have on0: "fd_on ?w0 dfw q pos True nd" using fd_on_reader_set_pos [OF on rd] .
    have diff: "dfr \<noteq> dfw" using on on_r by (auto simp: fd_on_def)
    obtain sk' where seek': "sys_lseek dfw (to_off ((i' * bs) mod 2 ^ 64)) False ?w0 = (sk', ?w1)"
      "sk' \<noteq> -1" using seek_block [OF on0 gt i'] by metis
    have on1: "fd_on ?w1 dfw q (i' * bs) True nd" using fd_on_set_pos(1) [OF on0] .
    have on_r1: "fd_on ?w1 dfr p (i' * bs) False src"
      using fd_on_set_pos(2) [OF reading_seek [OF rd]] diff by simp
    have f1: "frame {q} {dfr, dfw} w ?w1"
      by (rule frame_trans [OF frame_set_pos frame_set_pos]) simp_all
    have range: "i' * bs + n * bs \<le> length (i_bytes src)" using geometry_range(1) [OF gs used(2)] .
    have nb: "n * bs < 2 ^ 31" using chunk by simp
    show ?thesis
    proof (cases rule: read_at [OF on_r1 range nb, case_names full failed])
      case (failed data s m r)
      let ?w2 = "(set_pos dfr (i' * bs + m) ?w1)\<lparr>w_sched := s\<rparr>"
      have rd1: "reading ?w1 dfr p src" using on_r1 by (auto simp: reading_def)
      have "ptp_loop bs cap tot bm dfr dfw prog pdata i w = (False, ?w2)"
        using loop g False seek seek' failed(1,2) cnt cnt32 by (simp add: Let_def)
      moreover have "frame {q} {dfr, dfw} ?w1 ?w2" by (rule frame_read) (use failed(3) in auto)
      then have "frame {q} {dfr, dfw} w ?w2" by (rule frame_trans [OF f1])
      moreover have "\<not> benign w" using failed(3) by simp
      ultimately show ?thesis
        using reading_set_pos [OF rd1, of dfr "i' * bs + m"] fd_on_reader_set_pos [OF on1 rd1, of "i' * bs + m"]
        by (simp add: ptp_outcomeI [where nd' = nd and pos' = "i' * bs"])
    next
      case (full s)
      let ?w2 = "(set_pos dfr (i' * bs + n * bs) ?w1)\<lparr>w_sched := s\<rparr>"
      let ?buf = "take (n * bs) (drop (i' * bs) (i_bytes src))"
      have rd1: "reading ?w1 dfr p src" using on_r1 by (auto simp: reading_def)
      have "frame {q} {dfr, dfw} ?w1 ?w2" by (rule frame_read) (use full(2) in auto)
      then have f2: "frame {q} {dfr, dfw} w ?w2" by (rule frame_trans [OF f1])
      have rd2: "reading ?w2 dfr p src" and on2: "fd_on ?w2 dfw q (i' * bs) True nd"
        using reading_set_pos [OF rd1] fd_on_reader_set_pos [OF on1 rd1] by simp_all
      have len: "length ?buf = n * bs" using range by simp
      have in_ids: "(\<lambda>j. i' \<le> j \<and> j < i' + n) = (\<lambda>j. j \<in> set ?ids)" by auto
      show ?thesis
      proof (cases rule: write_run [OF on2 gt used(2,3) len, case_names full failed])
        case (failed w3 nd3 pos3 r)
        have "ptp_loop bs cap tot bm dfr dfw prog pdata i w = (False, w3)"
          using loop g False seek seek' full(1) failed(1,2) cnt cnt32 by (simp add: Let_def)
        moreover have "\<not> benign w" using failed(8) f2 by (auto simp: frame_def)
        moreover have "untouched (\<lambda>j. j \<in> set (?ids @ ?E)) bs (i_bytes nd) (i_bytes nd3)"
          using failed(7) unfolding in_ids by (rule untouched_mono) simp
        ultimately show ?thesis
          using failed frame_trans [OF f2 frame_mono [OF failed(3)]] reading_frame [OF rd2 failed(3)] pq diff
          by (auto simp: U intro: ptp_outcomeI)
      next
        case wr: (full w3 nd3)
        obtain pd w4 where rp: "report_progress prog (i' + n) pdata w3 = (pd, w4)" by fastforce
        obtain t l where w4: "w4 = w3\<lparr>w_clock := t, w_out := l\<rparr>" and f4: "frame {q} {dfr, dfw} w3 w4"
          by (rule report_progress_eq [OF rp])
        have eq: "ptp_loop bs cap tot bm dfr dfw prog pdata i w = ptp_loop bs cap tot bm dfr dfw prog pd (i' + n) w4"
          using loop g False seek seek' full(1) wr(1) cnt cnt32 rp by (simp add: Let_def)
        have f: "frame {q} {dfr, dfw} w w4"
          by (rule frame_trans [OF f2 frame_trans [OF frame_mono [OF wr(2)] f4]]) simp_all
        have rd3: "reading w3 dfr p src" by (rule reading_frame [OF rd2 wr(2)]) (use pq diff in simp_all)
        let ?G = "map (blk bs (i_bytes src)) ?ids"
        have G: "?G = blocks_of bs n ?buf" by (simp add: map_blk_upt blocks_of_take)
        have fit: "fits bs ?ids ?G (i_bytes nd)"
          by (rule run_fits [OF gt used(2)]) (use gs in \<open>simp add: geometry_def\<close>)
        have nd3: "i_bytes nd3 = put_blocks bs ?ids ?G (i_bytes nd)"
        proof -
          have "put_blocks bs [i'..<i' + length ?G] ?G (i_bytes nd) = overwrite (i_bytes nd) (i' * bs) (concat ?G)"
            by (rule put_blocks_run) (use fit geometry_range(1) [OF gt used(2)] in \<open>simp_all add: fits_def add_mult_distrib\<close>)
          then show ?thesis using wr(6) len by (simp add: G concat_blocks_of)
        qed
        have ut: "untouched (\<lambda>j. j \<in> set ?ids) bs (i_bytes nd) (i_bytes nd3)"
          unfolding nd3 by (rule put_blocks_untouched [OF fit]) simp
        have "i < i' + n" using get_read_blocks_size_progress [OF g False] by simp
        then have "tot - (i' + n) < tot - i" using used(2) by linarith
        moreover have "geometry bs cap tot nd3" using gt wr(5) untouched_length [OF ut] by (simp add: geometry_def)
        ultimately have "ptp_outcome dfr p src dfw q nd3 bs ?E w4 (ptp_loop bs cap tot bm dfr dfw prog pd (i' + n) w4)"
          by (rule less.hyps) (use rd3 wr(4) w4 used(2) in simp_all)
        from ptp_outcome_step [OF f wr(5) nd3 ut this] show ?thesis by (simp add: eq U)
      qed
    qed
  qed
qed

section \<open>The whole copy\<close>

text \<open>
  The target after a copy of the blocks \<open>ids\<close>: bytes of other blocks are as before; on success
  the blocks hold \<open>D\<close>.
\<close>

definition blocks_result ::
    "int set \<Rightarrow> int \<Rightarrow> string \<Rightarrow> inode \<Rightarrow> nat \<Rightarrow> nat list \<Rightarrow> byte list list \<Rightarrow> world \<Rightarrow> bool \<Rightarrow> world \<Rightarrow> bool" where
  "blocks_result fds dfw q nd bs ids D w ok w' \<longleftrightarrow>
     (\<exists>pos' nd'. frame {q} fds w w' \<and> fd_on w' dfw q pos' True nd' \<and> i_kind nd' = i_kind nd \<and>
        untouched (\<lambda>j. j \<in> set ids) bs (i_bytes nd) (i_bytes nd') \<and>
        (ok \<longrightarrow> i_bytes nd' = put_blocks bs ids D (i_bytes nd)) \<and>
        (benign w \<and> allocs_ok w \<longrightarrow> ok))"

lemma blocks_result_fail:
  assumes "frame {q} fds w w'" "fd_on w' dfw q pos True nd" "\<not> (benign w \<and> allocs_ok w)"
  shows "blocks_result fds dfw q nd bs ids D w False w'"
  unfolding blocks_result_def
  by (rule exI [of _ pos], rule exI [of _ nd]) (use assms in auto)

lemma read_write_data_ptp_result:
  assumes gs: "geometry bs cap (unat (totalblock info)) src" and gt: "geometry bs cap (unat (totalblock info)) nd"
    and bm: "bm_wf (unat (totalblock info)) bm" and rd: "reading w dfr p src"
    and on: "fd_on w dfw q pos True nd" and pq: "p \<noteq> q"
    and ids: "ids = used_from bm (unat (totalblock info)) 0"
  shows "\<exists>ok w'. read_write_data_ptp bs info bm dfr dfw w = Some (ok, w') \<and> reading w' dfr p src \<and>
    blocks_result {dfr, dfw} dfw q nd bs ids (map (blk bs (i_bytes src)) ids) w ok w'"
proof -
  let ?tot = "unat (totalblock info)"
  obtain prog w1 where pi: "progress_init 0 (unat (usedblocks info)) (sint (block_size info)) w = (prog, w1)" by fastforce
  then obtain t where w1: "w1 = w\<lparr>w_clock := t\<rparr>" using progress_init_frame by blast
  obtain a w2 where m1: "sys_malloc w1 = (a, w2)" by fastforce
  obtain c2 where w2: "w2 = w1\<lparr>w_allocs := c2\<rparr>" and a: "allocs_ok w1 \<longrightarrow> a \<and> allocs_ok w2"
    by (rule sys_malloc_frame [OF m1])
  have f2: "frame {q} {dfr, dfw} w w2" by (simp add: w1 w2 frame_def benign_def)
  have on2: "fd_on w2 dfw q pos True nd" and rd2: "reading w2 dfr p src" using on rd by (simp_all add: w1 w2)
  have a': "a" if "allocs_ok w" using that a by (simp add: w1 allocs_ok_def)
  have cap: "buffer_capacity bs = Some cap" using gs by (simp add: geometry_def)
  show ?thesis
  proof (cases a)
    case False
    with a' have "blocks_result {dfr, dfw} dfw q nd bs ids (map (blk bs (i_bytes src)) ids) w False w2"
      by (intro blocks_result_fail [OF f2 on2]) auto
    with False rd2 show ?thesis by (auto simp: read_write_data_ptp_def pi m1 cap)
  next
    case True
    from rd2 obtain rpos where onr: "fd_on w2 dfr p rpos False src" by (auto simp: reading_def)
    have seek: "sys_lseek dfr 0 False w2 = (0, set_pos dfr 0 w2)"
      using sys_lseek_ok [OF onr, of 0] gs by (simp add: geometry_def)
    let ?w3 = "set_pos dfr 0 w2"
    have f3: "frame {q} {dfr, dfw} w ?w3" by (rule frame_trans [OF f2 frame_set_pos]) simp
    obtain ok w' where loop: "ptp_loop bs cap ?tot bm dfr dfw prog (junk_pdata ?w3) 0 ?w3 = (ok, w')" by fastforce
    have "ptp_outcome dfr p src dfw q nd bs ids ?w3 (ok, w')"
      unfolding loop [symmetric] ids
      by (rule ptp_loop_outcome [OF gs bm pq gt reading_set_pos [OF rd2] fd_on_reader_set_pos [OF on2 rd2]]) simp
    from ptp_outcome_step [OF f3 refl _ _ this, of "[]"]
    have "ptp_outcome dfr p src dfw q nd bs ids w (ok, w')" by simp
    then have "reading w' dfr p src \<and> blocks_result {dfr, dfw} dfw q nd bs ids (map (blk bs (i_bytes src)) ids) w ok w'"
      by (auto simp: ptp_outcome_def blocks_result_def)
    moreover have "read_write_data_ptp bs info bm dfr dfw w = Some (ok, w')"
      using True loop by (simp add: read_write_data_ptp_def pi m1 cap seek)
    ultimately show ?thesis by blast
  qed
qed

section \<open>The blocks of the target\<close>

lemma used_from_fits:
  assumes "geometry bs cap tot nd" and "geometry bs cap' tot src"
  shows "fits bs (used_from bm tot 0) (map (blk bs (i_bytes src)) (used_from bm tot 0)) (i_bytes nd)"
  unfolding fits_def
proof (intro conjI ballI)
  fix b assume "b \<in> set (map (blk bs (i_bytes src)) (used_from bm tot 0))"
  then show "length b = bs" using assms(2) by (auto simp: in_used_from geometry_def intro: length_blk)
next
  fix i assume "i \<in> set (used_from bm tot 0)"
  then have "i + 1 \<le> tot" by (simp add: in_used_from)
  then have "(i + 1) * bs \<le> tot * bs" by (rule mult_right_mono) simp
  then show "(i + 1) * bs \<le> length (i_bytes nd)" using assms(1) by (simp add: geometry_def)
qed simp

text \<open>After the used blocks of the source are put on the target, block by block.\<close>

lemma blk_put_used:
  assumes "geometry bs cap tot nd" and "geometry bs cap' tot src" and i: "i < tot"
    and "t' = put_blocks bs (used_from bm tot 0) (map (blk bs (i_bytes src)) (used_from bm tot 0)) (i_bytes nd)"
  shows "blk bs t' i = (if bm_mem bm i then blk bs (i_bytes src) i else blk bs (i_bytes nd) i)"
proof -
  let ?ids = "used_from bm tot 0"
  note fits = used_from_fits [OF assms(1,2), of bm]
  show ?thesis
  proof (cases "bm_mem bm i")
    case True
    then have "i \<in> set ?ids" using i by (simp add: in_used_from)
    then obtain j where j: "j < length ?ids" "?ids ! j = i" by (auto simp: in_set_conv_nth)
    have "distinct ?ids" by (simp add: used_from_def)
    then have "blk bs t' i = map (blk bs (i_bytes src)) ?ids ! j"
      using blk_put_blocks [OF fits _ j(1)] j(2) assms(4) by simp
    then show ?thesis using True j by simp
  next
    case False
    then have "i \<notin> set ?ids" by (simp add: in_used_from)
    moreover have "(i + 1) * bs \<le> tot * bs" using i by (intro mult_right_mono) simp_all
    ultimately show ?thesis
      using False fits assms(1,4) by (simp add: blk_put_blocks_other geometry_def)
  qed
qed

section \<open>Properties\<close>

text \<open>
  C5: The copy from partition to partition, under every schedule of interruptions, short transfers and
  errors: \<^verbatim>\<open>read_write_data_ptp\<close> returns; it changes bytes of used blocks only, also when it fails; when
  it reports success, every used block of the target equals the one of the source and every other is as
  before; and it succeeds whenever no transfer or allocation fails for good.
\<close>

theorem copy_partition_any_schedule:
  assumes "geometry bs cap (unat (totalblock info)) src" and "geometry bs cap (unat (totalblock info)) nd"
    and "bm_wf (unat (totalblock info)) bm" and "fd_on w dfr p rpos False src" and "fd_on w dfw q pos True nd" and "p \<noteq> q"
  shows "\<exists>ok w' nd'. read_write_data_ptp bs info bm dfr dfw w = Some (ok, w') \<and> w_nodes w' q = Some nd' \<and>
    untouched (bm_mem bm) bs (i_bytes nd) (i_bytes nd') \<and>
    (ok \<longrightarrow> (\<forall>i < unat (totalblock info). blk bs (i_bytes nd') i =
       (if bm_mem bm i then blk bs (i_bytes src) i else blk bs (i_bytes nd) i))) \<and>
    (benign w \<and> allocs_ok w \<longrightarrow> ok) \<and> (w_nodes w')(q := None) = (w_nodes w)(q := None)"
proof -
  have rd: "reading w dfr p src" using assms(4) by (auto simp: reading_def)
  obtain ok w' where run: "read_write_data_ptp bs info bm dfr dfw w = Some (ok, w')"
    and res: "blocks_result {dfr, dfw} dfw q nd bs (used_from bm (unat (totalblock info)) 0)
      (map (blk bs (i_bytes src)) (used_from bm (unat (totalblock info)) 0)) w ok w'"
    using read_write_data_ptp_result [OF assms(1-3) rd assms(5,6) refl] by blast
  from res obtain pos' nd' where f: "frame {q} {dfr, dfw} w w'" and on: "fd_on w' dfw q pos' True nd'"
    and u: "untouched (\<lambda>j. j \<in> set (used_from bm (unat (totalblock info)) 0)) bs (i_bytes nd) (i_bytes nd')"
    and o: "ok \<longrightarrow> i_bytes nd' = put_blocks bs (used_from bm (unat (totalblock info)) 0)
        (map (blk bs (i_bytes src)) (used_from bm (unat (totalblock info)) 0)) (i_bytes nd)" "benign w \<and> allocs_ok w \<longrightarrow> ok"
    unfolding blocks_result_def by blast
  have "untouched (bm_mem bm) bs (i_bytes nd) (i_bytes nd')"
    using u by (auto simp: untouched_def in_used_from)
  moreover have "w_nodes w' q = Some nd'" using on by (simp add: fd_on_def)
  moreover have "(w_nodes w')(q := None) = (w_nodes w)(q := None)" using f by (auto simp: frame_def fun_eq_iff)
  moreover have "ok \<longrightarrow> (\<forall>i < unat (totalblock info). blk bs (i_bytes nd') i =
       (if bm_mem bm i then blk bs (i_bytes src) i else blk bs (i_bytes nd) i))"
    using blk_put_used [OF assms(2,1)] o(1) by blast
  ultimately show ?thesis using run o(2) by blast
qed

definition engine_partition :: inode where
  "engine_partition = \<lparr>i_kind = BLK, i_bytes = replicate 4096 9, i_dirty = False, i_readable = True, i_writable = True\<rparr>"

lemma engine_partition_facts:
  "geometry 512 2048 (unat (totalblock engine_info)) engine_partition"
  by (simp add: geometry_def engine_info_def engine_partition_def buffer_capacity_def DEFAULT_BUFFER_SIZE_def cdiv_def)

theorem copy_partition_any_schedule_witness:
  "\<exists>ok w' nd'. read_write_data_ptp 512 engine_info (Some [10]) 0 1 (engine_world engine_source 0 engine_partition 0) = Some (ok, w') \<and>
    w_nodes w' ''t'' = Some nd' \<and> untouched (bm_mem (Some [10])) 512 (i_bytes engine_partition) (i_bytes nd') \<and>
    (ok \<longrightarrow> (\<forall>i < unat (totalblock engine_info). blk 512 (i_bytes nd') i =
       (if bm_mem (Some [10]) i then blk 512 (i_bytes engine_source) i else blk 512 (i_bytes engine_partition) i))) \<and>
    (benign (engine_world engine_source 0 engine_partition 0) \<and> allocs_ok (engine_world engine_source 0 engine_partition 0) \<longrightarrow> ok) \<and>
    (w_nodes w')(''t'' := None) = (w_nodes (engine_world engine_source 0 engine_partition 0))(''t'' := None)"
  by (rule copy_partition_any_schedule [OF engine_facts(1) engine_partition_facts engine_facts(3) engine_world_on(1,2)]) simp

end
