(* ===== verification/RestoreProofs.thy ===== *)
theory RestoreProofs
  imports PtpProofs
begin

text \<open>
  Correctness of \<^verbatim>\<open>read_write_data_restore\<close> for the images the daemon writes, whose checksum
  groups have the size of the copy buffer: it returns on every image content and every
  schedule, it reports success only when every checksum is right, it then has put every used
  block in its place, and in no case does it change an unused block.
\<close>

section \<open>Checking a chunk\<close>

lemma restore_blocks_partial:
  assumes "crc_on w"
  shows "k + n < bpc \<Longrightarrow> bpc < 2 ^ 32 \<Longrightarrow> n * bs \<le> length rbuf \<Longrightarrow>
   restore_blocks bs bpc 4 CSM_CRC32 n rbuf (le_bytes 4 c) k w =
     Some (True, take (n * bs) rbuf, drop (n * bs) rbuf, le_bytes 4 (crc_upd c (take (n * bs) rbuf)), k + n, w)"
proof (induction n arbitrary: rbuf c k)
  case (Suc n)
  then have "n * bs \<le> length (drop bs rbuf)" by simp
  with Suc show ?case
    by (simp add: update_checksum_crc [OF assms] Let_def take_add crc32_append add.commute)
qed simp

lemma restore_blocks_full:
  assumes "crc_on w"
  shows "k + n = bpc \<Longrightarrow> 0 < n \<Longrightarrow> bpc < 2 ^ 32 \<Longrightarrow> n * bs + 4 \<le> length rbuf \<Longrightarrow>
   restore_blocks bs bpc 4 CSM_CRC32 n rbuf (le_bytes 4 c) k w =
     (if take 4 (drop (n * bs) rbuf) = le_bytes 4 (crc_upd c (take (n * bs) rbuf))
      then Some (True, take (n * bs) rbuf, drop (n * bs + 4) rbuf, le_bytes 4 CRC32_SEED, 0, w)
      else Some (False, take (n * bs) rbuf, drop ((n - 1) * bs) rbuf,
                 le_bytes 4 (crc_upd c (take (n * bs) rbuf)), bpc, w))"
proof (induction n arbitrary: rbuf c k)
  case (Suc n)
  show ?case
  proof (cases "n = 0")
    case True
    with Suc.prems show ?thesis
      by (simp add: update_checksum_crc [OF assms] init_checksum_crc [OF assms] Let_def add.commute)
  next
    case False
    then have m: "bs + (n - Suc 0) * bs = n * bs" by (cases n) simp_all
    have "n * bs + 4 \<le> length (drop bs rbuf)" using Suc.prems by simp
    with Suc False show ?thesis
      by (simp add: update_checksum_crc [OF assms] Let_def take_add crc32_append add.commute
          add.left_commute m)
  qed
qed simp

section \<open>Writing a chunk\<close>

definition write_outcome_blocks ::
    "int \<Rightarrow> string \<Rightarrow> inode \<Rightarrow> nat \<Rightarrow> bitmap \<Rightarrow> nat \<Rightarrow> nat \<Rightarrow> nat \<Rightarrow> byte list list \<Rightarrow> nat \<Rightarrow> world
     \<Rightarrow> bool \<times> nat \<times> nat \<times> progress_data \<times> world \<Rightarrow> bool" where
  "write_outcome_blocks dfw q nd bs bm tot i m D cc w res \<longleftrightarrow>
     (case res of (ok, i', cc', pd', w') \<Rightarrow>
        \<exists>pos' nd'. frame {q} {dfw} w w' \<and> crc_on w' = crc_on w \<and> fd_on w' dfw q pos' True nd' \<and>
          i_kind nd' = i_kind nd \<and>
          untouched (\<lambda>j. j \<in> set (take m (used_from bm tot i))) bs (i_bytes nd) (i_bytes nd') \<and>
          (if ok then pos' = i' * bs \<and> i' \<le> tot \<and> cc' = cc + m \<and>
                      used_from bm tot i' = drop m (used_from bm tot i) \<and>
                      i_bytes nd' = put_blocks bs (take m (used_from bm tot i)) D (i_bytes nd)
           else \<not> benign w))"

lemma write_outcome_blocksI:
  assumes "frame {q} {dfw} w w'" "crc_on w' = crc_on w" "fd_on w' dfw q pos' True nd'" "i_kind nd' = i_kind nd"
    and "untouched (\<lambda>j. j \<in> set (take m (used_from bm tot i))) bs (i_bytes nd) (i_bytes nd')"
    and "ok \<Longrightarrow> pos' = i' * bs \<and> i' \<le> tot \<and> cc' = cc + m \<and> used_from bm tot i' = drop m (used_from bm tot i) \<and>
           i_bytes nd' = put_blocks bs (take m (used_from bm tot i)) D (i_bytes nd)"
    and "\<not> ok \<Longrightarrow> \<not> benign w"
  shows "write_outcome_blocks dfw q nd bs bm tot i m D cc w (ok, i', cc', pd', w')"
  using assms unfolding write_outcome_blocks_def by auto

lemma write_outcome_blocks_step:
  assumes f: "frame {q} {dfw} w w1" "crc_on w1 = crc_on w" "i_kind nd1 = i_kind nd"
    and U: "used_from bm tot i = [j..<j + n] @ used_from bm tot (j + n)" and "n \<le> m"
    and nd1: "i_bytes nd1 = put_blocks bs [j..<j + n] G (i_bytes nd)" and "length G = n"
    and ut: "untouched (\<lambda>l. l \<in> set [j..<j + n]) bs (i_bytes nd) (i_bytes nd1)"
    and rec: "write_outcome_blocks dfw q nd1 bs bm tot (j + n) (m - n) E (cc + n) w1 res"
  shows "write_outcome_blocks dfw q nd bs bm tot i m (G @ E) cc w res"
proof -
  obtain ok i' cc' pd' w' where res: "res = (ok, i', cc', pd', w')" by (cases res)
  from rec obtain pos' nd' where r: "frame {q} {dfw} w1 w'" "crc_on w' = crc_on w1" "fd_on w' dfw q pos' True nd'"
      "i_kind nd' = i_kind nd1"
      "untouched (\<lambda>l. l \<in> set (take (m - n) (used_from bm tot (j + n)))) bs (i_bytes nd1) (i_bytes nd')"
      "if ok then pos' = i' * bs \<and> i' \<le> tot \<and> cc' = cc + n + (m - n) \<and>
          used_from bm tot i' = drop (m - n) (used_from bm tot (j + n)) \<and>
          i_bytes nd' = put_blocks bs (take (m - n) (used_from bm tot (j + n))) E (i_bytes nd1)
        else \<not> benign w1"
    unfolding write_outcome_blocks_def res by auto
  have t: "take m (used_from bm tot i) = [j..<j + n] @ take (m - n) (used_from bm tot (j + n))"
    and d: "drop m (used_from bm tot i) = drop (m - n) (used_from bm tot (j + n))"
    using U \<open>n \<le> m\<close> by simp_all
  show ?thesis
    unfolding res
  proof (rule write_outcome_blocksI [where nd' = nd' and pos' = pos'])
    show "frame {q} {dfw} w w'" by (rule frame_trans [OF f(1) r(1)])
    show "untouched (\<lambda>l. l \<in> set (take m (used_from bm tot i))) bs (i_bytes nd) (i_bytes nd')"
      by (rule untouched_trans [OF untouched_mono [OF ut] untouched_mono [OF r(5)]]) (auto simp: t)
    show "\<not> benign w" if "\<not> ok" using that r(6) f(1) by (auto simp: frame_def)
  qed (use r f nd1 \<open>n \<le> m\<close> \<open>length G = n\<close> t d in \<open>auto simp: put_blocks_append\<close>)
qed

text \<open>One round of the inner loop.\<close>

lemma seek_skip:
  assumes on: "fd_on w dfw q (i * bs) True nd" and geo: "geometry bs cap tot nd" and "i + s \<le> tot"
  obtains sk w1 where
      "(if 0 < (s * bs) mod 2 ^ 64 then sys_lseek dfw (to_off ((s * bs) mod 2 ^ 64)) True w else (0, w)) = (sk, w1)"
      "sk \<noteq> -1" "fd_on w1 dfw q ((i + s) * bs) True nd" "frame {q} {dfw} w w1" "crc_on w1 = crc_on w" "benign w1 = benign w"
proof -
  have range: "i * bs + s * bs \<le> length (i_bytes nd)" using geometry_range(1) [OF geo assms(3)] .
  then have small: "s * bs < 2 ^ 63" using geo by (simp add: geometry_def)
  then have m: "(s * bs) mod 2 ^ 64 = s * bs" by simp
  show thesis
  proof (cases "s * bs = 0")
    case True
    then show ?thesis using on geo m by (intro that [of 0 w]) (auto simp: geometry_def)
  next
    case False
    have "sys_lseek dfw (int (s * bs)) True w = (int (i * bs + s * bs), set_pos dfw (i * bs + s * bs) w)"
      by (rule sys_lseek_cur_ok [OF on]) (use geo range in \<open>auto simp: geometry_def\<close>)
    moreover have "int (i * bs + s * bs) \<noteq> -1" by linarith
    ultimately show ?thesis
      using False m small fd_on_set_pos(1) [OF on] that(1) [of "int (i * bs + s * bs)" "set_pos dfw (i * bs + s * bs) w"]
      by (simp add: to_off_small frame_set_pos add_mult_distrib)
  qed
qed

lemma restore_write_outcome:
  assumes bm: "bm_wf tot bm" and nr: "blocks_read \<le> cap" and wb: "length wbuf = blocks_read * bs"
  shows "geometry bs cap tot nd \<Longrightarrow> fd_on w dfw q (i * bs) True nd \<Longrightarrow> i \<le> tot \<Longrightarrow>
    m = blocks_read - wr \<Longrightarrow> 0 < m \<Longrightarrow> m \<le> length (used_from bm tot i) \<Longrightarrow>
    \<exists>res. restore_write bs tot blocks_read bm dfw prog wbuf wr i cc pd w = Some res \<and>
      write_outcome_blocks dfw q nd bs bm tot i m (blocks_of bs m (drop (wr * bs) wbuf)) cc w res"
proof (induction m arbitrary: wr i cc pd w nd rule: less_induct)
  case (less m)
  note geo = less.prems(1) and on = less.prems(2)
  define s where "s = skip_loop bm tot i 0"
  let ?j = "i + s"
  note sk = skip_used_from [OF bm less.prems(3), folded s_def]
  have j: "?j < tot"
  proof (rule ccontr)
    assume "\<not> ?j < tot"
    then have "?j = tot" using sk(3) by simp
    then show False using sk(1) less.prems(5,6) by simp
  qed
  define n where "n = run_loop bm tot m ?j 0"
  have n0: "0 < n" using run_loop_pos [OF bm j less.prems(5) sk(2) [OF j]] by (simp add: n_def)
  note run = run_used_from [OF bm sk(3) n_def]
  have U: "used_from bm tot i = [?j..<?j + n] @ used_from bm tot (?j + n)" using sk(1) run(1) by simp
  have ncap: "n \<le> cap" using run(3) less.prems(4) nr by simp
  obtain skv w1 where seek: "(if 0 < (s * bs) mod 2 ^ 64 then sys_lseek dfw (to_off ((s * bs) mod 2 ^ 64)) True w else (0, w)) = (skv, w1)"
      "skv \<noteq> -1" and on1: "fd_on w1 dfw q (?j * bs) True nd" and f1: "frame {q} {dfw} w w1"
      and c1: "crc_on w1 = crc_on w" and b1: "benign w1 = benign w"
    by (rule seek_skip [OF on geo sk(3)])
  have small: "n * bs < 2 ^ 30" using geometry_chunk(1) [OF geo ncap] .
  define buf where "buf = take (n * bs) (drop (wr * bs) wbuf)"
  have wrn: "wr + n \<le> blocks_read" using run(3) less.prems(4,5) by simp
  then have "(wr + n) * bs \<le> blocks_read * bs" by (rule mult_right_mono) simp
  then have len: "length buf = n * bs" using wb by (simp add: buf_def add_mult_distrib)
  have loop: "restore_write bs tot blocks_read bm dfw prog wbuf wr i cc pd w =
      (let (w_size, _, w2) = write_read_io_all dfw buf (n * bs) True w1
       in if w_size \<noteq> int (n * bs) then Some (False, ?j, cc, pd, w2)
          else let (pd', w3) = report_progress prog (cc + n) pd (sys_fsync dfw w2)
               in if wr + n < blocks_read
                  then restore_write bs tot blocks_read bm dfw prog wbuf (wr + n) (?j + n) (cc + n) pd' w3
                  else Some (True, ?j + n, cc + n, pd', w3))"
  proof -
    have sr: "skip_loop bm tot i 0 = s" "run_loop bm tot (blocks_read - wr) ?j 0 = n"
      using less.prems(4) by (simp_all add: s_def n_def)
    have cnt: "(n * bs) mod 2 ^ 32 = n * bs" "to_int32 (n * bs) = int (n * bs)" "(0 < n) = True" "(skv = -1) = False"
      using small n0 seek(2) by (simp_all add: to_int32_small)
    show ?thesis
      by (subst restore_write.simps)
        (simp only: Let_def sr seek(1) cnt prod.case buf_def [symmetric] if_True if_False simp_thms)
  qed
  let ?G = "blocks_of bs n buf"
  have D: "blocks_of bs m (drop (wr * bs) wbuf) = ?G @ blocks_of bs (m - n) (drop ((wr + n) * bs) wbuf)"
    using blocks_of_split [OF run(3), of bs "drop (wr * bs) wbuf"] by (simp add: buf_def add_mult_distrib add.commute)
  have in_ids: "(\<lambda>l. ?j \<le> l \<and> l < ?j + n) = (\<lambda>l. l \<in> set [?j..<?j + n])" by auto
  show ?case
  proof (cases rule: write_run [OF on1 geo run(2) ncap len, case_names full failed])
    case (failed w2 nd2 pos2 r)
    have "untouched (\<lambda>l. l \<in> set (take m (used_from bm tot i))) bs (i_bytes nd) (i_bytes nd2)"
      using failed(7) unfolding in_ids by (rule untouched_mono) (use U run(3) in auto)
    then have "write_outcome_blocks dfw q nd bs bm tot i m (blocks_of bs m (drop (wr * bs) wbuf)) cc w
        (False, ?j, cc, pd, w2)"
      using failed frame_trans [OF f1 failed(3)] c1 b1
      by (intro write_outcome_blocksI [where nd' = nd2 and pos' = pos2]) simp_all
    with failed(1,2) show ?thesis by (auto simp: loop)
  next
    case (full w2 nd2)
    define nd3 where "nd3 = nd2\<lparr>i_dirty := False\<rparr>"
    obtain pd' w3 where rp: "report_progress prog (cc + n) pd (sys_fsync dfw w2) = (pd', w3)" by fastforce
    obtain t l where w3: "w3 = (sys_fsync dfw w2)\<lparr>w_clock := t, w_out := l\<rparr>"
        and f3: "frame {q} {dfw} (sys_fsync dfw w2) w3"
      by (rule report_progress_eq [OF rp])
    have "frame {q} {dfw} w2 (sys_fsync dfw w2)" using frame_fsync [OF full(4)] by simp
    then have f: "frame {q} {dfw} w w3" by (meson f1 full(2) f3 frame_trans)
    have on3: "fd_on w3 dfw q ((?j + n) * bs) True nd3"
      using fd_on_fsync [OF full(4)] by (simp add: w3 nd3_def)
    have c3: "crc_on w3 = crc_on w" using full(3) c1 by (simp add: w3)
    have Glen: "\<forall>b \<in> set ?G. length b = bs" using blocks_of_length [of n bs buf] len by simp
    have nd3: "i_bytes nd3 = put_blocks bs [?j..<?j + n] ?G (i_bytes nd)"
    proof -
      have "put_blocks bs [?j..<?j + length ?G] ?G (i_bytes nd) = overwrite (i_bytes nd) (?j * bs) (concat ?G)"
        by (rule put_blocks_run [OF Glen]) (use geometry_range(1) [OF geo run(2)] in \<open>simp add: add_mult_distrib\<close>)
      then show ?thesis using full(6) len by (simp add: nd3_def concat_blocks_of)
    qed
    have ut: "untouched (\<lambda>l. l \<in> set [?j..<?j + n]) bs (i_bytes nd) (i_bytes nd3)"
      using full(6) overwrite_untouched [of ?j bs buf "i_bytes nd" n "\<lambda>l. l \<in> set [?j..<?j + n]"]
        geometry_range(1) [OF geo run(2)] len by (simp add: nd3_def)
    have k3: "i_kind nd3 = i_kind nd" using full(5) by (simp add: nd3_def)
    note step = write_outcome_blocks_step [OF f c3 k3 U run(3) nd3 _ ut]
    show ?thesis
    proof (cases "wr + n < blocks_read")
      case False
      then have "m = n" using wrn less.prems(4) by simp
      have "write_outcome_blocks dfw q nd3 bs bm tot (?j + n) (m - n) [] (cc + n) w3 (True, ?j + n, cc + n, pd', w3)"
        using on3 run(2) \<open>m = n\<close> by (intro write_outcome_blocksI [where nd' = nd3]) simp_all
      from step [OF _ this] show ?thesis
        using False full(1) rp D \<open>m = n\<close> by (simp add: loop)
    next
      case True
      have "\<exists>res. restore_write bs tot blocks_read bm dfw prog wbuf (wr + n) (?j + n) (cc + n) pd' w3 = Some res \<and>
        write_outcome_blocks dfw q nd3 bs bm tot (?j + n) (m - n) (blocks_of bs (m - n) (drop ((wr + n) * bs) wbuf)) (cc + n) w3 res"
      proof (rule less.IH)
        show "geometry bs cap tot nd3" using geo k3 untouched_length [OF ut] by (simp add: geometry_def)
        show "m - n \<le> length (used_from bm tot (?j + n))" using less.prems(6) U by simp
      qed (use n0 True on3 run(2) less.prems(4,5) in simp_all)
      then obtain res where r: "restore_write bs tot blocks_read bm dfw prog wbuf (wr + n) (?j + n) (cc + n) pd' w3 = Some res"
        "write_outcome_blocks dfw q nd3 bs bm tot (?j + n) (m - n) (blocks_of bs (m - n) (drop ((wr + n) * bs) wbuf)) (cc + n) w3 res"
        by blast
      from step [OF _ r(2)] r(1) show ?thesis
        using True full(1) rp D by (simp add: loop)
    qed
  qed
qed

section \<open>The outer loop\<close>

lemma convert_group:
  assumes "0 < cap" "cap dvd cc" "n \<le> cap" "n * bs < 2 ^ 32" "cc + n < 2 ^ 64"
  shows "convert_blocks_to_bytes cc n bs cap 4 = n * bs + (if n = cap then 4 else 0)"
proof -
  from assms(2) obtain g where cc: "cc = cap * g" by blast
  have "(cc + n) div cap = g + n div cap" "cc div cap = g" using assms(1) by (simp_all add: cc)
  moreover have "n div cap = (if n = cap then 1 else 0)" using assms(1,3) by auto
  ultimately show ?thesis
    using assms by (cases "n = cap") (simp_all add: convert_blocks_to_bytes_def get_checksum_count_def Let_def)
qed

abbreviation crc_decode :: "nat \<Rightarrow> nat \<Rightarrow> nat \<Rightarrow> byte list \<Rightarrow> byte list list option" where
  "crc_decode \<equiv> cs_decode crc_upd crc_ser CRC32_SEED 4"

definition restore_outcome ::
    "int \<Rightarrow> int \<Rightarrow> string \<Rightarrow> inode \<Rightarrow> nat \<Rightarrow> nat list \<Rightarrow> byte list list option \<Rightarrow> world \<Rightarrow> bool \<times> world \<Rightarrow> bool" where
  "restore_outcome dfr dfw q nd bs ids dec w res \<longleftrightarrow>
     (case res of (ok, w') \<Rightarrow>
        \<exists>pos' nd'. frame {q} {dfr, dfw} w w' \<and> fd_on w' dfw q pos' True nd' \<and> i_kind nd' = i_kind nd \<and>
          untouched (\<lambda>j. j \<in> set ids) bs (i_bytes nd) (i_bytes nd') \<and>
          (ok \<longrightarrow> (\<exists>D. dec = Some D \<and> i_bytes nd' = put_blocks bs ids D (i_bytes nd))) \<and>
          (benign w \<and> dec \<noteq> None \<longrightarrow> ok))"

lemma restore_outcomeI:
  assumes "frame {q} {dfr, dfw} w w'" "fd_on w' dfw q pos' True nd'" "i_kind nd' = i_kind nd"
    and "untouched (\<lambda>j. j \<in> set ids) bs (i_bytes nd) (i_bytes nd')"
    and "ok \<Longrightarrow> \<exists>D. dec = Some D \<and> i_bytes nd' = put_blocks bs ids D (i_bytes nd)"
    and "benign w \<Longrightarrow> dec \<noteq> None \<Longrightarrow> ok"
  shows "restore_outcome dfr dfw q nd bs ids dec w (ok, w')"
  using assms unfolding restore_outcome_def by auto

lemma restore_outcome_step:
  assumes f: "frame {q} {dfr, dfw} w w1" and k: "i_kind nd1 = i_kind nd" and G: "length G = length ids"
    and nd1: "i_bytes nd1 = put_blocks bs ids G (i_bytes nd)"
    and ut: "untouched (\<lambda>l. l \<in> set ids) bs (i_bytes nd) (i_bytes nd1)"
    and rec: "restore_outcome dfr dfw q nd1 bs ids' dec w1 res"
  shows "restore_outcome dfr dfw q nd bs (ids @ ids') (map_option ((@) G) dec) w res"
proof -
  obtain ok w' where res: "res = (ok, w')" by (cases res)
  from rec obtain pos' nd' where r: "frame {q} {dfr, dfw} w1 w'" "fd_on w' dfw q pos' True nd'"
      "i_kind nd' = i_kind nd1" "untouched (\<lambda>j. j \<in> set ids') bs (i_bytes nd1) (i_bytes nd')"
      "ok \<longrightarrow> (\<exists>D. dec = Some D \<and> i_bytes nd' = put_blocks bs ids' D (i_bytes nd1))"
      "benign w1 \<and> dec \<noteq> None \<longrightarrow> ok"
    unfolding restore_outcome_def res by auto
  show ?thesis
    unfolding res
  proof (rule restore_outcomeI [where nd' = nd' and pos' = pos'])
    show "frame {q} {dfr, dfw} w w'" by (rule frame_trans [OF f r(1)])
    show "untouched (\<lambda>j. j \<in> set (ids @ ids')) bs (i_bytes nd) (i_bytes nd')"
      by (rule untouched_trans [OF untouched_mono [OF ut] untouched_mono [OF r(4)]]) auto
    show "ok" if "benign w" "map_option ((@) G) dec \<noteq> None"
      using that r(6) f by (auto simp: frame_def)
  qed (use r k nd1 G in \<open>auto simp: put_blocks_append\<close>)
qed

text \<open>The checks on one chunk of \<open>n\<close> blocks and its checksum.\<close>

lemma restore_check:
  assumes crc: "crc_on w" and n: "0 < n" "n \<le> cap" "cap < 2 ^ 32" and len: "n * bs + 4 \<le> length rbuf"
  defines "good \<equiv> take 4 (drop (n * bs) rbuf) = le_bytes 4 (crc_upd CRC32_SEED (take (n * bs) rbuf))"
  obtains (good) rest cs k where
      "restore_blocks bs cap 4 CSM_CRC32 n rbuf (le_bytes 4 CRC32_SEED) 0 w =
         Some (True, take (n * bs) rbuf, rest, crc_ser cs, k, w)"
      "k \<noteq> 0 \<and> cap \<noteq> 0 \<and> n < cap \<and> n mod cap \<noteq> 0 \<longrightarrow> \<not> length rest < 4 \<and> take 4 rest = crc_ser cs"
      "n = cap \<Longrightarrow> k = 0 \<and> cs = CRC32_SEED" good
  | (bad) wbuf rest cs k where "n = cap"
      "restore_blocks bs cap 4 CSM_CRC32 n rbuf (le_bytes 4 CRC32_SEED) 0 w = Some (False, wbuf, rest, cs, k, w)"
      "\<not> good"
  | (bad_tail) wbuf rest cs k where "n < cap" "n mod cap \<noteq> 0" "k \<noteq> 0"
      "restore_blocks bs cap 4 CSM_CRC32 n rbuf (le_bytes 4 CRC32_SEED) 0 w =
         Some (True, wbuf, rest, crc_ser cs, k, w)"
      "\<not> length rest < 4" "take 4 rest \<noteq> crc_ser cs" "\<not> good"
proof (cases "n = cap")
  case True
  note full = restore_blocks_full [OF crc, of 0 n cap bs rbuf CRC32_SEED]
  show ?thesis
  proof (cases good)
    case g: True
    show ?thesis
      by (rule that(1)) (use full True g n len in \<open>simp_all add: good_def\<close>)
  next
    case False
    show ?thesis
      by (rule that(2) [OF True]) (use full True False n len in \<open>simp_all add: good_def\<close>)
  qed
next
  case False
  then have nc: "n < cap" using n by simp
  have part: "restore_blocks bs cap 4 CSM_CRC32 n rbuf (le_bytes 4 CRC32_SEED) 0 w =
      Some (True, take (n * bs) rbuf, drop (n * bs) rbuf, le_bytes 4 (crc_upd CRC32_SEED (take (n * bs) rbuf)), n, w)"
    using restore_blocks_partial [OF crc, of 0 n cap bs rbuf CRC32_SEED] nc n len by simp
  have rest: "\<not> length (drop (n * bs) rbuf) < 4" using len by simp
  show ?thesis
  proof (cases good)
    case g: True
    show ?thesis by (rule that(1) [OF part]) (use g rest False in \<open>simp_all add: good_def\<close>)
  next
    case g: False
    show ?thesis by (rule that(3) [OF nc _ _ part]) (use g nc n rest in \<open>simp_all add: good_def\<close>)
  qed
qed

text \<open>Which chunk is read next, and how many bytes.\<close>

lemma restore_chunk:
  assumes "0 < cap" "cap dvd cc" "cc \<le> used" "used + cap < 2 ^ 64" "cap * bs < 2 ^ 30" "cc \<noteq> used"
    and cap: "cap < 2 ^ 32"
  defines "n \<equiv> min cap (used - cc)"
  shows "(if (cc + cap) mod 2 ^ 64 < used then cap else (used + 2 ^ 64 - cc) mod 2 ^ 64 mod 2 ^ 32) = n"
    and "(let r = to_int32 (convert_blocks_to_bytes cc n bs cap 4)
          in if cap \<noteq> 0 \<and> n < cap \<and> n mod cap \<noteq> 0 \<and> used mod cap \<noteq> 0 then r + 4 else r) = int (n * bs + 4)"
proof -
  have n: "0 < n" "n \<le> cap" "cc + n \<le> used" using assms(1,3,6) by (auto simp: n_def)
  show "(if (cc + cap) mod 2 ^ 64 < used then cap else (used + 2 ^ 64 - cc) mod 2 ^ 64 mod 2 ^ 32) = n"
  proof (cases "cc + cap < used")
    case True
    then show ?thesis using assms(4) by (simp add: n_def)
  next
    case False
    have "(cc + cap) mod 2 ^ 64 = cc + cap" using assms(3,4) by simp
    moreover have "(used + 2 ^ 64 - cc) mod 2 ^ 64 = used - cc"
    proof -
      have "used + 2 ^ 64 - cc = (used - cc) + 2 ^ 64" using assms(3) by simp
      then show ?thesis using assms(4) by (simp only: mod_add_self2) simp
    qed
    moreover have "(used - cc) mod 2 ^ 32 = used - cc" using False cap by simp
    ultimately show ?thesis using False by (simp add: n_def)
  qed
  have nb: "n * bs < 2 ^ 30" using n(2) assms(5) by (meson le_less_trans mult_le_mono1)
  have conv: "convert_blocks_to_bytes cc n bs cap 4 = n * bs + (if n = cap then 4 else 0)"
    by (rule convert_group) (use assms n nb in auto)
  have um: "used mod cap = n mod cap" if "n < cap"
  proof -
    from that have "used = cc + n" using assms(3) by (simp add: n_def min_def split: if_splits)
    with assms(2) show ?thesis by (metis mod_add_left_eq mod_eq_0_iff_dvd add_0)
  qed
  show "(let r = to_int32 (convert_blocks_to_bytes cc n bs cap 4)
          in if cap \<noteq> 0 \<and> n < cap \<and> n mod cap \<noteq> 0 \<and> used mod cap \<noteq> 0 then r + 4 else r) = int (n * bs + 4)"
  proof -
    have "to_int32 (n * bs + (if n = cap then 4 else 0)) = int (n * bs + (if n = cap then 4 else 0))"
      by (rule to_int32_small) (use nb in auto)
    moreover have "n < cap \<and> n mod cap \<noteq> 0 \<and> used mod cap \<noteq> 0 \<longleftrightarrow> n \<noteq> cap" using n um by auto
    ultimately show ?thesis using assms(1) by (simp add: conv Let_def)
  qed
qed

text \<open>One round on the images the daemon writes.\<close>

lemma restore_loop_round:
  assumes opts: "crc_opts opt" and bpc: "unat (blocks_per_checksum opt) = cap"
    and cap: "0 < cap" "cap < 2 ^ 32" "cap dvd cc" and used: "cc \<le> used" "used + cap < 2 ^ 64" "cc \<noteq> used"
    and capbs: "cap * bs < 2 ^ 30" and n: "n = min cap (used - cc)"
  shows "restore_loop bs cap used tot buffer_size opt bm dfr dfw prog pd rbuf i (le_bytes 4 CRC32_SEED) 0 cc w =
    (let (r_size, data, w1) = write_read_io_all dfr [] (n * bs + 4) False w
     in if length data > buffer_size then None
        else if r_size \<noteq> int (n * bs + 4) then Some (False, w1)
        else do {
          (ok, wbuf, rest, cs, k, w2) \<leftarrow>
            restore_blocks bs cap 4 CSM_CRC32 n (data @ drop (length data) rbuf) (le_bytes 4 CRC32_SEED) 0 w1;
          if \<not> ok then Some (False, w2)
          else if (k \<noteq> 0 \<and> cap \<noteq> 0 \<and> n < cap \<and> n mod cap \<noteq> 0) \<and> length rest < 4 then None
          else if (k \<noteq> 0 \<and> cap \<noteq> 0 \<and> n < cap \<and> n mod cap \<noteq> 0) \<and> take 4 rest \<noteq> take 4 cs then Some (False, w2)
          else do {
            (ok, i, cc, pd, w3) \<leftarrow> restore_write bs tot n bm dfw prog wbuf 0 i cc pd w2;
            if \<not> ok then Some (False, w3)
            else restore_loop bs cap used tot buffer_size opt bm dfr dfw prog pd
                   (data @ drop (length data) rbuf) i cs k cc w3
          }
        })"
proof -
  have o: "unat (checksum_size opt) = 4" "uint (checksum_mode opt) = CSM_CRC32"
    using opts by (simp_all add: crc_opts_def CSM_CRC32_def)
  note chunk = restore_chunk [OF cap(1,3) used(1,2) capbs used(3) cap(2), folded n]
  have "n \<le> cap" "0 < n" using n cap(1) used by auto
  then have "n * bs < 2 ^ 30" by (meson capbs le_less_trans mult_le_mono1)
  then have c3: "nat (int (n * bs + 4) mod 2 ^ 64) = n * bs + 4" "(n = 0) = False"
    using \<open>0 < n\<close> by (simp_all add: nat_mod_distrib nat_add_distrib nat_mult_distrib)
  show ?thesis
    unfolding restore_loop.simps [of bs cap used tot buffer_size opt bm dfr dfw prog pd rbuf i "le_bytes 4 CRC32_SEED" 0 cc w]
    by (simp only: Let_def o bpc chunk(1) chunk(2) [unfolded Let_def] of_nat_numeral c3 if_False simp_thms)
qed

lemma restore_loop_outcome:
  assumes bm: "bm_wf tot bm" and pq: "p \<noteq> q" and opts: "crc_opts opt" and bpc: "unat (blocks_per_checksum opt) = cap"
    and used: "used = length (used_from bm tot 0)" and buf: "buffer_size = cap * bs + 4"
  shows "geometry bs cap tot nd \<Longrightarrow> fd_on w dfw q (i * bs) True nd \<Longrightarrow> fd_on w dfr p pos False img \<Longrightarrow> crc_on w \<Longrightarrow>
    i \<le> tot \<Longrightarrow> m = length (used_from bm tot i) \<Longrightarrow> cc + m = used \<Longrightarrow> length rbuf = buffer_size \<Longrightarrow>
    (m = 0 \<or> cap dvd cc \<and> k = 0 \<and> cs = le_bytes 4 CRC32_SEED) \<Longrightarrow>
    \<exists>res. restore_loop bs cap used tot buffer_size opt bm dfr dfw prog pd rbuf i cs k cc w = Some res \<and>
      restore_outcome dfr dfw q nd bs (used_from bm tot i) (crc_decode bs cap m (drop pos (i_bytes img))) w res"
proof (induction m arbitrary: i cc pos pd rbuf cs k w nd rule: less_induct)
  case (less m)
  note geo = less.prems(1) and on = less.prems(2) and onr = less.prems(3) and crc = less.prems(4)
  have cap0: "0 < cap" using geometry_cap [OF geo] .
  have tot: "tot < 2 ^ 63"
  proof -
    have "tot * 1 \<le> tot * bs" using geo by (intro mult_le_mono2) (simp add: geometry_def)
    also have "\<dots> < 2 ^ 63" using geo by (simp add: geometry_def)
    finally show ?thesis by simp
  qed
  have "used \<le> tot" using length_used_from [of bm tot 0] by (simp add: used)
  have cap20: "cap \<le> 2 ^ 20"
    using geo by (auto simp: geometry_def buffer_capacity_def cdiv_def DEFAULT_BUFFER_SIZE_def split: if_splits
        intro: order.trans [OF div_le_dividend])
  note loop = restore_loop.simps [of bs cap used tot buffer_size opt bm dfr dfw prog pd rbuf i cs k cc w]
  show ?case
  proof (cases "m = 0")
    case True
    then have "cc = used" using less.prems(7) by simp
    then have "restore_loop bs cap used tot buffer_size opt bm dfr dfw prog pd rbuf i cs k cc w = Some (True, w)"
      using \<open>used \<le> tot\<close> tot cap20 by (subst loop) (simp add: Let_def)
    moreover have "restore_outcome dfr dfw q nd bs (used_from bm tot i) (crc_decode bs cap m (drop pos (i_bytes img))) w (True, w)"
      using True less.prems(6) on by (intro restore_outcomeI [where nd' = nd]) (simp_all add: cs_decode.simps)
    ultimately show ?thesis by blast
  next
    case False
    then have dv: "cap dvd cc" "k = 0" "cs = le_bytes 4 CRC32_SEED" and neq: "cc \<noteq> used" and le: "cc \<le> used"
      using less.prems(7,9) by auto
    define n where "n = min cap (used - cc)"
    have n: "0 < n" "n \<le> cap" "n \<le> m" "n = min cap m"
      using False cap0 less.prems(7) by (auto simp: n_def)
    have capbs: "cap * bs < 2 ^ 30" using geometry_chunk(1) [OF geo order.refl] .
    have nbs: "n * bs + 4 < 2 ^ 31" using geometry_chunk(1) [OF geo n(2)] by simp
    have small: "used + cap < 2 ^ 64" "cap < 2 ^ 32" using \<open>used \<le> tot\<close> tot cap20 by simp_all
    define strm where "strm = drop pos (i_bytes img)"
    note loop' = restore_loop_round [OF opts bpc cap0 small(2) dv(1) le small(1) neq capbs n_def,
        of tot buffer_size bm dfr dfw prog pd rbuf i w]
    have dec: "crc_decode bs cap m strm =
        (if length strm < n * bs + 4 \<or> take 4 (drop (n * bs) strm) \<noteq> crc_ser (crc_upd CRC32_SEED (take (n * bs) strm))
         then None else map_option ((@) (blocks_of bs n strm)) (crc_decode bs cap (m - n) (drop (n * bs + 4) strm)))"
      using False cap0 n(4) by (subst cs_decode.simps) (simp add: Let_def)
    have kd: "dfr \<noteq> dfw" using on onr by (auto simp: fd_on_def)
    show ?thesis
    proof (cases rule: io_all_read [OF onr nbs, of "[]", case_names full partly])
      case (partly j s r)
      let ?w1 = "(set_pos dfr (pos + j) w)\<lparr>w_sched := s\<rparr>"
      have none: "\<not> (benign w \<and> crc_decode bs cap m strm \<noteq> None)"
      proof -
        have "length strm < n * bs + 4 \<or> \<not> benign w" using partly(4) by (auto simp: strm_def)
        then show ?thesis by (auto simp: dec)
      qed
      have "n * bs + 4 \<le> buffer_size" using n(2) by (simp add: buf)
      then have "length (take j strm) \<le> buffer_size" using partly(2) by simp
      moreover have "r \<noteq> int (n * bs + 4)" using partly(3) by linarith
      ultimately have "restore_loop bs cap used tot buffer_size opt bm dfr dfw prog pd rbuf i cs k cc w = Some (False, ?w1)"
        using partly(1) by (auto simp: dv(2,3) loop' strm_def simp del: of_nat_add)
      moreover have "frame {q} {dfr, dfw} w ?w1" by (rule frame_read) (use partly(5) in simp_all)
      moreover have "fd_on ?w1 dfw q (i * bs) True nd" using fd_on_set_pos(2) [OF on] kd by simp
      ultimately show ?thesis
        using none by (auto simp: strm_def [symmetric] intro!: restore_outcomeI)
    next
      case (full s)
      let ?w1 = "(set_pos dfr (pos + (n * bs + 4)) w)\<lparr>w_sched := s\<rparr>"
      define data where "data = take (n * bs + 4) strm"
      define rbuf' where "rbuf' = data @ drop (length data) rbuf"
      have long: "\<not> length strm < n * bs + 4" using full(3) by (auto simp: strm_def)
      then have dl: "length data = n * bs + 4" by (simp add: data_def)
      have fits_buf: "n * bs + 4 \<le> buffer_size" using n(2) by (simp add: buf)
      have rl: "length rbuf' = buffer_size" using dl fits_buf less.prems(8) by (simp add: rbuf'_def)
      have t1: "take (n * bs) rbuf' = take (n * bs) strm" and t2: "take 4 (drop (n * bs) rbuf') = take 4 (drop (n * bs) strm)"
        using long by (simp_all add: rbuf'_def data_def drop_take)
      have f1: "frame {q} {dfr, dfw} w ?w1" by (rule frame_read) (use full(2) in simp_all)
      have on1: "fd_on ?w1 dfw q (i * bs) True nd" using fd_on_set_pos(2) [OF on] kd by simp
      have onr1: "fd_on ?w1 dfr p (pos + (n * bs + 4)) False img" using fd_on_set_pos(1) [OF onr] by simp
      have crc1: "crc_on ?w1" using crc by simp
      have rd: "write_read_io_all dfr [] (n * bs + 4) False w = (int (n * bs + 4), data, ?w1)"
        using full(1) by (simp add: data_def strm_def)
      have round: "restore_loop bs cap used tot buffer_size opt bm dfr dfw prog pd rbuf i cs k cc w =
          do {
            (ok, wbuf, rest, cs, k, w2) \<leftarrow> restore_blocks bs cap 4 CSM_CRC32 n rbuf' (le_bytes 4 CRC32_SEED) 0 ?w1;
            if \<not> ok then Some (False, w2)
            else if (k \<noteq> 0 \<and> cap \<noteq> 0 \<and> n < cap \<and> n mod cap \<noteq> 0) \<and> length rest < 4 then None
            else if (k \<noteq> 0 \<and> cap \<noteq> 0 \<and> n < cap \<and> n mod cap \<noteq> 0) \<and> take 4 rest \<noteq> take 4 cs then Some (False, w2)
            else do {
              (ok, i, cc, pd, w3) \<leftarrow> restore_write bs tot n bm dfw prog wbuf 0 i cc pd w2;
              if \<not> ok then Some (False, w3)
              else restore_loop bs cap used tot buffer_size opt bm dfr dfw prog pd rbuf' i cs k cc w3
            }
          }"
        unfolding rbuf'_def using dl fits_buf by (simp only: dv(2,3) loop' rd Let_def prod.case) simp
      have room: "n * bs + 4 \<le> length rbuf'" using rl fits_buf by simp
      have nofail: ?thesis
        if "restore_loop bs cap used tot buffer_size opt bm dfr dfw prog pd rbuf i cs k cc w = Some (False, ?w1)"
          "take 4 (drop (n * bs) strm) \<noteq> crc_ser (crc_upd CRC32_SEED (take (n * bs) strm))"
      proof -
        have "crc_decode bs cap m strm = None" using that(2) by (simp add: dec)
        then have "restore_outcome dfr dfw q nd bs (used_from bm tot i) (crc_decode bs cap m strm) w (False, ?w1)"
          by (intro restore_outcomeI [OF f1 on1]) simp_all
        with that(1) show ?thesis by (auto simp: strm_def)
      qed
      show ?thesis
      proof (cases rule: restore_check [OF crc1 n(1,2) small(2) room, case_names good bad bad_tail])
        case (bad wbuf rest cs' k')
        then show ?thesis
          by (intro nofail) (use t1 t2 in \<open>simp_all add: round\<close>)
      next
        case (bad_tail wbuf rest cs' k')
        then show ?thesis
          by (intro nofail) (use t1 t2 cap0 in \<open>simp_all add: round\<close>)
      next
        case (good rest cs' k')
        let ?G = "blocks_of bs n strm" and ?ids = "take n (used_from bm tot i)"
        have wl: "length (take (n * bs) rbuf') = n * bs" using room by simp
        have "\<exists>res. restore_write bs tot n bm dfw prog (take (n * bs) rbuf') 0 i cc pd ?w1 = Some res \<and>
            write_outcome_blocks dfw q nd bs bm tot i n (blocks_of bs n (drop (0 * bs) (take (n * bs) rbuf'))) cc ?w1 res"
          by (rule restore_write_outcome [OF bm n(2) wl geo on1]) (use n less.prems(5,6) in simp_all)
        then obtain ok i' cc' pd' w3 where
            rw: "restore_write bs tot n bm dfw prog (take (n * bs) rbuf') 0 i cc pd ?w1 = Some (ok, i', cc', pd', w3)"
          and out: "write_outcome_blocks dfw q nd bs bm tot i n ?G cc ?w1 (ok, i', cc', pd', w3)"
          by (auto simp: t1 blocks_of_take)
        from out obtain pos3 nd3 where w3: "frame {q} {dfw} ?w1 w3" "crc_on w3" "fd_on w3 dfw q pos3 True nd3"
            "i_kind nd3 = i_kind nd" "untouched (\<lambda>j. j \<in> set ?ids) bs (i_bytes nd) (i_bytes nd3)"
            "if ok then pos3 = i' * bs \<and> i' \<le> tot \<and> cc' = cc + n \<and> used_from bm tot i' = drop n (used_from bm tot i) \<and>
              i_bytes nd3 = put_blocks bs ?ids ?G (i_bytes nd) else \<not> benign ?w1"
          using crc1 by (auto simp: write_outcome_blocks_def)
        have f3: "frame {q} {dfr, dfw} w w3" by (rule frame_trans [OF f1 frame_mono [OF w3(1)]]) auto
        have eq: "restore_loop bs cap used tot buffer_size opt bm dfr dfw prog pd rbuf i cs k cc w =
            (if \<not> ok then Some (False, w3)
             else restore_loop bs cap used tot buffer_size opt bm dfr dfw prog pd' rbuf' i' (le_bytes 4 cs') k' cc' w3)"
          using good(1,2) rw by (auto simp: round)
        show ?thesis
        proof (cases ok)
          case False
          have "\<not> benign w" using w3(6) False f1 by (auto simp: frame_def)
          moreover have "untouched (\<lambda>j. j \<in> set (used_from bm tot i)) bs (i_bytes nd) (i_bytes nd3)"
            by (rule untouched_mono [OF w3(5)]) (auto dest: in_set_takeD)
          ultimately have "restore_outcome dfr dfw q nd bs (used_from bm tot i) (crc_decode bs cap m strm) w (False, w3)"
            by (intro restore_outcomeI [OF f3 w3(3,4)]) simp_all
          with False show ?thesis by (auto simp: eq strm_def)
        next
          case True
          have U: "used_from bm tot i = ?ids @ used_from bm tot i'" using w3(6) True by simp
          have "\<exists>res. restore_loop bs cap used tot buffer_size opt bm dfr dfw prog pd' rbuf' i' (le_bytes 4 cs') k' cc' w3 = Some res \<and>
            restore_outcome dfr dfw q nd3 bs (used_from bm tot i')
              (crc_decode bs cap (m - n) (drop (pos + (n * bs + 4)) (i_bytes img))) w3 res"
          proof (rule less.IH)
            show "geometry bs cap tot nd3" using geo w3(4) untouched_length [OF w3(5)] by (simp add: geometry_def)
            show "fd_on w3 dfr p (pos + (n * bs + 4)) False img"
              by (rule fd_on_frame [OF onr1 w3(1)]) (use pq kd in simp_all)
            show "m - n = 0 \<or> cap dvd cc' \<and> k' = 0 \<and> le_bytes 4 cs' = le_bytes 4 CRC32_SEED"
              using good(3) dv(1) w3(6) True n(4) by (cases "n = cap") auto
          qed (use w3 True n less.prems(6,7) rl in auto)
          then obtain res where r: "restore_loop bs cap used tot buffer_size opt bm dfr dfw prog pd' rbuf' i' (le_bytes 4 cs') k' cc' w3 = Some res"
            "restore_outcome dfr dfw q nd3 bs (used_from bm tot i') (crc_decode bs cap (m - n) (drop (n * bs + 4) strm)) w3 res"
            by (auto simp: strm_def add.commute)
          have "length ?G = length ?ids" using n(3) less.prems(6) by simp
          from restore_outcome_step [OF f3 w3(4) this _ w3(5) r(2)] w3(6) True
          have "restore_outcome dfr dfw q nd bs (?ids @ used_from bm tot i')
              (map_option ((@) ?G) (crc_decode bs cap (m - n) (drop (n * bs + 4) strm))) w res" by simp
          then have "restore_outcome dfr dfw q nd bs (used_from bm tot i) (crc_decode bs cap m strm) w res"
            using long good(4) t1 t2 by (simp only: U [symmetric] dec) simp
          with r(1) True show ?thesis by (auto simp: eq strm_def)
        qed
      qed
    qed
  qed
qed

section \<open>The whole restore\<close>

definition restore_result ::
    "int \<Rightarrow> int \<Rightarrow> string \<Rightarrow> inode \<Rightarrow> nat \<Rightarrow> nat list \<Rightarrow> byte list list option \<Rightarrow> world \<Rightarrow> bool \<Rightarrow> world \<Rightarrow> bool" where
  "restore_result dfr dfw q nd bs ids dec w ok w' \<longleftrightarrow>
     (\<exists>pos' nd'. frame {q} {dfr, dfw} w w' \<and> fd_on w' dfw q pos' True nd' \<and> i_kind nd' = i_kind nd \<and>
        untouched (\<lambda>j. j \<in> set ids) bs (i_bytes nd) (i_bytes nd') \<and>
        (ok \<longrightarrow> (\<exists>D. dec = Some D \<and> i_bytes nd' = put_blocks bs ids D (i_bytes nd))) \<and>
        (benign w \<and> allocs_ok w \<and> dec \<noteq> None \<longrightarrow> ok))"

lemma restore_result_fail:
  assumes "frame {q} {dfr, dfw} w w'" "fd_on w' dfw q pos True nd" "\<not> (benign w \<and> allocs_ok w)"
  shows "restore_result dfr dfw q nd bs ids dec w False w'"
  unfolding restore_result_def
  by (rule exI [of _ pos], rule exI [of _ nd]) (use assms in auto)

lemma restore_outcome_result:
  assumes f: "frame {q} {dfr, dfw} w w1" and "restore_outcome dfr dfw q nd bs ids dec w1 (ok, w')"
  shows "restore_result dfr dfw q nd bs ids dec w ok w'"
proof -
  from assms(2) obtain pos' nd' where r: "frame {q} {dfr, dfw} w1 w'" "fd_on w' dfw q pos' True nd'"
      "i_kind nd' = i_kind nd" "untouched (\<lambda>j. j \<in> set ids) bs (i_bytes nd) (i_bytes nd')"
      "ok \<longrightarrow> (\<exists>D. dec = Some D \<and> i_bytes nd' = put_blocks bs ids D (i_bytes nd))"
      "benign w1 \<and> dec \<noteq> None \<longrightarrow> ok"
    unfolding restore_outcome_def by auto
  have "benign w \<and> allocs_ok w \<and> dec \<noteq> None \<longrightarrow> ok" using r(6) f by (auto simp: frame_def)
  with r(2-5) frame_trans [OF f r(1)] show ?thesis unfolding restore_result_def by blast
qed

lemma read_write_data_restore_result:
  assumes bs: "bs = unat (block_size info)" and tot: "tot = unat (totalblock info)"
    and geo: "geometry bs cap tot nd" and opts: "crc_opts opt" and bpc: "unat (blocks_per_checksum opt) = cap"
    and bm: "bm_wf tot bm" and on: "fd_on w dfw q wpos True nd" and onr: "fd_on w dfr p pos False img"
    and pq: "p \<noteq> q" and ready: "crc_ready w" and ids: "ids = used_from bm tot 0"
  shows "\<exists>ok w'. read_write_data_restore info opt bm dfr dfw 0 w = Some (ok, w') \<and>
    restore_result dfr dfw q nd bs ids (crc_decode bs cap (length ids) (drop pos (i_bytes img))) w ok w'"
proof -
  obtain prog w1 where pi: "progress_init 0 (unat (usedblocks info)) (sint (block_size info)) w = (prog, w1)" by fastforce
  then obtain t where w1: "w1 = w\<lparr>w_clock := t\<rparr>" using progress_init_frame by blast
  obtain a w2 where m1: "sys_malloc w1 = (a, w2)" by fastforce
  obtain b w3 where m2: "sys_malloc w2 = (b, w3)" by fastforce
  obtain c2 where w2: "w2 = w1\<lparr>w_allocs := c2\<rparr>" and a: "allocs_ok w1 \<longrightarrow> a \<and> allocs_ok w2"
    by (rule sys_malloc_frame [OF m1])
  obtain c3 where w3: "w3 = w2\<lparr>w_allocs := c3\<rparr>" and b: "allocs_ok w2 \<longrightarrow> b \<and> allocs_ok w3"
    by (rule sys_malloc_frame [OF m2])
  have f3: "frame {q} {dfr, dfw} w w3" by (simp add: w1 w2 w3 frame_def benign_def)
  have on3: "fd_on w3 dfw q wpos True nd" and onr3: "fd_on w3 dfr p pos False img" and cr3: "crc_ready w3"
    using on onr ready by (simp_all add: w1 w2 w3 crc_ready_def)
  have ab: "a \<and> b" if "allocs_ok w" using that a b by (simp add: w1 allocs_ok_def)
  have cap: "buffer_capacity bs = Some cap" and cap0: "0 < cap" using geo geometry_cap by (auto simp: geometry_def)
  have capbs: "cap * bs < 2 ^ 30" using geometry_chunk(1) [OF geo order.refl] .
  have buf: "convert_blocks_to_bytes 0 cap bs cap 4 mod 2 ^ 32 = cap * bs + 4"
    using convert_group [OF cap0, of 0 cap bs] capbs geometry_chunk(2) [OF geo order.refl] cap0 by simp
  have kd: "dfr \<noteq> dfw" using on onr by (auto simp: fd_on_def)
  show ?thesis
  proof (cases "a \<and> b")
    case False
    with ab have "restore_result dfr dfw q nd bs ids (crc_decode bs cap (length ids) (drop pos (i_bytes img))) w False w3"
      by (intro restore_result_fail [OF f3 on3]) auto
    with False show ?thesis by (auto simp: read_write_data_restore_def bs [symmetric] pi m1 m2 cap)
  next
    case True
    have seek: "sys_lseek dfw 0 False w3 = (0, set_pos dfw 0 w3)"
      using sys_lseek_ok [OF on3, of 0] geo by (simp add: geometry_def)
    define w4 where "w4 = (set_pos dfw 0 w3)\<lparr>crc_tab32 := crc_table, cs_mode := CSM_CRC32\<rparr>"
    have ic: "init_checksum CSM_CRC32 (replicate 4 (w_junk w3)) (set_pos dfw 0 w3) = (le_bytes 4 CRC32_SEED, w4)"
      using cr3 by (simp add: w4_def init_checksum_fresh crc_ready_def)
    have "frame {q} {dfr, dfw} w3 w4" by (auto simp: w4_def frame_def benign_def)
    with f3 have f4: "frame {q} {dfr, dfw} w w4" by (rule frame_trans)
    have on4: "fd_on w4 dfw q (0 * bs) True nd" "fd_on w4 dfr p pos False img" "crc_on w4"
      using fd_on_set_pos(1) [OF on3] fd_on_set_pos(2) [OF onr3] kd by (simp_all add: w4_def crc_on_def)
    have o: "unat (checksum_size opt) = 4" "uint (checksum_mode opt) = CSM_CRC32"
      using opts by (simp_all add: crc_opts_def CSM_CRC32_def)
    have "\<exists>res. restore_loop bs cap (length ids) tot (cap * bs + 4) opt bm dfr dfw prog (junk_pdata w4)
          (replicate (cap * bs + 4) (w_junk w4)) 0 (le_bytes 4 CRC32_SEED) 0 0 w4 = Some res \<and>
        restore_outcome dfr dfw q nd bs (used_from bm tot 0) (crc_decode bs cap (length ids) (drop pos (i_bytes img))) w4 res"
      by (rule restore_loop_outcome [OF bm pq opts bpc _ refl geo on4]) (simp_all add: ids)
    then obtain ok w' where loop: "restore_loop bs cap (length ids) tot (cap * bs + 4) opt bm dfr dfw prog (junk_pdata w4)
          (replicate (cap * bs + 4) (w_junk w4)) 0 (le_bytes 4 CRC32_SEED) 0 0 w4 = Some (ok, w')"
      and out: "restore_outcome dfr dfw q nd bs ids (crc_decode bs cap (length ids) (drop pos (i_bytes img))) w4 (ok, w')"
      by (auto simp: ids)
    have "read_write_data_restore info opt bm dfr dfw 0 w = Some (ok, w')"
      using True loop ic buf
      by (simp add: read_write_data_restore_def bs [symmetric] tot [symmetric] pi m1 m2 cap seek o bpc buf [simplified]
          Let_def get_blocks_used_count [OF bm] ids)
    with restore_outcome_result [OF f4 out] show ?thesis by blast
  qed
qed

section \<open>Properties\<close>

text \<open>
  C2: The restore, for every content of the image and every schedule: \<^verbatim>\<open>read_write_data_restore\<close> returns,
  and never changes a byte outside the used blocks. When it reports success, the data of the image
  decoded with a correct checksum for every group, and the blocks on the device are exactly the decoded
  ones. It succeeds whenever the data decodes and no transfer or allocation fails for good.
\<close>

theorem restore_any_image:
  assumes "geometry (unat (block_size info)) cap (unat (totalblock info)) nd" and "crc_opts opt"
    and "unat (blocks_per_checksum opt) = cap" and "bm_wf (unat (totalblock info)) bm"
    and "fd_on w dfw q wpos True nd" and "fd_on w dfr p pos False img" and "p \<noteq> q" and "crc_ready w"
    and "ids = used_from bm (unat (totalblock info)) 0"
  shows "\<exists>ok w' nd'. read_write_data_restore info opt bm dfr dfw 0 w = Some (ok, w') \<and> w_nodes w' q = Some nd' \<and>
    untouched (\<lambda>j. j \<in> set ids) (unat (block_size info)) (i_bytes nd) (i_bytes nd') \<and>
    (ok \<longrightarrow> (\<exists>D. crc_decode (unat (block_size info)) cap (length ids) (drop pos (i_bytes img)) = Some D \<and>
       i_bytes nd' = put_blocks (unat (block_size info)) ids D (i_bytes nd))) \<and>
    (benign w \<and> allocs_ok w \<and> crc_decode (unat (block_size info)) cap (length ids) (drop pos (i_bytes img)) \<noteq> None \<longrightarrow> ok) \<and>
    (w_nodes w')(q := None) = (w_nodes w)(q := None)"
proof -
  obtain ok w' where run: "read_write_data_restore info opt bm dfr dfw 0 w = Some (ok, w')"
    and res: "restore_result dfr dfw q nd (unat (block_size info)) ids
      (crc_decode (unat (block_size info)) cap (length ids) (drop pos (i_bytes img))) w ok w'"
    using read_write_data_restore_result [OF refl refl assms] by blast
  from res obtain pos' nd' where f: "frame {q} {dfr, dfw} w w'" and on: "fd_on w' dfw q pos' True nd'"
    and rest: "untouched (\<lambda>j. j \<in> set ids) (unat (block_size info)) (i_bytes nd) (i_bytes nd')"
      "ok \<longrightarrow> (\<exists>D. crc_decode (unat (block_size info)) cap (length ids) (drop pos (i_bytes img)) = Some D \<and>
         i_bytes nd' = put_blocks (unat (block_size info)) ids D (i_bytes nd))"
      "benign w \<and> allocs_ok w \<and> crc_decode (unat (block_size info)) cap (length ids) (drop pos (i_bytes img)) \<noteq> None \<longrightarrow> ok"
    unfolding restore_result_def by blast
  have "w_nodes w' q = Some nd'" using on by (simp add: fd_on_def)
  moreover have "(w_nodes w')(q := None) = (w_nodes w)(q := None)" using f by (auto simp: frame_def fun_eq_iff)
  ultimately show ?thesis using run rest by blast
qed

theorem restore_any_image_witness:
  "\<exists>ok w' nd'. read_write_data_restore engine_info engine_options (Some [10]) 0 1 0
      (engine_world engine_image 1 engine_partition 0) = Some (ok, w') \<and> w_nodes w' ''t'' = Some nd' \<and>
    untouched (\<lambda>j. j \<in> set [1, 3]) (unat (block_size engine_info)) (i_bytes engine_partition) (i_bytes nd') \<and>
    (ok \<longrightarrow> (\<exists>D. crc_decode (unat (block_size engine_info)) 2048 (length [1, 3 :: nat]) (drop 1 (i_bytes engine_image)) = Some D \<and>
       i_bytes nd' = put_blocks (unat (block_size engine_info)) [1, 3] D (i_bytes engine_partition))) \<and>
    (benign (engine_world engine_image 1 engine_partition 0) \<and> allocs_ok (engine_world engine_image 1 engine_partition 0) \<and>
       crc_decode (unat (block_size engine_info)) 2048 (length [1, 3 :: nat]) (drop 1 (i_bytes engine_image)) \<noteq> None \<longrightarrow> ok) \<and>
    (w_nodes w')(''t'' := None) = (w_nodes (engine_world engine_image 1 engine_partition 0))(''t'' := None)"
proof (rule restore_any_image)
  show "geometry (unat (block_size engine_info)) 2048 (unat (totalblock engine_info)) engine_partition"
    using engine_partition_facts by (simp add: engine_info_def)
  show "[1, 3] = used_from (Some [10]) (unat (totalblock engine_info)) 0" by (simp add: engine_info_def) code_simp
qed (rule engine_facts engine_world_on | simp add: engine_options_def)+

text \<open>
  C3: Damage is never restored as data. Let the data section of an image be changed inside one stretch of
  at most four bytes, anywhere. Then a restore from it that reports success has written exactly the
  blocks that were backed up; otherwise it reports failure. This holds for every schedule.
\<close>

theorem damaged_data_not_restored:
  assumes "geometry (unat (block_size info)) cap (unat (totalblock info)) nd" and "crc_opts opt"
    and "unat (blocks_per_checksum opt) = cap" and "bm_wf (unat (totalblock info)) bm"
    and "fd_on w dfw q wpos True nd" and "fd_on w dfr p pos False img" and "p \<noteq> q" and "crc_ready w"
    and "ids = used_from bm (unat (totalblock info)) 0" and "length D = length ids"
    and "\<forall>b \<in> set D. length b = unat (block_size info)"
    and "near (data_section cap D) (drop pos (i_bytes img))"
  shows "\<exists>ok w' nd'. read_write_data_restore info opt bm dfr dfw 0 w = Some (ok, w') \<and> w_nodes w' q = Some nd' \<and>
    (ok \<longrightarrow> i_bytes nd' = put_blocks (unat (block_size info)) ids D (i_bytes nd))"
proof -
  let ?bs = "unat (block_size info)"
  have cap: "0 < cap" using assms(1) by (rule geometry_cap)
  have good: "crc_decode ?bs cap (length ids) (data_section cap D) = Some D"
    using crc.decode_stream [where bpc = cap and D = D and bs = ?bs and r = "[]"] cap assms(10,11)
    by (simp add: data_section_def)
  have same: "E = D" if "crc_decode ?bs cap (length ids) (drop pos (i_bytes img)) = Some E" for E
    using decode_near [OF cap good that assms(12)] by simp
  obtain ok w' where run: "read_write_data_restore info opt bm dfr dfw 0 w = Some (ok, w')"
    and res: "restore_result dfr dfw q nd ?bs ids (crc_decode ?bs cap (length ids) (drop pos (i_bytes img))) w ok w'"
    using read_write_data_restore_result [OF refl refl assms(1-9)] by blast
  from res obtain pos' nd' where on: "fd_on w' dfw q pos' True nd'"
    and ok: "ok \<longrightarrow> (\<exists>D. crc_decode ?bs cap (length ids) (drop pos (i_bytes img)) = Some D \<and>
         i_bytes nd' = put_blocks ?bs ids D (i_bytes nd))"
    unfolding restore_result_def by blast
  have "w_nodes w' q = Some nd'" using on by (simp add: fd_on_def)
  with run ok same show ?thesis by blast
qed

lemma near_603: "near d (take 600 d @ map f (take 3 (drop 600 d)) @ drop 603 d)"
proof -
  have d: "d = take 600 d @ take 3 (drop 600 d) @ drop 603 d"
    using append_take_drop_id [of 600 d] append_take_drop_id [of 3 "drop 600 d"] by simp
  have "near (take 600 d @ take 3 (drop 600 d) @ drop 603 d) (take 600 d @ map f (take 3 (drop 600 d)) @ drop 603 d)"
    by (rule nearI) simp_all
  then show ?thesis using d by simp
qed

definition damaged_image :: inode where
  "damaged_image = engine_image\<lparr>i_bytes :=
     (let d = data_section 2048 [replicate 512 1, replicate 512 2] in take 600 d @ map NOT (take 3 (drop 600 d)) @ drop 603 d)\<rparr>"

theorem damaged_data_not_restored_witness:
  "\<exists>ok w' nd'. read_write_data_restore engine_info engine_options (Some [10]) 0 1 0
      (engine_world damaged_image 0 engine_partition 0) = Some (ok, w') \<and> w_nodes w' ''t'' = Some nd' \<and>
    (ok \<longrightarrow> i_bytes nd' = put_blocks (unat (block_size engine_info)) [1, 3] [replicate 512 1, replicate 512 2] (i_bytes engine_partition))"
proof (rule damaged_data_not_restored)
  show "geometry (unat (block_size engine_info)) 2048 (unat (totalblock engine_info)) engine_partition"
    using engine_partition_facts by (simp add: engine_info_def)
  show "[1, 3] = used_from (Some [10]) (unat (totalblock engine_info)) 0" by (simp add: engine_info_def) code_simp
  show "\<forall>b \<in> set [replicate 512 1, replicate 512 2]. length b = unat (block_size engine_info)" by (simp add: engine_info_def)
  show "near (data_section 2048 [replicate 512 1, replicate 512 2]) (drop 0 (i_bytes damaged_image))"
    using near_603 [of "data_section 2048 [replicate 512 1, replicate 512 2]"] by (simp add: damaged_image_def Let_def)
qed (rule engine_facts engine_world_on | simp add: engine_options_def)+

end
