(* ===== verification/Handlers.thy ===== *)
theory Handlers
  imports RestoreProofs
begin

text \<open>
  The D-Bus handlers that run a backup or a restore. Every \<^verbatim>\<open>gdbus_sysbak_<fs>_ptf\<close> and
  \<^verbatim>\<open>gdbus_sysbak_<fs>_ptp\<close> is the same sequence of steps around the file system's own
  \<^verbatim>\<open>read_super_blocks\<close> and \<^verbatim>\<open>read_bitmap_info\<close>, which the record \<open>fs_backend\<close> holds. The four files
  differ in when the method call is answered (\<open>early\<close>: before the copy, as all but XFS do), in
  whether the copy loop flushes after every chunk (\<open>sync\<close>: ext and XFS) and in whether the
  handler flushes at its end (\<open>final_sync\<close>: FAT and Btrfs). A \<^verbatim>\<open>goto ERROR\<close> is an error code in
  \<^const>\<open>Inl\<close>; the messages sent are in \<open>w_out\<close>.
\<close>

section \<open>Definitions\<close>

record fs_backend =
  be_super :: "string \<Rightarrow> file_system_info \<Rightarrow> world \<Rightarrow> (bool \<times> file_system_info \<times> world) option"
  be_bitmap :: "string \<Rightarrow> file_system_info \<Rightarrow> bitmap \<Rightarrow> world \<Rightarrow> (bool \<times> bitmap \<times> world) option"
  be_block_size :: "file_system_info \<Rightarrow> world \<Rightarrow> nat"

text \<open>
  The table of messages has ten entries, but a comma is missing after the ninth string: the last
  two are one string, and the tenth entry is \<^verbatim>\<open>NULL\<close>.
\<close>

definition sysbak_error_message :: "string option list" where
  "sysbak_error_message =
     [Some ''Device Busy'', Some ''Failed to open source file'', Some ''Failed to open target file'',
      Some ''Failed to read superblock'', Some ''Not enough memory'', Some ''Failed to read bitmap'',
      Some ''Not enough disk  space'', Some ''Write header information failed'',
      Some (''Failed reading and writing data'' @ ''Failed reading image header''), None]"

definition emit_error :: "nat \<Rightarrow> world \<Rightarrow> world" where
  "emit_error e_code w = emit (Error (sysbak_error_message ! e_code) (int e_code)) w"

definition emit_finished :: "file_system_info \<Rightarrow> world \<Rightarrow> world" where
  "emit_finished info w =
     emit (Finished (unat (totalblock info)) (unat (usedblocks info)) (unat (block_size info))) w"

definition close_if :: "int \<Rightarrow> world \<Rightarrow> world" where
  "close_if fd w = (if fd > 0 then sys_close fd w else w)"

subsection \<open>Partition to file\<close>

text \<open>What follows the opening of both devices, up to the copy: an error code, or what the copy needs.\<close>

definition ptf_setup_from ::
    "fs_backend \<Rightarrow> string \<Rightarrow> string \<Rightarrow> int \<Rightarrow> int \<Rightarrow> world
     \<Rightarrow> ((nat + file_system_info \<times> image_options \<times> bitmap) \<times> int \<times> int \<times> world) option" where
  "ptf_setup_from be source target dfr dfw w =
     do {
       (ok, info, w) \<leftarrow> be_super be source init_file_system_info w;
       if \<not> ok then Some (Inl 3, dfr, dfw, w)
       else do {
         cap \<leftarrow> buffer_capacity (unat (block_size info));
         let img_opt = init_image_options\<lparr>blocks_per_checksum := of_nat cap\<rparr>;
         (ok, w) \<leftarrow> check_memory_size info img_opt w;
         if \<not> ok then Some (Inl 4, dfr, dfw, w)
         else do {
           let (bitmap, w) = pc_alloc_bitmap (unat (totalblock info)) w;
           if bitmap = None then Some (Inl 4, dfr, dfw, w)
           else do {
             (ok, bitmap, w) \<leftarrow> be_bitmap be source info bitmap w;
             if \<not> ok then Some (Inl 5, dfr, dfw, w)
             else do {
               info \<leftarrow> update_used_blocks_count info bitmap;
               if \<not> check_system_space info target img_opt w then Some (Inl 6, dfr, dfw, w)
               else do {
                 let (ok, w) = write_image_desc dfw info img_opt w;
                 if \<not> ok then Some (Inl 7, dfr, dfw, w)
                 else do {
                   (_, w) \<leftarrow> write_image_bitmap dfw info bitmap w;
                   Some (Inr (info, img_opt, bitmap), dfr, dfw, w)
                 }
               }
             }
           }
         }
       }
     }"

definition ptf_setup ::
    "fs_backend \<Rightarrow> string \<Rightarrow> string \<Rightarrow> bool \<Rightarrow> world
     \<Rightarrow> ((nat + file_system_info \<times> image_options \<times> bitmap) \<times> int \<times> int \<times> world) option" where
  "ptf_setup be source target ovr w =
     (let (dfr, w) = open_source_device source BACK_PTF w
      in if dfr \<le> 0 then Some (Inl (if dfr = -2 then 0 else 1), dfr, 0, w)
         else (let (dfw, w) = open_target_device target BACK_PTF ovr w
               in if dfw \<le> 0 then Some (Inl 2, dfr, dfw, w)
                  else ptf_setup_from be source target dfr dfw w))"

definition ptf_error :: "string \<Rightarrow> nat \<Rightarrow> int \<Rightarrow> int \<Rightarrow> world \<Rightarrow> bool \<times> world" where
  "ptf_error name e_code dfr dfw w =
     (False, close_if dfw (close_if dfr (emit_error e_code (emit (Reply name []) w))))"

definition backup_ptf ::
    "string \<Rightarrow> bool \<Rightarrow> bool \<Rightarrow> bool \<Rightarrow> fs_backend \<Rightarrow> string \<Rightarrow> string \<Rightarrow> bool \<Rightarrow> world
     \<Rightarrow> (bool \<times> world) option" where
  "backup_ptf name early sync final_sync be source target ovr w =
     do {
       (r, dfr, dfw, w) \<leftarrow> ptf_setup be source target ovr w;
       case r of
         Inl e_code \<Rightarrow> Some (ptf_error name e_code dfr dfw w)
       | Inr (info, img_opt, bitmap) \<Rightarrow> do {
           let w = (if early then emit (Reply name []) w else w);
           (ok, w) \<leftarrow> read_write_data_ptf sync (be_block_size be info w) info img_opt bitmap dfr dfw 0 w;
           if \<not> ok then Some (ptf_error name 8 dfr dfw w)
           else do {
             let w = (if final_sync then sys_fsync dfw w else w);
             let w = sys_close dfr (sys_close dfw (emit_finished info w));
             Some (True, if early then w else emit (Reply name []) w)
           }
         }
     }"

subsection \<open>Partition to partition\<close>

definition ptp_setup_from ::
    "fs_backend \<Rightarrow> string \<Rightarrow> int \<Rightarrow> int \<Rightarrow> world
     \<Rightarrow> ((nat + file_system_info \<times> bitmap) \<times> int \<times> int \<times> world) option" where
  "ptp_setup_from be source dfr dfw w =
     do {
       (ok, info, w) \<leftarrow> be_super be source init_file_system_info w;
       if \<not> ok then Some (Inl 3, dfr, dfw, w)
       else do {
         cap \<leftarrow> buffer_capacity (unat (block_size info));
         let img_opt = init_image_options\<lparr>blocks_per_checksum := of_nat cap\<rparr>;
         (ok, w) \<leftarrow> check_memory_size info img_opt w;
         if \<not> ok then Some (Inl 4, dfr, dfw, w)
         else do {
           let (bitmap, w) = pc_alloc_bitmap (unat (totalblock info)) w;
           if bitmap = None then Some (Inl 4, dfr, dfw, w)
           else do {
             (ok, bitmap, w) \<leftarrow> be_bitmap be source info bitmap w;
             if \<not> ok then Some (Inl 5, dfr, dfw, w)
             else if get_partition_free_space dfw w < unat (device_size info)
             then Some (Inl 6, dfr, dfw, w)
             else Some (Inr (info, bitmap), dfr, dfw, w)
           }
         }
       }
     }"

definition ptp_setup ::
    "fs_backend \<Rightarrow> string \<Rightarrow> string \<Rightarrow> bool \<Rightarrow> world
     \<Rightarrow> ((nat + file_system_info \<times> bitmap) \<times> int \<times> int \<times> world) option" where
  "ptp_setup be source target ovr w =
     (let (dfr, w) = open_source_device source BACK_PTP w
      in if dfr \<le> 0 then Some (Inl 1, dfr, 0, w)
         else (let (dfw, w) = open_target_device target BACK_PTP ovr w
               in if dfw \<le> 0 then Some (Inl 2, dfr, dfw, w)
                  else ptp_setup_from be source dfr dfw w))"

definition ptp_error :: "string \<Rightarrow> nat \<Rightarrow> int \<Rightarrow> int \<Rightarrow> world \<Rightarrow> bool \<times> world" where
  "ptp_error name e_code dfr dfw w =
     (False, emit_error e_code (close_if dfw (close_if dfr (emit (Reply name []) w))))"

definition backup_ptp ::
    "string \<Rightarrow> fs_backend \<Rightarrow> string \<Rightarrow> string \<Rightarrow> bool \<Rightarrow> world \<Rightarrow> (bool \<times> world) option" where
  "backup_ptp name be source target ovr w =
     do {
       (r, dfr, dfw, w) \<leftarrow> ptp_setup be source target ovr w;
       case r of
         Inl e_code \<Rightarrow> Some (ptp_error name e_code dfr dfw w)
       | Inr (info, bitmap) \<Rightarrow> do {
           let w = emit (Reply name []) w;
           (ok, w) \<leftarrow> read_write_data_ptp (be_block_size be info w) info bitmap dfr dfw w;
           if \<not> ok then Some (ptp_error name 8 dfr dfw w)
           else Some (True, emit_finished info (sys_close dfw (sys_close dfr (sys_fsync dfw w))))
         }
     }"

subsection \<open>Restore and image information\<close>

definition restore_setup_from ::
    "int \<Rightarrow> int \<Rightarrow> world \<Rightarrow> ((nat + file_system_info \<times> image_options \<times> bitmap) \<times> int \<times> int \<times> world) option" where
  "restore_setup_from dfr dfw w =
     (case read_image_desc dfr w of
        (None, w) \<Rightarrow> Some (Inl 9, dfr, dfw, w)
      | (Some (img_head, info, img_opt), w) \<Rightarrow> do {
          (ok, w) \<leftarrow> check_memory_size info img_opt w;
          if \<not> ok then Some (Inl 4, dfr, dfw, w)
          else do {
            let (bitmap, w) = pc_alloc_bitmap (unat (totalblock info)) w;
            if bitmap = None then Some (Inl 4, dfr, dfw, w)
            else do {
              let ((ok, bitmap), w) = load_image_bitmap_bits dfr info bitmap w;
              if \<not> ok then Some (Inl 5, dfr, dfw, w)
              else if get_partition_free_space dfw w < unat (device_size info)
              then Some (Inl 6, dfr, dfw, w)
              else Some (Inr (info, img_opt, bitmap), dfr, dfw, w)
            }
          }
        })"

definition restore_setup ::
    "string \<Rightarrow> string \<Rightarrow> bool \<Rightarrow> world
     \<Rightarrow> ((nat + file_system_info \<times> image_options \<times> bitmap) \<times> int \<times> int \<times> world) option" where
  "restore_setup source target ovr w =
     (let (dfr, w) = open_source_device source RESTORE w
      in if dfr \<le> 0 then Some (Inl 1, dfr, 0, w)
         else (let (dfw, w) = open_target_device target RESTORE ovr w
               in if dfw \<le> 0 then Some (Inl 2, dfr, dfw, w)
                  else restore_setup_from dfr dfw w))"

definition gdbus_sysbak_restore :: "string \<Rightarrow> string \<Rightarrow> bool \<Rightarrow> world \<Rightarrow> (bool \<times> world) option" where
  "gdbus_sysbak_restore source target ovr w =
     do {
       (r, dfr, dfw, w) \<leftarrow> restore_setup source target ovr w;
       case r of
         Inl e_code \<Rightarrow> Some (ptp_error ''sysbak_restore'' e_code dfr dfw w)
       | Inr (info, img_opt, bitmap) \<Rightarrow> do {
           let w = emit (Reply ''sysbak_restore'' []) w;
           (ok, w) \<leftarrow> read_write_data_restore info img_opt bitmap dfr dfw 0 w;
           if \<not> ok then Some (ptp_error ''sysbak_restore'' 8 dfr dfw w)
           else Some (True, emit_finished info (sys_close dfr (sys_close dfw w)))
         }
     }"

definition gdbus_get_fs_image_info :: "string \<Rightarrow> world \<Rightarrow> bool \<times> world" where
  "gdbus_get_fs_image_info image_name w =
     (let (fd, w) = open_source_device image_name RESTORE w
      in if fd \<le> 0 then (False, w)
         else (case read_image_desc fd w of
                 (None, w) \<Rightarrow> (False, sys_close fd w)
               | (Some (img_head, info, img_opt), w) \<Rightarrow>
                   (True, sys_close fd (emit (Reply ''get_fs_image_info''
                      [DBytes (takeWhile (\<lambda>b. b \<noteq> 0) (fs info)), DNat (unat (totalblock info)), DNat (unat (usedblocks info)),
                       DNat (unat (block_size info))]) w))))"

end
