(* ===== verification/Opening.thy ===== *)
theory Opening
  imports Handlers
begin

text \<open>
  What the steps before a copy do to the daemon's state: opening the source, checking and opening
  the target, allocating. \<open>later\<close> says that a step keeps all open descriptors as they are and
  sends nothing; such a step may open descriptors, consume events of the schedule and set static
  variables.
\<close>

section \<open>Steps that keep open descriptors\<close>

definition later :: "world \<Rightarrow> world \<Rightarrow> bool" where
  "later w w' \<longleftrightarrow>
     (\<forall>fd f. fd_lookup w fd = Some f \<longrightarrow> fd_lookup w' fd = Some f) \<and> w_vfs w' = w_vfs w \<and>
     w_creatable w' = w_creatable w \<and> w_junk w' = w_junk w \<and> w_out w' = w_out w \<and>
     (crc_ready w \<longrightarrow> crc_ready w') \<and> (benign w \<longrightarrow> benign w') \<and> (allocs_ok w \<longrightarrow> allocs_ok w')"

definition keeps :: "world \<Rightarrow> world \<Rightarrow> bool" where
  "keeps w w' \<longleftrightarrow> later w w' \<and> w_nodes w' = w_nodes w"

lemma later_refl [simp]: "later w w"
  by (simp add: later_def)

lemma later_trans [trans]: "later w w' \<Longrightarrow> later w' w'' \<Longrightarrow> later w w''"
  by (simp add: later_def)

lemma keeps_refl [simp]: "keeps w w"
  by (simp add: keeps_def)

lemma keeps_trans [trans]: "keeps w w' \<Longrightarrow> keeps w' w'' \<Longrightarrow> keeps w w''"
  by (auto simp: keeps_def intro: later_trans)

lemma keeps_later: "keeps w w' \<Longrightarrow> later w w'"
  by (simp add: keeps_def)

lemma later_fd_on: "later w w' \<Longrightarrow> fd_on w fd p pos wr nd \<Longrightarrow> w_nodes w' p = w_nodes w p \<Longrightarrow> fd_on w' fd p pos wr nd"
  by (simp add: later_def fd_on_def)

lemma later_states:
  "later w w' \<Longrightarrow> crc_ready w \<Longrightarrow> crc_ready w'" "later w w' \<Longrightarrow> benign w \<Longrightarrow> benign w'"
  "later w w' \<Longrightarrow> allocs_ok w \<Longrightarrow> allocs_ok w'" "later w w' \<Longrightarrow> w_out w' = w_out w"
  "later w w' \<Longrightarrow> w_vfs w' = w_vfs w" "later w w' \<Longrightarrow> w_creatable w' = w_creatable w"
  by (simp_all add: later_def)

lemma keeps_nodes: "keeps w w' \<Longrightarrow> w_nodes w' = w_nodes w"
  by (simp add: keeps_def)

lemma keeps_sched: "(benign w \<Longrightarrow> list_all transient s) \<Longrightarrow> keeps w (w\<lparr>w_sched := s\<rparr>)"
  by (simp add: keeps_def later_def benign_def allocs_ok_def crc_ready_def)

lemma keeps_malloc: "sys_malloc w = (a, w') \<Longrightarrow> keeps w w'"
  by (erule sys_malloc_frame) (auto simp: keeps_def later_def benign_def allocs_ok_def crc_ready_def)

lemma keeps_crc: "keeps w (w\<lparr>crc_tab32 := crc_table\<rparr>)"
  by (simp add: keeps_def later_def benign_def allocs_ok_def crc_ready_def)

lemma keeps_statics:
  "keeps w (w\<lparr>fat_FS := a\<rparr>)" "keeps w (w\<lparr>btrfs_block_size := b\<rparr>)" "keeps w (w\<lparr>xfs_mp := c\<rparr>)"
  by (simp_all add: keeps_def later_def benign_def allocs_ok_def crc_ready_def fd_lookup_def)

lemma keeps_init_crc32: "init_crc32 w = (seed, w') \<Longrightarrow> keeps w w'"
  by (auto simp: init_crc32_def intro: keeps_crc split: if_splits)

lemma keeps_alloc_bitmap: "pc_alloc_bitmap n w = (bm, w') \<Longrightarrow> keeps w w'"
  by (auto simp: pc_alloc_bitmap_def Let_def split: prod.splits dest: keeps_malloc)

lemma keeps_check_memory: "check_memory_size info q w = Some (ok, w') \<Longrightarrow> keeps w w'"
  by (auto simp: check_memory_size_def bind_eq_Some_conv Let_def split: prod.splits
      dest!: keeps_malloc intro: keeps_trans)

section \<open>Descriptors\<close>

lemma alloc_fd_new:
  assumes "alloc_fd f w = (fd, w')"
  shows "0 \<le> fd" and "fd_lookup w fd = None" and "fd_lookup w' fd = Some f"
    and "\<And>fd'. fd' \<noteq> fd \<Longrightarrow> fd_lookup w' fd' = fd_lookup w fd'"
    and "\<exists>t. w' = w\<lparr>w_fdtab := t\<rparr>"
proof -
  let ?n = "length (takeWhile (\<lambda>x. x \<noteq> None) (w_fdtab w))"
  have fd: "fd = int ?n" and w': "w' = w\<lparr>w_fdtab := (if ?n < length (w_fdtab w)
      then (w_fdtab w)[?n := Some f] else w_fdtab w @ [Some f])\<rparr>"
    using assms by (auto simp: alloc_fd_def Let_def)
  have le: "?n \<le> length (w_fdtab w)" by (rule length_takeWhile_le)
  have none: "?n < length (w_fdtab w) \<Longrightarrow> w_fdtab w ! ?n = None"
    by (drule nth_length_takeWhile) simp
  show "0 \<le> fd" using fd by simp
  show "fd_lookup w fd = None" using none by (simp add: fd_lookup_def fd)
  show "fd_lookup w' fd = Some f" using le by (auto simp: fd_lookup_def fd w' nth_append)
  show "\<exists>t. w' = w\<lparr>w_fdtab := t\<rparr>" using w' by blast
  fix fd' assume ne: "fd' \<noteq> fd"
  show "fd_lookup w' fd' = fd_lookup w fd'"
  proof (cases "?n < length (w_fdtab w)")
    case True
    then show ?thesis using ne by (auto simp: fd_lookup_def fd w' nth_list_update)
  next
    case False
    with le have "?n = length (w_fdtab w)" by simp
    then show ?thesis using ne False by (auto simp: fd_lookup_def fd w' nth_append less_Suc_eq)
  qed
qed

lemma alloc_fd_pos:
  assumes "alloc_fd f w = (fd, w')" and "fd_lookup w 0 \<noteq> None"
  shows "0 < fd"
  using alloc_fd_new(1,2) [OF assms(1)] assms(2) by (cases "fd = 0") auto

lemma later_fdtab:
  assumes "\<And>fd f. fd_lookup w fd = Some f \<Longrightarrow> fd_lookup w' fd = Some f" and "w' = w\<lparr>w_fdtab := t\<rparr>"
  shows "keeps w w'"
  using assms by (auto simp: keeps_def later_def benign_def allocs_ok_def crc_ready_def)

lemma keeps_alloc_fd: "alloc_fd f w = (fd, w') \<Longrightarrow> keeps w w'"
proof -
  assume al: "alloc_fd f w = (fd, w')"
  obtain t where t: "w' = w\<lparr>w_fdtab := t\<rparr>" using alloc_fd_new(5) [OF al] by blast
  show ?thesis
  proof (rule later_fdtab [OF _ t])
    fix fd' g assume "fd_lookup w fd' = Some g"
    with alloc_fd_new(2,4) [OF al] show "fd_lookup w' fd' = Some g" by (cases "fd' = fd") auto
  qed
qed

lemma sys_close_lookup: "fd_lookup (sys_close fd w) fd' = (if fd' = fd then None else fd_lookup w fd')"
  by (auto simp: sys_close_def fd_lookup_def nth_list_update nat_eq_iff)

lemma sys_close_fdtab: "\<exists>t. sys_close fd w = w\<lparr>w_fdtab := t\<rparr>"
  by (auto simp: sys_close_def intro: exI [of _ "w_fdtab w"])

text \<open>Closing what was opened since \<open>w\<close>.\<close>

lemma keeps_close:
  assumes "keeps w w'" and "fd_lookup w fd = None"
  shows "keeps w (sys_close fd w')"
proof -
  obtain t where t: "sys_close fd w' = w'\<lparr>w_fdtab := t\<rparr>" using sys_close_fdtab by blast
  have "fd_lookup (sys_close fd w') fd' = Some f" if "fd_lookup w fd' = Some f" for fd' f
    using that assms by (auto simp: sys_close_lookup keeps_def later_def)
  then show ?thesis using assms(1) unfolding keeps_def later_def
    by (simp add: t benign_def allocs_ok_def crc_ready_def)
qed

lemma keeps_set_pos:
  assumes "keeps w w'" and "fd_lookup w fd = None"
  shows "keeps w (set_pos fd p w')"
  using assms by (auto simp: keeps_def later_def allocs_ok_def crc_ready_def)

lemma keeps_open_rdonly:
  assumes "sys_open path rdonly w = (fd, w')"
  shows "keeps w w'" and "fd \<noteq> -1 \<Longrightarrow> fd_lookup w fd = None \<and> 0 \<le> fd \<and>
    (\<exists>nd. w_nodes w path = Some nd \<and> fd_on w' fd path 0 False nd)"
proof -
  have "keeps w w' \<and> (fd \<noteq> -1 \<longrightarrow> fd_lookup w fd = None \<and> 0 \<le> fd \<and>
    (\<exists>nd. w_nodes w path = Some nd \<and> fd_on w' fd path 0 False nd))"
  proof (cases "w_nodes w path")
    case None
    then show ?thesis using assms by (simp add: sys_open_def rdonly_def)
  next
    case (Some nd)
    show ?thesis
    proof (cases "i_readable nd")
      case False
      then show ?thesis using Some assms by (simp add: sys_open_def rdonly_def)
    next
      case True
      then have al: "alloc_fd \<lparr>o_path = path, o_pos = 0, o_write = False\<rparr> w = (fd, w')"
        using Some assms by (simp add: sys_open_def rdonly_def)
      have k: "keeps w w'" using al by (rule keeps_alloc_fd)
      then have "fd_on w' fd path 0 False nd"
        using alloc_fd_new(3) [OF al] Some by (simp add: fd_on_def keeps_nodes)
      with k Some alloc_fd_new(1,2) [OF al] show ?thesis by simp
    qed
  qed
  then show "keeps w w'" and "fd \<noteq> -1 \<Longrightarrow> fd_lookup w fd = None \<and> 0 \<le> fd \<and>
    (\<exists>nd. w_nodes w path = Some nd \<and> fd_on w' fd path 0 False nd)" by blast+
qed

lemma keeps_io_limit: "io_limit n w = (r, w') \<Longrightarrow> keeps w w'"
  by (drule io_limit_cases) (auto intro!: keeps_sched simp: benign_def)

lemma keeps_read:
  assumes "sys_read fd n w' = (r, w'')" and "keeps w w'" and "fd_lookup w fd = None"
  shows "keeps w w''"
proof -
  have lim: "keeps w v" if "io_limit n w' = (x, v)" for x v
    using assms(2) keeps_io_limit [OF that] by (rule keeps_trans)
  show ?thesis
    using assms by (auto simp: sys_read_def Let_def intro: lim keeps_set_pos
        split: option.splits if_splits prod.splits sum.splits)
qed

lemma keeps_lseek:
  "sys_lseek fd off cur w' = (r, w'') \<Longrightarrow> keeps w w' \<Longrightarrow> fd_lookup w fd = None \<Longrightarrow> keeps w w''"
  by (auto simp: sys_lseek_def Let_def intro: keeps_set_pos split: option.splits if_splits)

section \<open>Opening source and target\<close>

lemma open_source_rdonly: "mode \<in> {BACK_PTF, BACK_PTP, RESTORE} \<Longrightarrow> open_source_device dev mode w = sys_open dev rdonly w"
  by (auto simp: open_source_device_def Let_def)

lemma check_file_type_keeps:
  assumes "check_file_type t w = (True, w')"
  shows "keeps w w'"
proof (cases "sys_stat t w")
  case None
  then show ?thesis using assms by (simp add: check_file_type_def)
next
  case (Some st)
  obtain k st_size where st: "st = (k, st_size)" by (cases st)
  show ?thesis
  proof (cases "st_size \<le> 0")
    case True
    then show ?thesis using assms Some st by (simp add: check_file_type_def)
  next
    case False
    obtain fd w1 where op: "sys_open t rdonly w = (fd, w1)" by fastforce
    obtain r w2 where rd: "sys_read fd 110 w1 = (r, w2)" by fastforce
    obtain seed w3 where ic: "init_crc32 w2 = (seed, w3)" by fastforce
    have "0 < fd" and w': "w' = sys_close fd w3"
      using assms Some st False by (auto simp: check_file_type_def op rd ic Let_def split: if_splits sum.splits)
    then have none: "fd_lookup w fd = None" and k1: "keeps w w1" using keeps_open_rdonly [OF op] by auto
    have "keeps w w2" using rd k1 none by (rule keeps_read)
    then have "keeps w w3" using keeps_init_crc32 [OF ic] by (rule keeps_trans)
    then show ?thesis unfolding w' using none by (rule keeps_close)
  qed
qed

text \<open>
  The target of a backup to a file: either it did not exist, or it was an image (or empty) and is
  truncated. What was there is not an image is refused before anything is opened for writing.
\<close>

lemma open_target_ptf:
  assumes "open_target_device t BACK_PTF ovr w = (fd, w')" and "0 < fd"
    and "\<And>nd. w_nodes w t = Some nd \<Longrightarrow> i_kind nd = REG"
  obtains nd where "fd_on w' fd t 0 True nd" "i_kind nd = REG" "i_bytes nd = []" "later w w'"
    "\<And>p. p \<noteq> t \<Longrightarrow> w_nodes w' p = w_nodes w p"
proof -
  let ?fl = "\<lparr>fl_write = True, fl_creat = True, fl_trunc = True, fl_excl = \<not> ovr\<rparr>"
  let ?f = "\<lparr>o_path = t, o_pos = 0, o_write = True\<rparr>"
  obtain ok w1 where ch: "check_file_type t w = (ok, w1)" by fastforce
  have ok: ok using assms(1,2) by (cases ok) (simp_all add: open_target_device_def ch)
  then have k: "keeps w w1" using ch by (simp add: check_file_type_keeps)
  have op: "sys_open t ?fl w1 = (fd, w')" using assms(1) ok by (simp add: open_target_device_def ch Let_def)
  have "\<exists>nd w2. alloc_fd ?f w2 = (fd, w') \<and> w2 = w1\<lparr>w_nodes := (w_nodes w1)(t \<mapsto> nd)\<rparr> \<and>
      i_kind nd = REG \<and> i_bytes nd = []"
  proof (cases "w_nodes w1 t")
    case None
    with op show ?thesis using assms(2) by (auto simp: sys_open_def split: if_splits)
  next
    case (Some nd0)
    have "i_kind nd0 = REG" using assms(3) Some keeps_nodes [OF k] by simp
    with op Some show ?thesis using assms(2) by (auto simp: sys_open_def split: if_splits)
  qed
  then obtain nd w2 where al: "alloc_fd ?f w2 = (fd, w')" and w2: "w2 = w1\<lparr>w_nodes := (w_nodes w1)(t \<mapsto> nd)\<rparr>"
    and nd: "i_kind nd = REG" "i_bytes nd = []" by blast
  have l2: "later w1 w2" by (simp add: w2 later_def benign_def allocs_ok_def crc_ready_def)
  have k': "keeps w2 w'" using al by (rule keeps_alloc_fd)
  show thesis
  proof (rule that)
    show "fd_on w' fd t 0 True nd"
      using alloc_fd_new(3) [OF al] keeps_nodes [OF k'] by (simp add: fd_on_def w2)
    show "later w w'" using keeps_later [OF k] l2 keeps_later [OF k'] by (blast intro: later_trans)
    show "w_nodes w' p = w_nodes w p" if "p \<noteq> t" for p
      using that keeps_nodes [OF k] keeps_nodes [OF k'] by (simp add: w2)
  qed (rule nd)+
qed

end
