(* ===== verification/Backend.thy ===== *)
theory Backend
  imports Opening
begin

text \<open>
  The backup handlers over any file system: the locale \<open>fs_backend_contract\<close> says what the handlers
  rely on, and its lemmas follow a backup from the call to the finished image. Each file system's
  theory interprets it on the model of its C code.
\<close>

section \<open>The steps before a copy\<close>

lemma ptf_setupE:
  assumes "ptf_setup be source target ovr w = Some (Inr (info, opt, bm), dfr, dfw, w')"
  obtains w1 w2 info0 w3 cap w4 bm0 w5 w6 w7 okb where
    "open_source_device source BACK_PTF w = (dfr, w1)" "0 < dfr"
    "open_target_device target BACK_PTF ovr w1 = (dfw, w2)" "0 < dfw"
    "be_super be source init_file_system_info w2 = Some (True, info0, w3)"
    "buffer_capacity (unat (block_size info0)) = Some cap"
    "opt = init_image_options\<lparr>blocks_per_checksum := of_nat cap\<rparr>"
    "check_memory_size info0 opt w3 = Some (True, w4)"
    "pc_alloc_bitmap (unat (totalblock info0)) w4 = (bm0, w5)" "bm0 \<noteq> None"
    "be_bitmap be source info0 bm0 w5 = Some (True, bm, w6)"
    "update_used_blocks_count info0 bm = Some info"
    "check_system_space info target opt w6"
    "write_image_desc dfw info opt w6 = (True, w7)"
    "write_image_bitmap dfw info bm w7 = Some (okb, w')"
  using assms
  by (auto simp: ptf_setup_def ptf_setup_from_def Let_def bind_eq_Some_conv split: prod.splits if_splits)

lemma ptp_setupE:
  assumes "ptp_setup be source target ovr w = Some (Inr (info, bm), dfr, dfw, w')"
  obtains w1 w2 w3 opt w4 bm0 w5 where
    "open_source_device source BACK_PTP w = (dfr, w1)" "0 < dfr"
    "open_target_device target BACK_PTP ovr w1 = (dfw, w2)" "0 < dfw"
    "be_super be source init_file_system_info w2 = Some (True, info, w3)"
    "check_memory_size info opt w3 = Some (True, w4)"
    "pc_alloc_bitmap (unat (totalblock info)) w4 = (bm0, w5)" "bm0 \<noteq> None"
    "be_bitmap be source info bm0 w5 = Some (True, bm, w')"
    "unat (device_size info) \<le> get_partition_free_space dfw w'"
  using assms
  by (auto simp: ptp_setup_def ptp_setup_from_def Let_def bind_eq_Some_conv split: prod.splits if_splits)

lemma update_used_blocks_count_eq:
  "update_used_blocks_count info0 bm = Some info \<Longrightarrow> \<exists>u. info = info0\<lparr>used_bitmap := u\<rparr>"
  by (auto simp: update_used_blocks_count_def bind_eq_Some_conv)

lemma pc_alloc_bitmap_wf:
  "pc_alloc_bitmap n w = (bm, w') \<Longrightarrow> bm \<noteq> None \<Longrightarrow> n < 2 ^ 63 \<Longrightarrow> bm_wf n bm"
  by (auto simp: pc_alloc_bitmap_def bm_wf_def BITS_TO_LONGS_small split: prod.splits if_splits)

lemma buffer_capacity_le: "buffer_capacity bs = Some cap \<Longrightarrow> cap \<le> DEFAULT_BUFFER_SIZE"
  by (auto simp: buffer_capacity_def cdiv_def DEFAULT_BUFFER_SIZE_def split: if_splits)

text \<open>What every image file is: header, bitmap and data.\<close>

definition image_file :: "file_system_info \<Rightarrow> image_options \<Rightarrow> u64 list \<Rightarrow> byte list list \<Rightarrow> byte list" where
  "image_file info opt ws D =
     image_header info opt @ bitmap_section (unat (totalblock info)) ws @
     data_section (unat (blocks_per_checksum opt)) D"

text \<open>The bitmap operations keep the number of words, whatever total they are given.\<close>

lemma bm_wf_bit [simp]:
  "bm_wf n bm \<Longrightarrow> bm_wf n (snd (pc_set_bit i bm tot))" "bm_wf n bm \<Longrightarrow> bm_wf n (snd (pc_clear_bit i bm tot))"
  by (auto simp: pc_set_bit_def pc_clear_bit_def bm_wf_def Let_def split: option.splits)

lemma bm_wf_for_blocks:
  "bm_wf n bm \<Longrightarrow> (\<And>i m. bm_wf n m \<Longrightarrow> bm_wf n (snd (mark i m tot))) \<Longrightarrow> bm_wf n (for_blocks mark tot b k bm)"
  by (induction k arbitrary: b bm) simp_all

lemma bm_wf_marks [simp]:
  "bm_wf n bm \<Longrightarrow> bm_wf n (for_blocks pc_set_bit tot b k bm)"
  "bm_wf n bm \<Longrightarrow> bm_wf n (for_blocks pc_clear_bit tot b k bm)"
  by (simp_all add: bm_wf_for_blocks)

lemma bm_wf_init_any: "pc_init_bitmap bm v k = Some bm' \<Longrightarrow> bm_wf n bm \<Longrightarrow> bm_wf n bm'"
  by (auto simp: pc_init_bitmap_def bm_wf_def Let_def split: option.splits)

lemma fold_option_invariant:
  assumes "fold_option f xs s = Some s'" and "P s" and "\<And>x s s'. x \<in> set xs \<Longrightarrow> f x s = Some s' \<Longrightarrow> P s \<Longrightarrow> P s'"
  shows "P s'"
  using assms by (induction xs arbitrary: s) (auto simp: bind_eq_Some_conv)

section \<open>The contract\<close>

locale fs_backend_contract =
  fixes be :: fs_backend
  assumes super_keeps: "be_super be dev info w = Some (ok, info', w') \<Longrightarrow> keeps w w'"
    and super_wf: "be_super be dev info w = Some (ok, info', w') \<Longrightarrow> fs_info_wf info \<Longrightarrow> fs_info_wf info'"
    and bitmap_keeps: "be_bitmap be dev info bm w = Some (ok, bm', w') \<Longrightarrow> keeps w w'"
    and bitmap_wf: "be_bitmap be dev info bm w = Some (ok, bm', w') \<Longrightarrow> bm_wf n bm \<Longrightarrow> bm_wf n bm'"
    and block_size_emit: "be_block_size be info (emit e w) = be_block_size be info w"
begin

text \<open>
  After a successful preparation the target holds the header and the bitmap, and the copy can
  start.
\<close>

lemma ptf_setup_image:
  assumes su: "ptf_setup be source target ovr w = Some (Inr (info, opt, bm), dfr, dfw, w')"
    and src: "w_nodes w source = Some src" and ne: "source \<noteq> target"
    and tgt: "\<And>nd. w_nodes w target = Some nd \<Longrightarrow> i_kind nd = REG"
    and w: "crc_ready w" "benign w" and tot: "unat (totalblock info) < 2 ^ 33"
  obtains nd ws where "ptf_ready w' dfr source src dfw target nd" "i_kind nd = REG"
    "bm = Some ws" "bm_wf (unat (totalblock info)) bm" "fs_info_wf info" "crc_opts opt"
    "buffer_capacity (unat (block_size info)) = Some (unat (blocks_per_checksum opt))"
    "i_bytes nd = image_header info opt @ bitmap_section (unat (totalblock info)) ws"
    "benign w'" "allocs_ok w \<Longrightarrow> allocs_ok w'" "w_out w' = w_out w"
    "\<And>p. p \<noteq> target \<Longrightarrow> w_nodes w' p = w_nodes w p"
  using su
proof (rule ptf_setupE)
  fix w1 w2 info0 w3 cap w4 bm0 w5 w6 w7 okb
  assume o1: "open_source_device source BACK_PTF w = (dfr, w1)" "0 < dfr"
    and o2: "open_target_device target BACK_PTF ovr w1 = (dfw, w2)" "0 < dfw"
    and sb: "be_super be source init_file_system_info w2 = Some (True, info0, w3)"
    and cap: "buffer_capacity (unat (block_size info0)) = Some cap"
    and opt: "opt = init_image_options\<lparr>blocks_per_checksum := of_nat cap\<rparr>"
    and mem: "check_memory_size info0 opt w3 = Some (True, w4)"
    and al: "pc_alloc_bitmap (unat (totalblock info0)) w4 = (bm0, w5)" "bm0 \<noteq> None"
    and bi: "be_bitmap be source info0 bm0 w5 = Some (True, bm, w6)"
    and up: "update_used_blocks_count info0 bm = Some info"
    and hd: "write_image_desc dfw info opt w6 = (True, w7)"
    and bw: "write_image_bitmap dfw info bm w7 = Some (okb, w')"
  let ?tot = "unat (totalblock info)"
  obtain u where info: "info = info0\<lparr>used_bitmap := u\<rparr>" using update_used_blocks_count_eq [OF up] by blast
  have "sys_open source rdonly w = (dfr, w1)" using o1(1) by (simp add: open_source_rdonly)
  then have k1: "keeps w w1" and on1: "fd_on w1 dfr source 0 False src"
    using keeps_open_rdonly [of source w dfr w1] o1(2) src by auto
  obtain nd0 where on2: "fd_on w2 dfw target 0 True nd0" "i_kind nd0 = REG" "i_bytes nd0 = []"
    and l2: "later w1 w2" and n2: "\<And>p. p \<noteq> target \<Longrightarrow> w_nodes w2 p = w_nodes w1 p"
    using open_target_ptf [OF o2] tgt keeps_nodes [OF k1] by metis
  have k6: "keeps w2 w6"
    using super_keeps [OF sb] keeps_check_memory [OF mem] keeps_alloc_bitmap [OF al(1)] bitmap_keeps [OF bi]
    by (blast intro: keeps_trans)
  have l6: "later w w6" using keeps_later [OF k1] l2 keeps_later [OF k6] by (blast intro: later_trans)
  have n6: "w_nodes w6 p = w_nodes w p" if "p \<noteq> target" for p
    using that n2 keeps_nodes [OF k1] keeps_nodes [OF k6] by simp
  have wf: "fs_info_wf info" using super_wf [OF sb fs_info_wf_init] by (simp add: info fs_info_wf_def)
  have small: "?tot < 2 ^ 63" using tot by simp
  have bmwf: "bm_wf ?tot bm"
    using bitmap_wf [OF bi pc_alloc_bitmap_wf [OF al]] small by (simp add: info)
  then obtain ws where ws: "bm = Some ws" by (cases bm) (simp_all add: bm_wf_def)
  have on6: "fd_on w6 dfw target 0 True nd0"
    using later_fd_on [OF keeps_later [OF k6] on2(1)] keeps_nodes [OF k6] by simp
  have rd6: "reading w6 dfr source src"
  proof -
    have "fd_on w2 dfr source 0 False src" using l2 on1 by (rule later_fd_on) (simp add: n2 ne)
    then show ?thesis
      using later_fd_on [OF keeps_later [OF k6]] keeps_nodes [OF k6] unfolding reading_def by metis
  qed
  have c6: "crc_ready w6" "benign w6" using later_states [OF l6] w by simp_all
  let ?h = "image_header info opt" and ?b = "bitmap_section ?tot ws"
  have lh: "length ?h = 110" using wf by (rule length_image_header)
  obtain s where w7: "w7 = (put_bytes dfw ?h (w6\<lparr>crc_tab32 := crc_table\<rparr>))\<lparr>w_sched := s\<rparr>"
    and s: "list_all transient s"
    using write_image_desc_cases [OF on6 c6(1) wf, of opt] hd c6(2) by auto
  let ?nd1 = "node_put nd0 0 ?h"
  have on7: "fd_on w7 dfw target 110 True ?nd1"
    using fd_on_put_bytes [OF on6, of ?h] by (simp add: w7 lh)
  have b7: "i_bytes ?nd1 = ?h" "i_kind ?nd1 = REG" using on2 lh by (auto simp: node_put_def write_at_def)
  have rd7: "reading w7 dfr source src" using reading_put_bytes [OF rd6 on6] ne by (simp add: w7)
  obtain s' where w': "w' = (put_bytes dfw ?b (w7\<lparr>crc_tab32 := crc_table\<rparr>))\<lparr>w_sched := s'\<rparr>"
    and s': "list_all transient s'"
  proof (rule write_image_bitmap_benign [OF on7 _ _ _ tot, of ws])
    show "crc_ready w7" "benign w7" using s by (simp_all add: w7 crc_ready_def benign_def)
    show "bm_wf ?tot (Some ws)" using bmwf ws by simp
  qed (use b7 bw ws in auto)
  let ?nd = "node_put ?nd1 110 ?b"
  have on': "fd_on w' dfw target (110 + length ?b) True ?nd"
    using fd_on_put_bytes [OF on7, of ?b] by (simp add: w')
  have bytes: "i_bytes ?nd = ?h @ ?b" "i_kind ?nd = REG"
    using b7 write_at_end [of ?h ?b] lh by (auto simp: node_put_def)
  have ready: "ptf_ready w' dfr source src dfw target ?nd"
    using on' bytes lh ne reading_put_bytes [OF rd7 on7] by (simp add: ptf_ready_def w' crc_ready_def)
  show thesis
  proof (rule that [OF ready bytes(2) ws bmwf wf])
    show "crc_opts opt" by (simp add: opt crc_opts_def init_image_options_def set_image_options_def)
    have "unat (of_nat cap :: u32) = cap"
      using buffer_capacity_le [OF cap] by (simp add: unat_of_nat DEFAULT_BUFFER_SIZE_def)
    then show "buffer_capacity (unat (block_size info)) = Some (unat (blocks_per_checksum opt))"
      using cap by (simp add: info opt)
    show "benign w'" using s' by (simp add: w' benign_def)
    show "allocs_ok w'" if "allocs_ok w" using later_states(3) [OF l6 that] by (simp add: w' w7 allocs_ok_def)
    show "w_out w' = w_out w" using later_states(4) [OF l6] by (simp add: w' w7)
    show "w_nodes w' p = w_nodes w p" if "p \<noteq> target" for p
      using that n6 on6 on7 by (simp add: w' w7 w_nodes_put_on)
  qed (rule bytes(1))
qed

lemma backup_ptf_image:
  assumes su: "ptf_setup be source target ovr w = Some (Inr (info, opt, bm), dfr, dfw, w1)"
    and src: "w_nodes w source = Some src" and ne: "source \<noteq> target"
    and tgt: "\<And>nd. w_nodes w target = Some nd \<Longrightarrow> i_kind nd = REG"
    and w: "crc_ready w" "benign w" "allocs_ok w" and tot: "unat (totalblock info) < 2 ^ 33"
    and bs: "be_block_size be info w1 = unat (block_size info)"
    and geo: "geometry (unat (block_size info)) (unat (blocks_per_checksum opt)) (unat (totalblock info)) src"
  shows "\<exists>w' nd evs. backup_ptf name early sync final_sync be source target ovr w = Some (True, w') \<and>
    w_nodes w' target = Some nd \<and>
    i_bytes nd = image_file info opt (the bm)
      (map (blk (unat (block_size info)) (i_bytes src)) (used_from bm (unat (totalblock info)) 0)) \<and>
    (\<forall>p. p \<noteq> target \<longrightarrow> w_nodes w' p = w_nodes w p) \<and>
    list_all is_progress evs \<and>
    w_out w' = w_out w @ (if early then [Reply name []] else []) @ evs @
      [Finished (unat (totalblock info)) (unat (usedblocks info)) (unat (block_size info))] @
      (if early then [] else [Reply name []])"
proof -
  let ?bs = "unat (block_size info)" and ?tot = "unat (totalblock info)"
  let ?D = "map (blk ?bs (i_bytes src)) (used_from bm ?tot 0)"
  obtain nd ws where rdy: "ptf_ready w1 dfr source src dfw target nd" and bm: "bm = Some ws" "bm_wf ?tot bm"
    and opts: "crc_opts opt" and hdr: "i_bytes nd = image_header info opt @ bitmap_section ?tot ws"
    and w1: "benign w1" "allocs_ok w1" "w_out w1 = w_out w" "\<And>p. p \<noteq> target \<Longrightarrow> w_nodes w1 p = w_nodes w p"
    by (rule ptf_setup_image [OF su src ne tgt w(1,2) tot]) (use w(3) in auto)
  define w2 where "w2 = (if early then emit (Reply name []) w1 else w1)"
  have rdy2: "ptf_ready w2 dfr source src dfw target nd" using rdy by (simp add: w2_def emit_def)
  have w2: "benign w2" "allocs_ok w2" "w_nodes w2 = w_nodes w1"
      "w_out w2 = w_out w @ (if early then [Reply name []] else [])"
    using w1 by (simp_all add: w2_def emit_def benign_def allocs_ok_def)
  have bs2: "be_block_size be info w2 = ?bs" using bs by (simp add: w2_def block_size_emit)
  obtain ok w3 where rw: "read_write_data_ptf sync ?bs info opt bm dfr dfw 0 w2 = Some (ok, w3)"
    and res: "ptf_result dfr source src dfw target nd w2 (data_section (unat (blocks_per_checksum opt)) ?D) ok w3"
    using read_write_data_ptf_result [OF geo opts bm(2) rdy2 refl, of sync 0] by blast
  from res w2 obtain nd3 where ok: ok and f: "frame {target} {dfr, dfw} w2 w3"
    and r3: "ptf_ready w3 dfr source src dfw target nd3"
    and b3: "i_bytes nd3 = i_bytes nd @ data_section (unat (blocks_per_checksum opt)) ?D"
    unfolding ptf_result_def by auto
  from f obtain evs where evs: "w_out w3 = w_out w2 @ evs" "list_all is_progress evs"
    and n3: "\<And>p. p \<noteq> target \<Longrightarrow> w_nodes w3 p = w_nodes w2 p"
    by (auto simp: frame_def)
  define w4 where "w4 = (if final_sync then sys_fsync dfw w3 else w3)"
  have on3: "fd_on w3 dfw target (length (i_bytes nd3)) True nd3" using r3 by (simp add: ptf_ready_def)
  have w4: "w_out w4 = w_out w3" "\<exists>nd4. w_nodes w4 target = Some nd4 \<and> i_bytes nd4 = i_bytes nd3"
      "\<And>p. p \<noteq> target \<Longrightarrow> w_nodes w4 p = w_nodes w3 p"
    using on3 by (auto simp: w4_def sys_fsync_def fd_on_def)
  define w5 where "w5 = sys_close dfr (sys_close dfw (emit_finished info w4))"
  have w5: "w_nodes w5 = w_nodes w4" "w_out w5 = w_out w4 @ [Finished ?tot (unat (usedblocks info)) ?bs]"
    by (simp_all add: w5_def sys_close_def emit_finished_def emit_def)
  have run: "backup_ptf name early sync final_sync be source target ovr w =
      Some (True, if early then w5 else emit (Reply name []) w5)"
    using su rw ok bs2 by (cases early) (simp_all add: backup_ptf_def w2_def w4_def w5_def Let_def)
  obtain nd4 where nd4: "w_nodes w4 target = Some nd4" "i_bytes nd4 = i_bytes nd3" using w4(2) by blast
  show ?thesis
    unfolding run
    by (rule exI [of _ "if early then w5 else emit (Reply name []) w5"], rule exI [of _ nd4], rule exI [of _ evs])
       (use nd4 w4(1,3) w5 evs w2 w1 n3 b3 hdr bm in \<open>auto simp: image_file_def emit_def\<close>)
qed

end

end
