(* ===== verification/RoundTrip.thy ===== *)
theory RoundTrip
  imports Backend
begin

text \<open>
  Restoring an image that a backup wrote: \<^const>\<open>gdbus_sysbak_restore\<close> from the opening of the image
  to the last message, and its composition with a backup.
\<close>

section \<open>Opening the image and the device\<close>

lemma open_rdonly_ok:
  assumes "w_nodes w path = Some nd" and "i_readable nd" and "fd_lookup w 0 \<noteq> None"
  obtains fd w' where "sys_open path rdonly w = (fd, w')" "0 < fd" "fd_on w' fd path 0 False nd" "keeps w w'"
proof -
  obtain fd w' where al: "alloc_fd \<lparr>o_path = path, o_pos = 0, o_write = False\<rparr> w = (fd, w')" by fastforce
  have op: "sys_open path rdonly w = (fd, w')" using assms(1,2) al by (simp add: sys_open_def rdonly_def)
  have "0 < fd" using al assms(3) by (rule alloc_fd_pos)
  then show thesis using that [OF op] keeps_open_rdonly [OF op] assms(1) by auto
qed

lemma open_target_blk:
  assumes "w_nodes w path = Some nd" and "i_kind nd = BLK" and "i_writable nd" and "fd_lookup w 0 \<noteq> None"
    and "mode \<in> {RESTORE, BACK_PTP}"
  obtains fd w' where "open_target_device path mode ovr w = (fd, w')" "0 < fd" "fd_on w' fd path 0 True nd" "keeps w w'"
proof -
  obtain fd w' where al: "alloc_fd \<lparr>o_path = path, o_pos = 0, o_write = True\<rparr> w = (fd, w')" by fastforce
  have "check_file_type path w = (True, w)"
    using assms(1,2) by (simp add: check_file_type_def sys_stat_def node_stat_def)
  moreover have "stat_isblk path w" using assms(1,2) by (simp add: stat_isblk_def sys_stat_def node_stat_def)
  moreover have "mode \<noteq> BACK_DD" "mode \<noteq> BACK_PTF" "mode = RESTORE \<or> mode = BACK_PTP"
    using assms(5) by (auto simp: RESTORE_def BACK_PTP_def BACK_DD_def BACK_PTF_def)
  ultimately have op: "open_target_device path mode ovr w = (fd, w')"
    using assms(1,3) al by (auto simp: open_target_device_def sys_open_def)
  have k: "keeps w w'" using al by (rule keeps_alloc_fd)
  show thesis
    using that [OF op alloc_fd_pos [OF al assms(4)] _ k] alloc_fd_new(3) [OF al] keeps_nodes [OF k] assms(1)
    by (simp add: fd_on_def)
qed

lemma partition_space_blk: "fd_on w fd p pos wr nd \<Longrightarrow> i_kind nd = BLK \<Longrightarrow> get_partition_free_space fd w = length (i_bytes nd)"
  by (simp add: fd_on_def get_partition_free_space_def sys_fstat_def sys_stat_def node_stat_def sys_blkgetsize64_def)

lemma check_memory_ok:
  assumes "buffer_capacity (unat (block_size info)) = Some cap" and "unat (blocks_per_checksum opt) \<noteq> 0" and "allocs_ok w"
  obtains w' where "check_memory_size info opt w = Some (True, w')" "keeps w w'" "\<exists>a. w' = w\<lparr>w_allocs := a\<rparr>"
proof -
  obtain a w1 where m1: "sys_malloc w = (a, w1)" by fastforce
  obtain b w2 where m2: "sys_malloc w1 = (b, w2)" by fastforce
  obtain c w3 where m3: "sys_malloc w2 = (c, w3)" by fastforce
  obtain x1 where 1: "w1 = w\<lparr>w_allocs := x1\<rparr>" "allocs_ok w \<longrightarrow> a \<and> allocs_ok w1" by (rule sys_malloc_frame [OF m1])
  obtain x2 where 2: "w2 = w1\<lparr>w_allocs := x2\<rparr>" "allocs_ok w1 \<longrightarrow> b \<and> allocs_ok w2" by (rule sys_malloc_frame [OF m2])
  obtain x3 where 3: "w3 = w2\<lparr>w_allocs := x3\<rparr>" "allocs_ok w2 \<longrightarrow> c \<and> allocs_ok w3" by (rule sys_malloc_frame [OF m3])
  have "check_memory_size info opt w = Some (True, w3)"
    using assms 1 2 3 m1 m2 m3 by (simp add: check_memory_size_def)
  moreover from this have "keeps w w3" by (rule keeps_check_memory)
  ultimately show thesis using that 1 2 3 by auto
qed

lemma alloc_bitmap_ok:
  assumes "allocs_ok w"
  obtains w' where "pc_alloc_bitmap n w = (Some (replicate (BITS_TO_LONGS n) 0), w')" "keeps w w'"
    "\<exists>a. w' = w\<lparr>w_allocs := a\<rparr>"
proof -
  obtain a w1 where m1: "sys_malloc w = (a, w1)" by fastforce
  obtain x1 where 1: "w1 = w\<lparr>w_allocs := x1\<rparr>" "allocs_ok w \<longrightarrow> a \<and> allocs_ok w1" by (rule sys_malloc_frame [OF m1])
  have "pc_alloc_bitmap n w = (Some (replicate (BITS_TO_LONGS n) 0), w1)"
    using assms 1 m1 by (simp add: pc_alloc_bitmap_def)
  then show thesis using that keeps_alloc_bitmap 1 by blast
qed

section \<open>Preparing a restore\<close>

text \<open>Reading moves only the position of its own descriptor.\<close>

lemma later_set_pos_fd_on:
  "fd_on w fd p pos wr nd \<Longrightarrow> fd' \<noteq> fd \<Longrightarrow> fd_on ((set_pos fd' q w)\<lparr>w_sched := s, crc_tab32 := t\<rparr>) fd p pos wr nd"
  using fd_on_set_pos(2) by simp

lemma restore_setup_image:
  assumes img: "w_nodes w source = Some img" "i_readable img" and tgt: "w_nodes w target = Some nd"
    and nd: "i_kind nd = BLK" "i_writable nd" "unat (device_size info) \<le> length (i_bytes nd)"
    and ne: "source \<noteq> target" and fd0: "fd_lookup w 0 \<noteq> None" and w: "crc_ready w" "benign w" "allocs_ok w"
    and wf: "fs_info_wf info" and tot: "unat (totalblock info) < 2 ^ 33"
    and bm: "bm_wf (unat (totalblock info)) (Some ws)"
    and opt: "buffer_capacity (unat (block_size info)) = Some cap" "unat (blocks_per_checksum opt) \<noteq> 0"
    and bytes: "i_bytes img = image_header info opt @ bitmap_section (unat (totalblock info)) ws @ rest"
  obtains dfr dfw ws' w' pos where
    "restore_setup source target ovr w = Some (Inr (info, opt, Some ws'), dfr, dfw, w')"
    "fd_on w' dfr source pos False img" "drop pos (i_bytes img) = rest" "fd_on w' dfw target 0 True nd"
    "bm_wf (unat (totalblock info)) (Some ws')"
    "\<And>i. i < unat (totalblock info) \<Longrightarrow> bm_mem (Some ws') i = bm_mem (Some ws) i"
    "crc_ready w'" "benign w'" "allocs_ok w'" "w_nodes w' = w_nodes w" "w_out w' = w_out w"
proof -
  let ?tot = "unat (totalblock info)" and ?b = "bitmap_section (unat (totalblock info)) ws"
  let ?h = "image_header info opt" and ?B = "BITS_TO_BYTES (unat (totalblock info))"
  have lh: "length ?h = 110" using wf by (rule length_image_header)
  have small: "?tot < 2 ^ 63" using tot by simp
  have lb: "length ?b = ?B + 4" using small bm by (rule length_bitmap_section)
  obtain dfr w1 where o1: "sys_open source rdonly w = (dfr, w1)" "0 < dfr" "fd_on w1 dfr source 0 False img" "keeps w w1"
    using img fd0 by (rule open_rdonly_ok)
  have fd1: "fd_lookup w1 0 \<noteq> None" using fd0 o1(4) by (auto simp: keeps_def later_def)
  have t1: "w_nodes w1 target = Some nd" using tgt keeps_nodes [OF o1(4)] by simp
  have md: "RESTORE \<in> {RESTORE, BACK_PTP}" by simp
  obtain dfw w2 where o2: "open_target_device target RESTORE ovr w1 = (dfw, w2)" "0 < dfw"
      "fd_on w2 dfw target 0 True nd" "keeps w1 w2"
    by (rule open_target_blk [OF t1 nd(1,2) fd1 md])
  have on2: "fd_on w2 dfr source 0 False img"
    using later_fd_on [OF keeps_later [OF o2(4)] o1(3)] keeps_nodes [OF o2(4)] by simp
  have k2: "keeps w w2" using o1(4) o2(4) by (rule keeps_trans)
  have c2: "crc_ready w2" "benign w2" "allocs_ok w2" using w later_states [OF keeps_later [OF k2]] by simp_all
  have ne_fd: "dfr \<noteq> dfw" using on2 o2(3) by (auto simp: fd_on_def)
  have valid: "header_valid (take 110 (drop 0 (i_bytes img)))"
    using header_valid_image [OF wf, of opt] lh by (simp add: bytes)
  have pd: "parse_desc (take 110 (drop 0 (i_bytes img))) = \<lparr>head = init_image_head, fs_info = info, options = opt,
      crc = crc32 crc_table CRC32_SEED (desc_body init_image_head info opt)\<rparr>"
    using lh by (simp add: bytes) (simp add: image_header_def Let_def parse_desc_bytes wf)
  obtain s where rd: "read_image_desc dfr w2 = (Some (init_image_head, info, opt),
        (set_pos dfr 110 w2)\<lparr>w_sched := s, crc_tab32 := crc_table\<rparr>)" and s: "list_all transient s"
  proof (cases rule: read_image_desc_cases [OF on2 c2(1), case_names accepted rejected])
    case (accepted s)
    show thesis by (rule that [of s]) (use accepted(2) [unfolded pd] accepted(3) c2(2) in \<open>simp_all add: Let_def\<close>)
  next
    case (rejected w')
    then show thesis using valid c2(2) by simp
  qed
  define w3 where "w3 = (set_pos dfr 110 w2)\<lparr>w_sched := s, crc_tab32 := crc_table\<rparr>"
  have on3: "fd_on w3 dfr source 110 False img" "fd_on w3 dfw target 0 True nd"
    using fd_on_set_pos(1) [OF on2] fd_on_set_pos(2) [OF o2(3)] ne_fd by (simp_all add: w3_def)
  have c3: "crc_ready w3" "benign w3" "allocs_ok w3" "w_nodes w3 = w_nodes w2" "w_out w3 = w_out w2"
    using c2 s by (simp_all add: w3_def crc_ready_def benign_def allocs_ok_def)
  obtain w4 where m: "check_memory_size info opt w3 = Some (True, w4)" "\<exists>a. w4 = w3\<lparr>w_allocs := a\<rparr>" "keeps w3 w4"
    using opt c3(3) by (rule check_memory_ok)
  have c4: "allocs_ok w4" using later_states(3) [OF keeps_later [OF m(3)] c3(3)] .
  obtain w5 where al: "pc_alloc_bitmap ?tot w4 = (Some (replicate (BITS_TO_LONGS ?tot) 0), w5)" "\<exists>a. w5 = w4\<lparr>w_allocs := a\<rparr>" "keeps w4 w5"
    using c4 by (rule alloc_bitmap_ok)
  have c5: "crc_ready w5" "benign w5" "allocs_ok w5" "w_nodes w5 = w_nodes w2" "w_out w5 = w_out w2"
    using m(2,3) al(2,3) c3 later_states [OF keeps_later [OF al(3)]] later_states [OF keeps_later [OF m(3)]]
    by (auto simp: keeps_nodes)
  have on5: "fd_on w5 dfr source 110 False img" "fd_on w5 dfw target 0 True nd"
    using m(2) al(2) on3 by auto
  have sect: "take (?B + 4) (drop 110 (i_bytes img)) = ?b" using lh lb by (simp add: bytes)
  obtain s' ws' where ld: "load_image_bitmap_bits dfr info (Some (replicate (BITS_TO_LONGS ?tot) 0)) w5 =
      ((True, Some ws'), (set_pos dfr (110 + (?B + 4)) w5)\<lparr>w_sched := s', crc_tab32 := crc_table\<rparr>)"
    and s': "list_all transient s'" and wf': "bm_wf ?tot (Some ws')"
    and mem: "\<And>i. i < ?tot \<Longrightarrow> bm_mem (Some ws') i = bm_mem (Some ws) i"
    using load_image_bitmap_bits_ok [OF on5(1) c5(1,2) refl tot bm sect] by metis
  define w6 where "w6 = (set_pos dfr (110 + (?B + 4)) w5)\<lparr>w_sched := s', crc_tab32 := crc_table\<rparr>"
  have on6: "fd_on w6 dfr source (110 + (?B + 4)) False img" "fd_on w6 dfw target 0 True nd"
    using fd_on_set_pos(1) [OF on5(1)] fd_on_set_pos(2) [OF on5(2)] ne_fd by (simp_all add: w6_def)
  have run: "restore_setup source target ovr w = Some (Inr (info, opt, Some ws'), dfr, dfw, w6)"
    using o1(1,2) o2(1,2) rd m(1) al(1) ld [folded w6_def] partition_space_blk [OF on6(2) nd(1)] nd(3)
    by (simp add: restore_setup_def restore_setup_from_def open_source_rdonly w3_def [symmetric] Let_def)
  show thesis
  proof (rule that [OF run on6(1) _ on6(2) wf' mem])
    show "drop (110 + (?B + 4)) (i_bytes img) = rest" using lh lb by (simp add: bytes)
    show "crc_ready w6" "benign w6" "allocs_ok w6" "w_nodes w6 = w_nodes w" "w_out w6 = w_out w"
      using c5 s' keeps_nodes [OF k2] later_states(4) [OF keeps_later [OF k2]]
      by (simp_all add: w6_def crc_ready_def benign_def allocs_ok_def)
  qed
qed

section \<open>The whole restore\<close>

lemma restore_image:
  assumes img: "w_nodes w source = Some img" "i_readable img" and tgt: "w_nodes w target = Some nd"
    and nd: "i_kind nd = BLK" "i_writable nd" "unat (device_size info) \<le> length (i_bytes nd)"
    and ne: "source \<noteq> target" and fd0: "fd_lookup w 0 \<noteq> None" and w: "crc_ready w" "benign w" "allocs_ok w"
    and wf: "fs_info_wf info" and tot: "unat (totalblock info) < 2 ^ 33"
    and bm: "bm_wf (unat (totalblock info)) (Some ws)" and opts: "crc_opts opt"
    and geo: "geometry (unat (block_size info)) (unat (blocks_per_checksum opt)) (unat (totalblock info)) nd"
    and ids: "ids = used_from (Some ws) (unat (totalblock info)) 0"
    and D: "length D = length ids" "\<forall>b \<in> set D. length b = unat (block_size info)"
    and bytes: "i_bytes img = image_file info opt ws D"
  shows "\<exists>w' nd' evs. gdbus_sysbak_restore source target ovr w = Some (True, w') \<and>
    w_nodes w' target = Some nd' \<and> i_bytes nd' = put_blocks (unat (block_size info)) ids D (i_bytes nd) \<and>
    (\<forall>p. p \<noteq> target \<longrightarrow> w_nodes w' p = w_nodes w p) \<and> list_all is_progress evs \<and>
    w_out w' = w_out w @ [Reply ''sysbak_restore'' []] @ evs @
      [Finished (unat (totalblock info)) (unat (usedblocks info)) (unat (block_size info))]"
proof -
  let ?bs = "unat (block_size info)" and ?tot = "unat (totalblock info)" and ?cap = "unat (blocks_per_checksum opt)"
  have cap: "buffer_capacity ?bs = Some ?cap" "?cap \<noteq> 0" using geo geometry_cap [OF geo] by (simp_all add: geometry_def)
  obtain dfr dfw ws' w1 pos where su: "restore_setup source target ovr w = Some (Inr (info, opt, Some ws'), dfr, dfw, w1)"
    and on: "fd_on w1 dfr source pos False img" "fd_on w1 dfw target 0 True nd"
    and rest: "drop pos (i_bytes img) = data_section ?cap D" and wf': "bm_wf ?tot (Some ws')"
    and mem: "\<And>i. i < ?tot \<Longrightarrow> bm_mem (Some ws') i = bm_mem (Some ws) i"
    and w1: "crc_ready w1" "benign w1" "allocs_ok w1" "w_nodes w1 = w_nodes w" "w_out w1 = w_out w"
    by (rule restore_setup_image [OF img tgt nd ne fd0 w wf tot bm cap bytes [unfolded image_file_def], of ovr]) metis
  have ids': "ids = used_from (Some ws') ?tot 0"
    unfolding ids used_from_def using mem by (intro filter_cong refl) simp
  define w2 where "w2 = emit (Reply ''sysbak_restore'' []) w1"
  have on2: "fd_on w2 dfr source pos False img" "fd_on w2 dfw target 0 True nd" using on by (simp_all add: w2_def emit_def)
  have w2: "crc_ready w2" "benign w2" "allocs_ok w2" "w_nodes w2 = w_nodes w" "w_out w2 = w_out w @ [Reply ''sysbak_restore'' []]"
    using w1 by (simp_all add: w2_def emit_def crc_ready_def benign_def allocs_ok_def)
  have dec: "crc_decode ?bs ?cap (length ids) (drop pos (i_bytes img)) = Some D"
    using crc.decode_stream [where bpc = ?cap and D = D and bs = ?bs and r = "[]"] cap(2) D by (simp add: rest data_section_def)
  obtain ok w3 where rw: "read_write_data_restore info opt (Some ws') dfr dfw 0 w2 = Some (ok, w3)"
    and res: "restore_result dfr dfw target nd ?bs ids (Some D) w2 ok w3"
    using read_write_data_restore_result [OF refl refl geo opts refl wf' on2(2,1) ne w2(1) ids'] unfolding dec by blast
  from res w2 obtain nd' where ok: ok and f: "frame {target} {dfr, dfw} w2 w3"
    and n3: "w_nodes w3 target = Some nd'" and b3: "i_bytes nd' = put_blocks ?bs ids D (i_bytes nd)"
    unfolding restore_result_def fd_on_def by auto
  from f obtain evs where evs: "w_out w3 = w_out w2 @ evs" "list_all is_progress evs"
    and o3: "\<And>p. p \<noteq> target \<Longrightarrow> w_nodes w3 p = w_nodes w2 p"
    by (auto simp: frame_def)
  define w4 where "w4 = emit_finished info (sys_close dfr (sys_close dfw w3))"
  have run: "gdbus_sysbak_restore source target ovr w = Some (True, w4)"
    using su rw ok by (simp add: gdbus_sysbak_restore_def w2_def w4_def Let_def)
  have w4: "w_nodes w4 = w_nodes w3" "w_out w4 = w_out w3 @ [Finished ?tot (unat (usedblocks info)) ?bs]"
    by (simp_all add: w4_def sys_close_def emit_finished_def emit_def)
  show ?thesis
    unfolding run
    by (rule exI [of _ w4], rule exI [of _ nd'], rule exI [of _ evs])
       (use w4 n3 b3 evs o3 w2 in auto)
qed

section \<open>Backup and restore\<close>

context fs_backend_contract
begin

lemma backup_restore:
  assumes su: "ptf_setup be source path ovr w = Some (Inr (info, opt, bm), dfr, dfw, w1)"
    and src: "w_nodes w source = Some src" and ne: "source \<noteq> path"
    and reg: "\<And>nd. w_nodes w path = Some nd \<Longrightarrow> i_kind nd = REG"
    and w: "crc_ready w" "benign w" "allocs_ok w" and tot: "unat (totalblock info) < 2 ^ 33"
    and bs: "be_block_size be info w1 = unat (block_size info)"
    and geo: "geometry (unat (block_size info)) (unat (blocks_per_checksum opt)) (unat (totalblock info)) src"
    and bak: "backup_ptf name early sync final_sync be source path ovr w = Some (ok, w')"
    and img: "w_nodes v path = Some img" "i_readable img" "map_option i_bytes (w_nodes w' path) = Some (i_bytes img)"
    and tgt: "w_nodes v device = Some nd" "i_kind nd = BLK" "i_writable nd" "unat (device_size info) \<le> length (i_bytes nd)"
    and geo': "geometry (unat (block_size info)) (unat (blocks_per_checksum opt)) (unat (totalblock info)) nd"
    and v: "path \<noteq> device" "fd_lookup v 0 \<noteq> None" "crc_ready v" "benign v" "allocs_ok v"
  shows "ok \<and> (\<exists>v' nd'. gdbus_sysbak_restore path device ovr' v = Some (True, v') \<and>
    w_nodes v' device = Some nd' \<and> length (i_bytes nd') = length (i_bytes nd) \<and>
    (\<forall>i < unat (totalblock info). blk (unat (block_size info)) (i_bytes nd') i =
       (if bm_mem bm i then blk (unat (block_size info)) (i_bytes src) i
        else blk (unat (block_size info)) (i_bytes nd) i)))"
proof -
  let ?bs = "unat (block_size info)" and ?tot = "unat (totalblock info)"
  let ?ids = "used_from bm ?tot 0"
  let ?D = "map (blk ?bs (i_bytes src)) ?ids"
  obtain nd1 ws where bm: "bm = Some ws" "bm_wf ?tot bm" and wf: "fs_info_wf info" and opts: "crc_opts opt"
    by (rule ptf_setup_image [OF su src ne reg w(1,2) tot])
  from backup_ptf_image [OF su src ne reg w tot bs geo, of name early sync final_sync] obtain nd2
    where ok: ok and nd2: "w_nodes w' path = Some nd2" "i_bytes nd2 = image_file info opt (the bm) ?D"
    using bak by auto
  have bytes: "i_bytes img = image_file info opt ws ?D" using nd2 img(3) bm(1) by simp
  have fits: "fits ?bs ?ids ?D (i_bytes nd)" using geo' geo by (rule used_from_fits)
  have wfs: "bm_wf ?tot (Some ws)" "?ids = used_from (Some ws) ?tot 0" using bm by simp_all
  have D: "length ?D = length ?ids" "\<forall>b \<in> set ?D. length b = ?bs" using fits by (simp_all add: fits_def)
  obtain v' nd' where run: "gdbus_sysbak_restore path device ovr' v = Some (True, v')"
    and nd': "w_nodes v' device = Some nd'" "i_bytes nd' = put_blocks ?bs ?ids ?D (i_bytes nd)"
    using restore_image [OF img(1,2) tgt v wf tot wfs(1) opts geo' wfs(2) D bytes, of ovr'] by blast
  have "blk ?bs (i_bytes nd') i = (if bm_mem bm i then blk ?bs (i_bytes src) i else blk ?bs (i_bytes nd) i)"
    if i: "i < ?tot" for i
  proof (cases "bm_mem bm i")
    case True
    then have "i \<in> set ?ids" using i by (simp add: in_used_from)
    then obtain j where j: "j < length ?ids" "?ids ! j = i" by (auto simp: in_set_conv_nth)
    have "distinct ?ids" by (simp add: used_from_def)
    then have "blk ?bs (i_bytes nd') i = ?D ! j" using blk_put_blocks [OF fits _ j(1)] j(2) nd'(2) by simp
    then show ?thesis using True j by simp
  next
    case False
    then have "i \<notin> set ?ids" by (simp add: in_used_from)
    moreover have "(i + 1) * ?bs \<le> length (i_bytes nd)"
    proof -
      have "(i + 1) * ?bs \<le> ?tot * ?bs" using i by (intro mult_right_mono) simp_all
      then show ?thesis using geo' by (simp add: geometry_def)
    qed
    ultimately show ?thesis using False fits by (simp add: nd'(2) blk_put_blocks_other)
  qed
  with ok run nd' length_put_blocks [OF fits] show ?thesis by auto
qed

end

end
