(* ===== verification/Accounting.thy ===== *)
theory Accounting
  imports Backend
begin

text \<open>
  The arithmetic of \<^verbatim>\<open>gdbus-share.c\<close> and \<^verbatim>\<open>gdbus-checksum.c\<close> against what it stands for: the count
  of used blocks, the number of bytes of a run of blocks, the length of an image and the space that
  is asked for before one is written, the progress that is reported.
\<close>

section \<open>Counting used blocks\<close>

lemma used_blocks_loop_count:
  assumes "tot < 2 ^ 32" and "bm_wf tot bm" and "unat i \<le> tot"
  shows "used_blocks_loop bm tot i u = Some (u + length (used_from bm tot (unat i)))"
  using assms(3)
proof (induction "tot - unat i" arbitrary: i u)
  case 0
  then show ?case by (subst used_blocks_loop.simps) (simp add: used_from_def)
next
  case (Suc n)
  then have lt: "unat i < tot" by simp
  have i1: "unat (i + 1) = unat i + 1"
    using lt assms(1) by (simp add: unat_word_ariths)
  have test: "pc_test_bit (unat i) bm tot \<noteq> 0 \<longleftrightarrow> bm_mem bm (unat i)"
    using pc.test_in [OF assms(2) lt] by simp
  have "used_from bm tot (unat i) = (if bm_mem bm (unat i) then [unat i] else []) @ used_from bm tot (unat i + 1)"
    using lt by (simp add: used_from_def upt_conv_Cons)
  then show ?case
    using Suc.hyps(1) [of "i + 1"] Suc.hyps(2) lt i1
    by (subst used_blocks_loop.simps) (simp add: test)
qed

lemma used_blocks_loop_endless:
  assumes "2 ^ 32 \<le> tot"
  shows "used_blocks_loop bm tot i u = None"
proof -
  have "\<not> used_blocks_loop bm tot i u = Some r" for r
  proof
    assume "used_blocks_loop bm tot i u = Some r"
    then have "\<not> 2 ^ 32 \<le> tot"
    proof (induction rule: used_blocks_loop.raw_induct [rotated, consumes 1, case_names step])
      case (step f bm tot i u r)
      show ?case
      proof
        assume big: "2 ^ 32 \<le> tot"
        have "unat i < 2 ^ 32" using unsigned_less [of i] by simp
        then show False using step big by (auto split: if_splits)
      qed
    qed
    then show False using assms by simp
  qed
  then show ?thesis by (cases "used_blocks_loop bm tot i u") auto
qed

section \<open>Bytes of blocks\<close>

lemma get_checksum_count_div: "0 < bpc \<Longrightarrow> get_checksum_count n bpc = n div bpc"
  by (simp add: get_checksum_count_def)

lemma convert_blocks_exact:
  assumes "0 < bpc" and "n * bs < 2 ^ 32" and "off + n < 2 ^ 60" and "csz \<le> 4"
  shows "convert_blocks_to_bytes off n bs bpc csz = n * bs + ((off + n) div bpc - off div bpc) * csz"
proof -
  let ?c = "(off + n) div bpc - off div bpc"
  have le: "off div bpc \<le> (off + n) div bpc" by (rule div_le_mono) simp
  have top: "(off + n) div bpc < 2 ^ 60" using assms(3) div_le_dividend [of "off + n" bpc] by linarith
  have c: "(a + 2 ^ 64 - b) mod 2 ^ 64 = a - b" if "b \<le> a" "a < 2 ^ 60" for a b :: nat
  proof -
    have "a + 2 ^ 64 - b = (a - b) + 2 ^ 64" using that by simp
    then have "(a + 2 ^ 64 - b) mod 2 ^ 64 = (a - b) mod 2 ^ 64" by (metis mod_add_self2)
    then show ?thesis using that by simp
  qed
  have "?c * csz \<le> 2 ^ 60 * 4" using top assms(4) by (intro mult_le_mono) simp_all
  then have "n * bs + ?c * csz < 2 ^ 64" using assms(2) by simp
  moreover have "(n * bs) mod 2 ^ 32 = n * bs" "(off + n) mod 2 ^ 64 = off + n" using assms(2,3) by simp_all
  moreover have "bpc \<noteq> 0" using assms(1) by simp
  ultimately show ?thesis
    unfolding convert_blocks_to_bytes_def Let_def get_checksum_count_def by (simp only: c [OF le top] if_False if_True mod_less) simp
qed

section \<open>The length of an image\<close>

lemma cs_length:
  assumes "0 < bpc" and "k < bpc" and "\<forall>b \<in> set D. length b = bs"
  shows "length (cs_body crc_upd crc_ser CRC32_SEED bpc k c D) = length D * bs + 4 * ((k + length D) div bpc)"
    and "fst (cs_state crc_upd CRC32_SEED bpc k c D) = (k + length D) mod bpc"
proof -
  have "length (cs_body crc_upd crc_ser CRC32_SEED bpc k c D) = length D * bs + 4 * ((k + length D) div bpc) \<and>
    fst (cs_state crc_upd CRC32_SEED bpc k c D) = (k + length D) mod bpc"
    using assms(2,3)
  proof (induction D arbitrary: k c)
    case (Cons b D)
    show ?case
    proof (cases "k + 1 = bpc")
      case True
      then have e: "k + length (b # D) = length D + bpc" by simp
      have "(k + length (b # D)) div bpc = length D div bpc + 1" "(k + length (b # D)) mod bpc = length D mod bpc"
        unfolding e using assms(1) by simp_all
      then show ?thesis using Cons.IH [of 0 CRC32_SEED] Cons.prems True assms(1) by (simp add: algebra_simps)
    next
      case False
      then show ?thesis using Cons.IH [of "Suc k"] Cons.prems assms(1) by (auto simp: algebra_simps)
    qed
  qed simp
  then show "length (cs_body crc_upd crc_ser CRC32_SEED bpc k c D) = length D * bs + 4 * ((k + length D) div bpc)"
    and "fst (cs_state crc_upd CRC32_SEED bpc k c D) = (k + length D) mod bpc" by simp_all
qed

lemma length_data_section:
  assumes "0 < bpc" and "\<forall>b \<in> set D. length b = bs"
  shows "length (data_section bpc D) =
    length D * bs + 4 * (length D div bpc) + (if length D mod bpc = 0 then 0 else 4)"
  using cs_length [OF assms(1,1) assms(2), of CRC32_SEED]
  by (simp add: data_section_def checked_stream_def cs_tail_def)

lemma length_image_file:
  assumes "fs_info_wf info" and "unat (totalblock info) < 2 ^ 63" and "bm_wf (unat (totalblock info)) (Some ws)"
    and "0 < unat (blocks_per_checksum opt)" and "\<forall>b \<in> set D. length b = bs"
  shows "length (image_file info opt ws D) =
    114 + BITS_TO_BYTES (unat (totalblock info)) + length D * bs +
    4 * (length D div unat (blocks_per_checksum opt)) +
    (if length D mod unat (blocks_per_checksum opt) = 0 then 0 else 4)"
  using length_image_header [OF assms(1), of opt] length_bitmap_section [OF assms(2,3)]
    length_data_section [OF assms(4,5)]
  by (simp add: image_file_def)

section \<open>The space that is asked for\<close>

text \<open>
  What \<^verbatim>\<open>check_system_space\<close> means to ask for. Its own sum can only be smaller, by wrapping around.
\<close>

definition space_for :: "file_system_info \<Rightarrow> nat \<Rightarrow> nat" where
  "space_for info cap =
     106 + BITS_TO_BYTES (unat (totalblock info)) + unat (usedblocks info) * unat (block_size info) +
     4 * (unat (usedblocks info) div cap)"

lemma convert_blocks_le:
  assumes "0 < bpc"
  shows "convert_blocks_to_bytes 0 n bs bpc csz \<le> n * bs + n div bpc * csz"
proof -
  have "((n mod 2 ^ 64) div bpc + 2 ^ 64 - 0 div bpc) mod 2 ^ 64 = (n mod 2 ^ 64) div bpc mod 2 ^ 64" by simp
  also have "\<dots> \<le> (n mod 2 ^ 64) div bpc" by (rule mod_less_eq_dividend)
  also have "\<dots> \<le> n div bpc" by (rule div_le_mono) (rule mod_less_eq_dividend)
  finally have c: "((n mod 2 ^ 64) div bpc + 2 ^ 64 - 0 div bpc) mod 2 ^ 64 \<le> n div bpc" .
  have "convert_blocks_to_bytes 0 n bs bpc csz \<le>
      (n * bs) mod 2 ^ 32 + ((n mod 2 ^ 64) div bpc + 2 ^ 64 - 0 div bpc) mod 2 ^ 64 * csz"
    using assms by (simp add: convert_blocks_to_bytes_def get_checksum_count_def Let_def)
  also have "\<dots> \<le> n * bs + n div bpc * csz"
    by (rule add_mono [OF mod_less_eq_dividend mult_right_mono [OF c]]) simp
  finally show ?thesis .
qed

lemma check_system_space_enough:
  assumes "space_for info (unat (blocks_per_checksum opt)) \<le> get_local_free_space t w"
    and "0 < unat (blocks_per_checksum opt)" and "checksum_size opt = 4"
  shows "check_system_space info t opt w"
proof -
  let ?u = "unat (usedblocks info)" and ?bs = "unat (block_size info)" and ?bpc = "unat (blocks_per_checksum opt)"
  let ?B = "BITS_TO_BYTES (unat (totalblock info))"
  let ?c = "convert_blocks_to_bytes 0 (?u mod 2 ^ 32) ?bs ?bpc 4"
  have "?u mod 2 ^ 32 * ?bs \<le> ?u * ?bs" by (intro mult_le_mono mod_less_eq_dividend order_refl)
  moreover have "?u mod 2 ^ 32 div ?bpc \<le> ?u div ?bpc" by (intro div_le_mono mod_less_eq_dividend)
  ultimately have "?c \<le> ?u * ?bs + 4 * (?u div ?bpc)"
    using convert_blocks_le [OF assms(2), of "?u mod 2 ^ 32" ?bs 4] by linarith
  then have "106 + ?B + ?c \<le> get_local_free_space t w" using assms(1) unfolding space_for_def by linarith
  moreover have "((106 + ?B) mod 2 ^ 64 + ?c) mod 2 ^ 64 \<le> 106 + ?B + ?c"
    using mod_less_eq_dividend [of "(106 + ?B) mod 2 ^ 64 + ?c" "2 ^ 64"] mod_less_eq_dividend [of "106 + ?B" "2 ^ 64"]
    by linarith
  moreover have "unat (checksum_size opt) = 4" using assms(3) by simp
  ultimately show ?thesis
    unfolding check_system_space_def Let_def by (simp only: not_less) (simp add: add.commute)
qed

lemma check_system_space_eq:
  assumes "unat (usedblocks info) < 2 ^ 32" and "unat (usedblocks info) * unat (block_size info) < 2 ^ 32"
    and "unat (totalblock info) < 2 ^ 63" and "0 < unat (blocks_per_checksum opt)" and "checksum_size opt = 4"
  shows "check_system_space info t opt w \<longleftrightarrow>
    space_for info (unat (blocks_per_checksum opt)) \<le> get_local_free_space t w"
proof -
  let ?u = "unat (usedblocks info)" and ?bs = "unat (block_size info)" and ?bpc = "unat (blocks_per_checksum opt)"
  have "0 + ?u < 2 ^ 60" using assms(1) by simp
  then have c: "convert_blocks_to_bytes 0 ?u ?bs ?bpc 4 = ?u * ?bs + 4 * (?u div ?bpc)"
    using convert_blocks_exact [OF assms(4,2), of 0 4] by simp
  have "?u div ?bpc \<le> ?u" by (rule div_le_dividend)
  then have d: "?u div ?bpc < 2 ^ 32" using assms(1) by linarith
  have b: "BITS_TO_BYTES (unat (totalblock info)) < 2 ^ 61" using assms(3) by (simp add: BITS_TO_BYTES_small)
  have m: "unat (checksum_size opt) = 4" using assms(5) by simp
  have "106 + BITS_TO_BYTES (unat (totalblock info)) + (?u * ?bs + 4 * (?u div ?bpc)) < 2 ^ 64"
    using d b assms(2) by simp
  moreover have "?u mod 2 ^ 32 = ?u" using assms(1) by simp
  ultimately show ?thesis
    using b unfolding check_system_space_def space_for_def Let_def m by (simp only: c) (auto simp: not_less)
qed

section \<open>Progress\<close>

lemma report_progress_emits:
  assumes "report_progress prog n pd w = (pd', w')"
  shows "w_out w' = w_out w @ [Progress (percent pd') (speed pd') (elapsed pd')]"
    and "n < stop prog \<Longrightarrow> 0 < percent pd' \<and> percent pd' < 100 \<and> 1 \<le> elapsed pd'"
    and "stop prog \<le> n \<Longrightarrow> percent pd' = 100 \<and> speed pd' = speed pd \<and> elapsed pd' = elapsed pd"
proof -
  obtain t w1 where t: "sys_time w = (t, w1)" by fastforce
  have o: "w_out w1 = w_out w" using sys_time_frame [OF t] by auto
  show "w_out w' = w_out w @ [Progress (percent pd') (speed pd') (elapsed pd')]"
    using assms o by (auto simp: report_progress_def progress_update_def calculate_speed_def t emit_def Let_def split: if_splits)
  show "n < stop prog \<Longrightarrow> 0 < percent pd' \<and> percent pd' < 100 \<and> 1 \<le> elapsed pd'"
    using assms by (auto simp: report_progress_def progress_update_def calculate_speed_def t emit_def Let_def not_le)
  show "stop prog \<le> n \<Longrightarrow> percent pd' = 100 \<and> speed pd' = speed pd \<and> elapsed pd' = elapsed pd"
    using assms by (auto simp: report_progress_def progress_update_def)
qed

section \<open>Properties\<close>

text \<open>
  C38: \<^verbatim>\<open>update_used_blocks_count\<close> counts the used blocks exactly when the file system has fewer than
  \<open>2 ^ 32\<close> blocks: the loop ends and \<^verbatim>\<open>used_bitmap\<close> is the number of blocks whose bit is set.
\<close>

theorem used_blocks_counted:
  assumes "unat (totalblock info) < 2 ^ 32" and "bm_wf (unat (totalblock info)) bm"
  shows "update_used_blocks_count info bm =
    Some (info\<lparr>used_bitmap := of_nat (length (filter (\<lambda>i. pc_test_bit i bm (unat (totalblock info)) = 1)
                                       [0..<unat (totalblock info)]))\<rparr>)"
proof -
  let ?tot = "unat (totalblock info)"
  have "filter (\<lambda>i. pc_test_bit i bm ?tot = 1) [0..<?tot] = used_from bm ?tot 0"
    unfolding used_from_def using pc.test_in [OF assms(2)] by (intro filter_cong) auto
  then show ?thesis
    using used_blocks_loop_count [OF assms, of 0 0] by (simp add: update_used_blocks_count_def)
qed

theorem used_blocks_counted_witness:
  "update_used_blocks_count engine_info (Some [10]) =
    Some (engine_info\<lparr>used_bitmap := of_nat (length (filter (\<lambda>i. pc_test_bit i (Some [10]) (unat (totalblock engine_info)) = 1)
                                              [0..<unat (totalblock engine_info)]))\<rparr>)"
  by (rule used_blocks_counted) (simp_all add: engine_info_def bm_wf_def)

text \<open>
  With \<open>2 ^ 32\<close> blocks or more the same function does not return: its loop variable is a 32-bit
  \<^verbatim>\<open>uint\<close> that wraps around before it reaches the 64-bit bound.
\<close>

theorem used_blocks_count_endless:
  assumes "2 ^ 32 \<le> unat (totalblock info)"
  shows "update_used_blocks_count info bm = None"
  using used_blocks_loop_endless [OF assms] by (simp add: update_used_blocks_count_def)

theorem used_blocks_count_endless_witness:
  "update_used_blocks_count (engine_info\<lparr>totalblock := 0x100000000\<rparr>) (Some (replicate 67108864 0)) = None"
  by (rule used_blocks_count_endless) simp

text \<open>
  \<^verbatim>\<open>convert_blocks_to_bytes\<close> is exact as long as the run of blocks has less than 4 GiB: the bytes of
  the blocks, and the bytes of the checksums that fall into the run, wherever the run starts in a group.
\<close>

theorem block_bytes_exact:
  assumes "0 < bpc" and "n * bs < 2 ^ 32" and "off + n < 2 ^ 60" and "csz \<le> 4"
  shows "convert_blocks_to_bytes off n bs bpc csz =
    n * bs + length (filter (\<lambda>k. k mod bpc = 0) [off + 1..<off + n + 1]) * csz"
proof -
  have "length (filter (\<lambda>k. k mod bpc = 0) [off + 1..<off + n + 1]) = (off + n) div bpc - off div bpc" for n
  proof (induction n)
    case (Suc n)
    have le: "off div bpc \<le> (off + n) div bpc" by (rule div_le_mono) simp
    show ?case using Suc le by (simp add: div_Suc)
  qed simp
  then show ?thesis using convert_blocks_exact [OF assms] by simp
qed

theorem block_bytes_exact_witness:
  "convert_blocks_to_bytes 3 6 512 4 4 = 6 * 512 + length (filter (\<lambda>k. k mod 4 = 0) [3 + 1..<3 + 6 + 1]) * 4"
  by (rule block_bytes_exact) simp_all





text \<open>
  Every report of progress is one signal with a percentage above 0 and at most 100: below 100 with an
  elapsed time of at least a second while blocks are left, and 100 at the end, when speed and time are
  those of the report before.
\<close>

theorem progress_reports:
  assumes "report_progress prog n pd w = (pd', w')"
  shows "w_out w' = w_out w @ [Progress (percent pd') (speed pd') (elapsed pd')] \<and>
    0 < percent pd' \<and> percent pd' \<le> 100 \<and>
    (if n < stop prog then percent pd' < 100 \<and> 1 \<le> elapsed pd'
     else percent pd' = 100 \<and> speed pd' = speed pd \<and> elapsed pd' = elapsed pd)"
  using report_progress_emits [OF assms] by (cases "n < stop prog") auto

theorem progress_reports_witness:
  "\<exists>pd' w'. report_progress \<lparr>start = 0, stop = 4, pb_block_size = 512, initial_time = 1, pb_unit = 25\<rparr> 1
      (junk_pdata (engine_world engine_source 0 engine_image 0)) (engine_world engine_source 0 engine_image 0) = (pd', w') \<and>
    w_out w' = w_out (engine_world engine_source 0 engine_image 0) @ [Progress (percent pd') (speed pd') (elapsed pd')] \<and>
    0 < percent pd' \<and> percent pd' \<le> 100"
proof -
  let ?p = "\<lparr>start = 0, stop = 4, pb_block_size = 512, initial_time = 1, pb_unit = 25\<rparr>"
  let ?w = "engine_world engine_source 0 engine_image 0"
  obtain pd' w' where r: "report_progress ?p 1 (junk_pdata ?w) ?w = (pd', w')" by fastforce
  from progress_reports [OF r] r show ?thesis by blast
qed

end
