(* ===== verification/Completion.thy ===== *)
theory Completion
  imports RoundTrip Accounting
begin

text \<open>
  When a backup to a file completes: on a readable source with a new target, room for the image, and
  an environment in which no transfer fails for good and no allocation fails, the preparation
  succeeds, and with it the whole backup and the restore of its image.
\<close>

lemma open_target_new:
  assumes "w_nodes w path = None" and "w_creatable w path" and "fd_lookup w 0 \<noteq> None"
  obtains fd w' nd where "open_target_device path BACK_PTF ovr w = (fd, w')" "0 < fd" "fd_on w' fd path 0 True nd"
    "i_kind nd = REG" "i_bytes nd = []" "later w w'" "\<And>p. p \<noteq> path \<Longrightarrow> w_nodes w' p = w_nodes w p"
proof -
  let ?nd = "\<lparr>i_kind = REG, i_bytes = [], i_dirty = False, i_readable = True, i_writable = True\<rparr>"
  let ?w = "w\<lparr>w_nodes := (w_nodes w)(path \<mapsto> ?nd)\<rparr>"
  obtain fd w' where al: "alloc_fd \<lparr>o_path = path, o_pos = 0, o_write = True\<rparr> ?w = (fd, w')" by fastforce
  have "check_file_type path w = (True, w)" using assms(1) by (simp add: check_file_type_def sys_stat_def)
  then have op: "open_target_device path BACK_PTF ovr w = (fd, w')"
    using assms(1,2) al by (simp add: open_target_device_def sys_open_def)
  have k: "keeps ?w w'" using al by (rule keeps_alloc_fd)
  have l: "later w ?w" by (simp add: later_def benign_def allocs_ok_def crc_ready_def)
  show thesis
  proof (rule that [OF op])
    show "0 < fd" using al by (rule alloc_fd_pos) (use assms(3) in simp)
    show "fd_on w' fd path 0 True ?nd" using alloc_fd_new(3) [OF al] keeps_nodes [OF k] by (simp add: fd_on_def)
    show "later w w'" using l keeps_later [OF k] by (rule later_trans)
    show "w_nodes w' p = w_nodes w p" if "p \<noteq> path" for p using that keeps_nodes [OF k] by simp
  qed simp_all
qed

text \<open>
  An image with these bytes can be restored on every block device it fits on, in every state without
  failures: the used blocks are then those of the source, the others are unchanged.
\<close>

definition restores :: "byte list \<Rightarrow> string \<Rightarrow> file_system_info \<Rightarrow> (nat \<Rightarrow> bool) \<Rightarrow> byte list \<Rightarrow> bool" where
  "restores bytes path info used src \<longleftrightarrow>
     (\<forall>v img dev device ovr cap. w_nodes v path = Some img \<and> i_readable img \<and> i_bytes img = bytes \<and>
        w_nodes v device = Some dev \<and> i_kind dev = BLK \<and> i_writable dev \<and>
        unat (device_size info) \<le> length (i_bytes dev) \<and>
        geometry (unat (block_size info)) cap (unat (totalblock info)) dev \<and>
        path \<noteq> device \<and> fd_lookup v 0 \<noteq> None \<and> crc_ready v \<and> benign v \<and> allocs_ok v \<longrightarrow>
        (\<exists>v' dev'. gdbus_sysbak_restore path device ovr v = Some (True, v') \<and>
           w_nodes v' device = Some dev' \<and> length (i_bytes dev') = length (i_bytes dev) \<and>
           (\<forall>i < unat (totalblock info). blk (unat (block_size info)) (i_bytes dev') i =
              (if used i then blk (unat (block_size info)) src i
               else blk (unat (block_size info)) (i_bytes dev) i))))"

lemma local_free_space_reg:
  assumes "w_vfs w t = Some (frsize, bsize, bfree)" and "w_nodes w t = Some nd" and "i_kind nd = REG"
    and "frsize * bfree < 2 ^ 64" and "0 < frsize * bfree"
  shows "get_local_free_space t w = frsize * bfree"
  using assms by (simp add: get_local_free_space_def sys_stat_def node_stat_def Let_def)

context fs_backend_contract
begin

lemma ptf_setup_ok:
  assumes src: "w_nodes w source = Some src" "i_readable src" and ne: "source \<noteq> target"
    and tgt: "w_nodes w target = None" "w_creatable w target" and fd0: "fd_lookup w 0 \<noteq> None"
    and w: "crc_ready w" "benign w" "allocs_ok w"
    and sb: "\<And>v. w_nodes v source = Some src \<Longrightarrow> \<exists>v'. be_super be source init_file_system_info v = Some (True, info0, v')"
    and bi: "\<And>v bm. w_nodes v source = Some src \<Longrightarrow> bm_wf (unat (totalblock info0)) bm \<Longrightarrow> allocs_ok v \<Longrightarrow>
      \<exists>bm' v'. be_bitmap be source info0 bm v = Some (True, bm', v') \<and> Q bm'"
    and cap: "buffer_capacity (unat (block_size info0)) = Some cap" and tot: "unat (totalblock info0) < 2 ^ 32"
    and room: "w_vfs w target = Some (frsize, bsize, bfree)" "space_for info0 cap \<le> frsize * bfree" "frsize * bfree < 2 ^ 64"
  obtains info bm dfr dfw w' u where
    "ptf_setup be source target ovr w =
      Some (Inr (info, init_image_options\<lparr>blocks_per_checksum := of_nat cap\<rparr>, bm), dfr, dfw, w')"
    "info = info0\<lparr>used_bitmap := u\<rparr>" "Q bm"
proof -
  let ?tot = "unat (totalblock info0)" and ?opt = "init_image_options\<lparr>blocks_per_checksum := of_nat cap\<rparr>"
  obtain dfr w1 where o1: "sys_open source rdonly w = (dfr, w1)" "0 < dfr" "keeps w w1"
    using open_rdonly_ok [OF src fd0] by metis
  have n1: "w_nodes w1 target = None" "w_creatable w1 target" "fd_lookup w1 0 \<noteq> None"
    using tgt fd0 keeps_nodes [OF o1(3)] o1(3) by (auto simp: keeps_def later_def)
  obtain dfw w2 nd where o2: "open_target_device target BACK_PTF ovr w1 = (dfw, w2)" "0 < dfw"
      "fd_on w2 dfw target 0 True nd" "i_kind nd = REG" "i_bytes nd = []" "later w1 w2"
      and n2: "\<forall>p. p \<noteq> target \<longrightarrow> w_nodes w2 p = w_nodes w1 p"
  proof (rule open_target_new [OF n1, of ovr])
    fix fd w' nd
    assume *: "open_target_device target BACK_PTF ovr w1 = (fd, w')" "0 < fd" "fd_on w' fd target 0 True nd"
      "i_kind nd = REG" "i_bytes nd = []" "later w1 w'" "\<And>p. p \<noteq> target \<Longrightarrow> w_nodes w' p = w_nodes w1 p"
    show thesis by (rule that [OF *(1-6)]) (use *(7) in blast)
  qed
  have l2: "later w w2" using keeps_later [OF o1(3)] o2(6) by (rule later_trans)
  have s2: "w_nodes w2 source = Some src" using src(1) n2 ne keeps_nodes [OF o1(3)] by simp
  obtain w3 where sb3: "be_super be source init_file_system_info w2 = Some (True, info0, w3)" using sb [OF s2] by blast
  have k3: "keeps w2 w3" using sb3 by (rule super_keeps)
  have a3: "allocs_ok w3" using l2 keeps_later [OF k3] w(3) later_states(3) by metis
  have cap0: "0 < cap" "cap \<le> DEFAULT_BUFFER_SIZE" using cap buffer_capacity_pos buffer_capacity_le by auto
  then have capu: "unat (of_nat cap :: u32) = cap" by (simp add: unat_of_nat DEFAULT_BUFFER_SIZE_def)
  then have bpc: "unat (blocks_per_checksum ?opt) = cap" by simp
  obtain w4 where m: "check_memory_size info0 ?opt w3 = Some (True, w4)" "keeps w3 w4"
    using check_memory_ok [OF cap _ a3, of ?opt] bpc cap0(1) by (metis less_irrefl)
  have a4: "allocs_ok w4" using later_states(3) [OF keeps_later [OF m(2)] a3] .
  obtain w5 where al: "pc_alloc_bitmap ?tot w4 = (Some (replicate (BITS_TO_LONGS ?tot) 0), w5)" "keeps w4 w5"
    using alloc_bitmap_ok [OF a4] by metis
  have a5: "allocs_ok w5" using later_states(3) [OF keeps_later [OF al(2)] a4] .
  have k5: "keeps w2 w5" using k3 m(2) al(2) by (blast intro: keeps_trans)
  have s5: "w_nodes w5 source = Some src" using s2 keeps_nodes [OF k5] by simp
  have wf5: "bm_wf ?tot (Some (replicate (BITS_TO_LONGS ?tot) 0))" using tot by (intro bm_wf_alloc) simp
  obtain bm w6 where b6: "be_bitmap be source info0 (Some (replicate (BITS_TO_LONGS ?tot) 0)) w5 = Some (True, bm, w6)"
    and Q: "Q bm" using bi [OF s5 wf5 a5] by blast
  have wf6: "bm_wf ?tot bm" using b6 wf5 by (rule bitmap_wf)
  then obtain ws where ws: "bm = Some ws" by (cases bm) (simp_all add: bm_wf_def)
  define info where "info = info0\<lparr>used_bitmap := of_nat (length (used_from bm ?tot 0))\<rparr>"
  have up: "update_used_blocks_count info0 bm = Some info"
    using used_blocks_loop_count [OF tot wf6, of 0 0] by (simp add: update_used_blocks_count_def info_def)
  have k6: "keeps w2 w6" using k5 bitmap_keeps [OF b6] by (rule keeps_trans)
  have l6: "later w w6" using l2 keeps_later [OF k6] by (rule later_trans)
  have on6: "fd_on w6 dfw target 0 True nd"
    using later_fd_on [OF keeps_later [OF k6] o2(3)] keeps_nodes [OF k6] by simp
  have "0 < space_for info0 cap" by (simp add: space_for_def)
  then have pos: "0 < frsize * bfree" using room(2) by linarith
  have v6: "w_vfs w6 target = Some (frsize, bsize, bfree)" using later_states(5) [OF l6] room(1) by simp
  have nd6: "w_nodes w6 target = Some nd" using on6 by (simp add: fd_on_def)
  have i: "usedblocks info = usedblocks info0" "block_size info = block_size info0" "totalblock info = totalblock info0"
    "fs info = fs info0" by (simp_all add: info_def)
  have opt4: "checksum_size ?opt = 4" by (simp add: init_image_options_def set_image_options_def)
  have sp: "check_system_space info target ?opt w6"
    by (rule check_system_space_enough)
      (use local_free_space_reg [OF v6 nd6 o2(4) room(3) pos] room(2) cap0(1) bpc opt4 in
        \<open>simp_all only: i space_for_def bpc\<close>)
  have wfi: "fs_info_wf info" using super_wf [OF sb3 fs_info_wf_init] by (simp add: fs_info_wf_def i)
  have c6: "crc_ready w6" "benign w6" using later_states [OF l6] w by simp_all
  obtain s where hd: "write_image_desc dfw info ?opt w6 =
      (True, (put_bytes dfw (image_header info ?opt) (w6\<lparr>crc_tab32 := crc_table\<rparr>))\<lparr>w_sched := s\<rparr>)"
    and s: "list_all transient s"
    using write_image_desc_cases [OF on6 c6(1) wfi, of ?opt] c6(2) o2(4) by (metis fkind.distinct(1))
  define w7 where "w7 = (put_bytes dfw (image_header info ?opt) (w6\<lparr>crc_tab32 := crc_table\<rparr>))\<lparr>w_sched := s\<rparr>"
  have on6': "fd_on (w6\<lparr>crc_tab32 := crc_table\<rparr>) dfw target 0 True nd" using on6 by simp
  obtain nd7 pos7 where on7: "fd_on w7 dfw target pos7 True nd7" "i_kind nd7 = REG"
    using fd_on_put_bytes [OF on6', of "image_header info ?opt"] o2(4) by (auto simp: w7_def node_put_def)
  have c7: "crc_ready w7" "benign w7" using s by (simp_all add: w7_def crc_ready_def benign_def)
  have k7: "i_kind nd7 \<noteq> BLK" and tot33: "unat (totalblock info) < 2 ^ 33" and wf7: "bm_wf (unat (totalblock info)) (Some ws)"
    using on7(2) tot wf6 ws by (simp_all add: i)
  obtain w8 where bw: "write_image_bitmap dfw info bm w7 = Some (True, w8)"
    using write_image_bitmap_benign [OF on7(1) c7 k7 tot33 wf7] ws by metis
  have o1': "open_source_device source BACK_PTF w = (dfr, w1)" using o1(1) by (simp add: open_source_rdonly)
  have "ptf_setup be source target ovr w = Some (Inr (info, ?opt, bm), dfr, dfw, w8)"
    using o1' o1(2) o2(1,2) sb3 m(1) al(1) b6 up sp hd [folded w7_def] bw cap
    by (simp add: ptf_setup_def ptf_setup_from_def Let_def)
  then show thesis by (rule that) (use Q info_def in auto)
qed

lemma backup_completes:
  assumes src: "w_nodes w source = Some src" "i_readable src" and ne: "source \<noteq> path"
    and tgt: "w_nodes w path = None" "w_creatable w path" and fd0: "fd_lookup w 0 \<noteq> None"
    and w: "crc_ready w" "benign w" "allocs_ok w"
    and sb: "\<And>v. w_nodes v source = Some src \<Longrightarrow> \<exists>v'. be_super be source init_file_system_info v = Some (True, info0, v')"
    and bi: "\<And>v bm. w_nodes v source = Some src \<Longrightarrow> bm_wf (unat (totalblock info0)) bm \<Longrightarrow> allocs_ok v \<Longrightarrow>
      \<exists>bm' v'. be_bitmap be source info0 bm v = Some (True, bm', v') \<and> (\<forall>i < unat (totalblock info0). bm_mem bm' i = used i)"
    and bs: "\<And>info v. block_size info = block_size info0 \<Longrightarrow> be_block_size be info v = unat (block_size info)"
    and geo: "geometry (unat (block_size info0)) cap (unat (totalblock info0)) src" and tot: "unat (totalblock info0) < 2 ^ 32"
    and room: "w_vfs w path = Some (frsize, bsize, bfree)" "space_for info0 cap \<le> frsize * bfree" "frsize * bfree < 2 ^ 64"
  shows "\<exists>w' nd. backup_ptf name early sync final_sync be source path ovr w = Some (True, w') \<and>
    w_nodes w' path = Some nd \<and> restores (i_bytes nd) path info0 used (i_bytes src)"
proof -
  have cap: "buffer_capacity (unat (block_size info0)) = Some cap" using geo by (simp add: geometry_def)
  obtain info bm dfr dfw w1 u where su: "ptf_setup be source path ovr w =
        Some (Inr (info, init_image_options\<lparr>blocks_per_checksum := of_nat cap\<rparr>, bm), dfr, dfw, w1)"
    and info: "info = info0\<lparr>used_bitmap := u\<rparr>" and mem: "\<forall>i < unat (totalblock info0). bm_mem bm i = used i"
    by (rule ptf_setup_ok [OF src ne tgt fd0 w sb bi cap tot room])
  have reg: "i_kind nd = REG" if "w_nodes w path = Some nd" for nd using that tgt by simp
  have i: "totalblock info = totalblock info0" "block_size info = block_size info0" "device_size info = device_size info0"
    by (simp_all add: info)
  have capu: "unat (blocks_per_checksum (init_image_options\<lparr>blocks_per_checksum := of_nat cap :: u32\<rparr>)) = cap"
    using buffer_capacity_le [OF cap] by (simp add: unat_of_nat DEFAULT_BUFFER_SIZE_def)
  have tot33: "unat (totalblock info) < 2 ^ 33" using tot by (simp add: i)
  have bs1: "be_block_size be info w1 = unat (block_size info)" by (rule bs) (simp add: i)
  have geo1: "geometry (unat (block_size info))
      (unat (blocks_per_checksum (init_image_options\<lparr>blocks_per_checksum := of_nat cap :: u32\<rparr>))) (unat (totalblock info)) src"
    using geo by (simp only: i capu)
  obtain w' nd where bak: "backup_ptf name early sync final_sync be source path ovr w = Some (True, w')"
    and nd: "w_nodes w' path = Some nd"
    using backup_ptf_image [OF su src(1) ne reg w tot33 bs1 geo1] by blast
  have "restores (i_bytes nd) path info0 used (i_bytes src)"
    unfolding restores_def
  proof (intro allI impI, elim conjE)
    fix v img dev device ovr' cap'
    assume img: "w_nodes v path = Some img" "i_readable img" "i_bytes img = i_bytes nd"
      and dev: "w_nodes v device = Some dev" "i_kind dev = BLK" "i_writable dev" "unat (device_size info0) \<le> length (i_bytes dev)"
      and geo': "geometry (unat (block_size info0)) cap' (unat (totalblock info0)) dev"
      and v: "path \<noteq> device" "fd_lookup v 0 \<noteq> None" "crc_ready v" "benign v" "allocs_ok v"
    have img3: "map_option i_bytes (w_nodes w' path) = Some (i_bytes img)" using nd img(3) by simp
    have dev4: "unat (device_size info) \<le> length (i_bytes dev)" using dev(4) by (simp add: i)
    have "cap' = cap" using geo' cap by (simp add: geometry_def)
    then have geo1': "geometry (unat (block_size info))
        (unat (blocks_per_checksum (init_image_options\<lparr>blocks_per_checksum := of_nat cap :: u32\<rparr>))) (unat (totalblock info)) dev"
      using geo' by (simp only: i capu)
    show "\<exists>v' dev'. gdbus_sysbak_restore path device ovr' v = Some (True, v') \<and>
        w_nodes v' device = Some dev' \<and> length (i_bytes dev') = length (i_bytes dev) \<and>
        (\<forall>i < unat (totalblock info0). blk (unat (block_size info0)) (i_bytes dev') i =
           (if used i then blk (unat (block_size info0)) (i_bytes src) i
            else blk (unat (block_size info0)) (i_bytes dev) i))"
      using backup_restore [OF su src(1) ne reg w tot33 bs1 geo1 bak img(1,2) img3 dev(1-3) dev4 geo1' v, of ovr'] mem
      unfolding i by metis
  qed
  with bak nd show ?thesis by blast
qed

end

end
