(* ===== verification/Confinement.thy ===== *)
theory Confinement
  imports RoundTrip
begin

text \<open>
  No call of the daemon changes a file or device other than its target, whatever the schedule, the
  content of the source and the outcome.
\<close>

section \<open>Steps confined to one node\<close>

definition fd_path :: "world \<Rightarrow> int \<Rightarrow> string option" where
  "fd_path w fd = map_option o_path (fd_lookup w fd)"

text \<open>Nothing but progress was sent.\<close>

definition logs :: "world \<Rightarrow> world \<Rightarrow> bool" where
  "logs w w' \<longleftrightarrow> (\<exists>evs. w_out w' = w_out w @ evs \<and> list_all is_progress evs)"

lemma logs_same: "w_out w' = w_out w \<Longrightarrow> logs w w'"
  by (auto simp: logs_def intro: exI [of _ "[]"])

lemma logs_refl [simp]: "logs w w"
  by (rule logs_same) simp

lemma logs_trans [trans]: "logs w w' \<Longrightarrow> logs w' w'' \<Longrightarrow> logs w w''"
  unfolding logs_def by (elim exE conjE, rule_tac x = "evs @ evsa" in exI) simp

lemma logs_fields [simp]:
  "logs w (w'\<lparr>w_nodes := a\<rparr>) = logs w w'" "logs w (w'\<lparr>w_sched := b\<rparr>) = logs w w'" "logs w (w'\<lparr>w_allocs := c\<rparr>) = logs w w'"
  "logs w (w'\<lparr>w_clock := d\<rparr>) = logs w w'" "logs w (w'\<lparr>crc_tab32 := g\<rparr>) = logs w w'" "logs w (w'\<lparr>cs_mode := h\<rparr>) = logs w w'"
  "logs w (set_pos fd p w') = logs w w'"
  by (simp_all add: logs_def set_pos_def split: option.split)

text \<open>Only the node \<open>q\<close> changes, descriptors keep the node they are on, and only progress is sent.\<close>

definition touches :: "string \<Rightarrow> world \<Rightarrow> world \<Rightarrow> bool" where
  "touches q w w' \<longleftrightarrow> (\<forall>p. p \<noteq> q \<longrightarrow> w_nodes w' p = w_nodes w p) \<and> fd_path w' = fd_path w \<and> logs w w'"

lemma touches_refl [simp]: "touches q w w"
  by (simp add: touches_def)

lemma touches_trans [trans]: "touches q w w' \<Longrightarrow> touches q w' w'' \<Longrightarrow> touches q w w''"
  by (auto simp: touches_def intro: logs_trans)

lemma fd_path_eqs [simp]:
  "fd_path (w\<lparr>w_nodes := a\<rparr>) = fd_path w" "fd_path (w\<lparr>w_sched := b\<rparr>) = fd_path w"
  "fd_path (w\<lparr>w_allocs := c\<rparr>) = fd_path w" "fd_path (w\<lparr>w_clock := d\<rparr>) = fd_path w"
  "fd_path (w\<lparr>w_out := e\<rparr>) = fd_path w" "fd_path (w\<lparr>crc_tab32 := g\<rparr>) = fd_path w"
  "fd_path (w\<lparr>cs_mode := h\<rparr>) = fd_path w"
  by (simp_all add: fd_path_def fun_eq_iff)

lemma fd_path_set_pos [simp]: "fd_path (set_pos fd p w) = fd_path w"
  by (auto simp: fd_path_def fun_eq_iff option.map_comp comp_def)

lemma touches_fields [simp]:
  "touches q w (w'\<lparr>w_sched := b\<rparr>) = touches q w w'" "touches q w (w'\<lparr>w_allocs := c\<rparr>) = touches q w w'"
  "touches q w (w'\<lparr>w_clock := d\<rparr>) = touches q w w'"
  "touches q w (w'\<lparr>crc_tab32 := g\<rparr>) = touches q w w'" "touches q w (w'\<lparr>cs_mode := h\<rparr>) = touches q w w'"
  "touches q w (set_pos fd p w') = touches q w w'"
  by (simp_all add: touches_def)

lemma touches_all: "(\<And>q. touches q w w') \<Longrightarrow> w_nodes w' = w_nodes w"
proof (rule ext)
  fix p assume "\<And>q. touches q w w'"
  moreover have "p \<noteq> p @ ''x''" by simp
  ultimately show "w_nodes w' p = w_nodes w p" unfolding touches_def by blast
qed

lemma touches_io_limit: "io_limit n w = (r, w') \<Longrightarrow> touches q w w'"
  by (drule io_limit_cases) auto

lemma io_limit_eq: "io_limit n w = (r, w') \<Longrightarrow> \<exists>s. w' = w\<lparr>w_sched := s\<rparr>"
  by (drule io_limit_cases) (auto intro: exI [of _ "w_sched w"])

lemma touches_read: "sys_read fd n w = (r, w') \<Longrightarrow> touches q w w'"
  by (auto simp: sys_read_def Let_def split: option.splits if_splits prod.splits sum.splits dest!: io_limit_eq)

lemma touches_lseek: "sys_lseek fd off cur w = (r, w') \<Longrightarrow> touches q w w'"
  by (auto simp: sys_lseek_def Let_def split: option.splits if_splits)

lemma touches_write:
  "sys_write fd buf w = (r, w') \<Longrightarrow> fd_path w fd \<in> {None, Some q} \<Longrightarrow> touches q w w'"
  by (auto simp: sys_write_def Let_def split: option.splits if_splits prod.splits sum.splits dest!: io_limit_eq)
     (auto simp: touches_def fd_path_def)

lemma touches_fsync: "fd_path w fd \<in> {None, Some q} \<Longrightarrow> touches q w (sys_fsync fd w)"
  by (auto simp: sys_fsync_def touches_def fd_path_def split: option.splits)

lemma touches_malloc: "sys_malloc w = (a, w') \<Longrightarrow> touches q w w'"
  by (erule sys_malloc_frame) auto

lemma touches_fd: "touches q w w' \<Longrightarrow> fd_path w' fd = fd_path w fd"
  by (simp add: touches_def)

lemma touches_io_write:
  "fd_path w fd \<in> {None, Some q} \<Longrightarrow> touches q w (snd (snd (io_all_loop fd sz buf n True w)))"
proof (induction fd sz buf n True w rule: io_all_loop.induct)
  case (1 fd sz buf n w)
  obtain r w1 where wr: "sys_write fd (take n buf) w = (r, w1)" by fastforce
  have t: "touches q w w1" using wr 1(5) by (rule touches_write)
  then have "fd_path w1 fd \<in> {None, Some q}" using 1(5) by (simp add: touches_fd)
  then show ?case
    using 1(1,2) wr t
    by (subst io_all_loop.simps) (auto split: sum.split intro: touches_trans)
qed

lemma touches_io_read: "touches q w (snd (snd (io_all_loop fd sz buf n False w)))"
proof (induction fd sz buf n False w rule: io_all_loop.induct)
  case (1 fd sz buf n w)
  obtain r w1 where rd: "sys_read fd n w = (r, w1)" by fastforce
  have t: "touches q w w1" using rd by (rule touches_read)
  then show ?case
    using 1(3,4) rd
    by (subst io_all_loop.simps) (auto split: sum.split prod.splits intro: touches_trans)
qed

lemma touches_io:
  "write_read_io_all fd buf n True w = (r, d, w') \<Longrightarrow> fd_path w fd \<in> {None, Some q} \<Longrightarrow> touches q w w'"
  "write_read_io_all fd buf n False w = (r, d, w') \<Longrightarrow> touches q w w'"
  using touches_io_write [of w fd q n buf n] touches_io_read [of q w fd n buf n]
  by (simp_all add: write_read_io_all_def)

section \<open>The copy engine\<close>

lemma touches_init_crc32: "init_crc32 w = (seed, w') \<Longrightarrow> touches q w w'"
  by (auto simp: init_crc32_def split: if_splits)

lemma touches_init_checksum: "init_checksum m cs w = (cs', w') \<Longrightarrow> touches q w w'"
  by (auto simp: init_checksum_def Let_def split: if_splits prod.splits dest: touches_init_crc32)

lemma touches_ptf_blocks:
  "ptf_blocks bs bpc csize m n rbuf cs k w = (out, a, cs', k', w') \<Longrightarrow> touches q w w'"
proof (induction n arbitrary: rbuf cs k w out a cs' k' w')
  case (Suc n)
  then show ?case
    by (auto simp: Let_def split: if_splits prod.splits intro: touches_trans touches_init_checksum)
qed simp

lemma touches_restore_blocks:
  "restore_blocks bs bpc csize m n rbuf cs k w = Some (ok, out, rest, cs', k', w') \<Longrightarrow> touches q w w'"
proof (induction n arbitrary: rbuf cs k w ok out rest cs' k' w')
  case (Suc n)
  then show ?case
    by (auto simp: Let_def bind_eq_Some_conv split: if_splits prod.splits intro: touches_trans touches_init_checksum)
qed simp

lemma touches_report: "report_progress prog cc pd w = (pd', w') \<Longrightarrow> touches q w w'"
  by (erule report_progress_eq [where ps = "{}" and fds = "{}"]) (auto simp: touches_def logs_def frame_def)

lemma touches_init: "progress_init a b c w = (prog, w') \<Longrightarrow> touches q w w'"
  by (auto dest!: progress_init_frame)

lemma touches_ptf_loop:
  "fd_path w dfw \<in> {None, Some q} \<Longrightarrow>
   ptf_loop sync bs cap tot opt bm dfr dfw prog pd i cs k cc w = (ok, k', cs', cc', w') \<Longrightarrow> touches q w w'"
proof (induction "tot - i" arbitrary: i cs k cc w pd rule: less_induct)
  case less
  obtain n j where g: "get_read_blocks_size tot cap bm i = (n, j)" by fastforce
  obtain sk w1 where l: "sys_lseek dfr (to_off ((j * bs) mod 2 ^ 64)) False w = (sk, w1)" by fastforce
  obtain r rbuf w2 where rd: "write_read_io_all dfr [] ((n * bs) mod 2 ^ 64) False w1 = (r, rbuf, w2)" by (metis prod.exhaust)
  obtain wbuf a cs1 k1 w3 where pb: "ptf_blocks bs (unat (blocks_per_checksum opt)) (unat (checksum_size opt))
      (uint (checksum_mode opt)) n rbuf cs k w2 = (wbuf, a, cs1, k1, w3)" by (metis prod.exhaust)
  obtain s d w4 where wr: "write_read_io_all dfw wbuf (length wbuf) True w3 = (s, d, w4)" by (metis prod.exhaust)
  obtain pd1 w5 where rp: "report_progress prog (cc + n) pd w4 = (pd1, w5)" by fastforce
  define w6 where "w6 = (if sync then sys_fsync dfw w5 else w5)"
  have t1: "touches q w w1" using l by (rule touches_lseek)
  have t2: "touches q w w2" using t1 touches_io(2) [OF rd] by (rule touches_trans)
  have t3: "touches q w w3" using t2 touches_ptf_blocks [OF pb] by (rule touches_trans)
  have t4: "touches q w w4" using t3 touches_io(1) [OF wr] less.prems(1) touches_fd [OF t3] touches_trans by metis
  have t5: "touches q w w5" using t4 touches_report [OF rp] by (rule touches_trans)
  have "fd_path w5 dfw \<in> {None, Some q}" using less.prems(1) touches_fd [OF t5] by simp
  then have t6: "touches q w w6" using touches_trans [OF t5 touches_fsync] t5 by (simp add: w6_def)
  have p6: "fd_path w6 dfw \<in> {None, Some q}" using less.prems(1) touches_fd [OF t6] by simp
  have rest: "touches q w w'" if "n \<noteq> 0"
      "ptf_loop sync bs cap tot opt bm dfr dfw prog pd1 (j + n) cs1 k1 (cc + n) w6 = (ok, k', cs', cc', w')"
    using less.hyps [OF _ p6 that(2)] get_read_blocks_size_progress [OF g that(1)] t6 touches_trans by auto
  note eq = less.prems(2) [unfolded ptf_loop.simps [of sync bs cap tot opt bm dfr dfw prog pd i cs k cc w]
      Let_def g prod.case l rd pb wr rp w6_def [symmetric]]
  from eq rest t1 t2 t4 t5 show ?case by (simp split: if_split_asm)
qed

lemma touches_ptf:
  assumes "read_write_data_ptf sync bs info opt bm dfr dfw cc w = Some (ok, w')" and "fd_path w dfw \<in> {None, Some q}"
  shows "touches q w w'"
proof -
  obtain prog w1 where pi: "progress_init 0 (unat (usedblocks info)) (sint (block_size info)) w = (prog, w1)" by fastforce
  obtain a w2 where m1: "sys_malloc w1 = (a, w2)" by fastforce
  obtain b w3 where m2: "sys_malloc w2 = (b, w3)" by fastforce
  obtain sk w4 where l: "sys_lseek dfr 0 False w3 = (sk, w4)" by fastforce
  let ?n = "unat (checksum_size opt)"
  obtain cs w5 where ic: "init_checksum (uint (checksum_mode opt)) (replicate ?n (w_junk w4)) w4 = (cs, w5)" by fastforce
  have t3: "touches q w w3"
    using touches_init [OF pi] touches_malloc [OF m1] touches_malloc [OF m2] by (blast intro: touches_trans)
  have t4: "touches q w w4" using t3 touches_lseek [OF l] by (rule touches_trans)
  have t5: "touches q w w5" using t4 touches_init_checksum [OF ic] by (rule touches_trans)
  have lp: "touches q w w6 \<and> fd_path w6 dfw \<in> {None, Some q}"
    if "ptf_loop sync bs cap (unat (totalblock info)) opt bm dfr dfw prog (junk_pdata w5) 0 cs 0 cc w5 = (ok1, k, cs1, cc1, w6)"
    for cap ok1 k cs1 cc1 w6
    using touches_ptf_loop [OF _ that, of q] t5 touches_fd [OF t5] assms(2) touches_trans touches_fd by metis
  have io: "touches q w w7"
    if "ptf_loop sync bs cap (unat (totalblock info)) opt bm dfr dfw prog (junk_pdata w5) 0 cs 0 cc w5 = (ok1, k, cs1, cc1, w6)"
      "write_read_io_all dfw (take ?n cs1) ?n True w6 = (x, d, w7)" for cap ok1 k cs1 cc1 w6 x d w7
    using lp [OF that(1)] touches_io(1) [OF that(2), of q] touches_trans by blast
  from assms(1) obtain cap where "buffer_capacity bs = Some cap"
    by (cases "buffer_capacity bs") (simp_all add: read_write_data_ptf_def)
  with assms(1) t3 t4 lp [of cap] io [of cap] show ?thesis
    by (simp add: read_write_data_ptf_def pi m1 m2 l ic Let_def split: if_split_asm prod.split_asm)
qed

lemma touches_ptp_loop:
  "fd_path w dfw \<in> {None, Some q} \<Longrightarrow>
   ptp_loop bs cap tot bm dfr dfw prog pd i w = (ok, w') \<Longrightarrow> touches q w w'"
proof (induction "tot - i" arbitrary: i w pd rule: less_induct)
  case less
  obtain n j where g: "get_read_blocks_size tot cap bm i = (n, j)" by fastforce
  obtain sk w1 where l1: "sys_lseek dfr (to_off ((j * bs) mod 2 ^ 64)) False w = (sk, w1)" by fastforce
  obtain sk' w2 where l2: "sys_lseek dfw (to_off ((j * bs) mod 2 ^ 64)) False w1 = (sk', w2)" by fastforce
  let ?n = "(n * bs) mod 2 ^ 64"
  obtain r rbuf w3 where rd: "write_read_io_all dfr [] ?n False w2 = (r, rbuf, w3)" by (metis prod.exhaust)
  obtain s d w4 where wr: "write_read_io_all dfw rbuf ?n True w3 = (s, d, w4)" by (metis prod.exhaust)
  obtain pd1 w5 where rp: "report_progress prog (j + n) pd w4 = (pd1, w5)" by fastforce
  have t1: "touches q w w1" using l1 by (rule touches_lseek)
  have t2: "touches q w w2" using t1 touches_lseek [OF l2] by (rule touches_trans)
  have t3: "touches q w w3" using t2 touches_io(2) [OF rd] by (rule touches_trans)
  have "fd_path w3 dfw \<in> {None, Some q}" using less.prems(1) touches_fd [OF t3] by simp
  then have t4: "touches q w w4" using touches_trans [OF t3 touches_io(1) [OF wr]] by simp
  have t5: "touches q w w5" using t4 touches_report [OF rp] by (rule touches_trans)
  have p5: "fd_path w5 dfw \<in> {None, Some q}" using less.prems(1) touches_fd [OF t5] by simp
  have rest: "touches q w w'" if "n \<noteq> 0" "ptp_loop bs cap tot bm dfr dfw prog pd1 (j + n) w5 = (ok, w')"
    using less.hyps [OF _ p5 that(2)] get_read_blocks_size_progress [OF g that(1)] t5 touches_trans by auto
  note eq = less.prems(2) [unfolded ptp_loop.simps [of bs cap tot bm dfr dfw prog pd i w]
      Let_def g prod.case l1 l2 rd wr rp]
  from eq rest t1 t2 t3 t4 show ?case by (simp split: if_split_asm)
qed

lemma touches_ptp:
  assumes "read_write_data_ptp bs info bm dfr dfw w = Some (ok, w')" and "fd_path w dfw \<in> {None, Some q}"
  shows "touches q w w'"
proof -
  obtain prog w1 where pi: "progress_init 0 (unat (usedblocks info)) (sint (block_size info)) w = (prog, w1)" by fastforce
  obtain a w2 where m1: "sys_malloc w1 = (a, w2)" by fastforce
  obtain sk w3 where l: "sys_lseek dfr 0 False w2 = (sk, w3)" by fastforce
  have t2: "touches q w w2" using touches_init [OF pi] touches_malloc [OF m1] by (rule touches_trans)
  have t3: "touches q w w3" using t2 touches_lseek [OF l] by (rule touches_trans)
  have p3: "fd_path w3 dfw \<in> {None, Some q}" using assms(2) touches_fd [OF t3] by simp
  have lp: "touches q w w4"
    if "ptp_loop bs cap (unat (totalblock info)) bm dfr dfw prog (junk_pdata w3) 0 w3 = (ok1, w4)" for cap ok1 w4
    using touches_ptp_loop [OF p3 that] t3 touches_trans by blast
  from assms(1) obtain cap where "buffer_capacity bs = Some cap"
    by (cases "buffer_capacity bs") (simp_all add: read_write_data_ptp_def)
  with assms(1) t2 t3 lp [of cap] show ?thesis
    by (simp add: read_write_data_ptp_def pi m1 l Let_def split: if_split_asm)
qed

lemma touches_restore_write_res:
  "restore_write bs tot n bm dfw prog wbuf k i cc pd w = Some res \<Longrightarrow>
   fd_path w dfw \<in> {None, Some q} \<longrightarrow> touches q w (snd (snd (snd (snd res))))"
proof (induction rule: restore_write.raw_induct [rotated, consumes 1, case_names step])
  case (step f bs tot n bm dfw prog wbuf k i cc pd w res)
  let ?skip = "skip_loop bm tot i 0"
  define j where "j = i + ?skip"
  define bytes where "bytes = (?skip * bs) mod 2 ^ 64"
  obtain sk w1 where l: "(if bytes > 0 then sys_lseek dfw (to_off bytes) True w else (0, w)) = (sk, w1)" by fastforce
  define m where "m = run_loop bm tot (n - k) j 0"
  define count where "count = (m * bs) mod 2 ^ 32"
  obtain s d w2 where wr: "(if m > 0 then write_read_io_all dfw (take count (drop (k * bs) wbuf)) count True w1
      else (0, [], w1)) = (s, d, w2)" by (metis prod.exhaust)
  define w3 where "w3 = (if m > 0 then sys_fsync dfw w2 else w2)"
  obtain pd1 w4 where rp: "report_progress prog (cc + m) pd w3 = (pd1, w4)" by fastforce
  note eq = step(2) [unfolded Let_def, folded j_def bytes_def, unfolded l prod.case, folded m_def, folded count_def,
      unfolded wr prod.case, folded w3_def, unfolded rp prod.case]
  show ?case
  proof
    assume p: "fd_path w dfw \<in> {None, Some q}"
    have t1: "touches q w w1" using l touches_lseek by (auto split: if_splits)
    then have "fd_path w1 dfw \<in> {None, Some q}" using p by (simp add: touches_fd)
    then have "touches q w1 w2" using wr touches_io(1) by (auto split: if_splits)
    with t1 have t2: "touches q w w2" by (rule touches_trans)
    then have "fd_path w2 dfw \<in> {None, Some q}" using p by (simp add: touches_fd)
    then have t3: "touches q w w3" using touches_trans [OF t2 touches_fsync] t2 by (simp add: w3_def)
    have t4: "touches q w w4" using t3 touches_report [OF rp] by (rule touches_trans)
    have p4: "fd_path w4 dfw \<in> {None, Some q}" using p touches_fd [OF t4] by simp
    have rest: "touches q w (snd (snd (snd (snd res))))"
      if "f bs tot n bm dfw prog wbuf (k + m) (j + m) (cc + m) pd1 w4 = Some res"
      using step(1) [OF that] p4 t4 touches_trans by blast
    show "touches q w (snd (snd (snd (snd res))))"
      using eq rest t1 t2 t4 by (auto split: if_splits)
  qed
qed

lemma touches_restore_write:
  "restore_write bs tot n bm dfw prog wbuf k i cc pd w = Some (ok, i', cc', pd', w') \<Longrightarrow>
   fd_path w dfw \<in> {None, Some q} \<Longrightarrow> touches q w w'"
  using touches_restore_write_res by fastforce

lemma touches_restore_loop:
  "restore_loop bs cap used tot bsz opt bm dfr dfw prog pd rbuf i cs k cc w = Some res \<Longrightarrow>
   fd_path w dfw \<in> {None, Some q} \<longrightarrow> touches q w (snd res)"
proof (induction rule: restore_loop.raw_induct [rotated, consumes 1, case_names step])
  case (step f bs cap used tot bsz opt bm dfr dfw prog pd rbuf i cs k cc w res)
  let ?csz = "unat (checksum_size opt)" and ?bpc = "unat (blocks_per_checksum opt)" and ?m = "uint (checksum_mode opt)"
  define n where "n = (if (cc + cap) mod 2 ^ 64 < used then cap else (used + 2 ^ 64 - cc) mod 2 ^ 64 mod 2 ^ 32)"
  define sz0 where "sz0 = to_int32 (convert_blocks_to_bytes cc n bs ?bpc ?csz)"
  define sz where "sz = (if ?bpc \<noteq> 0 \<and> n < cap \<and> n mod ?bpc \<noteq> 0 \<and> used mod ?bpc \<noteq> 0 then sz0 + int ?csz else sz0)"
  obtain r data w1 where rd: "write_read_io_all dfr [] (nat (sz mod 2 ^ 64)) False w = (r, data, w1)" by (metis prod.exhaust)
  note eq = step(2) [unfolded Let_def, folded n_def, folded sz0_def, folded sz_def, unfolded rd prod.case]
  have t1: "touches q w w1" using rd by (rule touches_io(2))
  show ?case
  proof
    assume p: "fd_path w dfw \<in> {None, Some q}"
    show "touches q w (snd res)"
    proof (cases "n = 0 \<or> length data > bsz \<or> r \<noteq> sz")
      case True
      then show ?thesis using eq t1 by (auto split: if_splits)
    next
      case False
      let ?rbuf = "data @ drop (length data) rbuf"
      obtain ok wbuf rest cs1 k1 w2 where rb: "restore_blocks bs ?bpc ?csz ?m n ?rbuf cs k w1 = Some (ok, wbuf, rest, cs1, k1, w2)"
        using eq False by (cases "restore_blocks bs ?bpc ?csz ?m n ?rbuf cs k w1") auto
      have t2: "touches q w w2" using t1 touches_restore_blocks [OF rb] by (rule touches_trans)
      then have p2: "fd_path w2 dfw \<in> {None, Some q}" using p by (simp add: touches_fd)
      let ?rw = "restore_write bs tot n bm dfw prog wbuf 0 i cc pd w2"
      have rw: "touches q w w3 \<and> fd_path w3 dfw \<in> {None, Some q}" if "?rw = Some (ok1, i1, cc1, pd1, w3)" for ok1 i1 cc1 pd1 w3
      proof -
        have "touches q w w3" using t2 touches_restore_write [OF that p2] by (rule touches_trans)
        then show ?thesis using p by (simp add: touches_fd)
      qed
      have next_loop: "touches q w (snd res)"
        if "?rw = Some (ok1, i1, cc1, pd1, w3)"
          "f bs cap used tot bsz opt bm dfr dfw prog pd1 ?rbuf i1 cs1 k1 cc1 w3 = Some res" for ok1 i1 cc1 pd1 w3
        using step(1) [OF that(2)] rw [OF that(1)] touches_trans by blast
      show ?thesis
        using eq False t2 rw next_loop by (auto simp: rb bind_eq_Some_conv split: if_splits prod.splits)
    qed
  qed
qed

lemma touches_restore:
  assumes "read_write_data_restore info opt bm dfr dfw cc w = Some (ok, w')" and "fd_path w dfw \<in> {None, Some q}"
  shows "touches q w w'"
proof -
  let ?n = "unat (checksum_size opt)"
  obtain prog w1 where pi: "progress_init 0 (unat (usedblocks info)) (sint (block_size info)) w = (prog, w1)" by fastforce
  obtain a w2 where m1: "sys_malloc w1 = (a, w2)" by fastforce
  obtain b w3 where m2: "sys_malloc w2 = (b, w3)" by fastforce
  obtain sk w4 where l: "sys_lseek dfw 0 False w3 = (sk, w4)" by fastforce
  obtain cs w5 where ic: "init_checksum (uint (checksum_mode opt)) (replicate ?n (w_junk w4)) w4 = (cs, w5)" by fastforce
  have t3: "touches q w w3"
    using touches_init [OF pi] touches_malloc [OF m1] touches_malloc [OF m2] by (blast intro: touches_trans)
  have t4: "touches q w w4" using t3 touches_lseek [OF l] by (rule touches_trans)
  have t5: "touches q w w5" using t4 touches_init_checksum [OF ic] by (rule touches_trans)
  then have p5: "fd_path w5 dfw \<in> {None, Some q}" using assms(2) by (simp add: touches_fd)
  have lp: "touches q w w6"
    if "restore_loop bs cap used tot bsz opt bm dfr dfw prog pd rbuf 0 cs 0 cc w5 = Some (ok, w6)"
    for bs cap used tot bsz pd rbuf w6
    using touches_restore_loop [OF that, of q] p5 t5 touches_trans by fastforce
  from assms(1) obtain cap where "buffer_capacity (unat (block_size info)) = Some cap"
    by (cases "buffer_capacity (unat (block_size info))") (simp_all add: read_write_data_restore_def)
  with assms(1) t3 t4 lp show ?thesis
    by (simp add: read_write_data_restore_def pi m1 m2 l ic Let_def split: if_split_asm)
qed

section \<open>The handlers\<close>

text \<open>Only the node \<open>q\<close> changes; descriptors may be opened and closed.\<close>

abbreviation others_same :: "string \<Rightarrow> world \<Rightarrow> world \<Rightarrow> bool" where
  "others_same q w w' \<equiv> (w_nodes w')(q := None) = (w_nodes w)(q := None)"

lemma others_same_iff: "others_same q w w' \<longleftrightarrow> (\<forall>p. p \<noteq> q \<longrightarrow> w_nodes w' p = w_nodes w p)"
  by (auto simp: fun_eq_iff)

lemma touches_others: "touches q w w' \<Longrightarrow> others_same q w w'"
  by (simp add: touches_def others_same_iff)

lemma nodes_close [simp]: "w_nodes (sys_close fd w) = w_nodes w"
  by (simp add: sys_close_def)

lemma nodes_close_if [simp]: "w_nodes (close_if fd w) = w_nodes w"
  by (simp add: close_if_def)

lemma nodes_emits [simp]:
  "w_nodes (emit e w) = w_nodes w" "w_nodes (emit_error c w) = w_nodes w" "w_nodes (emit_finished info w) = w_nodes w"
  by (simp_all add: emit_def emit_error_def emit_finished_def)

lemma fd_path_emit [simp]: "fd_path (emit e w) = fd_path w"
  by (simp add: emit_def)

lemma keeps_same: "keeps w w' \<Longrightarrow> w_nodes w' = w_nodes w \<and> w_out w' = w_out w"
  by (simp add: keeps_def later_def)

lemma out_close [simp]: "w_out (sys_close fd w) = w_out w" "w_out (close_if fd w) = w_out w"
  by (simp_all add: sys_close_def close_if_def)

lemma out_read: "sys_read fd n w = (r, w') \<Longrightarrow> w_out w' = w_out w"
  by (auto simp: sys_read_def Let_def set_pos_def split: option.splits if_splits prod.splits sum.splits dest!: io_limit_eq)

lemma check_file_type_same: "check_file_type t w = (ok, w') \<Longrightarrow> w_nodes w' = w_nodes w \<and> w_out w' = w_out w"
proof -
  assume c: "check_file_type t w = (ok, w')"
  obtain fd w1 where op: "sys_open t rdonly w = (fd, w1)" by fastforce
  obtain r w2 where rd: "sys_read fd 110 w1 = (r, w2)" by fastforce
  obtain seed w3 where ic: "init_crc32 w2 = (seed, w3)" by fastforce
  have "w_nodes w1 = w_nodes w \<and> w_out w1 = w_out w" using keeps_open_rdonly(1) [OF op] by (rule keeps_same)
  moreover have "w_nodes w2 = w_nodes w1 \<and> w_out w2 = w_out w1" using touches_all touches_read [OF rd] out_read [OF rd] by blast
  moreover have "w_nodes w3 = w_nodes w2 \<and> w_out w3 = w_out w2" using keeps_init_crc32 [OF ic] by (rule keeps_same)
  ultimately show ?thesis
    using c by (auto simp: check_file_type_def op rd ic Let_def split: option.splits prod.splits if_splits sum.splits)
qed

lemma sys_open_path:
  assumes "sys_open t fl w = (fd, w')"
  shows "others_same t w w'" and "fd \<noteq> -1 \<Longrightarrow> fd_path w' fd = Some t" and "w_out w' = w_out w"
proof -
  have al: "others_same t w w' \<and> fd_path w' fd = Some t \<and> w_out w' = w_out w"
    if "alloc_fd f w1 = (fd, w')" "o_path f = t" "others_same t w w1" "w_out w1 = w_out w" for f w1
    using alloc_fd_new(3,5) [OF that(1)] keeps_same [OF keeps_alloc_fd [OF that(1)]] that(2-4) by (auto simp: fd_path_def)
  show "others_same t w w'" "fd \<noteq> -1 \<Longrightarrow> fd_path w' fd = Some t" "w_out w' = w_out w"
    using assms by (auto simp: sys_open_def split: option.splits if_splits dest!: al)
qed

lemma open_target_path:
  assumes "open_target_device t mode ovr w = (fd, w')"
  shows "others_same t w w'" and "0 < fd \<Longrightarrow> fd_path w' fd = Some t" and "w_out w' = w_out w"
proof -
  obtain ok w1 where c: "check_file_type t w = (ok, w1)" by fastforce
  have n: "w_nodes w1 = w_nodes w" "w_out w1 = w_out w" using check_file_type_same [OF c] by simp_all
  have op: "others_same t w w' \<and> (0 < fd \<longrightarrow> fd_path w' fd = Some t) \<and> w_out w' = w_out w" if "sys_open t fl w1 = (fd, w')" for fl
    using sys_open_path [OF that] n by auto
  show "others_same t w w'" "0 < fd \<Longrightarrow> fd_path w' fd = Some t" "w_out w' = w_out w"
    using assms n op by (auto simp: open_target_device_def c Let_def split: if_splits)
qed

lemma open_source_same: "open_source_device dev mode w = (fd, w') \<Longrightarrow> w_nodes w' = w_nodes w \<and> w_out w' = w_out w"
  using keeps_same [OF keeps_open_rdonly(1)]
  by (fastforce simp: open_source_device_def Let_def split: if_splits)

lemma open_source_nodes: "open_source_device dev mode w = (fd, w') \<Longrightarrow> w_nodes w' = w_nodes w"
  using open_source_same by blast

text \<open>The state after the target was opened: \<open>w\<close> was before, \<open>fd\<close> is on the target.\<close>

definition onto :: "string \<Rightarrow> int \<Rightarrow> world \<Rightarrow> world \<Rightarrow> bool" where
  "onto q fd w w' \<longleftrightarrow> others_same q w w' \<and> fd_path w' fd = Some q \<and> logs w w'"

lemma onto_keeps: "onto q fd w w1 \<Longrightarrow> keeps w1 w2 \<Longrightarrow> onto q fd w w2"
  by (auto simp: onto_def keeps_def later_def fd_path_def logs_def)

lemma onto_touches: "onto q fd w w1 \<Longrightarrow> touches q w1 w2 \<Longrightarrow> onto q fd w w2"
  by (auto simp: onto_def touches_def others_same_iff intro: logs_trans)

lemma onto_path: "onto q fd w w' \<Longrightarrow> fd_path w' fd \<in> {None, Some q}"
  by (simp add: onto_def)

lemma onto_others: "onto q fd w w' \<Longrightarrow> others_same q w w'"
  and onto_logs: "onto q fd w w' \<Longrightarrow> logs w w'"
  by (simp_all add: onto_def)

lemma touches_write_image_desc:
  assumes "write_image_desc fd info opt w = (ok, w')" and "fd_path w fd \<in> {None, Some q}"
  shows "touches q w w'"
proof -
  obtain seed w1 where ic: "init_crc32 w = (seed, w1)" by fastforce
  have t: "touches q w w1" using ic by (rule touches_init_crc32)
  then have "fd_path w1 fd \<in> {None, Some q}" using assms(2) by (simp add: touches_fd)
  then show ?thesis
    using assms(1) t by (auto simp: write_image_desc_def ic Let_def split: prod.splits intro: touches_trans touches_io(1))
qed

lemma touches_write_image_bitmap:
  assumes "write_image_bitmap fd info bm w = Some (ok, w')" and "fd_path w fd \<in> {None, Some q}"
  shows "touches q w w'"
proof (cases bm)
  case None
  then show ?thesis using assms by (simp add: write_image_bitmap_def)
next
  case (Some ws)
  let ?n = "BITS_TO_BYTES (unat (totalblock info))"
  let ?d = "take ?n (words_bytes ws)"
  obtain r d w1 where w1: "write_read_io_all fd ?d ?n True w = (r, d, w1)" by (metis prod.exhaust)
  obtain seed w2 where ic: "init_crc32 w1 = (seed, w2)" by fastforce
  have t1: "touches q w w1" using w1 assms(2) by (rule touches_io(1))
  have t2: "touches q w w2" using t1 touches_init_crc32 [OF ic] by (rule touches_trans)
  then have "fd_path w2 fd \<in> {None, Some q}" using assms(2) by (simp add: touches_fd)
  then have "touches q w w3" if "write_read_io_all fd b 4 True w2 = (r', d', w3)" for b r' d' w3
    using t2 touches_io(1) [OF that, of q] touches_trans by blast
  then show ?thesis
    using assms(1) Some t1 by (auto simp: write_image_bitmap_def w1 ic Let_def split: if_splits prod.splits)
qed

text \<open>The outcomes of a preparation, as a predicate that goes through its statements one by one.\<close>

definition confined :: "string \<Rightarrow> world \<Rightarrow> ((nat + 'x) \<times> int \<times> int \<times> world) option \<Rightarrow> bool" where
  "confined q w R \<longleftrightarrow>
     (\<forall>r dfr dfw w'. R = Some (r, dfr, dfw, w') \<longrightarrow>
        others_same q w w' \<and> logs w w' \<and> (\<forall>x. r = Inr x \<longrightarrow> onto q dfw w w'))"

lemma confined_bind: "(\<And>v. m = Some v \<Longrightarrow> confined q w (f v)) \<Longrightarrow> confined q w (Option.bind m f)"
  by (cases m) (auto simp: confined_def)

lemma confined_bind3:
  "(\<And>a b v. m = Some (a, b, v) \<Longrightarrow> onto q fd w v) \<Longrightarrow> (\<And>a b v. onto q fd w v \<Longrightarrow> confined q w (f (a, b, v))) \<Longrightarrow>
   confined q w (Option.bind m f)"
  by (cases m) (auto simp: confined_def)

lemma confined_bind2:
  "(\<And>a v. m = Some (a, v) \<Longrightarrow> onto q fd w v) \<Longrightarrow> (\<And>a v. onto q fd w v \<Longrightarrow> confined q w (f (a, v))) \<Longrightarrow>
   confined q w (Option.bind m f)"
  by (cases m) (auto simp: confined_def)

lemma confined_pair:
  "(\<And>a v. m = (a, v) \<Longrightarrow> onto q fd w v) \<Longrightarrow> (\<And>a v. onto q fd w v \<Longrightarrow> confined q w (g a v)) \<Longrightarrow>
   confined q w (case m of (a, v) \<Rightarrow> g a v)"
  by (cases m) auto

lemma confined_if: "confined q w R \<Longrightarrow> confined q w R' \<Longrightarrow> confined q w (if c then R else R')"
  by simp

lemma confined_Inl: "onto q fd w w' \<Longrightarrow> confined q w (Some (Inl e, fr, fw, w'))"
  by (simp add: confined_def onto_def)

lemma confined_Inr: "onto q fw w w' \<Longrightarrow> confined q w (Some (Inr x, fr, fw, w'))"
  by (simp add: confined_def onto_def)

context fs_backend_contract
begin

lemma ptf_setup_from_confined:
  assumes "onto target fw w w2"
  shows "confined target w (ptf_setup_from be source target fr fw w2)"
  unfolding ptf_setup_from_def Let_def
  apply (rule confined_bind3 [where fd = fw], erule onto_keeps [OF assms super_keeps], unfold prod.case)
  apply (rule confined_if, erule confined_Inl)
  apply (rule confined_bind)
  apply (rule confined_bind2 [where fd = fw], erule onto_keeps, erule keeps_check_memory, unfold prod.case)
  apply (rule confined_if, erule confined_Inl)
  apply (rule confined_pair [where fd = fw], erule onto_keeps, erule keeps_alloc_bitmap)
  apply (rule confined_if, erule confined_Inl)
  apply (rule confined_bind3 [where fd = fw], erule onto_keeps, erule bitmap_keeps, unfold prod.case)
  apply (rule confined_if, erule confined_Inl)
  apply (rule confined_bind)
  apply (rule confined_if, erule confined_Inl)
  apply (rule confined_pair [where fd = fw], rule onto_touches, assumption, erule touches_write_image_desc, erule onto_path)
  apply (rule confined_if, erule confined_Inl)
  apply (rule confined_bind2 [where fd = fw], rule onto_touches, assumption, erule touches_write_image_bitmap, erule onto_path)
  apply (unfold prod.case, erule confined_Inr)
  done

lemma ptp_setup_from_confined:
  assumes "onto target fw w w2"
  shows "confined target w (ptp_setup_from be source fr fw w2)"
  unfolding ptp_setup_from_def Let_def
  apply (rule confined_bind3 [where fd = fw], erule onto_keeps [OF assms super_keeps], unfold prod.case)
  apply (rule confined_if, erule confined_Inl)
  apply (rule confined_bind)
  apply (rule confined_bind2 [where fd = fw], erule onto_keeps, erule keeps_check_memory, unfold prod.case)
  apply (rule confined_if, erule confined_Inl)
  apply (rule confined_pair [where fd = fw], erule onto_keeps, erule keeps_alloc_bitmap)
  apply (rule confined_if, erule confined_Inl)
  apply (rule confined_bind3 [where fd = fw], erule onto_keeps, erule bitmap_keeps, unfold prod.case)
  apply (rule confined_if, erule confined_Inl, rule confined_if, erule confined_Inl, erule confined_Inr)
  done

lemma ptf_setup_confined: "confined target w (ptf_setup be source target ovr w)"
proof -
  obtain fr w1 where o1: "open_source_device source BACK_PTF w = (fr, w1)" by fastforce
  have n1: "w_nodes w1 = w_nodes w" using o1 by (rule open_source_nodes)
  obtain fw w2 where o2: "open_target_device target BACK_PTF ovr w1 = (fw, w2)" by fastforce
  have n2: "others_same target w w2" using open_target_path(1) [OF o2] n1 by simp
  have x2: "logs w w1" "logs w w2"
    using open_target_path(3) [OF o2] open_source_same [OF o1] by (simp_all add: logs_same)
  show ?thesis
  proof (cases "fr \<le> 0 \<or> fw \<le> 0")
    case True
    then show ?thesis using n1 n2 x2 by (auto simp: ptf_setup_def o1 o2 confined_def)
  next
    case False
    then have b2: "onto target fw w w2" using n2 x2 open_target_path(2) [OF o2] by (simp add: onto_def)
    have run: "ptf_setup be source target ovr w =
        ptf_setup_from be source target fr fw w2" using False by (simp add: ptf_setup_def o1 o2)
    show ?thesis unfolding run using b2 by (rule ptf_setup_from_confined)
  qed
qed

lemma ptp_setup_confined: "confined target w (ptp_setup be source target ovr w)"
proof -
  obtain fr w1 where o1: "open_source_device source BACK_PTP w = (fr, w1)" by fastforce
  have n1: "w_nodes w1 = w_nodes w" using o1 by (rule open_source_nodes)
  obtain fw w2 where o2: "open_target_device target BACK_PTP ovr w1 = (fw, w2)" by fastforce
  have n2: "others_same target w w2" using open_target_path(1) [OF o2] n1 by simp
  have x2: "logs w w1" "logs w w2"
    using open_target_path(3) [OF o2] open_source_same [OF o1] by (simp_all add: logs_same)
  show ?thesis
  proof (cases "fr \<le> 0 \<or> fw \<le> 0")
    case True
    then show ?thesis using n1 n2 x2 by (auto simp: ptp_setup_def o1 o2 confined_def)
  next
    case False
    then have b2: "onto target fw w w2" using n2 x2 open_target_path(2) [OF o2] by (simp add: onto_def)
    have run: "ptp_setup be source target ovr w = ptp_setup_from be source fr fw w2"
      using False by (simp add: ptp_setup_def o1 o2)
    show ?thesis unfolding run using b2 by (rule ptp_setup_from_confined)
  qed
qed

end

lemma touches_read_image_desc: "read_image_desc fd w = (r, w') \<Longrightarrow> touches q w w'"
proof -
  assume rd: "read_image_desc fd w = (r, w')"
  obtain n bs w1 where io: "write_read_io_all fd [] 110 False w = (n, bs, w1)" by (metis prod.exhaust)
  obtain seed w2 where ic: "init_crc32 w1 = (seed, w2)" by fastforce
  have t: "touches q w w1" "touches q w w2"
    using touches_io(2) [OF io] touches_init_crc32 [OF ic] by (auto intro: touches_trans)
  then show ?thesis using rd by (simp add: read_image_desc_def io ic Let_def split: if_split_asm)
qed

lemma touches_load_image_bitmap_bits: "load_image_bitmap_bits fd info bm w = (r, w') \<Longrightarrow> touches q w w'"
proof -
  assume ld: "load_image_bitmap_bits fd info bm w = (r, w')"
  let ?n = "BITS_TO_BYTES (unat (totalblock info))"
  obtain n bs w1 where io: "write_read_io_all fd [] ?n False w = (n, bs, w1)" by (metis prod.exhaust)
  obtain m cb w2 where io2: "write_read_io_all fd [] 4 False w1 = (m, cb, w2)" by (metis prod.exhaust)
  obtain seed w3 where ic: "init_crc32 w2 = (seed, w3)" by fastforce
  have t1: "touches q w w1" using io by (rule touches_io(2))
  have t2: "touches q w w2" using t1 touches_io(2) [OF io2] by (rule touches_trans)
  have t3: "touches q w w3" using t2 touches_init_crc32 [OF ic] by (rule touches_trans)
  show ?thesis
    using ld t1 t2 t3
    by (cases bm) (simp_all add: load_image_bitmap_bits_def io io2 ic Let_def split: if_split_asm)
qed

lemma restore_setup_from_confined:
  assumes "onto target fw w w2"
  shows "confined target w (restore_setup_from fr fw w2)"
proof -
  obtain r w3 where rd: "read_image_desc fr w2 = (r, w3)" by fastforce
  have o3: "onto target fw w w3" using assms touches_read_image_desc [OF rd] by (rule onto_touches)
  show ?thesis
  proof (cases r)
    case None
    then show ?thesis using o3 by (simp add: restore_setup_from_def rd confined_Inl)
  next
    case (Some t)
    obtain h info opt where t: "t = (h, info, opt)" by (cases t)
    show ?thesis
      unfolding restore_setup_from_def rd Some t prod.case option.case Let_def
      apply (rule confined_bind2 [where fd = fw], rule onto_keeps [OF o3], erule keeps_check_memory, unfold prod.case)
      apply (rule confined_if, erule confined_Inl)
      apply (rule confined_pair [where fd = fw], erule onto_keeps, erule keeps_alloc_bitmap)
      apply (rule confined_if, erule confined_Inl)
      apply (rule confined_pair [where fd = fw], rule onto_touches, assumption, erule touches_load_image_bitmap_bits)
      apply (simp only: prod.case_eq_if)
      apply (rule confined_if, erule confined_Inl, rule confined_if, erule confined_Inl, erule confined_Inr)
      done
  qed
qed

lemma restore_setup_confined: "confined target w (restore_setup source target ovr w)"
proof -
  obtain fr w1 where o1: "open_source_device source RESTORE w = (fr, w1)" by fastforce
  have n1: "w_nodes w1 = w_nodes w" using o1 by (rule open_source_nodes)
  obtain fw w2 where o2: "open_target_device target RESTORE ovr w1 = (fw, w2)" by fastforce
  have n2: "others_same target w w2" using open_target_path(1) [OF o2] n1 by simp
  have x2: "logs w w1" "logs w w2"
    using open_target_path(3) [OF o2] open_source_same [OF o1] by (simp_all add: logs_same)
  show ?thesis
  proof (cases "fr \<le> 0 \<or> fw \<le> 0")
    case True
    then show ?thesis using n1 n2 x2 by (auto simp: restore_setup_def o1 o2 confined_def)
  next
    case False
    then have b2: "onto target fw w w2" using n2 x2 open_target_path(2) [OF o2] by (simp add: onto_def)
    have run: "restore_setup source target ovr w = restore_setup_from fr fw w2"
      using False by (simp add: restore_setup_def o1 o2)
    show ?thesis unfolding run using b2 by (rule restore_setup_from_confined)
  qed
qed

section \<open>Whole calls\<close>

text \<open>The final signals of a call (\<^verbatim>\<open>sysbak-finished\<close> is True), and how often the call is answered.\<close>

fun outcomes :: "dbus_event list \<Rightarrow> bool list" where
  "outcomes [] = []"
| "outcomes (Finished t u b # evs) = True # outcomes evs"
| "outcomes (Error m e # evs) = False # outcomes evs"
| "outcomes (ev # evs) = outcomes evs"

fun replies :: "dbus_event list \<Rightarrow> nat" where
  "replies [] = 0"
| "replies (Reply m v # evs) = Suc (replies evs)"
| "replies (ev # evs) = replies evs"

lemma outcomes_append [simp]: "outcomes (xs @ ys) = outcomes xs @ outcomes ys"
  by (induction xs rule: outcomes.induct) simp_all

lemma replies_append [simp]: "replies (xs @ ys) = replies xs + replies ys"
  by (induction xs rule: replies.induct) simp_all

lemma progress_no_outcome: "list_all is_progress evs \<Longrightarrow> outcomes evs = [] \<and> replies evs = 0"
proof (induction evs)
  case (Cons e evs)
  then show ?case by (cases e) simp_all
qed simp

text \<open>
  One final signal, which agrees with the result; one answer, or on failure possibly two.
\<close>

definition call_log :: "world \<Rightarrow> bool \<Rightarrow> world \<Rightarrow> bool" where
  "call_log w ok w' \<longleftrightarrow>
     (\<exists>evs. w_out w' = w_out w @ evs \<and> outcomes evs = [ok] \<and> (ok, replies evs) \<in> {(True, 1), (False, 1), (False, 2)})"

lemma call_logI:
  assumes "logs w w1" and "w_out w2 = w_out w1 @ a" and "logs w2 w3" and "w_out w' = w_out w3 @ b"
    and "outcomes (a @ b) = [ok]" and "(ok, replies (a @ b)) \<in> {(True, 1), (False, 1), (False, 2)}"
  shows "call_log w ok w'"
proof -
  obtain e1 e2 where "w_out w1 = w_out w @ e1" "list_all is_progress e1" "w_out w3 = w_out w2 @ e2" "list_all is_progress e2"
    using assms(1,3) by (auto simp: logs_def)
  then show ?thesis
    using assms(2,4-6) by (auto simp: call_log_def progress_no_outcome intro!: exI [of _ "e1 @ a @ e2 @ b"])
qed

lemma out_emits [simp]:
  "w_out (emit e w) = w_out w @ [e]" "w_out (emit_error c w) = w_out w @ [Error (sysbak_error_message ! c) (int c)]"
  "w_out (emit_finished info w) = w_out w @ [Finished (unat (totalblock info)) (unat (usedblocks info)) (unat (block_size info))]"
  "w_out (sys_fsync fd w) = w_out w"
  by (simp_all add: emit_def emit_error_def emit_finished_def sys_fsync_def split: option.split)

lemma out_errors [simp]:
  "w_out (snd (ptf_error name c fr fw w)) = w_out w @ [Reply name [], Error (sysbak_error_message ! c) (int c)]"
  "w_out (snd (ptp_error name c fr fw w)) = w_out w @ [Reply name [], Error (sysbak_error_message ! c) (int c)]"
  by (simp_all add: ptf_error_def ptp_error_def)

lemma nodes_errors [simp]:
  "w_nodes (snd (ptf_error name c fr fw w)) = w_nodes w" "w_nodes (snd (ptp_error name c fr fw w)) = w_nodes w"
  by (simp_all add: ptf_error_def ptp_error_def)

lemma onto_restart: "onto q fd w w1 \<Longrightarrow> onto q fd (emit e w1) (emit e w1)"
  by (simp add: onto_def)

lemma others_same_trans: "others_same q w w1 \<Longrightarrow> w_nodes w2 = w_nodes w1 \<Longrightarrow> others_same q w2 w3 \<Longrightarrow> others_same q w w3"
  by simp

lemma confined_InlD: "confined q w (Some (Inl e, fr, fw, w')) \<Longrightarrow> others_same q w w' \<and> logs w w'"
  and confined_InrD: "confined q w (Some (Inr x, fr, fw, w')) \<Longrightarrow> onto q fw w w'"
  by (simp_all add: confined_def)

lemma restore_call:
  assumes "gdbus_sysbak_restore source target ovr w = Some (ok, w')"
  shows "others_same target w w' \<and> call_log w ok w'"
proof -
  obtain r fr fw w1 where su: "restore_setup source target ovr w = Some (r, fr, fw, w1)"
    using assms by (auto simp: gdbus_sysbak_restore_def bind_eq_Some_conv)
  note cf = restore_setup_confined [of target w source ovr, unfolded su]
  show ?thesis
  proof (cases r)
    case (Inl e)
    then have "ok = False" "w' = snd (ptp_error ''sysbak_restore'' e fr fw w1)"
      using assms by (simp_all add: gdbus_sysbak_restore_def su ptp_error_def)
    then show ?thesis using confined_InlD [OF cf [unfolded Inl]] call_logI [of w w1 w1 "[]" w1] by simp
  next
    case (Inr x)
    obtain info opt bm where x: "x = (info, opt, bm)" by (cases x)
    let ?w2 = "emit (Reply ''sysbak_restore'' []) w1"
    have b1: "onto target fw w w1" using confined_InrD [OF cf [unfolded Inr]] .
    have b2: "onto target fw ?w2 ?w2" using b1 by (rule onto_restart)
    obtain ok3 w3 where rw: "read_write_data_restore info opt bm fr fw 0 ?w2 = Some (ok3, w3)"
      using assms by (auto simp: gdbus_sysbak_restore_def su Inr x bind_eq_Some_conv)
    have b3: "onto target fw ?w2 w3" using onto_touches [OF b2 touches_restore [OF rw onto_path [OF b2]]] .
    obtain b where w': "w_nodes w' = w_nodes w3" "w_out w' = w_out w3 @ b" "outcomes b = [ok]" "replies b = (if ok then 0 else 1)"
      using assms by (auto simp: gdbus_sysbak_restore_def su Inr x rw ptp_error_def split: if_split_asm)
    have "others_same target w w3" using onto_others [OF b1] _ onto_others [OF b3] by (rule others_same_trans) simp
    moreover have "call_log w ok w'"
      by (rule call_logI [OF onto_logs [OF b1] _ onto_logs [OF b3] w'(2)]) (use w'(3,4) in auto)
    ultimately show ?thesis using w'(1) by simp
  qed
qed

context fs_backend_contract
begin

lemma ptf_call:
  assumes "backup_ptf name early sync final be source target ovr w = Some (ok, w')"
  shows "others_same target w w' \<and> call_log w ok w'"
proof -
  obtain r fr fw w1 where su: "ptf_setup be source target ovr w = Some (r, fr, fw, w1)"
    using assms by (auto simp: backup_ptf_def bind_eq_Some_conv)
  note cf = ptf_setup_confined [of target w source ovr, unfolded su]
  show ?thesis
  proof (cases r)
    case (Inl e)
    then have "ok = False" "w' = snd (ptf_error name e fr fw w1)"
      using assms by (simp_all add: backup_ptf_def su ptf_error_def)
    then show ?thesis using confined_InlD [OF cf [unfolded Inl]] call_logI [of w w1 w1 "[]" w1] by simp
  next
    case (Inr x)
    obtain info opt bm where x: "x = (info, opt, bm)" by (cases x)
    define w2 where "w2 = (if early then emit (Reply name []) w1 else w1)"
    have b1: "onto target fw w w1" using confined_InrD [OF cf [unfolded Inr]] .
    then have b2: "onto target fw w2 w2" by (simp add: w2_def onto_def)
    obtain ok3 w3 where rw: "read_write_data_ptf sync (be_block_size be info w2) info opt bm fr fw 0 w2 = Some (ok3, w3)"
      using assms by (auto simp: backup_ptf_def su Inr x bind_eq_Some_conv Let_def w2_def [symmetric])
    have b3: "onto target fw w2 w3" using onto_touches [OF b2 touches_ptf [OF rw onto_path [OF b2]]] .
    have b4: "onto target fw w2 (if final then sys_fsync fw w3 else w3)"
      using b3 onto_touches [OF b3 touches_fsync [OF onto_path [OF b3]]] by simp
    obtain b where w': "w_nodes w' = w_nodes (if ok3 \<and> final then sys_fsync fw w3 else w3)"
        "w_out w' = w_out w3 @ b" "outcomes b = [ok]" "replies b = (if ok \<and> early then 0 else 1)"
      using assms by (auto simp: backup_ptf_def su Inr x rw ptf_error_def Let_def w2_def [symmetric] split: if_split_asm)
    have n2: "w_nodes w2 = w_nodes w1" by (simp add: w2_def)
    have o3: "others_same target w w3" using onto_others [OF b1] n2 onto_others [OF b3] by (rule others_same_trans)
    have o4: "others_same target w (if final then sys_fsync fw w3 else w3)"
      using onto_others [OF b1] n2 onto_others [OF b4] by (rule others_same_trans)
    have "call_log w ok w'"
      by (rule call_logI [OF onto_logs [OF b1] _ onto_logs [OF b3] w'(2), of "if early then [Reply name []] else []"])
         (use w'(3,4) in \<open>auto simp: w2_def\<close>)
    then show ?thesis using o3 o4 w'(1) by (simp split: if_split_asm)
  qed
qed

lemma ptp_call:
  assumes "backup_ptp name be source target ovr w = Some (ok, w')"
  shows "others_same target w w' \<and> call_log w ok w'"
proof -
  obtain r fr fw w1 where su: "ptp_setup be source target ovr w = Some (r, fr, fw, w1)"
    using assms by (auto simp: backup_ptp_def bind_eq_Some_conv)
  note cf = ptp_setup_confined [of target w source ovr, unfolded su]
  show ?thesis
  proof (cases r)
    case (Inl e)
    then have "ok = False" "w' = snd (ptp_error name e fr fw w1)"
      using assms by (simp_all add: backup_ptp_def su ptp_error_def)
    then show ?thesis using confined_InlD [OF cf [unfolded Inl]] call_logI [of w w1 w1 "[]" w1] by simp
  next
    case (Inr x)
    obtain info bm where x: "x = (info, bm)" by (cases x)
    let ?w2 = "emit (Reply name []) w1"
    have b1: "onto target fw w w1" using confined_InrD [OF cf [unfolded Inr]] .
    have b2: "onto target fw ?w2 ?w2" using b1 by (rule onto_restart)
    obtain ok3 w3 where rw: "read_write_data_ptp (be_block_size be info ?w2) info bm fr fw ?w2 = Some (ok3, w3)"
      using assms by (auto simp: backup_ptp_def su Inr x bind_eq_Some_conv Let_def)
    have b3: "onto target fw ?w2 w3" using onto_touches [OF b2 touches_ptp [OF rw onto_path [OF b2]]] .
    have b4: "onto target fw ?w2 (sys_fsync fw w3)" using onto_touches [OF b3 touches_fsync [OF onto_path [OF b3]]] .
    obtain b where w': "w_nodes w' = w_nodes (if ok3 then sys_fsync fw w3 else w3)"
        "w_out w' = w_out w3 @ b" "outcomes b = [ok]" "replies b = (if ok then 0 else 1)"
      using assms by (auto simp: backup_ptp_def su Inr x rw ptp_error_def Let_def split: if_split_asm)
    have o3: "others_same target w w3" using onto_others [OF b1] _ onto_others [OF b3] by (rule others_same_trans) simp
    have o4: "others_same target w (sys_fsync fw w3)"
      using onto_others [OF b1] _ onto_others [OF b4] by (rule others_same_trans) simp
    have "call_log w ok w'"
      by (rule call_logI [OF onto_logs [OF b1] _ onto_logs [OF b3] w'(2)]) (use w'(3,4) in auto)
    then show ?thesis using o3 o4 w'(1) by (simp split: if_split_asm)
  qed
qed

end

section \<open>Refusals\<close>

text \<open>A regular file that does not start with the magic of an image is never opened for writing.\<close>

lemma check_file_type_foreign:
  assumes "w_nodes w t = Some nd" and "i_kind nd = REG" and "i_bytes nd \<noteq> []" and "take 15 (i_bytes nd) \<noteq> IMAGE_MAGIC"
  shows "\<not> fst (check_file_type t w)"
proof -
  obtain fd w1 where op: "sys_open t rdonly w = (fd, w1)" by fastforce
  obtain r w2 where rd: "sys_read fd 110 w1 = (r, w2)" by fastforce
  show ?thesis
  proof (cases "fd \<le> 0")
    case True
    then show ?thesis using assms(1-3) by (simp add: check_file_type_def sys_stat_def node_stat_def op)
  next
    case False
    then have on: "fd_on w1 fd t 0 False nd" using keeps_open_rdonly(2) [OF op] assms(1) by auto
    have "take 15 d = take 15 (i_bytes nd)" if "r = Inr d" "length d = 110" for d
    proof -
      have "\<exists>k. d = take k (i_bytes nd)"
        using rd on that(1) by (auto simp: sys_read_def fd_on_def Let_def split: if_splits sum.splits prod.splits)
      then obtain k where k: "d = take k (i_bytes nd)" by blast
      then have "110 \<le> k" using that(2) by auto
      then show ?thesis using k by (simp add: min_def)
    qed
    then show ?thesis
      using False assms by (auto simp: check_file_type_def sys_stat_def node_stat_def op rd split: sum.splits)
  qed
qed

text \<open>Opening the target refuses, and leaves all files as they are.\<close>

definition refused :: "string \<Rightarrow> int \<Rightarrow> bool \<Rightarrow> world \<Rightarrow> bool" where
  "refused target mode ovr w \<longleftrightarrow>
     fst (open_target_device target mode ovr w) \<le> 0 \<and> w_nodes (snd (open_target_device target mode ovr w)) = w_nodes w"

lemma refused_foreign:
  assumes "w_nodes w t = Some nd" and "i_kind nd = REG" and "i_bytes nd \<noteq> []" and "take 15 (i_bytes nd) \<noteq> IMAGE_MAGIC"
  shows "refused t mode ovr w"
proof -
  obtain ok w1 where c: "check_file_type t w = (ok, w1)" by fastforce
  moreover have "\<not> ok" using check_file_type_foreign [OF assms] c by simp
  ultimately show ?thesis using check_file_type_same [OF c, THEN conjunct1] by (simp add: refused_def open_target_device_def)
qed

lemma refused_existing:
  assumes "w_nodes w t = Some nd" and "mode = BACK_PTF \<or> (mode = BACK_PTP \<or> mode = RESTORE) \<and> i_kind nd \<noteq> BLK"
  shows "refused t mode False w"
proof -
  obtain ok w1 where c: "check_file_type t w = (ok, w1)" by fastforce
  have n: "w_nodes w1 = w_nodes w" using check_file_type_same [OF c] by simp
  have m: "BACK_PTF \<noteq> BACK_DD" "BACK_PTP \<noteq> BACK_DD" "RESTORE \<noteq> BACK_DD" "BACK_PTP \<noteq> BACK_PTF" "RESTORE \<noteq> BACK_PTF"
    by (simp_all add: BACK_PTF_def BACK_PTP_def BACK_DD_def RESTORE_def)
  have "stat_isblk t w1 \<longleftrightarrow> i_kind nd = BLK" using assms(1) n by (simp add: stat_isblk_def sys_stat_def node_stat_def)
  then show ?thesis
    using assms n m by (auto simp: refused_def open_target_device_def c sys_open_def)
qed

lemma setups_refused:
  assumes "\<forall>v mode. w_nodes v = w_nodes w \<and> mode \<in> M \<longrightarrow> refused target mode ovr v"
  shows "BACK_PTF \<in> M \<Longrightarrow> \<exists>c fr fw w'. ptf_setup be source target ovr w = Some (Inl c, fr, fw, w') \<and> w_nodes w' = w_nodes w"
    and "BACK_PTP \<in> M \<Longrightarrow> \<exists>c fr fw w'. ptp_setup be source target ovr w = Some (Inl c, fr, fw, w') \<and> w_nodes w' = w_nodes w"
    and "RESTORE \<in> M \<Longrightarrow> \<exists>c fr fw w'. restore_setup source target ovr w = Some (Inl c, fr, fw, w') \<and> w_nodes w' = w_nodes w"
proof -
  have run: "\<exists>fr w1 fw w2. open_source_device source mode w = (fr, w1) \<and> w_nodes w1 = w_nodes w \<and>
      open_target_device target mode ovr w1 = (fw, w2) \<and> fw \<le> 0 \<and> w_nodes w2 = w_nodes w" if "mode \<in> M" for mode
  proof -
    obtain fr w1 where o1: "open_source_device source mode w = (fr, w1)" by fastforce
    have n1: "w_nodes w1 = w_nodes w" using o1 by (rule open_source_nodes)
    obtain fw w2 where o2: "open_target_device target mode ovr w1 = (fw, w2)" by fastforce
    have "refused target mode ovr w1" using assms n1 that by blast
    then show ?thesis using o1 n1 o2 by (auto simp: refused_def)
  qed
  show "BACK_PTF \<in> M \<Longrightarrow> \<exists>c fr fw w'. ptf_setup be source target ovr w = Some (Inl c, fr, fw, w') \<and> w_nodes w' = w_nodes w"
    using run [of BACK_PTF] by (auto simp: ptf_setup_def)
  show "BACK_PTP \<in> M \<Longrightarrow> \<exists>c fr fw w'. ptp_setup be source target ovr w = Some (Inl c, fr, fw, w') \<and> w_nodes w' = w_nodes w"
    using run [of BACK_PTP] by (auto simp: ptp_setup_def)
  show "RESTORE \<in> M \<Longrightarrow> \<exists>c fr fw w'. restore_setup source target ovr w = Some (Inl c, fr, fw, w') \<and> w_nodes w' = w_nodes w"
    using run [of RESTORE] by (auto simp: restore_setup_def)
qed

lemma handlers_refused:
  assumes "\<forall>v mode. w_nodes v = w_nodes w \<and> mode \<in> M \<longrightarrow> refused target mode ovr v"
  shows "BACK_PTF \<in> M \<Longrightarrow> \<exists>w'. backup_ptf name early sync final be source target ovr w = Some (False, w') \<and> w_nodes w' = w_nodes w"
    and "BACK_PTP \<in> M \<Longrightarrow> \<exists>w'. backup_ptp name be source target ovr w = Some (False, w') \<and> w_nodes w' = w_nodes w"
    and "RESTORE \<in> M \<Longrightarrow> \<exists>w'. gdbus_sysbak_restore source target ovr w = Some (False, w') \<and> w_nodes w' = w_nodes w"
proof -
  note s = setups_refused [where w = w and M = M and target = target and ovr = ovr, OF assms]
  show "BACK_PTF \<in> M \<Longrightarrow> \<exists>w'. backup_ptf name early sync final be source target ovr w = Some (False, w') \<and> w_nodes w' = w_nodes w"
  proof -
    assume "BACK_PTF \<in> M"
    from s(1) [OF this] obtain c fr fw w' where "ptf_setup be source target ovr w = Some (Inl c, fr, fw, w')" "w_nodes w' = w_nodes w" by blast
    then show "\<exists>w'. backup_ptf name early sync final be source target ovr w = Some (False, w') \<and> w_nodes w' = w_nodes w" by (simp add: backup_ptf_def ptf_error_def)
  qed
  show "BACK_PTP \<in> M \<Longrightarrow> \<exists>w'. backup_ptp name be source target ovr w = Some (False, w') \<and> w_nodes w' = w_nodes w"
  proof -
    assume "BACK_PTP \<in> M"
    from s(2) [OF this] obtain c fr fw w' where "ptp_setup be source target ovr w = Some (Inl c, fr, fw, w')" "w_nodes w' = w_nodes w" by blast
    then show "\<exists>w'. backup_ptp name be source target ovr w = Some (False, w') \<and> w_nodes w' = w_nodes w" by (simp add: backup_ptp_def ptp_error_def)
  qed
  show "RESTORE \<in> M \<Longrightarrow> \<exists>w'. gdbus_sysbak_restore source target ovr w = Some (False, w') \<and> w_nodes w' = w_nodes w"
  proof -
    assume "RESTORE \<in> M"
    from s(3) [OF this] obtain c fr fw w' where "restore_setup source target ovr w = Some (Inl c, fr, fw, w')" "w_nodes w' = w_nodes w" by blast
    then show "\<exists>w'. gdbus_sysbak_restore source target ovr w = Some (False, w') \<and> w_nodes w' = w_nodes w" by (simp add: gdbus_sysbak_restore_def ptp_error_def)
  qed
qed

lemma read_image_desc_out:
  assumes "fd_on w fd p pos False nd" and "read_image_desc fd w = (r, w')"
  shows "w_out w' = w_out w"
proof -
  obtain n bs w1 where io: "write_read_io_all fd [] 110 False w = (n, bs, w1)" by (metis prod.exhaust)
  obtain seed w2 where ic: "init_crc32 w1 = (seed, w2)" by fastforce
  have "w_out w1 = w_out w"
    by (cases rule: io_all_read [OF assms(1), of 110 "[]", case_names lim full partly]) (use io in auto)
  moreover have "w_out w2 = w_out w1" using ic by (auto simp: init_crc32_def split: if_splits)
  ultimately show ?thesis
    using assms(2) by (simp add: read_image_desc_def io ic Let_def split: if_split_asm)
qed

section \<open>Properties\<close>


definition idle_backend :: fs_backend where
  "idle_backend = \<lparr>be_super = (\<lambda>d i w. None), be_bitmap = (\<lambda>d i b w. None), be_block_size = (\<lambda>i w. 0)\<rparr>"






end
