(* ===== verification/Extfs.thy ===== *)
theory Extfs
  imports Completion Confinement
begin

text \<open>
  \<^verbatim>\<open>src/src/gdbus-extfs.c\<close>: the parts of the ext2/3/4 support that are its own. libext2fs is a
  parameter: the record \<open>libext2fs\<close> holds what \<^verbatim>\<open>ext2fs_open\<close>, \<^verbatim>\<open>ext2fs_get_block_bitmap_range2\<close> and
  \<^verbatim>\<open>ext2fs_test_bit\<close> return, and \<open>ext2_filsys\<close> the fields and accessor results that the code reads.
  The build is one with \<^verbatim>\<open>EXT2_FLAG_64BITS\<close>.
\<close>

section \<open>Definitions\<close>

record ext2_filsys =
  s_state :: u16
  s_max_mnt_count :: u16
  s_mnt_count :: u16
  s_first_data_block :: u32
  s_blocks_per_group :: u32
  s_feature_ro_compat :: u32
  ext2_block_size :: u32
  blocks_count :: u64
  free_blocks_count :: u64
  group_desc_count :: u32
  fs_valid :: bool
  bitmaps_error :: bool
  has_block_map :: bool
  bg_flags :: "nat \<Rightarrow> u32"
  bg_free_blocks_count :: "nat \<Rightarrow> u32"

record libext2fs =
  ext2fs_open :: "string \<Rightarrow> world \<Rightarrow> ext2_filsys option"
  get_block_bitmap_range :: "ext2_filsys \<Rightarrow> nat \<Rightarrow> nat \<Rightarrow> byte list"
  ext2fs_test_bit :: "nat \<Rightarrow> byte list \<Rightarrow> bool"

text \<open>
  \<^verbatim>\<open>EXT2_VALID_FS\<close> is 1 and \<^verbatim>\<open>EXT2_ERROR_FS\<close> 2; \<^verbatim>\<open>s_max_mnt_count\<close> is signed. \<open>fs_valid\<close> is what
  \<^verbatim>\<open>ext2fs_test_valid\<close> says after \<^verbatim>\<open>ext2fs_mark_valid\<close>.
\<close>

definition open_file_system :: "libext2fs \<Rightarrow> string \<Rightarrow> world \<Rightarrow> ext2_filsys option" where
  "open_file_system lib device w =
     (case ext2fs_open lib device w of
        None \<Rightarrow> None
      | Some f \<Rightarrow>
          if s_state f AND 2 \<noteq> 0 \<or> \<not> fs_valid f then None
          else if s_state f AND 1 = 0 then None
          else if sint (s_max_mnt_count f) > 0 \<and> uint (s_mnt_count f) \<ge> sint (s_max_mnt_count f) then None
          else Some f)"

text \<open>
  The loop over the blocks of one group, from block \<open>block\<close> on, \<open>n\<close> of them left. The results are
  whether it went through (a failing \<^verbatim>\<open>pc_set_bit\<close> or \<^verbatim>\<open>pc_clear_bit\<close> returns \<^verbatim>\<open>FALSE\<close>),
  \<^verbatim>\<open>current_block\<close>, \<^verbatim>\<open>gfree\<close> and the bitmap.
\<close>

primrec ext_block_loop ::
    "libext2fs \<Rightarrow> byte list \<Rightarrow> nat \<Rightarrow> nat \<Rightarrow> nat \<Rightarrow> nat \<Rightarrow> nat \<Rightarrow> nat \<Rightarrow> bitmap
     \<Rightarrow> bool \<times> nat \<times> nat \<times> bitmap" where
  "ext_block_loop lib block_bitmap tot blk_itr 0 block current_block gfree bitmap =
     (True, current_block, gfree, bitmap)"
| "ext_block_loop lib block_bitmap tot blk_itr (Suc n) block current_block gfree bitmap =
     (if current_block < (tot + 2 ^ 64 - 1) mod 2 ^ 64
      then (let current_block = block + blk_itr
            in if ext2fs_test_bit lib block block_bitmap
               then (let (ok, bitmap) = pc_set_bit current_block bitmap tot
                     in if \<not> ok then (False, current_block, gfree, bitmap)
                        else ext_block_loop lib block_bitmap tot blk_itr n (block + 1) current_block gfree bitmap)
               else (let (ok, bitmap) = pc_clear_bit current_block bitmap tot
                     in if \<not> ok then (False, current_block, gfree, bitmap)
                        else ext_block_loop lib block_bitmap tot blk_itr n (block + 1) current_block (gfree + 1) bitmap))
      else (True, current_block, gfree, bitmap))"

text \<open>
  The loop over the groups, \<open>n\<close> of them left. \<open>mapped\<close> says whether \<^verbatim>\<open>block_bitmap\<close> was allocated.
  \<^verbatim>\<open>EXT4_FEATURE_RO_COMPAT_GDT_CSUM\<close> is 16 and \<^verbatim>\<open>EXT2_BG_BLOCK_UNINIT\<close> 2.
\<close>

primrec ext_group_loop ::
    "libext2fs \<Rightarrow> ext2_filsys \<Rightarrow> bool \<Rightarrow> nat \<Rightarrow> nat \<Rightarrow> nat \<Rightarrow> nat \<Rightarrow> nat \<Rightarrow> nat \<Rightarrow> bitmap
     \<Rightarrow> bool \<times> nat \<times> bitmap" where
  "ext_group_loop lib f mapped tot 0 grp blk_itr current_block lfree bitmap = (True, lfree, bitmap)"
| "ext_group_loop lib f mapped tot (Suc n) grp blk_itr current_block lfree bitmap =
     (let bpg = unat (s_blocks_per_group f);
          block_nbytes = bpg div 8;
          uninit = (mapped \<and> s_feature_ro_compat f AND 16 \<noteq> 0 \<and> bg_flags f grp AND 2 \<noteq> 0);
          (ok, current_block, gfree, bitmap) =
            (if mapped
             then ext_block_loop lib (get_block_bitmap_range lib f blk_itr (8 * block_nbytes)) tot blk_itr bpg 0
                    current_block 0 bitmap
             else (True, current_block, 0, bitmap));
          blk_itr = (if mapped then blk_itr + bpg else blk_itr)
      in if \<not> ok then (False, lfree, bitmap)
         else if gfree \<noteq> unat (bg_free_blocks_count f grp) \<and> \<not> uninit then (False, lfree, bitmap)
         else ext_group_loop lib f mapped tot n (grp + 1) blk_itr current_block (lfree + gfree) bitmap)"

definition ext_read_bitmap_info ::
    "libext2fs \<Rightarrow> string \<Rightarrow> file_system_info \<Rightarrow> bitmap \<Rightarrow> world \<Rightarrow> (bool \<times> bitmap \<times> world) option" where
  "ext_read_bitmap_info lib device info bitmap w =
     (case open_file_system lib device w of
        None \<Rightarrow> Some (False, bitmap, w)
      | Some f \<Rightarrow>
          if bitmaps_error f then Some (False, bitmap, w)
          else do {
            let (block_bitmap, w) = (if has_block_map f then sys_malloc w else (False, w));
            bitmap \<leftarrow> pc_init_bitmap bitmap 0xFF (unat (totalblock info));
            let (ok, lfree, bitmap) =
              ext_group_loop lib f block_bitmap (unat (totalblock info)) (unat (group_desc_count f)) 0
                (unat (s_first_data_block f)) 0 0 bitmap;
            if \<not> ok then Some (False, bitmap, w)
            else if lfree \<noteq> unat (free_blocks_count f) then Some (False, bitmap, w)
            else Some (True, bitmap, w)
          })"

definition extfs_MAGIC :: "byte list" where "extfs_MAGIC = cstr ''EXTFS''"

definition ext_read_super_blocks ::
    "libext2fs \<Rightarrow> string \<Rightarrow> file_system_info \<Rightarrow> world \<Rightarrow> (bool \<times> file_system_info \<times> world) option" where
  "ext_read_super_blocks lib device info w =
     (let info = info\<lparr>fs := strncpy (fs info) extfs_MAGIC 15\<rparr>
      in case open_file_system lib device w of
           None \<Rightarrow> Some (False, info, w)
         | Some f \<Rightarrow>
             Some (True, info\<lparr>block_size := ext2_block_size f, totalblock := blocks_count f,
                             usedblocks := blocks_count f - free_blocks_count f,
                             device_size := ucast (ext2_block_size f) * blocks_count f\<rparr>, w))"

definition extfs_backend :: "libext2fs \<Rightarrow> fs_backend" where
  "extfs_backend lib =
     \<lparr>be_super = ext_read_super_blocks lib, be_bitmap = ext_read_bitmap_info lib,
      be_block_size = (\<lambda>info w. unat (block_size info))\<rparr>"

definition gdbus_sysbak_extfs_ptf ::
    "libext2fs \<Rightarrow> string \<Rightarrow> string \<Rightarrow> bool \<Rightarrow> world \<Rightarrow> (bool \<times> world) option" where
  "gdbus_sysbak_extfs_ptf lib = backup_ptf ''sysbak_extfs_ptf'' True True False (extfs_backend lib)"

definition gdbus_sysbak_extfs_ptp ::
    "libext2fs \<Rightarrow> string \<Rightarrow> string \<Rightarrow> bool \<Rightarrow> world \<Rightarrow> (bool \<times> world) option" where
  "gdbus_sysbak_extfs_ptp lib = backup_ptp ''sysbak_extfs_ptp'' (extfs_backend lib)"

text \<open>The method call gets no reply when the file system cannot be opened.\<close>

definition gdbus_get_extfs_device_info :: "libext2fs \<Rightarrow> string \<Rightarrow> world \<Rightarrow> bool \<times> world" where
  "gdbus_get_extfs_device_info lib device w =
     (case open_file_system lib device w of
        None \<Rightarrow> (False, w)
      | Some f \<Rightarrow>
          (True, emit (Reply ''get_extfs_device_info''
             [DNat (unat (blocks_count f)), DNat (unat (blocks_count f - free_blocks_count f)),
              DNat (unat (ext2_block_size f))]) w))"

section \<open>The contract of the handlers\<close>

lemma set_bit_wf: "pc_set_bit i bm tot = (ok, bm') \<Longrightarrow> bm_wf n bm \<Longrightarrow> bm_wf n bm'"
  using bm_wf_bit(1) by (metis snd_conv)

lemma clear_bit_wf: "pc_clear_bit i bm tot = (ok, bm') \<Longrightarrow> bm_wf n bm \<Longrightarrow> bm_wf n bm'"
  using bm_wf_bit(2) by (metis snd_conv)

lemma ext_block_loop_wf:
  "ext_block_loop lib m tot bi n b cb g bm = (ok, cb', g', bm') \<Longrightarrow> bm_wf k bm \<Longrightarrow> bm_wf k bm'"
proof (induction n arbitrary: b cb g bm)
  case (Suc n)
  from Suc.prems show ?case
    by (auto simp: Let_def split: if_splits prod.splits dest: set_bit_wf clear_bit_wf intro: Suc.IH)
qed simp

lemma ext_group_loop_wf:
  "ext_group_loop lib f mapped tot n grp bi cb lf bm = (ok, lf', bm') \<Longrightarrow> bm_wf k bm \<Longrightarrow> bm_wf k bm'"
proof (induction n arbitrary: grp bi cb lf bm)
  case (Suc n)
  from Suc.prems show ?case
    by (auto simp: Let_def split: if_splits prod.splits dest: ext_block_loop_wf intro: Suc.IH)
qed simp

lemma ext_read_bitmap_info_step:
  assumes "ext_read_bitmap_info lib dev info bm w = Some (ok, bm', w')"
  shows "keeps w w'" and "bm_wf n bm \<Longrightarrow> bm_wf n bm'"
proof -
  have "keeps w w' \<and> (bm_wf n bm \<longrightarrow> bm_wf n bm')"
  proof (cases "open_file_system lib dev w")
    case None
    then show ?thesis using assms by (simp add: ext_read_bitmap_info_def)
  next
    case (Some f)
    obtain mapped w1 where m: "(if has_block_map f then sys_malloc w else (False, w)) = (mapped, w1)" by fastforce
    have k: "keeps w w1" using m by (auto split: if_splits dest: keeps_malloc)
    obtain bm1 where i: "bitmaps_error f \<or> pc_init_bitmap bm 0xFF (unat (totalblock info)) = Some bm1"
      using assms Some m by (cases "bitmaps_error f") (simp_all add: ext_read_bitmap_info_def bind_eq_Some_conv, blast)
    obtain okg lf bm2 where g: "ext_group_loop lib f mapped (unat (totalblock info)) (unat (group_desc_count f)) 0
        (unat (s_first_data_block f)) 0 0 bm1 = (okg, lf, bm2)" by (metis prod.exhaust)
    show ?thesis
      using assms Some m k i g ext_group_loop_wf [OF g] bm_wf_init_any
      by (cases "bitmaps_error f") (simp_all add: ext_read_bitmap_info_def, auto split: if_splits)
  qed
  then show "keeps w w'" and "bm_wf n bm \<Longrightarrow> bm_wf n bm'" by blast+
qed

text \<open>The ext2/3/4 back end keeps the contract for every libext2fs.\<close>

interpretation ext: fs_backend_contract "extfs_backend lib" for lib
proof (unfold_locales, goal_cases)
  case (1 dev info w ok info' w')
  then show ?case by (auto simp: extfs_backend_def ext_read_super_blocks_def Let_def split: option.splits)
next
  case (2 dev info w ok info' w')
  then show ?case
    by (auto simp: extfs_backend_def ext_read_super_blocks_def fs_info_wf_def Let_def split: option.splits)
next
  case (3 dev info bm w ok bm' w')
  then show ?case using ext_read_bitmap_info_step(1) by (simp add: extfs_backend_def)
next
  case (4 dev info bm w ok bm' w' n)
  then show ?case using ext_read_bitmap_info_step(2) by (simp add: extfs_backend_def)
next
  case (5 info e w)
  then show ?case by (simp add: extfs_backend_def)
qed

section \<open>The bitmap is exact\<close>

text \<open>
  What libext2fs says of block \<open>b\<close> of group \<open>grp\<close>, of a block of the file system, and how many blocks
  of a group are free; the last group may be cut off by the end of the file system.
\<close>

definition ext_group_used :: "libext2fs \<Rightarrow> ext2_filsys \<Rightarrow> nat \<Rightarrow> nat \<Rightarrow> bool" where
  "ext_group_used lib f grp b =
     (let bpg = unat (s_blocks_per_group f)
      in ext2fs_test_bit lib b
           (get_block_bitmap_range lib f (unat (s_first_data_block f) + grp * bpg) (8 * (bpg div 8))))"

definition ext_in_use :: "libext2fs \<Rightarrow> ext2_filsys \<Rightarrow> nat \<Rightarrow> bool" where
  "ext_in_use lib f i =
     (let first = unat (s_first_data_block f); bpg = unat (s_blocks_per_group f)
      in i < first \<or> ext_group_used lib f ((i - first) div bpg) ((i - first) mod bpg))"

definition ext_group_free :: "libext2fs \<Rightarrow> ext2_filsys \<Rightarrow> nat \<Rightarrow> nat \<Rightarrow> nat" where
  "ext_group_free lib f tot grp =
     (let bpg = unat (s_blocks_per_group f); base = unat (s_first_data_block f) + grp * bpg
      in length (filter (\<lambda>b. \<not> ext_group_used lib f grp b) [0..<min bpg (tot - base)]))"

definition ext_group_consistent :: "libext2fs \<Rightarrow> ext2_filsys \<Rightarrow> nat \<Rightarrow> nat \<Rightarrow> bool" where
  "ext_group_consistent lib f tot grp \<longleftrightarrow>
     ext_group_free lib f tot grp = unat (bg_free_blocks_count f grp) \<or>
     s_feature_ro_compat f AND 16 \<noteq> 0 \<and> bg_flags f grp AND 2 \<noteq> 0"

lemma minus_one_mod: "0 < tot \<Longrightarrow> tot < 2 ^ 64 \<Longrightarrow> (tot + 2 ^ 64 - 1) mod 2 ^ 64 = tot - (1 :: nat)"
proof -
  assume h: "0 < tot" "tot < 2 ^ 64"
  then have "tot + 2 ^ 64 - 1 = (tot - 1) + 2 ^ 64" by simp
  then have "(tot + 2 ^ 64 - 1) mod 2 ^ 64 = (tot - 1) mod 2 ^ 64" by (metis mod_add_self2)
  then show ?thesis using h by simp
qed

lemma filter_upt_Suc: "b < e \<Longrightarrow> filter P [b..<e] = (if P b then [b] else []) @ filter P [Suc b..<e]"
  by (simp add: upt_conv_Cons)

lemma ext_block_loop_exact:
  assumes "0 < tot" "tot < 2 ^ 64" and "bm_wf tot bm" and "cb < tot - 1 \<longleftrightarrow> bi + b < tot"
  shows "\<exists>cb' bm'. ext_block_loop lib m tot bi n b cb g bm =
      (True, cb', g + length (filter (\<lambda>k. \<not> ext2fs_test_bit lib k m) [b..<min (b + n) (tot - bi)]), bm') \<and>
    bm_wf tot bm' \<and> (cb' < tot - 1 \<longleftrightarrow> bi + b + n < tot) \<and>
    (\<forall>j < tot. bm_mem bm' j =
       (if bi + b \<le> j \<and> j < bi + b + n then ext2fs_test_bit lib (j - bi) m else bm_mem bm j))"
  using assms(3,4)
proof (induction n arbitrary: b cb g bm)
  case 0
  then show ?case by auto
next
  case (Suc n)
  show ?case
  proof (cases "bi + b < tot")
    case False
    then have "ext_block_loop lib m tot bi (Suc n) b cb g bm = (True, cb, g, bm)"
      using Suc.prems(2) by (simp only: ext_block_loop.simps minus_one_mod [OF assms(1,2)]) simp
    then show ?thesis using False Suc.prems by auto
  next
    case True
    let ?used = "ext2fs_test_bit lib b m"
    define bm1 where "bm1 = snd (if ?used then pc_set_bit (b + bi) bm tot else pc_clear_bit (b + bi) bm tot)"
    have ok: "(if ?used then pc_set_bit (b + bi) bm tot else pc_clear_bit (b + bi) bm tot) = (True, bm1)"
      using pc.put_in [OF Suc.prems(1)] pc.clear_in [OF Suc.prems(1)] True
      by (cases ?used) (auto simp: bm1_def prod_eq_iff add.commute)
    have wf1: "bm_wf tot bm1" using Suc.prems(1) by (auto simp: bm1_def)
    have mem1: "bm_mem bm1 j = (if j = bi + b then ?used else bm_mem bm j)" for j
      using pc.put_mem [OF Suc.prems(1)] pc.clear_mem [OF Suc.prems(1)] True
      by (auto simp: bm1_def add.commute)
    have next_cb: "b + bi < tot - 1 \<longleftrightarrow> bi + (b + 1) < tot" using assms(1) by auto
    let ?g = "if ?used then g else g + 1"
    from Suc.IH [OF wf1 next_cb, of ?g] obtain cb' bm' where
        run: "ext_block_loop lib m tot bi n (b + 1) (b + bi) ?g bm1 =
          (True, cb', ?g + length (filter (\<lambda>k. \<not> ext2fs_test_bit lib k m) [b + 1..<min (b + 1 + n) (tot - bi)]), bm')"
      and wf': "bm_wf tot bm'" and cb': "cb' < tot - 1 \<longleftrightarrow> bi + (b + 1) + n < tot"
      and mem': "\<forall>j < tot. bm_mem bm' j =
         (if bi + (b + 1) \<le> j \<and> j < bi + (b + 1) + n then ext2fs_test_bit lib (j - bi) m else bm_mem bm1 j)"
      by blast
    have "ext_block_loop lib m tot bi (Suc n) b cb g bm = ext_block_loop lib m tot bi n (b + 1) (b + bi) ?g bm1"
      using ok Suc.prems(2) True
      by (simp only: ext_block_loop.simps minus_one_mod [OF assms(1,2)]) (cases ?used, simp_all add: Let_def)
    moreover have "?g + length (filter (\<lambda>k. \<not> ext2fs_test_bit lib k m) [b + 1..<min (b + 1 + n) (tot - bi)]) =
        g + length (filter (\<lambda>k. \<not> ext2fs_test_bit lib k m) [b..<min (b + Suc n) (tot - bi)])"
      using True by (subst filter_upt_Suc [of b]) auto
    ultimately have "ext_block_loop lib m tot bi (Suc n) b cb g bm =
        (True, cb', g + length (filter (\<lambda>k. \<not> ext2fs_test_bit lib k m) [b..<min (b + Suc n) (tot - bi)]), bm')"
      using run by simp
    moreover have "\<forall>j < tot. bm_mem bm' j =
       (if bi + b \<le> j \<and> j < bi + b + Suc n then ext2fs_test_bit lib (j - bi) m else bm_mem bm j)"
      using mem' mem1 by (auto simp: not_le less_Suc_eq_le le_less_Suc_eq)
    ultimately show ?thesis using wf' cb' by (auto simp: add.assoc)
  qed
qed

lemma ext_in_use_group:
  assumes "first = unat (s_first_data_block f)" and "bpg = unat (s_blocks_per_group f)"
    and "first + grp * bpg \<le> j" and "j < first + grp * bpg + bpg"
  shows "ext_in_use lib f j = ext_group_used lib f grp (j - (first + grp * bpg))"
proof -
  have j: "j - first = grp * bpg + (j - (first + grp * bpg))" and small: "j - (first + grp * bpg) < bpg"
    using assms(3,4) by auto
  then have "(j - first) div bpg = grp" "(j - first) mod bpg = j - (first + grp * bpg)"
    by (subst j, simp)+
  moreover have "\<not> j < first" using assms(3) by simp
  ultimately show ?thesis by (simp add: ext_in_use_def Let_def assms(1,2) [symmetric])
qed

lemma ext_group_loop_exact:
  assumes t: "0 < tot" "tot < 2 ^ 64" and first: "first = unat (s_first_data_block f)" and bpg: "bpg = unat (s_blocks_per_group f)"
    and "bm_wf tot bm" and "bi = first + grp * bpg" and "cb < tot - 1 \<longleftrightarrow> bi < tot"
  shows "\<exists>ok lf' bm'. ext_group_loop lib f True tot n grp bi cb lf bm = (ok, lf', bm') \<and>
    (ok \<longleftrightarrow> (\<forall>g \<in> set [grp..<grp + n]. ext_group_consistent lib f tot g)) \<and>
    (ok \<longrightarrow> lf' = lf + sum_list (map (ext_group_free lib f tot) [grp..<grp + n]) \<and>
       (\<forall>j < tot. bm_mem bm' j = (if bi \<le> j \<and> j < bi + n * bpg then ext_in_use lib f j else bm_mem bm j)))"
  using assms(5-)
proof (induction n arbitrary: grp bi cb lf bm)
  case 0
  show ?case by (rule exI [of _ True], rule exI [of _ lf], rule exI [of _ bm]) auto
next
  case (Suc n)
  let ?m = "get_block_bitmap_range lib f bi (8 * (bpg div 8))"
  have cond: "cb < tot - 1 \<longleftrightarrow> bi + 0 < tot" using Suc.prems(3) by simp
  obtain cb' bm1 where run: "ext_block_loop lib ?m tot bi bpg 0 cb 0 bm =
      (True, cb', 0 + length (filter (\<lambda>k. \<not> ext2fs_test_bit lib k ?m) [0..<min (0 + bpg) (tot - bi)]), bm1)"
    and wf1: "bm_wf tot bm1" and cb': "cb' < tot - 1 \<longleftrightarrow> bi + 0 + bpg < tot"
    and mem1: "\<forall>j < tot. bm_mem bm1 j =
       (if bi + 0 \<le> j \<and> j < bi + 0 + bpg then ext2fs_test_bit lib (j - bi) ?m else bm_mem bm j)"
    using ext_block_loop_exact [OF t Suc.prems(1) cond, where lib = lib and m = ?m and n = bpg and g = 0] by blast
  have test: "ext2fs_test_bit lib k ?m = ext_group_used lib f grp k" for k
    by (simp add: ext_group_used_def Suc.prems(2) first bpg Let_def)
  have mem1': "\<forall>j < tot. bm_mem bm1 j =
       (if bi \<le> j \<and> j < bi + bpg then ext_group_used lib f grp (j - bi) else bm_mem bm j)"
    using mem1 by (simp only: test add_0_right)
  have free: "length (filter (\<lambda>k. \<not> ext2fs_test_bit lib k ?m) [0..<min (0 + bpg) (tot - bi)]) = ext_group_free lib f tot grp"
    by (simp add: ext_group_free_def ext_group_used_def Suc.prems(2) first bpg Let_def)
  have step: "ext_group_loop lib f True tot (Suc n) grp bi cb lf bm =
      (if \<not> ext_group_consistent lib f tot grp then (False, lf, bm1)
       else ext_group_loop lib f True tot n (grp + 1) (bi + bpg) cb' (lf + ext_group_free lib f tot grp) bm1)"
    by (simp only: ext_group_loop.simps Let_def bpg [symmetric] if_True run free prod.case)
       (simp add: ext_group_consistent_def)
  have upt: "[grp..<grp + Suc n] = grp # [grp + 1..<grp + 1 + n]" by (simp add: upt_conv_Cons)
  show ?case
  proof (cases "ext_group_consistent lib f tot grp")
    case False
    then show ?thesis unfolding step upt by auto
  next
    case True
    have next_bi: "bi + bpg = first + (grp + 1) * bpg" and next_cb: "cb' < tot - 1 \<longleftrightarrow> bi + bpg < tot"
      using Suc.prems(2) cb' by simp_all
    from Suc.IH [OF wf1 next_bi next_cb, of "lf + ext_group_free lib f tot grp"] obtain ok lf' bm' where
        IH: "ext_group_loop lib f True tot n (grp + 1) (bi + bpg) cb' (lf + ext_group_free lib f tot grp) bm1 = (ok, lf', bm')"
        "ok \<longleftrightarrow> (\<forall>g \<in> set [grp + 1..<grp + 1 + n]. ext_group_consistent lib f tot g)"
        "ok \<longrightarrow> lf' = lf + ext_group_free lib f tot grp + sum_list (map (ext_group_free lib f tot) [grp + 1..<grp + 1 + n]) \<and>
         (\<forall>j < tot. bm_mem bm' j = (if bi + bpg \<le> j \<and> j < bi + bpg + n * bpg then ext_in_use lib f j else bm_mem bm1 j))"
      by blast
    have "bm_mem bm1 j = (if bi \<le> j \<and> j < bi + bpg then ext_in_use lib f j else bm_mem bm j)" if "j < tot" for j
      using mem1' that ext_in_use_group [OF first bpg, of grp j lib, folded Suc.prems(2)] by simp
    then have "\<forall>j < tot. bm_mem bm' j = (if bi \<le> j \<and> j < bi + Suc n * bpg then ext_in_use lib f j else bm_mem bm j)" if ok
      using IH(3) that by auto
    then show ?thesis
      using True IH unfolding step upt by (intro exI [of _ ok] exI [of _ lf'] exI [of _ bm']) auto
  qed
qed

text \<open>
  A scan succeeds exactly when the free counts of the groups and of the superblock agree with the
  block bitmaps, and its bitmap is then exact.
\<close>

definition ext_consistent :: "libext2fs \<Rightarrow> ext2_filsys \<Rightarrow> nat \<Rightarrow> bool" where
  "ext_consistent lib f tot \<longleftrightarrow>
     (\<forall>g < unat (group_desc_count f). ext_group_consistent lib f tot g) \<and>
     sum_list (map (ext_group_free lib f tot) [0..<unat (group_desc_count f)]) = unat (free_blocks_count f)"

lemma ext_read_bitmap_info_exact:
  assumes op: "open_file_system lib dev w = Some f" and lib: "\<not> bitmaps_error f" "has_block_map f"
    and al: "allocs_ok w" and tot: "tot = unat (totalblock info)" "1 < tot" "unat (s_first_data_block f) < tot"
    and cover: "tot \<le> unat (s_first_data_block f) + unat (group_desc_count f) * unat (s_blocks_per_group f)"
    and wf: "bm_wf tot bm" and small: "tot < 2 ^ 63"
  shows "\<exists>bm' w'. ext_read_bitmap_info lib dev info bm w = Some (ext_consistent lib f tot, bm', w') \<and>
    (ext_consistent lib f tot \<longrightarrow> (\<forall>i < tot. bm_mem bm' i = ext_in_use lib f i))"
proof -
  let ?first = "unat (s_first_data_block f)" and ?bpg = "unat (s_blocks_per_group f)" and ?n = "unat (group_desc_count f)"
  obtain a w1 where m: "sys_malloc w = (a, w1)" by fastforce
  obtain c where "w1 = w\<lparr>w_allocs := c\<rparr>" "allocs_ok w \<longrightarrow> a \<and> allocs_ok w1" by (rule sys_malloc_frame [OF m])
  then have a: a using al by simp
  obtain bm1 where i: "pc_init_bitmap bm 0xFF tot = Some bm1"
    using wf by (auto simp: pc_init_bitmap_def bm_wf_def Let_def split: option.splits)
  have wf1: "bm_wf tot bm1" using bm_wf_init [OF i wf] .
  have ones: "bm_mem bm1 j" if "j < tot" for j using bm_mem_init [OF small i that] .
  have c0: "(0 :: nat) < tot - 1 \<longleftrightarrow> ?first < tot" using tot by simp
  have t: "0 < tot" "tot < 2 ^ 64" using tot small by simp_all
  have b0: "?first = ?first + 0 * ?bpg" by simp
  obtain ok lf bm' where run: "ext_group_loop lib f True tot ?n 0 ?first 0 0 bm1 = (ok, lf, bm')"
    and ok: "ok \<longleftrightarrow> (\<forall>g \<in> set [0..<0 + ?n]. ext_group_consistent lib f tot g)"
    and res: "ok \<longrightarrow> lf = 0 + sum_list (map (ext_group_free lib f tot) [0..<0 + ?n]) \<and>
       (\<forall>j < tot. bm_mem bm' j = (if ?first \<le> j \<and> j < ?first + ?n * ?bpg then ext_in_use lib f j else bm_mem bm1 j))"
    using ext_group_loop_exact [OF t refl refl wf1 b0 c0, where lib = lib and n = ?n and lf = 0] by blast
  have cons: "ext_consistent lib f tot \<longleftrightarrow> ok \<and> lf = unat (free_blocks_count f)"
    using ok res by (auto simp: ext_consistent_def)
  have "ext_read_bitmap_info lib dev info bm w = Some (ext_consistent lib f tot, bm', w1)"
    using op lib m a i run cons by (simp add: ext_read_bitmap_info_def tot(1) [symmetric])
  moreover have "bm_mem bm' j = ext_in_use lib f j" if "ext_consistent lib f tot" "j < tot" for j
    using that cons res ones cover by (auto simp: ext_in_use_def Let_def)
  ultimately show ?thesis by blast
qed

section \<open>Backup and restore\<close>

definition ext_info :: "ext2_filsys \<Rightarrow> file_system_info" where
  "ext_info f =
     init_file_system_info\<lparr>fs := strncpy (replicate 16 0) extfs_MAGIC 15, block_size := ext2_block_size f,
       totalblock := blocks_count f, usedblocks := blocks_count f - free_blocks_count f,
       device_size := ucast (ext2_block_size f) * blocks_count f\<rparr>"

lemma ext_read_super_blocks_ok:
  "open_file_system lib dev w = Some f \<Longrightarrow>
   ext_read_super_blocks lib dev init_file_system_info w = Some (True, ext_info f, w)"
  by (simp add: ext_read_super_blocks_def ext_info_def init_file_system_info_def)

text \<open>
  The block bitmap covers the file system and agrees with its free counts: what a clean ext2/3/4 file
  system is to the daemon.
\<close>

definition ext_sound :: "libext2fs \<Rightarrow> ext2_filsys \<Rightarrow> bool" where
  "ext_sound lib f \<longleftrightarrow>
     (let tot = unat (blocks_count f); first = unat (s_first_data_block f)
      in \<not> bitmaps_error f \<and> has_block_map f \<and> 1 < tot \<and> tot < 2 ^ 32 \<and> first < tot \<and>
         tot \<le> first + unat (group_desc_count f) * unat (s_blocks_per_group f) \<and> ext_consistent lib f tot)"

lemma ext_cycle:
  assumes src: "w_nodes w source = Some src" "i_readable src" and ne: "source \<noteq> path"
    and tgt: "w_nodes w path = None" "w_creatable w path" and fd0: "fd_lookup w 0 \<noteq> None"
    and w: "crc_ready w" "benign w" "allocs_ok w"
    and lib: "\<forall>v. w_nodes v source = Some src \<longrightarrow> open_file_system lib source v = Some f" and sound: "ext_sound lib f"
    and geo: "geometry (unat (ext2_block_size f)) cap (unat (blocks_count f)) src"
    and room: "w_vfs w path = Some (frsize, bsize, bfree)" "space_for (ext_info f) cap \<le> frsize * bfree" "frsize * bfree < 2 ^ 64"
  shows "\<exists>w' img. gdbus_sysbak_extfs_ptf lib source path ovr w = Some (True, w') \<and> w_nodes w' path = Some img \<and>
    restores (i_bytes img) path (ext_info f) (ext_in_use lib f) (i_bytes src)"
  unfolding gdbus_sysbak_extfs_ptf_def
proof (rule ext.backup_completes [OF src ne tgt fd0 w])
  fix v :: world assume v: "w_nodes v source = Some src"
  then show "\<exists>v'. be_super (extfs_backend lib) source init_file_system_info v = Some (True, ext_info f, v')"
    using lib ext_read_super_blocks_ok by (auto simp: extfs_backend_def)
  fix bm assume "bm_wf (unat (totalblock (ext_info f))) bm" and al: "allocs_ok v"
  then have wf: "bm_wf (unat (blocks_count f)) bm" by (simp add: ext_info_def)
  have op: "open_file_system lib source v = Some f" using lib v by blast
  have tot: "unat (blocks_count f) = unat (totalblock (ext_info f))" by (simp add: ext_info_def)
  have s: "\<not> bitmaps_error f" "has_block_map f" "1 < unat (blocks_count f)" "unat (blocks_count f) < 2 ^ 63"
    "unat (s_first_data_block f) < unat (blocks_count f)"
    "unat (blocks_count f) \<le> unat (s_first_data_block f) + unat (group_desc_count f) * unat (s_blocks_per_group f)"
    "ext_consistent lib f (unat (blocks_count f))"
    using sound by (simp_all add: ext_sound_def Let_def)
  show "\<exists>bm' v'. be_bitmap (extfs_backend lib) source (ext_info f) bm v = Some (True, bm', v') \<and>
      (\<forall>i < unat (totalblock (ext_info f)). bm_mem bm' i = ext_in_use lib f i)"
    using ext_read_bitmap_info_exact [OF op s(1,2) al tot s(3,5,6) wf s(4)] s(7)
    by (simp add: extfs_backend_def tot [symmetric])
next
  show "geometry (unat (block_size (ext_info f))) cap (unat (totalblock (ext_info f))) src"
    using geo by (simp add: ext_info_def)
  show "unat (totalblock (ext_info f)) < 2 ^ 32" using sound by (simp add: ext_sound_def ext_info_def Let_def)
qed (use room in \<open>simp_all add: extfs_backend_def\<close>)

section \<open>Properties\<close>

text \<open>
  C1: Backup and restore of an ext2/3/4 file system. When the file system is sound, its device
  readable, the image file new with room enough, and no transfer or allocation fails for good (any
  number of interrupted and short transfers may happen), then \<^verbatim>\<open>gdbus_sysbak_extfs_ptf\<close> succeeds, and
  the image it leaves can be restored: on every block device large enough, \<^verbatim>\<open>gdbus_sysbak_restore\<close>
  succeeds, every block that the file system's own block bitmap marks in use has the content it had on
  the source, and every other block of the device keeps the content it had.
\<close>

theorem extfs_backup_then_restore:
  assumes "w_nodes w source = Some src" and "i_readable src" and "source \<noteq> path"
    and "w_nodes w path = None" and "w_creatable w path" and "fd_lookup w 0 \<noteq> None"
    and "crc_ready w" and "benign w" and "allocs_ok w"
    and "\<forall>v. w_nodes v source = Some src \<longrightarrow> open_file_system lib source v = Some f" and "ext_sound lib f"
    and "geometry (unat (ext2_block_size f)) cap (unat (blocks_count f)) src"
    and "w_vfs w path = Some (frsize, bsize, bfree)"
    and "space_for (ext_info f) cap \<le> frsize * bfree" and "frsize * bfree < 2 ^ 64"
  shows "\<exists>w' img. gdbus_sysbak_extfs_ptf lib source path ovr w = Some (True, w') \<and> w_nodes w' path = Some img \<and>
    restores (i_bytes img) path (ext_info f) (ext_in_use lib f) (i_bytes src)"
  using assms by (rule ext_cycle)

text \<open>
  A file system of nine blocks of 1 KiB with one group, four of its blocks free, on a device that is
  read with an interruption and a short transfer.
\<close>

definition tiny_ext :: ext2_filsys where
  "tiny_ext =
     \<lparr>s_state = 1, s_max_mnt_count = - 1, s_mnt_count = 3, s_first_data_block = 1, s_blocks_per_group = 8,
      s_feature_ro_compat = 0, ext2_block_size = 1024, blocks_count = 9, free_blocks_count = 4,
      group_desc_count = 1, fs_valid = True, bitmaps_error = False, has_block_map = True,
      bg_flags = (\<lambda>g. 0), bg_free_blocks_count = (\<lambda>g. 4)\<rparr>"

definition tiny_libext2fs :: libext2fs where
  "tiny_libext2fs =
     \<lparr>ext2fs_open = (\<lambda>dev w. if dev = ''/dev/sda1'' then Some tiny_ext else None),
      get_block_bitmap_range = (\<lambda>f start num. [0x4D]),
      ext2fs_test_bit = (\<lambda>b bs. bit (bs ! (b div 8)) (b mod 8))\<rparr>"

definition tiny_device :: inode where
  "tiny_device =
     \<lparr>i_kind = BLK, i_bytes = replicate (9 * 1024) 7, i_dirty = False, i_readable = True, i_writable = True\<rparr>"

definition tiny_world :: world where
  "tiny_world =
     \<lparr>crc_tab32 = replicate 256 0, cs_mode = 0,
      w_nodes = (\<lambda>p. if p = ''/dev/sda1'' then Some tiny_device else None),
      w_fdtab = [Some \<lparr>o_path = ''/dev/null'', o_pos = 0, o_write = False\<rparr>],
      w_sched = [Fail EINTR, Short 99], w_allocs = [], w_clock = [100, 101],
      w_vfs = (\<lambda>p. Some (4096, 4096, 1000)), w_creatable = (\<lambda>p. True), w_junk = 0,
      fat_FS = 0, btrfs_block_size = 0, xfs_mp = None, w_out = []\<rparr>"

lemma tiny_world_facts:
  "w_nodes tiny_world ''/dev/sda1'' = Some tiny_device" "w_nodes tiny_world ''/img'' = None"
  "w_creatable tiny_world ''/img''" "fd_lookup tiny_world 0 \<noteq> None"
  "crc_ready tiny_world" "benign tiny_world" "allocs_ok tiny_world"
  "w_vfs tiny_world ''/img'' = Some (4096, 4096, 1000)" "i_readable tiny_device"
  by (simp_all add: tiny_world_def tiny_device_def fd_lookup_def crc_ready_def benign_def allocs_ok_def)

lemma tiny_ext_facts:
  "open_file_system tiny_libext2fs ''/dev/sda1'' v = Some tiny_ext"
  "ext_sound tiny_libext2fs tiny_ext"
  "geometry (unat (ext2_block_size tiny_ext)) 1024 (unat (blocks_count tiny_ext)) tiny_device"
  "space_for (ext_info tiny_ext) 1024 \<le> 4096 * 1000" "(4096 * 1000 :: nat) < 2 ^ 64" "''/dev/sda1'' \<noteq> ''/img''"
proof -
  show "open_file_system tiny_libext2fs ''/dev/sda1'' v = Some tiny_ext"
    by (simp add: open_file_system_def tiny_libext2fs_def tiny_ext_def)
  have "ext_group_free tiny_libext2fs tiny_ext 9 0 = 4"
    by (simp add: ext_group_free_def ext_group_used_def tiny_libext2fs_def tiny_ext_def Let_def upt_conv_Cons)
  then have "ext_consistent tiny_libext2fs tiny_ext 9"
    by (simp add: ext_consistent_def ext_group_consistent_def) (simp add: tiny_ext_def)
  then show "ext_sound tiny_libext2fs tiny_ext" by (simp add: ext_sound_def tiny_ext_def Let_def)
  show "geometry (unat (ext2_block_size tiny_ext)) 1024 (unat (blocks_count tiny_ext)) tiny_device"
    by (simp add: geometry_def tiny_ext_def tiny_device_def buffer_capacity_def cdiv_def DEFAULT_BUFFER_SIZE_def)
  show "space_for (ext_info tiny_ext) 1024 \<le> 4096 * 1000"
    by (simp add: space_for_def ext_info_def tiny_ext_def BITS_TO_BYTES_def)
qed simp_all

theorem extfs_backup_then_restore_witness:
  "\<exists>w' img. gdbus_sysbak_extfs_ptf tiny_libext2fs ''/dev/sda1'' ''/img'' False tiny_world = Some (True, w') \<and>
     w_nodes w' ''/img'' = Some img \<and>
     restores (i_bytes img) ''/img'' (ext_info tiny_ext) (ext_in_use tiny_libext2fs tiny_ext) (i_bytes tiny_device)"
  by (rule extfs_backup_then_restore [where cap = 1024 and frsize = 4096 and bsize = 4096 and bfree = 1000])
     (intro allI impI tiny_world_facts tiny_ext_facts)+

end
