(* ===== verification/Fatfs.thy ===== *)
theory Fatfs
  imports Confinement
begin

text \<open>
  \<^verbatim>\<open>src/src/gdbus-fatfs.c\<close>: FAT file systems. The daemon reads the boot sector and the file
  allocation table itself, so all of it is modelled. \<^verbatim>\<open>read\<close> and \<^verbatim>\<open>lseek\<close> results are ignored as
  in the code: what a failed or short \<^verbatim>\<open>read\<close> leaves in a variable is its old content. The
  counters \<^verbatim>\<open>bfree\<close>, \<^verbatim>\<open>bused\<close> and \<^verbatim>\<open>DamagedClusters\<close> are pointers whose increments change no
  state, and are left out.
\<close>

section \<open>The boot sector\<close>

record FatBootSector =
  sector_size :: u16
  cluster_size :: byte
  reserved :: u16
  fats :: byte
  dir_entries :: u16
  sectors :: u16
  fat_length :: u16
  sector_count :: u32
  fat16_ext_signature :: byte
  fat32_fat_length :: u32
  fat32_fat_name_4 :: byte

definition parse_boot :: "byte list \<Rightarrow> FatBootSector" where
  "parse_boot bs =
     \<lparr>sector_size = le_word (field 11 2 bs), cluster_size = le_word (field 13 1 bs),
      reserved = le_word (field 14 2 bs), fats = le_word (field 16 1 bs),
      dir_entries = le_word (field 17 2 bs), sectors = le_word (field 19 2 bs),
      fat_length = le_word (field 22 2 bs), sector_count = le_word (field 32 4 bs),
      fat16_ext_signature = le_word (field 38 1 bs), fat32_fat_length = le_word (field 36 4 bs),
      fat32_fat_name_4 = le_word (field 86 1 bs)\<rparr>"

definition FAT_12 :: int where "FAT_12 = 1"
definition FAT_16 :: int where "FAT_16 = 2"
definition FAT_32 :: int where "FAT_32 = 3"
definition FAT12_THRESHOLD :: int where "FAT12_THRESHOLD = 4085"

definition get_total_sector :: "FatBootSector \<Rightarrow> nat" where
  "get_total_sector fat_sb =
     (if sectors fat_sb \<noteq> 0 then unat (sectors fat_sb)
      else if sector_count fat_sb \<noteq> 0 then unat (sector_count fat_sb)
      else 0)"

definition get_sec_per_fat :: "FatBootSector \<Rightarrow> nat" where
  "get_sec_per_fat fat_sb =
     (if fat_length fat_sb \<noteq> 0 then unat (fat_length fat_sb)
      else if fat32_fat_length fat_sb \<noteq> 0 then unat (fat32_fat_length fat_sb)
      else 0)"

text \<open>The division faults when the sector size is 0.\<close>

definition get_root_sec :: "FatBootSector \<Rightarrow> nat option" where
  "get_root_sec fat_sb =
     cdiv (unat (dir_entries fat_sb) * 32 + unat (sector_size fat_sb) - 1) (unat (sector_size fat_sb))"

definition get_cluster_count :: "FatBootSector \<Rightarrow> nat option" where
  "get_cluster_count fat_sb =
     do {
       let total_sector = get_total_sector fat_sb;
       root_sec \<leftarrow> get_root_sec fat_sb;
       let sec_per_fat = get_sec_per_fat fat_sb;
       let resv = unat (reserved fat_sb) + unat (fats fat_sb) * sec_per_fat + root_sec;
       if resv > total_sector then Some 0
       else cdiv (total_sector - resv) (unat (cluster_size fat_sb))
     }"

definition mark_reserved_sectors :: "bitmap \<Rightarrow> nat \<Rightarrow> FatBootSector \<Rightarrow> (bitmap \<times> nat) option" where
  "mark_reserved_sectors fat_bitmap block fat_sb =
     do {
       let total_block = get_total_sector fat_sb;
       let sec_per_fat = get_sec_per_fat fat_sb;
       root_sec \<leftarrow> get_root_sec fat_sb;
       let n = unat (reserved fat_sb);
       let fat_bitmap = for_blocks pc_set_bit total_block block n fat_bitmap;
       let block = block + n;
       let n = unat (fats fat_sb) * sec_per_fat;
       let fat_bitmap = for_blocks pc_set_bit total_block block n fat_bitmap;
       let block = block + n;
       let fat_bitmap = for_blocks pc_set_bit total_block block root_sec fat_bitmap;
       Some (fat_bitmap, block + root_sec)
     }"

section \<open>The allocation table\<close>

text \<open>\<^verbatim>\<open>read (fd, &entry, n)\<close> with the result ignored: bytes not read keep what \<open>old\<close> has.\<close>

definition read_into :: "int \<Rightarrow> byte list \<Rightarrow> world \<Rightarrow> byte list \<times> world" where
  "read_into fd old w =
     (case sys_read fd (length old) w of
        (Inl e, w) \<Rightarrow> (old, w)
      | (Inr d, w) \<Rightarrow> (d @ drop (length d) old, w))"

definition check_fat_status :: "int \<Rightarrow> world \<Rightarrow> int \<times> world" where
  "check_fat_status fd w =
     (if fat_FS w = FAT_16
      then (let (b, w) = read_into fd (replicate 2 (w_junk w)) w; Fat16_Entry = (le_word b :: u16)
            in (if Fat16_Entry AND 0x8000 = 0 then 1 else if Fat16_Entry AND 0x4000 = 0 then 2 else 0, w))
      else if fat_FS w = FAT_32
      then (let (b, w) = read_into fd (replicate 4 (w_junk w)) w; Fat32_Entry = (le_word b :: u32)
            in (if Fat32_Entry AND 0x08000000 = 0 then 1
                else if Fat32_Entry AND 0x04000000 = 0 then 2 else 0, w))
      else (0, w))"

text \<open>The common tail of the three functions: the blocks of the cluster are cleared or set.\<close>

definition mark_cluster :: "bool \<Rightarrow> bitmap \<Rightarrow> nat \<Rightarrow> nat \<Rightarrow> nat \<Rightarrow> bitmap \<times> nat" where
  "mark_cluster used fat_bitmap total_block csize block =
     (for_blocks (if used then pc_set_bit else pc_clear_bit) total_block block csize fat_bitmap, block + csize)"

definition check_fat16_entry :: "bitmap \<Rightarrow> nat \<Rightarrow> nat \<Rightarrow> nat \<Rightarrow> int \<Rightarrow> world \<Rightarrow> (bitmap \<times> nat) \<times> world" where
  "check_fat16_entry fat_bitmap total_block csize block fd w =
     (let (b, w) = read_into fd (replicate 2 0) w;
          Fat16_Entry = (le_word b :: u16)
      in (if Fat16_Entry = 0xFFF7 then mark_cluster False fat_bitmap total_block csize block
          else if Fat16_Entry = 0 then mark_cluster False fat_bitmap total_block csize block
          else mark_cluster True fat_bitmap total_block csize block, w))"

definition check_fat32_entry :: "bitmap \<Rightarrow> nat \<Rightarrow> nat \<Rightarrow> nat \<Rightarrow> int \<Rightarrow> world \<Rightarrow> (bitmap \<times> nat) \<times> world" where
  "check_fat32_entry fat_bitmap total_block csize block fd w =
     (let (b, w) = read_into fd (replicate 4 0) w;
          Fat32_Entry = (le_word b :: u32)
      in (if Fat32_Entry = 0x0FFFFFF7 then mark_cluster False fat_bitmap total_block csize block
          else if Fat32_Entry = 0 then mark_cluster False fat_bitmap total_block csize block
          else mark_cluster True fat_bitmap total_block csize block, w))"

definition check_fat12_entry :: "bitmap \<Rightarrow> nat \<Rightarrow> nat \<Rightarrow> nat \<Rightarrow> int \<Rightarrow> world \<Rightarrow> (bitmap \<times> nat) \<times> world" where
  "check_fat12_entry fat_bitmap total_block csize block fd w =
     (let (b, w) = read_into fd (replicate 2 0) w;
          Fat16_Entry = (le_word b :: u16);
          Fat12_Entry = drop_bit 4 Fat16_Entry
      in (if Fat12_Entry = 0xFF7 then mark_cluster False fat_bitmap total_block csize block
          else if Fat12_Entry = 0 then mark_cluster False fat_bitmap total_block csize block
          else mark_cluster True fat_bitmap total_block csize block, w))"

text \<open>The loop over the clusters, \<open>n\<close> of them left.\<close>

primrec fat_clusters :: "nat \<Rightarrow> bitmap \<Rightarrow> nat \<Rightarrow> nat \<Rightarrow> nat \<Rightarrow> int \<Rightarrow> world \<Rightarrow> (bitmap \<times> nat) \<times> world" where
  "fat_clusters 0 fat_bitmap total_sector csize block fd w = ((fat_bitmap, block), w)"
| "fat_clusters (Suc n) fat_bitmap total_sector csize block fd w =
     (let ((fat_bitmap, block), w) =
            (if fat_FS w = FAT_16 then check_fat16_entry fat_bitmap total_sector csize block fd w
             else if fat_FS w = FAT_32 then check_fat32_entry fat_bitmap total_sector csize block fd w
             else if fat_FS w = FAT_12 then check_fat12_entry fat_bitmap total_sector csize block fd w
             else ((fat_bitmap, block), w))
      in fat_clusters n fat_bitmap total_sector csize block fd w)"

text \<open>
  \<^verbatim>\<open>fat_sb->sector_size * fat_sb->reserved\<close> is an \<open>int\<close> product.
\<close>

definition fat_reserved_bytes :: "FatBootSector \<Rightarrow> int" where
  "fat_reserved_bytes fat_sb = to_int32 (unat (sector_size fat_sb) * unat (reserved fat_sb))"

definition get_used_block :: "FatBootSector \<Rightarrow> int \<Rightarrow> world \<Rightarrow> (nat \<times> world) option" where
  "get_used_block fat_sb fd w =
     do {
       let total_sector = get_total_sector fat_sb;
       cluster_count \<leftarrow> get_cluster_count fat_sb;
       let (fat_bitmap, w) = pc_alloc_bitmap total_sector w;
       fat_bitmap \<leftarrow> pc_init_bitmap fat_bitmap 0xFF total_sector;
       (fat_bitmap, block) \<leftarrow> mark_reserved_sectors fat_bitmap 0 fat_sb;
       let (_, w) = sys_lseek fd (fat_reserved_bytes fat_sb) False w;
       let (fat_stat, w) = check_fat_status fd w;
       if fat_stat \<noteq> 0 then Some (0, w)
       else do {
         let ((fat_bitmap, block), w) =
           fat_clusters cluster_count fat_bitmap total_sector (unat (cluster_size fat_sb)) block fd w;
         let fat_bitmap = for_blocks pc_set_bit total_sector block (total_sector - block) fat_bitmap;
         Some (count_blocks pc_test_bit total_sector fat_bitmap total_sector, w)
       }
     }"

text \<open>The descriptor stays open when the boot sector cannot be read.\<close>

definition get_fat_fs_sector :: "string \<Rightarrow> world \<Rightarrow> (int \<times> FatBootSector option) \<times> world" where
  "get_fat_fs_sector device w =
     (let (fd, w) = sys_open device rdonly w
      in if fd < 0 then ((-1, None), w)
         else (let (buffer, w) = sys_malloc w
               in if \<not> buffer then ((-1, None), w)
                  else (case sys_read fd 512 w of
                          (Inl e, w) \<Rightarrow> ((-1, None), w)
                        | (Inr d, w) \<Rightarrow>
                            if length d \<noteq> 512 then ((-1, None), w)
                            else ((fd, Some (parse_boot d)), w))))"

definition round_to_multiple :: "nat \<Rightarrow> nat \<Rightarrow> nat" where
  "round_to_multiple n m = (if n \<noteq> 0 \<and> m \<noteq> 0 then n + m - 1 - (n - 1) mod m else 0)"

text \<open>
  \<^verbatim>\<open>get_fat_fs_type\<close>: the name and the new value of \<^verbatim>\<open>FS\<close>, or \<^const>\<open>Inl\<close> for a \<^verbatim>\<open>NULL\<close> result; the
  outer \<^term>\<open>None\<close> is the fault of a division by a cluster size of 0.
\<close>

definition get_fat_fs_type :: "FatBootSector \<Rightarrow> (unit + string \<times> int) option" where
  "get_fat_fs_type fat_sb =
     (if fat16_ext_signature fat_sb = 0x29 \<or> (fat_length fat_sb \<noteq> 0 \<and> fat32_fat_length fat_sb = 0)
      then (let total_sectors = get_total_sector fat_sb;
                logical_sector_size = unat (sector_size fat_sb);
                root_start = (unat (reserved fat_sb) + unat (fats fat_sb) * unat (fat_length fat_sb))
                               * logical_sector_size;
                root_entries = unat (dir_entries fat_sb);
                data_start = root_start + round_to_multiple (32 * root_entries) logical_sector_size;
                data_size = int (total_sectors * logical_sector_size) - int data_start
            in if data_size \<le> 0 then Some (Inl ())
               else do {
                 clusters \<leftarrow> cdiv (nat data_size) (unat (cluster_size fat_sb) * logical_sector_size);
                 if clusters = 0 then Some (Inl ())
                 else if int clusters \<ge> FAT12_THRESHOLD then Some (Inr (''FAT16'', FAT_16))
                 else Some (Inr (''FAT12'', FAT_12))
               })
      else if fat32_fat_name_4 fat_sb = 0x32 \<or> (fat_length fat_sb = 0 \<and> fat32_fat_length fat_sb \<noteq> 0)
      then Some (Inr (''FAT32'', FAT_32))
      else Some (Inl ()))"

definition fat_read_bitmap_info ::
    "string \<Rightarrow> file_system_info \<Rightarrow> bitmap \<Rightarrow> world \<Rightarrow> (bool \<times> bitmap \<times> world) option" where
  "fat_read_bitmap_info device info bitmap w =
     (case get_fat_fs_sector device w of
        ((fd, None), w) \<Rightarrow> Some (False, bitmap, w)
      | ((fd, Some fat_sb), w) \<Rightarrow> do {
          let total_sector = get_total_sector fat_sb;
          cluster_count \<leftarrow> get_cluster_count fat_sb;
          bitmap \<leftarrow> pc_init_bitmap bitmap 0xFF total_sector;
          (bitmap, block) \<leftarrow> mark_reserved_sectors bitmap 0 fat_sb;
          let (_, w) = sys_lseek fd (fat_reserved_bytes fat_sb) False w;
          let (fat_stat, w) = check_fat_status fd w;
          if fat_stat \<noteq> 0 then Some (False, bitmap, sys_close fd w)
          else do {
            let ((bitmap, block), w) =
              fat_clusters cluster_count bitmap total_sector (unat (cluster_size fat_sb)) block fd w;
            Some (True, bitmap, sys_close fd w)
          }
        })"

text \<open>\<^verbatim>\<open>strncpy\<close> from the \<^verbatim>\<open>NULL\<close> type of an unknown file system faults.\<close>

definition fat_read_super_blocks ::
    "string \<Rightarrow> file_system_info \<Rightarrow> world \<Rightarrow> (bool \<times> file_system_info \<times> world) option" where
  "fat_read_super_blocks device info w =
     (case get_fat_fs_sector device w of
        ((fd, None), w) \<Rightarrow> Some (False, info, w)
      | ((fd, Some fat_sb), w) \<Rightarrow> do {
          t \<leftarrow> get_fat_fs_type fat_sb;
          case t of
            Inl _ \<Rightarrow> None
          | Inr (fs_type, type_FS) \<Rightarrow> do {
              let w = w\<lparr>fat_FS := type_FS\<rparr>;
              let total_sector = get_total_sector fat_sb;
              (bused, w) \<leftarrow> get_used_block fat_sb fd w;
              Some (True,
                    info\<lparr>fs := strncpy (fs info) (cstr fs_type) 15,
                         block_size := ucast (sector_size fat_sb), totalblock := of_nat total_sector,
                         usedblocks := of_nat bused,
                         device_size := of_nat (total_sector * unat (sector_size fat_sb))\<rparr>,
                    sys_close fd w)
            }
        })"

section \<open>Handlers\<close>

definition fatfs_backend :: fs_backend where
  "fatfs_backend =
     \<lparr>be_super = fat_read_super_blocks, be_bitmap = fat_read_bitmap_info,
      be_block_size = (\<lambda>info w. unat (block_size info))\<rparr>"

definition fat_check_system_space :: "file_system_info \<Rightarrow> string \<Rightarrow> image_options \<Rightarrow> world \<Rightarrow> bool" where
  "fat_check_system_space = check_system_space"

definition fat_get_read_blocks_size :: "nat \<Rightarrow> nat \<Rightarrow> bitmap \<Rightarrow> nat \<Rightarrow> nat \<times> nat" where
  "fat_get_read_blocks_size = get_read_blocks_size"

definition fat_read_write_data_ptf ::
    "file_system_info \<Rightarrow> image_options \<Rightarrow> bitmap \<Rightarrow> int \<Rightarrow> int \<Rightarrow> nat \<Rightarrow> world \<Rightarrow> (bool \<times> world) option" where
  "fat_read_write_data_ptf info = read_write_data_ptf False (unat (block_size info)) info"

definition fat_read_write_data_ptp ::
    "file_system_info \<Rightarrow> bitmap \<Rightarrow> int \<Rightarrow> int \<Rightarrow> world \<Rightarrow> (bool \<times> world) option" where
  "fat_read_write_data_ptp info = read_write_data_ptp (unat (block_size info)) info"

definition gdbus_sysbak_fatfs_ptf :: "string \<Rightarrow> string \<Rightarrow> bool \<Rightarrow> world \<Rightarrow> (bool \<times> world) option" where
  "gdbus_sysbak_fatfs_ptf = backup_ptf ''sysbak_fatfs_ptf'' True False True fatfs_backend"

definition gdbus_sysbak_fatfs_ptp :: "string \<Rightarrow> string \<Rightarrow> bool \<Rightarrow> world \<Rightarrow> (bool \<times> world) option" where
  "gdbus_sysbak_fatfs_ptp = backup_ptp ''sysbak_fatfs_ptp'' fatfs_backend"

section \<open>The contract of the handlers\<close>

lemma keeps_read_into:
  "read_into fd old w' = (d, w'') \<Longrightarrow> keeps w w' \<Longrightarrow> fd_lookup w fd = None \<Longrightarrow> keeps w w''"
  by (auto simp: read_into_def split: prod.splits sum.splits dest: keeps_read)

lemma keeps_check_fat_status:
  "check_fat_status fd w' = (r, w'') \<Longrightarrow> keeps w w' \<Longrightarrow> fd_lookup w fd = None \<Longrightarrow> keeps w w''"
  by (auto simp: check_fat_status_def Let_def split: prod.splits if_splits dest: keeps_read_into)

text \<open>One turn of the loop over the clusters.\<close>

definition fat_cluster_step :: "bitmap \<Rightarrow> nat \<Rightarrow> nat \<Rightarrow> nat \<Rightarrow> int \<Rightarrow> world \<Rightarrow> (bitmap \<times> nat) \<times> world" where
  "fat_cluster_step fat_bitmap total_sector csize block fd w =
     (if fat_FS w = FAT_16 then check_fat16_entry fat_bitmap total_sector csize block fd w
      else if fat_FS w = FAT_32 then check_fat32_entry fat_bitmap total_sector csize block fd w
      else if fat_FS w = FAT_12 then check_fat12_entry fat_bitmap total_sector csize block fd w
      else ((fat_bitmap, block), w))"

lemma fat_clusters_Suc:
  "fat_clusters (Suc n) bm tot csize block fd w =
     (let ((bm, block), w) = fat_cluster_step bm tot csize block fd w in fat_clusters n bm tot csize block fd w)"
  by (simp add: fat_cluster_step_def)

lemma fat_cluster_step_keeps:
  assumes "fat_cluster_step bm tot csize block fd w' = ((bm', block'), w'')"
  shows "keeps w w' \<Longrightarrow> fd_lookup w fd = None \<Longrightarrow> keeps w w''" and "bm_wf n bm \<Longrightarrow> bm_wf n bm'"
  using assms
  by (auto simp: fat_cluster_step_def check_fat16_entry_def check_fat32_entry_def check_fat12_entry_def mark_cluster_def
      Let_def split: prod.splits if_splits dest: keeps_read_into)

lemma fat_clusters_step:
  "fat_clusters k bm tot csize block fd w' = ((bm', block'), w'') \<Longrightarrow>
   (keeps w w' \<and> fd_lookup w fd = None \<longrightarrow> keeps w w'') \<and> (bm_wf n bm \<longrightarrow> bm_wf n bm')"
proof (induction k arbitrary: bm block w')
  case (Suc k)
  obtain bm1 block1 w1 where st: "fat_cluster_step bm tot csize block fd w' = ((bm1, block1), w1)" by (metis prod.exhaust)
  have "fat_clusters k bm1 tot csize block1 fd w1 = ((bm', block'), w'')"
    using Suc.prems by (simp only: fat_clusters_Suc st Let_def prod.case)
  then show ?case
    using Suc.IH [of bm1 block1 w1] fat_cluster_step_keeps [OF st] by blast
qed simp

lemma fat_clusters_keeps:
  assumes "fat_clusters k bm tot csize block fd w' = ((bm', block'), w'')"
  shows "keeps w w' \<Longrightarrow> fd_lookup w fd = None \<Longrightarrow> keeps w w''" and "bm_wf n bm \<Longrightarrow> bm_wf n bm'"
  using fat_clusters_step [OF assms] by blast+

lemma get_fat_fs_sector_keeps:
  assumes "get_fat_fs_sector dev w = ((fd, r), w')"
  shows "keeps w w'" and "r \<noteq> None \<Longrightarrow> fd_lookup w fd = None"
proof -
  obtain fd0 w1 where op: "sys_open dev rdonly w = (fd0, w1)" by fastforce
  obtain a w2 where m: "sys_malloc w1 = (a, w2)" by fastforce
  obtain x w3 where rd: "sys_read fd0 512 w2 = (x, w3)" by fastforce
  note k = keeps_open_rdonly [OF op]
  have k2: "keeps w w2" using k(1) keeps_malloc [OF m] by (rule keeps_trans)
  have "fd0 \<ge> 0 \<Longrightarrow> keeps w w3" using keeps_read [OF rd k2] k(2) by auto
  with assms k k2 show "keeps w w'" "r \<noteq> None \<Longrightarrow> fd_lookup w fd = None"
    by (auto simp: get_fat_fs_sector_def op m rd Let_def split: if_splits sum.splits)
qed

lemma mark_reserved_wf: "mark_reserved_sectors bm b sb = Some (bm', b') \<Longrightarrow> bm_wf n bm \<Longrightarrow> bm_wf n bm'"
  by (auto simp: mark_reserved_sectors_def bind_eq_Some_conv Let_def)

lemma get_used_block_keeps:
  assumes "get_used_block sb fd w' = Some (b, w'')" and "keeps w w'" and none: "fd_lookup w fd = None"
  shows "keeps w w''"
proof -
  obtain bm0 w1 where al: "pc_alloc_bitmap (get_total_sector sb) w' = (bm0, w1)" by fastforce
  from assms(1) obtain cc bm1 bm2 block where c: "get_cluster_count sb = Some cc"
    "pc_init_bitmap bm0 0xFF (get_total_sector sb) = Some bm1" "mark_reserved_sectors bm1 0 sb = Some (bm2, block)"
    by (auto simp: get_used_block_def al bind_eq_Some_conv Let_def)
  obtain sk w2 where l: "sys_lseek fd (fat_reserved_bytes sb) False w1 = (sk, w2)" by fastforce
  obtain st w3 where ch: "check_fat_status fd w2 = (st, w3)" by fastforce
  obtain bm3 block3 w4 where cl: "fat_clusters cc bm2 (get_total_sector sb) (unat (cluster_size sb)) block fd w3 = ((bm3, block3), w4)"
    by (metis prod.exhaust)
  have "keeps w w1" using assms(2) keeps_alloc_bitmap [OF al] by (rule keeps_trans)
  then have "keeps w w2" by (rule keeps_lseek [OF l _ none])
  then have k3: "keeps w w3" by (rule keeps_check_fat_status [OF ch _ none])
  have "keeps w w4" using fat_clusters_keeps(1) [OF cl k3 none] .
  then show ?thesis using assms(1) k3 by (auto simp: get_used_block_def al c l ch cl Let_def split: if_splits)
qed

lemma fat_read_super_blocks_step:
  assumes "fat_read_super_blocks dev info w = Some (ok, info', w')"
  shows "keeps w w'" and "length (fs info) = 16 \<Longrightarrow> length (fs info') = 16"
proof -
  obtain fd r w1 where g: "get_fat_fs_sector dev w = ((fd, r), w1)" by (metis prod.exhaust)
  note k1 = get_fat_fs_sector_keeps [OF g]
  have "keeps w w' \<and> (length (fs info) = 16 \<longrightarrow> length (fs info') = 16)"
  proof (cases r)
    case None
    then show ?thesis using assms k1 by (simp add: fat_read_super_blocks_def g)
  next
    case (Some sb)
    then have none: "fd_lookup w fd = None" using k1(2) by simp
    obtain ty fsv where t: "get_fat_fs_type sb = Some (Inr (ty, fsv))"
      using assms Some
      by (cases "get_fat_fs_type sb") (auto simp: fat_read_super_blocks_def g split: sum.splits)
    obtain bused w3 where u: "get_used_block sb fd (w1\<lparr>fat_FS := fsv\<rparr>) = Some (bused, w3)"
      using assms Some by (auto simp: fat_read_super_blocks_def g t bind_eq_Some_conv Let_def)
    have k2: "keeps w (w1\<lparr>fat_FS := fsv\<rparr>)" using k1(1) keeps_statics(1) by (rule keeps_trans)
    have "keeps w w3" using u k2 none by (rule get_used_block_keeps)
    then have "keeps w (sys_close fd w3)" using none by (rule keeps_close)
    then show ?thesis
      using assms Some u by (auto simp: fat_read_super_blocks_def g t Let_def)
  qed
  then show "keeps w w'" and "length (fs info) = 16 \<Longrightarrow> length (fs info') = 16" by blast+
qed

lemma fat_read_bitmap_info_step:
  assumes "fat_read_bitmap_info dev info bm w = Some (ok, bm', w')"
  shows "keeps w w'" and "bm_wf n bm \<Longrightarrow> bm_wf n bm'"
proof -
  obtain fd r w1 where g: "get_fat_fs_sector dev w = ((fd, r), w1)" by (metis prod.exhaust)
  note k1 = get_fat_fs_sector_keeps [OF g]
  have "keeps w w' \<and> (bm_wf n bm \<longrightarrow> bm_wf n bm')"
  proof (cases r)
    case None
    then show ?thesis using assms k1 by (simp add: fat_read_bitmap_info_def g)
  next
    case (Some sb)
    then have none: "fd_lookup w fd = None" using k1(2) by simp
    from assms Some obtain cc bm1 bm2 block where c: "get_cluster_count sb = Some cc"
      "pc_init_bitmap bm 0xFF (get_total_sector sb) = Some bm1" "mark_reserved_sectors bm1 0 sb = Some (bm2, block)"
      by (auto simp: fat_read_bitmap_info_def g bind_eq_Some_conv Let_def)
    have wf2: "bm_wf n bm \<longrightarrow> bm_wf n bm2" using bm_wf_init_any [OF c(2)] mark_reserved_wf [OF c(3)] by blast
    obtain sk w2 where l: "sys_lseek fd (fat_reserved_bytes sb) False w1 = (sk, w2)" by fastforce
    obtain st w3 where ch: "check_fat_status fd w2 = (st, w3)" by fastforce
    obtain bm3 block3 w4 where cl: "fat_clusters cc bm2 (get_total_sector sb) (unat (cluster_size sb)) block fd w3 = ((bm3, block3), w4)"
      by (metis prod.exhaust)
    have k2: "keeps w w2" using keeps_lseek [OF l k1(1) none] .
    have k3: "keeps w w3" using keeps_check_fat_status [OF ch k2 none] .
    have k4: "keeps w w4" using fat_clusters_keeps(1) [OF cl k3 none] .
    show ?thesis
      using assms Some keeps_close [OF k3 none] keeps_close [OF k4 none] wf2 fat_clusters_keeps(2) [OF cl, of n]
      by (auto simp: fat_read_bitmap_info_def g c l ch cl Let_def split: if_splits)
  qed
  then show "keeps w w'" and "bm_wf n bm \<Longrightarrow> bm_wf n bm'" by blast+
qed

interpretation fat: fs_backend_contract fatfs_backend
proof (unfold_locales, goal_cases)
  case (1 dev info w ok info' w')
  then show ?case using fat_read_super_blocks_step(1) by (simp add: fatfs_backend_def)
next
  case (2 dev info w ok info' w')
  then show ?case using fat_read_super_blocks_step(2) by (simp add: fatfs_backend_def fs_info_wf_def)
next
  case (3 dev info bm w ok bm' w')
  then show ?case using fat_read_bitmap_info_step(1) by (simp add: fatfs_backend_def)
next
  case (4 dev info bm w ok bm' w' n)
  then show ?case using fat_read_bitmap_info_step(2) by (simp add: fatfs_backend_def)
next
  case (5 info e w)
  then show ?case by (simp add: fatfs_backend_def)
qed

section \<open>The bitmap follows the allocation table\<close>

definition fat_entry_size :: "int \<Rightarrow> nat" where
  "fat_entry_size ty = (if ty = FAT_32 then 4 else 2)"

definition fat_entry_used :: "int \<Rightarrow> byte list \<Rightarrow> bool" where
  "fat_entry_used ty b =
     (if ty = FAT_16 then (le_word b :: u16) \<notin> {0, 0xFFF7}
      else if ty = FAT_32 then (le_word b :: u32) \<notin> {0, 0x0FFFFFF7}
      else drop_bit 4 (le_word b :: u16) \<notin> {0, 0xFF7})"

definition fat_status_clean :: "int \<Rightarrow> byte list \<Rightarrow> bool" where
  "fat_status_clean ty b =
     (if ty = FAT_16 then (le_word b :: u16) AND 0x8000 \<noteq> 0 \<and> (le_word b :: u16) AND 0x4000 \<noteq> 0
      else if ty = FAT_32 then (le_word b :: u32) AND 0x08000000 \<noteq> 0 \<and> (le_word b :: u32) AND 0x04000000 \<noteq> 0
      else True)"

lemma fat_types: "FAT_12 \<noteq> FAT_16" "FAT_12 \<noteq> FAT_32" "FAT_16 \<noteq> FAT_32"
  by (simp_all add: FAT_12_def FAT_16_def FAT_32_def)

lemma fat_FS_set_pos [simp]: "fat_FS (set_pos fd p w) = fat_FS w"
  by (simp add: set_pos_def split: option.split)

lemma read_into_ok:
  assumes "fd_on w fd p pos False nd" and "w_sched w = []" and "pos + length old \<le> length (i_bytes nd)"
  shows "read_into fd old w = (take (length old) (drop pos (i_bytes nd)), set_pos fd (pos + length old) w)"
  using assms by (simp add: read_into_def sys_read_def fd_on_def io_limit_def Let_def)

lemma fat_cluster_step_ok:
  assumes on: "fd_on w fd p pos False nd" and s: "w_sched w = []" and fs: "fat_FS w \<in> {FAT_12, FAT_16, FAT_32}"
    and room: "pos + fat_entry_size (fat_FS w) \<le> length (i_bytes nd)"
  shows "fat_cluster_step bm tot csize block fd w =
    (mark_cluster (fat_entry_used (fat_FS w) (take (fat_entry_size (fat_FS w)) (drop pos (i_bytes nd)))) bm tot csize block,
     set_pos fd (pos + fat_entry_size (fat_FS w)) w)"
proof -
  have r: "read_into fd (replicate n 0) w = (take n (drop pos (i_bytes nd)), set_pos fd (pos + n) w)"
    if "pos + n \<le> length (i_bytes nd)" for n
    using read_into_ok [OF on s, of "replicate n 0"] that by simp
  consider "fat_FS w = FAT_12" | "fat_FS w = FAT_16" | "fat_FS w = FAT_32" using fs by blast
  then show ?thesis
  proof cases
    case 1
    then show ?thesis using r [of 2] room fat_types
      by (simp add: fat_cluster_step_def check_fat12_entry_def fat_entry_size_def fat_entry_used_def Let_def)
  next
    case 2
    then show ?thesis using r [of 2] room fat_types
      by (simp add: fat_cluster_step_def check_fat16_entry_def fat_entry_size_def fat_entry_used_def Let_def)
  next
    case 3
    then show ?thesis using r [of 4] room fat_types
      by (simp add: fat_cluster_step_def check_fat32_entry_def fat_entry_size_def fat_entry_used_def Let_def)
  qed
qed

lemma mark_cluster_mem:
  assumes "bm_wf tot bm" and "mark_cluster used bm tot csize block = (bm', block')"
  shows "bm_wf tot bm'" and "block' = block + csize"
    and "j < tot \<Longrightarrow> bm_mem bm' j = (if block \<le> j \<and> j < block + csize then used else bm_mem bm j)"
  using assms pc.for_put_mem [OF assms(1)] pc.for_clear_mem [OF assms(1)]
  by (auto simp: mark_cluster_def split: if_splits)

lemma fat_clusters_exact:
  assumes "fd_on w fd p pos False nd" and "w_sched w = []" and "fat_FS w \<in> {FAT_12, FAT_16, FAT_32}"
    and "pos + fat_entry_size (fat_FS w) * n \<le> length (i_bytes nd)" and "bm_wf tot bm"
  shows "\<exists>bm' w'. fat_clusters n bm tot csize block fd w = ((bm', block + n * csize), w') \<and>
    (\<forall>j < tot. bm_mem bm' j =
       (if block \<le> j \<and> j < block + n * csize
        then fat_entry_used (fat_FS w) (take (fat_entry_size (fat_FS w))
               (drop (pos + fat_entry_size (fat_FS w) * ((j - block) div csize)) (i_bytes nd)))
        else bm_mem bm j))"
  using assms
proof (induction n arbitrary: bm block w pos)
  case (Suc n)
  let ?sz = "fat_entry_size (fat_FS w)" and ?w = "set_pos fd (pos + fat_entry_size (fat_FS w)) w"
  let ?u = "fat_entry_used (fat_FS w) (take ?sz (drop pos (i_bytes nd)))"
  have room: "pos + ?sz \<le> length (i_bytes nd)" using Suc.prems(4) by simp
  obtain bm1 block1 where m: "mark_cluster ?u bm tot csize block = (bm1, block1)" by fastforce
  note m1 = mark_cluster_mem [OF Suc.prems(5) m]
  have on1: "fd_on ?w fd p (pos + ?sz) False nd" using fd_on_set_pos(1) [OF Suc.prems(1)] by simp
  have p1: "w_sched ?w = []" "fat_FS ?w \<in> {FAT_12, FAT_16, FAT_32}"
    "(pos + ?sz) + fat_entry_size (fat_FS ?w) * n \<le> length (i_bytes nd)"
    using Suc.prems(2,3,4) by (simp_all add: algebra_simps)
  from Suc.IH [OF on1 p1 m1(1), of block1] obtain bm' w' where
      run: "fat_clusters n bm1 tot csize block1 fd ?w = ((bm', block1 + n * csize), w')"
    and mem: "\<forall>j < tot. bm_mem bm' j = (if block1 \<le> j \<and> j < block1 + n * csize
        then fat_entry_used (fat_FS w) (take ?sz (drop (pos + ?sz + ?sz * ((j - block1) div csize)) (i_bytes nd)))
        else bm_mem bm1 j)"
    by auto
  have "fat_clusters (Suc n) bm tot csize block fd w = ((bm', block + Suc n * csize), w')"
    using run m1(2) by (simp only: fat_clusters_Suc fat_cluster_step_ok [OF Suc.prems(1-3) room] m Let_def prod.case)
      (simp add: add.assoc)
  moreover have "bm_mem bm' j = (if block \<le> j \<and> j < block + Suc n * csize
        then fat_entry_used (fat_FS w) (take ?sz (drop (pos + ?sz * ((j - block) div csize)) (i_bytes nd)))
        else bm_mem bm j)" if j: "j < tot" for j
  proof (cases "block1 \<le> j")
    case True
    then have j': "block + csize \<le> j" using m1(2) by simp
    show ?thesis
    proof (cases "csize = 0")
      case True
      then show ?thesis using mem j m1 by auto
    next
      case False
      then have "(j - block) div csize = (j - block1) div csize + 1"
        using j' m1(2) div_add_self2 [of csize "j - block1"] by simp
      then show ?thesis using mem j m1(2,3) j' by (auto simp: algebra_simps)
    qed
  next
    case False
    then show ?thesis using mem j m1(2,3) by auto
  qed
  ultimately show ?case by blast
qed auto

lemma mark_reserved_mem:
  assumes "mark_reserved_sectors bm 0 sb = Some (bm', block)" and "bm_wf (get_total_sector sb) bm"
    and "\<forall>j < get_total_sector sb. bm_mem bm j"
  shows "bm_wf (get_total_sector sb) bm'" and "\<forall>j < get_total_sector sb. bm_mem bm' j"
    and "get_root_sec sb = Some rs \<Longrightarrow> block = unat (reserved sb) + unat (fats sb) * get_sec_per_fat sb + rs"
proof -
  show "bm_wf (get_total_sector sb) bm'" using assms(1,2) by (rule mark_reserved_wf)
  show "get_root_sec sb = Some rs \<Longrightarrow> block = unat (reserved sb) + unat (fats sb) * get_sec_per_fat sb + rs"
    using assms(1) by (auto simp: mark_reserved_sectors_def Let_def)
  show "\<forall>j < get_total_sector sb. bm_mem bm' j"
    using assms by (auto simp: mark_reserved_sectors_def bind_eq_Some_conv Let_def pc.for_put_mem)
qed

lemma check_fat_status_clean:
  assumes on: "fd_on w fd p pos False nd" and s: "w_sched w = []" and fs: "fat_FS w \<in> {FAT_16, FAT_32}"
    and room: "pos + fat_entry_size (fat_FS w) \<le> length (i_bytes nd)"
    and clean: "fat_status_clean (fat_FS w) (take (fat_entry_size (fat_FS w)) (drop pos (i_bytes nd)))"
  shows "check_fat_status fd w = (0, set_pos fd (pos + fat_entry_size (fat_FS w)) w)"
proof -
  have r: "read_into fd (replicate n (w_junk w)) w = (take n (drop pos (i_bytes nd)), set_pos fd (pos + n) w)"
    if "pos + n \<le> length (i_bytes nd)" for n
    using read_into_ok [OF on s, of "replicate n (w_junk w)"] that by simp
  show ?thesis
    using fs r [of 2] r [of 4] room clean fat_types
    by (auto simp: check_fat_status_def fat_entry_size_def fat_status_clean_def Let_def)
qed

text \<open>Where the data clusters of a FAT file system start.\<close>

definition fat_data_start :: "FatBootSector \<Rightarrow> nat \<Rightarrow> nat" where
  "fat_data_start sb root_sec = unat (reserved sb) + unat (fats sb) * get_sec_per_fat sb + root_sec"

text \<open>Entry \<open>i\<close> of the table on a device.\<close>

definition fat_entry :: "int \<Rightarrow> FatBootSector \<Rightarrow> byte list \<Rightarrow> nat \<Rightarrow> byte list" where
  "fat_entry ty sb bytes i =
     take (fat_entry_size ty) (drop (unat (sector_size sb) * unat (reserved sb) + fat_entry_size ty * i) bytes)"

lemma fat_scan_exact:
  assumes "w_nodes w dev = Some nd" and "i_readable nd" and "fd_lookup w 0 \<noteq> None" and "w_sched w = []" and "allocs_ok w"
    and "fat_FS w \<in> {FAT_16, FAT_32}" and "512 \<le> length (i_bytes nd)" and "sb = parse_boot (take 512 (i_bytes nd))"
    and "get_root_sec sb = Some root_sec" and "get_cluster_count sb = Some n" and "bm_wf (get_total_sector sb) bm"
    and "get_total_sector sb < 2 ^ 63" and "i_kind nd \<noteq> FIFO" and "length (i_bytes nd) < 2 ^ 63"
    and "unat (sector_size sb) * unat (reserved sb) < 2 ^ 31"
    and "unat (sector_size sb) * unat (reserved sb) + fat_entry_size (fat_FS w) * (n + 1) \<le> length (i_bytes nd)"
    and "fat_status_clean (fat_FS w) (fat_entry (fat_FS w) sb (i_bytes nd) 0)"
  shows "\<exists>bm' w'. fat_read_bitmap_info dev info bm w = Some (True, bm', w') \<and>
    (\<forall>j < get_total_sector sb. bm_mem bm' j =
      (if fat_data_start sb root_sec \<le> j \<and> j < fat_data_start sb root_sec + n * unat (cluster_size sb)
       then fat_entry_used (fat_FS w) (fat_entry (fat_FS w) sb (i_bytes nd)
              ((j - fat_data_start sb root_sec) div unat (cluster_size sb) + 1))
       else True))"
proof -
  let ?tot = "get_total_sector sb" and ?pos = "unat (sector_size sb) * unat (reserved sb)" and ?sz = "fat_entry_size (fat_FS w)"
  obtain fd w1 where al: "alloc_fd \<lparr>o_path = dev, o_pos = 0, o_write = False\<rparr> w = (fd, w1)" by fastforce
  have op: "sys_open dev rdonly w = (fd, w1)" using assms(1,2) al by (simp add: sys_open_def rdonly_def)
  obtain t where w1: "w1 = w\<lparr>w_fdtab := t\<rparr>" using alloc_fd_new(5) [OF al] by blast
  have fd: "0 < fd" using al assms(3) by (rule alloc_fd_pos)
  have on1: "fd_on w1 fd dev 0 False nd" using keeps_open_rdonly(2) [OF op] fd assms(1) by auto
  obtain a w2 where m: "sys_malloc w1 = (a, w2)" by fastforce
  obtain c where w2: "w2 = w1\<lparr>w_allocs := c\<rparr>" and a: "allocs_ok w1 \<longrightarrow> a \<and> allocs_ok w2" by (rule sys_malloc_frame [OF m])
  have a: a using a assms(5) by (simp add: w1 allocs_ok_def)
  have s2: "w_sched w2 = []" "fat_FS w2 = fat_FS w" using assms(4) by (simp_all add: w1 w2)
  have on2: "fd_on w2 fd dev 0 False nd" using on1 by (simp add: w2)
  have rd: "sys_read fd 512 w2 = (Inr (take 512 (i_bytes nd)), set_pos fd 512 w2)"
    using on2 s2 assms(7) by (simp add: sys_read_def fd_on_def io_limit_def Let_def)
  let ?w3 = "set_pos fd 512 w2"
  have g: "get_fat_fs_sector dev w = ((fd, Some sb), ?w3)"
    using fd a assms(7,8) by (simp add: get_fat_fs_sector_def op m rd)
  obtain bm1 where i1: "pc_init_bitmap bm 0xFF ?tot = Some bm1"
    using assms(11) by (auto simp: pc_init_bitmap_def bm_wf_def Let_def split: option.splits)
  have wf1: "bm_wf ?tot bm1" using bm_wf_init [OF i1 assms(11)] .
  have ones: "\<forall>j < ?tot. bm_mem bm1 j" using bm_mem_init [OF assms(12) i1] by blast
  obtain bm2 block where mr: "mark_reserved_sectors bm1 0 sb = Some (bm2, block)"
    using assms(9) by (simp add: mark_reserved_sectors_def Let_def)
  note r = mark_reserved_mem [OF mr wf1 ones]
  have blk: "block = fat_data_start sb root_sec" using r(3) [OF assms(9)] by (simp add: fat_data_start_def)
  have on3: "fd_on ?w3 fd dev 512 False nd" using fd_on_set_pos(1) [OF on2] by simp
  have off: "fat_reserved_bytes sb = int ?pos" using assms(15) by (simp add: fat_reserved_bytes_def to_int32_small)
  have ple: "?pos \<le> length (i_bytes nd)" using assms(16) by simp
  have l: "sys_lseek fd (fat_reserved_bytes sb) False ?w3 = (int ?pos, set_pos fd ?pos w2)"
    unfolding off using sys_lseek_ok [OF on3 assms(13) ple assms(14)] by simp
  let ?w4 = "set_pos fd ?pos w2"
  have on4: "fd_on ?w4 fd dev ?pos False nd" using fd_on_set_pos(1) [OF on2] by simp
  have fs4: "w_sched ?w4 = []" "fat_FS ?w4 = fat_FS w" using s2 by simp_all
  have ck: "check_fat_status fd ?w4 = (0, set_pos fd (?pos + ?sz) ?w4)"
    using check_fat_status_clean [OF on4 fs4(1), unfolded fs4(2)] assms(6,16,17) by (simp add: fat_entry_def)
  let ?w5 = "set_pos fd (?pos + ?sz) ?w4"
  have on5: "fd_on ?w5 fd dev (?pos + ?sz) False nd" using fd_on_set_pos(1) [OF on4] by simp
  have fs5: "w_sched ?w5 = []" "fat_FS ?w5 \<in> {FAT_12, FAT_16, FAT_32}" "fat_FS ?w5 = fat_FS w"
    using s2 assms(6) by simp_all
  have room5: "?pos + ?sz + fat_entry_size (fat_FS ?w5) * n \<le> length (i_bytes nd)"
    unfolding fs5(3) using assms(16) by (simp add: algebra_simps)
  obtain bm3 w6 where cl: "fat_clusters n bm2 ?tot (unat (cluster_size sb)) block fd ?w5 =
      ((bm3, block + n * unat (cluster_size sb)), w6)"
    and mem: "\<forall>j < ?tot. bm_mem bm3 j = (if block \<le> j \<and> j < block + n * unat (cluster_size sb)
        then fat_entry_used (fat_FS w) (take ?sz (drop (?pos + ?sz + ?sz * ((j - block) div unat (cluster_size sb))) (i_bytes nd)))
        else bm_mem bm2 j)"
    using fat_clusters_exact [OF on5 fs5(1,2) room5 r(1), of "unat (cluster_size sb)" block] unfolding fs5(3) by blast
  have "fat_read_bitmap_info dev info bm w = Some (True, bm3, sys_close fd w6)"
    using g assms(10) i1 mr l ck cl by (simp add: fat_read_bitmap_info_def)
  moreover have "\<forall>j < ?tot. bm_mem bm3 j =
      (if fat_data_start sb root_sec \<le> j \<and> j < fat_data_start sb root_sec + n * unat (cluster_size sb)
       then fat_entry_used (fat_FS w) (fat_entry (fat_FS w) sb (i_bytes nd)
              ((j - fat_data_start sb root_sec) div unat (cluster_size sb) + 1))
       else True)"
    using mem r(2) by (simp add: blk fat_entry_def algebra_simps)
  ultimately show ?thesis by blast
qed

section \<open>Properties\<close>

text \<open>
  C23: What the FAT scan puts into the bitmap, for FAT16 and FAT32 when every read is complete. All blocks
  outside the data clusters are marked used. The blocks of data cluster \<open>k\<close> are marked by table entry
  \<open>k + 1\<close>: free exactly when this entry is 0 or the bad-cluster mark. The on-disk format describes data
  cluster \<open>k\<close> in entry \<open>k + 2\<close>; \<^verbatim>\<open>check_fat_status\<close> skips only one of the two reserved entries.
\<close>

theorem fat_bitmap_from_table:
  assumes "w_nodes w dev = Some nd" and "i_readable nd" and "fd_lookup w 0 \<noteq> None" and "w_sched w = []" and "allocs_ok w"
    and "fat_FS w \<in> {FAT_16, FAT_32}" and "512 \<le> length (i_bytes nd)" and "sb = parse_boot (take 512 (i_bytes nd))"
    and "get_root_sec sb = Some root_sec" and "get_cluster_count sb = Some n" and "bm_wf (get_total_sector sb) bm"
    and "get_total_sector sb < 2 ^ 63" and "i_kind nd \<noteq> FIFO" and "length (i_bytes nd) < 2 ^ 63"
    and "unat (sector_size sb) * unat (reserved sb) < 2 ^ 31"
    and "unat (sector_size sb) * unat (reserved sb) + fat_entry_size (fat_FS w) * (n + 1) \<le> length (i_bytes nd)"
    and "fat_status_clean (fat_FS w) (fat_entry (fat_FS w) sb (i_bytes nd) 0)"
  shows "\<exists>bm' w'. fat_read_bitmap_info dev info bm w = Some (True, bm', w') \<and>
    (\<forall>j < get_total_sector sb. bm_mem bm' j =
      (if fat_data_start sb root_sec \<le> j \<and> j < fat_data_start sb root_sec + n * unat (cluster_size sb)
       then fat_entry_used (fat_FS w) (fat_entry (fat_FS w) sb (i_bytes nd)
              ((j - fat_data_start sb root_sec) div unat (cluster_size sb) + 1))
       else True))"
  using assms by (rule fat_scan_exact)

text \<open>
  A FAT16 device of eight sectors: one reserved sector, one table, one sector for the root directory and
  five clusters. Entries 0 and 1 are reserved, entry 2 is free, and entry 3 holds a file.
\<close>

definition tiny_fat :: inode where
  "tiny_fat =
     \<lparr>i_kind = BLK,
      i_bytes = replicate 11 0 @ [0, 2, 1, 1, 0, 1, 16, 0, 8, 0, 0xF8, 1, 0] @ replicate 488 0 @
        [0xF8, 0xFF, 0xFF, 0xFF, 0, 0, 0xFF, 0xFF] @ replicate 3576 0,
      i_dirty = False, i_readable = True, i_writable = True\<rparr>"

definition tiny_fat_world :: world where
  "tiny_fat_world = (engine_world tiny_fat 0 tiny_fat 0)\<lparr>w_sched := [], fat_FS := FAT_16\<rparr>"

definition tiny_boot :: FatBootSector where
  "tiny_boot =
     \<lparr>sector_size = 512, cluster_size = 1, reserved = 1, fats = 1, dir_entries = 16, sectors = 8, fat_length = 1,
      sector_count = 0, fat16_ext_signature = 0, fat32_fat_length = 0, fat32_fat_name_4 = 0\<rparr>"

lemma le_word_zeros: "le_word (replicate n 0) = 0"
  by (induction n) simp_all

lemma tiny_boot_parsed: "parse_boot (take 512 (i_bytes tiny_fat)) = tiny_boot"
  by (simp add: parse_boot_def tiny_fat_def tiny_boot_def field_def le_word_zeros)

lemma tiny_fat_facts:
  "w_nodes tiny_fat_world ''s'' = Some tiny_fat" "i_readable tiny_fat" "fd_lookup tiny_fat_world 0 \<noteq> None"
  "w_sched tiny_fat_world = []" "allocs_ok tiny_fat_world" "fat_FS tiny_fat_world \<in> {FAT_16, FAT_32}"
  "512 \<le> length (i_bytes tiny_fat)" "tiny_boot = parse_boot (take 512 (i_bytes tiny_fat))"
  "get_root_sec tiny_boot = Some 1" "get_cluster_count tiny_boot = Some 5" "bm_wf (get_total_sector tiny_boot) (Some [0])"
  "get_total_sector tiny_boot < 2 ^ 63" "i_kind tiny_fat \<noteq> FIFO" "length (i_bytes tiny_fat) < 2 ^ 63"
  "unat (sector_size tiny_boot) * unat (reserved tiny_boot) < 2 ^ 31"
  "unat (sector_size tiny_boot) * unat (reserved tiny_boot) + fat_entry_size (fat_FS tiny_fat_world) * (5 + 1) \<le> length (i_bytes tiny_fat)"
  "fat_status_clean (fat_FS tiny_fat_world) (fat_entry (fat_FS tiny_fat_world) tiny_boot (i_bytes tiny_fat) 0)"
proof -
  show "tiny_boot = parse_boot (take 512 (i_bytes tiny_fat))" by (simp add: tiny_boot_parsed)
qed (simp_all add: tiny_fat_world_def engine_world_def tiny_fat_def tiny_boot_def fd_lookup_def allocs_ok_def get_root_sec_def
      cdiv_def get_cluster_count_def get_total_sector_def get_sec_per_fat_def bm_wf_def fat_entry_size_def fat_types
      fat_status_clean_def fat_entry_def)

theorem fat_bitmap_from_table_witness:
  "\<exists>bm' w'. fat_read_bitmap_info ''s'' engine_info (Some [0]) tiny_fat_world = Some (True, bm', w') \<and>
    (\<forall>j < get_total_sector tiny_boot. bm_mem bm' j =
      (if fat_data_start tiny_boot 1 \<le> j \<and> j < fat_data_start tiny_boot 1 + 5 * unat (cluster_size tiny_boot)
       then fat_entry_used (fat_FS tiny_fat_world) (fat_entry (fat_FS tiny_fat_world) tiny_boot (i_bytes tiny_fat)
              ((j - fat_data_start tiny_boot 1) div unat (cluster_size tiny_boot) + 1))
       else True))"
  by (rule fat_bitmap_from_table) (rule tiny_fat_facts)+

text \<open>
  A consequence on a concrete device: the second data cluster holds a file (its entry, number 3, is an
  end-of-chain mark), the scan succeeds, and the block of this cluster is marked unused. A backup of this
  device omits the file's data and reports success.
\<close>

theorem fat_used_cluster_omitted:
  "\<exists>bm' w'. fat_read_bitmap_info ''s'' engine_info (Some [0]) tiny_fat_world = Some (True, bm', w') \<and>
    fat_entry_used FAT_16 (fat_entry FAT_16 tiny_boot (i_bytes tiny_fat) 3) \<and> pc_test_bit 4 bm' 8 = 0"
proof -
  have scan: "\<exists>bm' w'. fat_read_bitmap_info ''s'' engine_info (Some [0]) tiny_fat_world = Some (True, bm', w') \<and>
    (\<forall>j < get_total_sector tiny_boot. bm_mem bm' j =
      (if fat_data_start tiny_boot 1 \<le> j \<and> j < fat_data_start tiny_boot 1 + 5 * unat (cluster_size tiny_boot)
       then fat_entry_used (fat_FS tiny_fat_world) (fat_entry (fat_FS tiny_fat_world) tiny_boot (i_bytes tiny_fat)
              ((j - fat_data_start tiny_boot 1) div unat (cluster_size tiny_boot) + 1))
       else True))"
    by (rule fat_scan_exact) (rule tiny_fat_facts)+
  then obtain bm' w' where run: "fat_read_bitmap_info ''s'' engine_info (Some [0]) tiny_fat_world = Some (True, bm', w')"
    and mem: "\<forall>j < get_total_sector tiny_boot. bm_mem bm' j =
      (if fat_data_start tiny_boot 1 \<le> j \<and> j < fat_data_start tiny_boot 1 + 5 * unat (cluster_size tiny_boot)
       then fat_entry_used (fat_FS tiny_fat_world) (fat_entry (fat_FS tiny_fat_world) tiny_boot (i_bytes tiny_fat)
              ((j - fat_data_start tiny_boot 1) div unat (cluster_size tiny_boot) + 1))
       else True)" by blast
  have wf: "bm_wf 8 bm'" using fat_read_bitmap_info_step(2) [OF run, of 8] by (simp add: bm_wf_def)
  have "\<not> bm_mem bm' 4"
    using mem [rule_format, of 4]
    by (simp add: tiny_boot_def get_total_sector_def fat_data_start_def get_sec_per_fat_def tiny_fat_world_def
        fat_entry_def fat_entry_size_def fat_types tiny_fat_def fat_entry_used_def)
  moreover have "fat_entry_used FAT_16 (fat_entry FAT_16 tiny_boot (i_bytes tiny_fat) 3)"
    by (simp add: tiny_boot_def fat_entry_def fat_entry_size_def fat_types tiny_fat_def fat_entry_used_def)
  ultimately show ?thesis using run pc.test_in [OF wf, of 4] by auto
qed

end
