(* ===== verification/Xfsfs.thy ===== *)
theory Xfsfs
  imports Confinement
begin

text \<open>
  \<^verbatim>\<open>src/src/gdbus-xfsfs.c\<close>: XFS. The vendored libxfs is a parameter: the record \<open>libxfs\<close> holds what
  \<^verbatim>\<open>libxfs_init\<close>, \<^verbatim>\<open>libxfs_mount\<close> (on the superblock bytes that \<^verbatim>\<open>get_sb\<close> read) and \<^verbatim>\<open>libxfs_readbuf\<close>
  return for the blocks that the scan visits. The bitmap starts with every block used, and the
  scan clears the blocks of the free list and of the free-space B+tree of every allocation group.
\<close>

section \<open>Definitions\<close>

text \<open>A buffer: \<^verbatim>\<open>NULL\<close>, one without data, or one with its content.\<close>

datatype 'a readbuf = RB_Null | RB_NoData | RB_Data 'a

record xfs_agf =
  agf_seqno :: u32
  agf_flcount :: u32
  agf_flfirst :: u32
  agf_fllast :: u32
  agf_root_bno :: u32
  agf_level_bno :: u32

record xfs_btree_block =
  bb_magic :: u32
  bb_recs :: "(u32 \<times> u32) list"
  bb_ptrs :: "u32 list"

record libxfs =
  libxfs_init :: "string \<Rightarrow> world \<Rightarrow> bool"
  libxfs_mount :: "byte list \<Rightarrow> xfs_mount option"
  read_agf :: "nat \<Rightarrow> xfs_agf readbuf"
  read_agfl :: "u32 \<Rightarrow> u32 list readbuf"
  read_btree :: "u32 \<Rightarrow> u32 \<Rightarrow> xfs_btree_block readbuf"

definition XFS_MAX_SECTORSIZE :: nat where "XFS_MAX_SECTORSIZE = 32768"
definition XFS_ABTB_MAGIC :: u32 where "XFS_ABTB_MAGIC = 0x41425442"
definition XFS_ABTB_CRC_MAGIC :: u32 where "XFS_ABTB_CRC_MAGIC = 0x41423342"

text \<open>
  \<^verbatim>\<open>count\<close> is an \<open>int\<close>; the end of the loop is computed in 64 bits.
\<close>

definition xfs_set_bitmap :: "bitmap \<Rightarrow> nat \<Rightarrow> nat \<Rightarrow> int \<Rightarrow> bitmap" where
  "xfs_set_bitmap bitmap total_block start_block blocks =
     (let end_block = nat ((int start_block + blocks) mod 2 ^ 64)
      in for_blocks pc_clear_bit total_block start_block (end_block - start_block) bitmap)"

definition get_sb :: "libxfs \<Rightarrow> int \<Rightarrow> int \<Rightarrow> nat \<Rightarrow> world \<Rightarrow> byte list option \<times> world" where
  "get_sb lib source_fd off sz w =
     (let (buf, w) = sys_malloc w
      in if \<not> buf then (None, w)
         else (let (r, w) = sys_lseek source_fd off False w
               in if r \<noteq> off then (None, w)
                  else (case sys_read source_fd sz w of
                          (Inl e, w) \<Rightarrow> (None, w)
                        | (Inr d, w) \<Rightarrow> if length d \<noteq> sz then (None, w) else (Some d, w))))"

text \<open>
  \<^verbatim>\<open>source_fd\<close> is opened by every call and closed by none. \<^verbatim>\<open>libxfs_mount\<close> returns its first argument,
  so \<^verbatim>\<open>mp\<close> points to \<^verbatim>\<open>mbuf\<close> once a call has mounted, and \<^verbatim>\<open>memset\<close> clears what it points to.
\<close>

definition zero_mount :: xfs_mount where
  "zero_mount =
     \<lparr>sb_blocksize = 0, sb_sectsize = 0, sb_dblocks = 0, sb_fdblocks = 0, sb_agcount = 0, sb_agblocks = 0,
      sb_inprogress = 0, sb_logstart = 0, sb_rextents = 0, agfl_size = 0\<rparr>"

definition xfs_fs_open :: "libxfs \<Rightarrow> string \<Rightarrow> world \<Rightarrow> bool \<times> world" where
  "xfs_fs_open lib device w =
     (let (source_fd, w) = sys_open device rdonly w
      in if source_fd < 0 then (False, w)
         else if \<not> libxfs_init lib device w then (False, w)
         else (case get_sb lib source_fd 0 XFS_MAX_SECTORSIZE
                      (w\<lparr>xfs_mp := map_option (\<lambda>_. zero_mount) (xfs_mp w)\<rparr>) of
                 (None, w) \<Rightarrow> (False, w)
               | (Some sb, w) \<Rightarrow>
                   (let w = w\<lparr>xfs_mp := libxfs_mount lib sb\<rparr>
                    in case xfs_mp w of
                         None \<Rightarrow> (False, w)
                       | Some mp \<Rightarrow>
                           if sb_inprogress mp \<noteq> 0 then (False, w)
                           else if sb_logstart mp = 0 then (False, w)
                           else if sb_rextents mp \<noteq> 0 then (False, w)
                           else if unat (sb_blocksize mp) < unat (sb_sectsize mp) then (False, w)
                           else (True, w))))"

text \<open>The block number is computed in 32 bits before it is stored in 64.\<close>

definition addtohist :: "xfs_mount \<Rightarrow> nat \<Rightarrow> u32 \<Rightarrow> u32 \<Rightarrow> u32 \<Rightarrow> bitmap \<Rightarrow> bitmap" where
  "addtohist mp total_block agno agbno len xfs_bitmap =
     (let start_block = unat (agno * sb_agblocks mp + agbno)
      in xfs_set_bitmap xfs_bitmap total_block start_block (sint len))"

primrec addtohist_recs :: "xfs_mount \<Rightarrow> nat \<Rightarrow> u32 \<Rightarrow> (u32 \<times> u32) list \<Rightarrow> bitmap \<Rightarrow> bitmap" where
  "addtohist_recs mp total_block agno [] xfs_bitmap = xfs_bitmap"
| "addtohist_recs mp total_block agno (r # rs) xfs_bitmap =
     addtohist_recs mp total_block agno rs (addtohist mp total_block agno (fst r) (snd r) xfs_bitmap)"

text \<open>
  \<^verbatim>\<open>scan_sbtree\<close> and \<^verbatim>\<open>scanfunc_bno\<close>, which call each other, with the number of nested calls that the
  stack has room for: \<^term>\<open>None\<close> is a stack overflow or the use of a \<^verbatim>\<open>NULL\<close> buffer.
\<close>

primrec scan_sbtree ::
    "nat \<Rightarrow> libxfs \<Rightarrow> xfs_mount \<Rightarrow> nat \<Rightarrow> xfs_agf \<Rightarrow> u32 \<Rightarrow> int \<Rightarrow> bitmap \<Rightarrow> bitmap option" where
  "scan_sbtree 0 lib mp total_block agf root_bno nlevels xfs_bitmap = None"
| "scan_sbtree (Suc depth) lib mp total_block agf root_bno nlevels xfs_bitmap =
     (case read_btree lib (agf_seqno agf) root_bno of
        RB_Null \<Rightarrow> None
      | RB_NoData \<Rightarrow> Some xfs_bitmap
      | RB_Data block \<Rightarrow>
          (let level = nlevels - 1
           in if \<not> (bb_magic block = XFS_ABTB_MAGIC \<or> bb_magic block = XFS_ABTB_CRC_MAGIC)
              then Some xfs_bitmap
              else if level = 0
              then Some (addtohist_recs mp total_block (agf_seqno agf) (bb_recs block) xfs_bitmap)
              else fold_option (\<lambda>p. scan_sbtree depth lib mp total_block agf p level) (bb_ptrs block) xfs_bitmap))"

text \<open>The endless \<^verbatim>\<open>for\<close> loop of \<^verbatim>\<open>scan_freelist\<close>: both indices lie in the ring.\<close>

function freelist_loop ::
    "xfs_mount \<Rightarrow> nat \<Rightarrow> u32 \<Rightarrow> u32 list \<Rightarrow> nat \<Rightarrow> nat \<Rightarrow> bitmap \<Rightarrow> bitmap" where
  "freelist_loop mp total_block seqno agfl_bno i fllast xfs_bitmap =
     (let xfs_bitmap = addtohist mp total_block seqno (agfl_bno ! i) 1 xfs_bitmap
      in if i = fllast \<or> agfl_size mp \<le> fllast \<or> agfl_size mp \<le> i then xfs_bitmap
         else freelist_loop mp total_block seqno agfl_bno (if i + 1 = agfl_size mp then 0 else i + 1)
                fllast xfs_bitmap)"
  by pat_completeness auto
termination
  by (relation "measure (\<lambda>(mp, tb, seqno, agfl_bno, i, fllast, bm).
        if i \<le> fllast then fllast - i else agfl_size mp - i + fllast)") auto

declare freelist_loop.simps [simp del]

definition scan_freelist :: "libxfs \<Rightarrow> xfs_mount \<Rightarrow> nat \<Rightarrow> xfs_agf \<Rightarrow> bitmap \<Rightarrow> bitmap option" where
  "scan_freelist lib mp total_block agf xfs_bitmap =
     (if agf_flcount agf = 0 then Some xfs_bitmap
      else (case read_agfl lib (agf_seqno agf) of
              RB_Null \<Rightarrow> None
            | RB_NoData \<Rightarrow> None
            | RB_Data agfl_bno \<Rightarrow>
                if agfl_size mp \<le> unat (agf_flfirst agf) \<or> agfl_size mp \<le> unat (agf_fllast agf)
                then Some xfs_bitmap
                else Some (freelist_loop mp total_block (agf_seqno agf) agfl_bno (unat (agf_flfirst agf))
                             (unat (agf_fllast agf)) xfs_bitmap)))"

definition scan_ag :: "nat \<Rightarrow> libxfs \<Rightarrow> xfs_mount \<Rightarrow> nat \<Rightarrow> nat \<Rightarrow> bitmap \<Rightarrow> bitmap option" where
  "scan_ag depth lib mp total_block agno xfs_bitmap =
     (case read_agf lib agno of
        RB_Null \<Rightarrow> None
      | RB_NoData \<Rightarrow> None
      | RB_Data agf \<Rightarrow> do {
          xfs_bitmap \<leftarrow> scan_freelist lib mp total_block agf xfs_bitmap;
          scan_sbtree depth lib mp total_block agf (agf_root_bno agf) (sint (agf_level_bno agf)) xfs_bitmap
        })"

text \<open>
  The result of \<^verbatim>\<open>fs_open\<close> is ignored: the scan uses the \<^verbatim>\<open>mp\<close> of an earlier call when this one did
  not get to the mount.
\<close>

definition xfs_read_bitmap_info ::
    "nat \<Rightarrow> libxfs \<Rightarrow> string \<Rightarrow> file_system_info \<Rightarrow> bitmap \<Rightarrow> world \<Rightarrow> (bool \<times> bitmap \<times> world) option" where
  "xfs_read_bitmap_info depth lib device info bitmap w =
     do {
       let total_block = unat (totalblock info);
       let bitmap = for_blocks pc_set_bit total_block 0 total_block bitmap;
       let (_, w) = xfs_fs_open lib device w;
       mp \<leftarrow> xfs_mp w;
       bitmap \<leftarrow> fold_option (scan_ag depth lib mp total_block) [0..<unat (sb_agcount mp)] bitmap;
       Some (True, bitmap, w)
     }"

definition xfs_MAGIC :: "byte list" where "xfs_MAGIC = cstr ''XFS''"

definition xfs_read_super_blocks ::
    "libxfs \<Rightarrow> string \<Rightarrow> file_system_info \<Rightarrow> world \<Rightarrow> (bool \<times> file_system_info \<times> world) option" where
  "xfs_read_super_blocks lib device info w =
     (let (ok, w) = xfs_fs_open lib device w
      in if \<not> ok then Some (False, info, w)
         else (case xfs_mp w of
                 None \<Rightarrow> None
               | Some mp \<Rightarrow>
                   Some (True,
                         info\<lparr>fs := strncpy (fs info) xfs_MAGIC 15, block_size := sb_blocksize mp,
                              totalblock := sb_dblocks mp, usedblocks := sb_dblocks mp - sb_fdblocks mp,
                              device_size := sb_dblocks mp * ucast (sb_blocksize mp)\<rparr>, w)))"

section \<open>Handlers\<close>

definition xfsfs_backend :: "nat \<Rightarrow> libxfs \<Rightarrow> fs_backend" where
  "xfsfs_backend depth lib =
     \<lparr>be_super = xfs_read_super_blocks lib, be_bitmap = xfs_read_bitmap_info depth lib,
      be_block_size = (\<lambda>info w. unat (block_size info))\<rparr>"

definition xfs_check_system_space :: "file_system_info \<Rightarrow> string \<Rightarrow> image_options \<Rightarrow> world \<Rightarrow> bool" where
  "xfs_check_system_space = check_system_space"

definition xfs_get_read_blocks_size :: "nat \<Rightarrow> nat \<Rightarrow> bitmap \<Rightarrow> nat \<Rightarrow> nat \<times> nat" where
  "xfs_get_read_blocks_size = get_read_blocks_size"

definition xfs_read_write_data_ptf ::
    "file_system_info \<Rightarrow> image_options \<Rightarrow> bitmap \<Rightarrow> int \<Rightarrow> int \<Rightarrow> nat \<Rightarrow> world \<Rightarrow> (bool \<times> world) option" where
  "xfs_read_write_data_ptf info = read_write_data_ptf True (unat (block_size info)) info"

definition xfs_read_write_data_ptp ::
    "file_system_info \<Rightarrow> bitmap \<Rightarrow> int \<Rightarrow> int \<Rightarrow> world \<Rightarrow> (bool \<times> world) option" where
  "xfs_read_write_data_ptp info = read_write_data_ptp (unat (block_size info)) info"

definition gdbus_sysbak_xfsfs_ptf ::
    "nat \<Rightarrow> libxfs \<Rightarrow> string \<Rightarrow> string \<Rightarrow> bool \<Rightarrow> world \<Rightarrow> (bool \<times> world) option" where
  "gdbus_sysbak_xfsfs_ptf depth lib = backup_ptf ''sysbak_xfsfs_ptf'' False True False (xfsfs_backend depth lib)"

definition gdbus_sysbak_xfsfs_ptp ::
    "nat \<Rightarrow> libxfs \<Rightarrow> string \<Rightarrow> string \<Rightarrow> bool \<Rightarrow> world \<Rightarrow> (bool \<times> world) option" where
  "gdbus_sysbak_xfsfs_ptp depth lib = backup_ptp ''sysbak_xfsfs_ptp'' (xfsfs_backend depth lib)"

section \<open>The contract of the handlers\<close>

lemma get_sb_keeps:
  assumes "get_sb lib fd off sz w' = (r, w'')" and "keeps w w'" and none: "fd_lookup w fd = None"
  shows "keeps w w''"
proof -
  obtain a w1 where m: "sys_malloc w' = (a, w1)" by fastforce
  obtain sk w2 where l: "sys_lseek fd off False w1 = (sk, w2)" by fastforce
  obtain x w3 where rd: "sys_read fd sz w2 = (x, w3)" by fastforce
  have k1: "keeps w w1" using assms(2) keeps_malloc [OF m] by (rule keeps_trans)
  have k2: "keeps w w2" using keeps_lseek [OF l k1 none] .
  have k3: "keeps w w3" using keeps_read [OF rd k2 none] .
  show ?thesis using assms(1) k1 k2 k3 by (auto simp: get_sb_def m l rd Let_def split: if_splits sum.splits)
qed

lemma xfs_fs_open_keeps: "xfs_fs_open lib dev w = (ok, w') \<Longrightarrow> keeps w w'"
proof -
  assume o: "xfs_fs_open lib dev w = (ok, w')"
  obtain fd w1 where op: "sys_open dev rdonly w = (fd, w1)" by fastforce
  let ?w1 = "w1\<lparr>xfs_mp := map_option (\<lambda>_. zero_mount) (xfs_mp w1)\<rparr>"
  obtain r w2 where g: "get_sb lib fd 0 XFS_MAX_SECTORSIZE ?w1 = (r, w2)" by fastforce
  note k = keeps_open_rdonly [OF op]
  have k1: "keeps w ?w1" using k(1) keeps_statics(3) by (rule keeps_trans)
  have k2: "0 \<le> fd \<Longrightarrow> keeps w w2" using get_sb_keeps [OF g k1] k(2) by auto
  have k3: "0 \<le> fd \<Longrightarrow> keeps w (w2\<lparr>xfs_mp := m\<rparr>)" for m using k2 keeps_statics(3) by (blast intro: keeps_trans)
  show ?thesis using o k(1) k2 k3
    by (auto simp: xfs_fs_open_def op g Let_def split: if_splits option.splits)
qed

lemma xfs_set_bitmap_wf [simp]: "bm_wf n bm \<Longrightarrow> bm_wf n (xfs_set_bitmap bm tot a b)"
  by (simp add: xfs_set_bitmap_def Let_def)

lemma addtohist_wf [simp]: "bm_wf n bm \<Longrightarrow> bm_wf n (addtohist mp tot agno agbno len bm)"
  by (simp add: addtohist_def Let_def)

lemma addtohist_recs_wf [simp]: "bm_wf n bm \<Longrightarrow> bm_wf n (addtohist_recs mp tot agno rs bm)"
  by (induction rs arbitrary: bm) simp_all

lemma freelist_loop_wf: "bm_wf n bm \<Longrightarrow> bm_wf n (freelist_loop mp tot seqno bno i fllast bm)"
proof (induction mp tot seqno bno i fllast bm rule: freelist_loop.induct)
  case (1 mp tot seqno bno i fllast bm)
  then show ?case by (subst freelist_loop.simps) (auto simp: Let_def)
qed

lemma scan_sbtree_wf: "scan_sbtree depth lib mp tot agf root_bno nl bm = Some bm' \<Longrightarrow> bm_wf n bm \<Longrightarrow> bm_wf n bm'"
proof (induction depth arbitrary: root_bno nl bm bm')
  case (Suc depth)
  show ?case
  proof (cases "read_btree lib (agf_seqno agf) root_bno")
    case (RB_Data b)
    then show ?thesis
      using Suc.prems fold_option_invariant [of "\<lambda>p. scan_sbtree depth lib mp tot agf p (nl - 1)" "bb_ptrs b" bm bm' "bm_wf n"]
        Suc.IH by (auto simp: Let_def split: if_splits)
  qed (use Suc.prems in auto)
qed simp

lemma scan_ag_wf: "scan_ag depth lib mp tot agno bm = Some bm' \<Longrightarrow> bm_wf n bm \<Longrightarrow> bm_wf n bm'"
  by (auto simp: scan_ag_def scan_freelist_def bind_eq_Some_conv freelist_loop_wf
      split: readbuf.splits if_splits dest!: scan_sbtree_wf)

lemma xfs_read_bitmap_info_step:
  assumes "xfs_read_bitmap_info depth lib dev info bm w = Some (ok, bm', w')"
  shows "keeps w w'" and "bm_wf n bm \<Longrightarrow> bm_wf n bm'"
proof -
  let ?tot = "unat (totalblock info)" and ?bm0 = "for_blocks pc_set_bit (unat (totalblock info)) 0 (unat (totalblock info)) bm"
  obtain r w1 where o: "xfs_fs_open lib dev w = (r, w1)" by fastforce
  obtain mp where mp: "fold_option (scan_ag depth lib mp ?tot) [0..<unat (sb_agcount mp)] ?bm0 = Some bm'" and w': "w' = w1"
    using assms by (auto simp: xfs_read_bitmap_info_def o bind_eq_Some_conv Let_def)
  show "keeps w w'" using xfs_fs_open_keeps [OF o] w' by simp
  show "bm_wf n bm'" if "bm_wf n bm"
    by (rule fold_option_invariant [OF mp, of "bm_wf n"]) (use that scan_ag_wf in auto)
qed

interpretation xfs: fs_backend_contract "xfsfs_backend depth lib" for depth lib
proof (unfold_locales, goal_cases)
  case (1 dev info w ok info' w')
  then show ?case
    by (auto simp: xfsfs_backend_def xfs_read_super_blocks_def split: prod.splits if_splits option.splits
        dest: xfs_fs_open_keeps)
next
  case (2 dev info w ok info' w')
  then show ?case
    by (auto simp: xfsfs_backend_def xfs_read_super_blocks_def fs_info_wf_def split: prod.splits if_splits option.splits)
next
  case (3 dev info bm w ok bm' w')
  then show ?case using xfs_read_bitmap_info_step(1) by (simp add: xfsfs_backend_def)
next
  case (4 dev info bm w ok bm' w' n)
  then show ?case using xfs_read_bitmap_info_step(2) by (simp add: xfsfs_backend_def)
next
  case (5 info e w)
  then show ?case by (simp add: xfsfs_backend_def)
qed

section \<open>The bitmap is exact\<close>

text \<open>Which blocks a record \<open>(agbno, len)\<close> of group \<open>agno\<close> stands for, as the code computes it.\<close>

definition xfs_covers :: "xfs_mount \<Rightarrow> u32 \<Rightarrow> u32 \<times> u32 \<Rightarrow> nat \<Rightarrow> bool" where
  "xfs_covers mp agno r j \<longleftrightarrow>
     (let s = unat (agno * sb_agblocks mp + fst r) in s \<le> j \<and> j < nat ((int s + sint (snd r)) mod 2 ^ 64))"

text \<open>The records of the free-space B+tree below a block, as far as its blocks have the right magic.\<close>

inductive bno_rec :: "libxfs \<Rightarrow> u32 \<Rightarrow> u32 \<Rightarrow> int \<Rightarrow> u32 \<times> u32 \<Rightarrow> bool" for lib seqno where
  leaf: "read_btree lib seqno b = RB_Data node \<Longrightarrow> bb_magic node \<in> {XFS_ABTB_MAGIC, XFS_ABTB_CRC_MAGIC} \<Longrightarrow>
    r \<in> set (bb_recs node) \<Longrightarrow> bno_rec lib seqno b 1 r"
| inner: "read_btree lib seqno b = RB_Data node \<Longrightarrow> bb_magic node \<in> {XFS_ABTB_MAGIC, XFS_ABTB_CRC_MAGIC} \<Longrightarrow>
    nlevels \<noteq> 1 \<Longrightarrow> p \<in> set (bb_ptrs node) \<Longrightarrow> bno_rec lib seqno p (nlevels - 1) r \<Longrightarrow> bno_rec lib seqno b nlevels r"

inductive_simps bno_rec_iff: "bno_rec lib seqno b nlevels r"

text \<open>The entries of the free list: the ring positions from \<open>a\<close> to \<open>b\<close>.\<close>

definition in_ring :: "nat \<Rightarrow> nat \<Rightarrow> nat \<Rightarrow> nat \<Rightarrow> bool" where
  "in_ring n a b k \<longleftrightarrow> (if a \<le> b then a \<le> k \<and> k \<le> b else (a \<le> k \<and> k < n) \<or> k \<le> b)"

definition freelist_rec :: "libxfs \<Rightarrow> xfs_mount \<Rightarrow> xfs_agf \<Rightarrow> u32 \<times> u32 \<Rightarrow> bool" where
  "freelist_rec lib mp agf r \<longleftrightarrow>
     agf_flcount agf \<noteq> 0 \<and> unat (agf_flfirst agf) < agfl_size mp \<and> unat (agf_fllast agf) < agfl_size mp \<and>
     (\<exists>bno k. read_agfl lib (agf_seqno agf) = RB_Data bno \<and>
        in_ring (agfl_size mp) (unat (agf_flfirst agf)) (unat (agf_fllast agf)) k \<and> r = (bno ! k, 1))"

lemma addtohist_mem:
  assumes "bm_wf tot bm" and "j < tot"
  shows "bm_mem (addtohist mp tot agno bno len bm) j = (bm_mem bm j \<and> \<not> xfs_covers mp agno (bno, len) j)"
  using assms by (auto simp: addtohist_def xfs_set_bitmap_def xfs_covers_def pc.for_clear_mem Let_def)

lemma addtohist_recs_mem:
  assumes "bm_wf tot bm" and "j < tot"
  shows "bm_mem (addtohist_recs mp tot agno rs bm) j = (bm_mem bm j \<and> \<not> (\<exists>r \<in> set rs. xfs_covers mp agno r j))"
  using assms by (induction rs arbitrary: bm) (auto simp: addtohist_mem)

lemma in_ring_step:
  "a < n \<Longrightarrow> b < n \<Longrightarrow> a \<noteq> b \<Longrightarrow> in_ring n a b k \<longleftrightarrow> k = a \<or> in_ring n (if a + 1 = n then 0 else a + 1) b k"
  by (auto simp: in_ring_def)

lemma freelist_loop_mem:
  assumes "bm_wf tot bm" and "j < tot" and "i < agfl_size mp" and "fllast < agfl_size mp"
  shows "bm_mem (freelist_loop mp tot seqno bno i fllast bm) j =
    (bm_mem bm j \<and> \<not> (\<exists>k. in_ring (agfl_size mp) i fllast k \<and> xfs_covers mp seqno (bno ! k, 1) j))"
  using assms
proof (induction mp tot seqno bno i fllast bm rule: freelist_loop.induct)
  case (1 mp tot seqno bno i fllast bm)
  let ?bm = "addtohist mp tot seqno (bno ! i) 1 bm" and ?i = "if i + 1 = agfl_size mp then 0 else i + 1"
  note hist = addtohist_mem [OF 1(2,3), of mp seqno "bno ! i" 1]
  show ?case
  proof (cases "i = fllast")
    case True
    then have "freelist_loop mp tot seqno bno i fllast bm = ?bm" by (subst freelist_loop.simps) (simp add: Let_def)
    moreover have "in_ring (agfl_size mp) i fllast k \<longleftrightarrow> k = i" for k using True by (auto simp: in_ring_def)
    ultimately show ?thesis using hist by simp
  next
    case False
    have wf: "bm_wf tot ?bm" using 1(2) by simp
    have i': "?i < agfl_size mp" using 1(4) by simp
    have cond: "\<not> (i = fllast \<or> agfl_size mp \<le> fllast \<or> agfl_size mp \<le> i)" using False 1(4,5) by simp
    have "freelist_loop mp tot seqno bno i fllast bm = freelist_loop mp tot seqno bno ?i fllast ?bm"
      using cond by (subst freelist_loop.simps) (simp only: Let_def if_False)
    moreover have "bm_mem (freelist_loop mp tot seqno bno ?i fllast ?bm) j =
        (bm_mem ?bm j \<and> \<not> (\<exists>k. in_ring (agfl_size mp) ?i fllast k \<and> xfs_covers mp seqno (bno ! k, 1) j))"
      by (rule 1(1) [OF refl cond wf 1(3) i' 1(5)])
    ultimately show ?thesis
      using hist in_ring_step [OF 1(4,5) False] by auto
  qed
qed

lemma scan_freelist_mem:
  assumes "scan_freelist lib mp tot agf bm = Some bm'" and "bm_wf tot bm" and "j < tot"
  shows "bm_mem bm' j = (bm_mem bm j \<and> \<not> (\<exists>r. freelist_rec lib mp agf r \<and> xfs_covers mp (agf_seqno agf) r j))"
proof (cases "agf_flcount agf = 0 \<or> agfl_size mp \<le> unat (agf_flfirst agf) \<or> agfl_size mp \<le> unat (agf_fllast agf)")
  case True
  then have "bm' = bm" using assms(1) by (auto simp: scan_freelist_def split: if_splits readbuf.splits)
  moreover have "\<not> freelist_rec lib mp agf r" for r using True by (auto simp: freelist_rec_def)
  ultimately show ?thesis by simp
next
  case False
  then obtain bno where bno: "read_agfl lib (agf_seqno agf) = RB_Data bno"
    and bm': "bm' = freelist_loop mp tot (agf_seqno agf) bno (unat (agf_flfirst agf)) (unat (agf_fllast agf)) bm"
    using assms(1) by (auto simp: scan_freelist_def split: if_splits readbuf.splits)
  have fr: "freelist_rec lib mp agf r \<longleftrightarrow>
      (\<exists>k. in_ring (agfl_size mp) (unat (agf_flfirst agf)) (unat (agf_fllast agf)) k \<and> r = (bno ! k, 1))" for r
    using False bno by (auto simp: freelist_rec_def)
  have "(\<exists>r. freelist_rec lib mp agf r \<and> xfs_covers mp (agf_seqno agf) r j) \<longleftrightarrow>
      (\<exists>k. in_ring (agfl_size mp) (unat (agf_flfirst agf)) (unat (agf_fllast agf)) k \<and> xfs_covers mp (agf_seqno agf) (bno ! k, 1) j)"
    unfolding fr by blast
  moreover have "unat (agf_flfirst agf) < agfl_size mp" "unat (agf_fllast agf) < agfl_size mp" using False by simp_all
  note freelist_loop_mem [OF assms(2,3) this, of "agf_seqno agf" bno, folded bm']
  ultimately show ?thesis by simp
qed

lemma fold_clears:
  assumes "fold_option f xs bm = Some bm'" and "bm_wf tot bm"
    and "\<And>x b b'. f x b = Some b' \<Longrightarrow> bm_wf tot b \<Longrightarrow> bm_wf tot b' \<and> bm_mem b' j = (bm_mem b j \<and> \<not> S x)"
  shows "bm_mem bm' j = (bm_mem bm j \<and> \<not> (\<exists>x \<in> set xs. S x))"
  using assms(1,2)
proof (induction xs arbitrary: bm)
  case (Cons x xs)
  then obtain b where b: "f x bm = Some b" "fold_option f xs b = Some bm'" by (auto simp: bind_eq_Some_conv)
  then show ?case using Cons.IH [OF b(2)] assms(3) [OF b(1) Cons.prems(2)] by auto
qed simp

lemma scan_sbtree_mem:
  assumes "scan_sbtree depth lib mp tot agf b nl bm = Some bm'" and "bm_wf tot bm" and j: "j < tot"
  shows "bm_mem bm' j = (bm_mem bm j \<and> \<not> (\<exists>r. bno_rec lib (agf_seqno agf) b nl r \<and> xfs_covers mp (agf_seqno agf) r j))"
  using assms(1,2)
proof (induction depth arbitrary: b nl bm bm')
  case (Suc depth)
  show ?case
  proof (cases "read_btree lib (agf_seqno agf) b")
    case (RB_Data node)
    let ?ok = "bb_magic node \<in> {XFS_ABTB_MAGIC, XFS_ABTB_CRC_MAGIC}"
    consider "\<not> ?ok" | "?ok" "nl = 1" | "?ok" "nl \<noteq> 1" by blast
    then show ?thesis
    proof cases
      case 1
      then show ?thesis using Suc.prems RB_Data by (simp add: bno_rec_iff [of lib _ b])
    next
      case 2
      then show ?thesis using Suc.prems RB_Data addtohist_recs_mem [OF Suc.prems(2) j]
        by (auto simp: bno_rec_iff [of lib _ b] Let_def)
    next
      case 3
      have f: "fold_option (\<lambda>p. scan_sbtree depth lib mp tot agf p (nl - 1)) (bb_ptrs node) bm = Some bm'"
        using Suc.prems(1) RB_Data 3 by (auto simp: Let_def)
      have "bm_mem bm' j = (bm_mem bm j \<and>
          \<not> (\<exists>p \<in> set (bb_ptrs node). \<exists>r. bno_rec lib (agf_seqno agf) p (nl - 1) r \<and> xfs_covers mp (agf_seqno agf) r j))"
        by (rule fold_clears [OF f Suc.prems(2)]) (use Suc.IH scan_sbtree_wf in blast)
      then show ?thesis using RB_Data 3 by (auto simp: bno_rec_iff [of lib _ b])
    qed
  next
    case RB_NoData
    then show ?thesis using Suc.prems by (simp add: bno_rec_iff [of lib _ b])
  qed (use Suc.prems in simp)
qed simp

text \<open>The free blocks of allocation group \<open>agno\<close>, by its free list and its free-space tree.\<close>

definition xfs_free_in :: "libxfs \<Rightarrow> xfs_mount \<Rightarrow> nat \<Rightarrow> nat \<Rightarrow> bool" where
  "xfs_free_in lib mp j agno \<longleftrightarrow>
     (\<exists>agf r. read_agf lib agno = RB_Data agf \<and>
        (freelist_rec lib mp agf r \<or> bno_rec lib (agf_seqno agf) (agf_root_bno agf) (sint (agf_level_bno agf)) r) \<and>
        xfs_covers mp (agf_seqno agf) r j)"

lemma scan_ag_mem:
  assumes "scan_ag depth lib mp tot agno bm = Some bm'" and "bm_wf tot bm" and j: "j < tot"
  shows "bm_mem bm' j = (bm_mem bm j \<and> \<not> xfs_free_in lib mp j agno)"
proof -
  obtain agf bm1 where agf: "read_agf lib agno = RB_Data agf" and f: "scan_freelist lib mp tot agf bm = Some bm1"
    and s: "scan_sbtree depth lib mp tot agf (agf_root_bno agf) (sint (agf_level_bno agf)) bm1 = Some bm'"
    using assms(1) by (auto simp: scan_ag_def bind_eq_Some_conv split: readbuf.splits)
  have "bm_wf tot bm1" using f assms(2) by (auto simp: scan_freelist_def freelist_loop_wf split: readbuf.splits if_splits)
  then show ?thesis
    using scan_sbtree_mem [OF s _ j] scan_freelist_mem [OF f assms(2) j] agf by (auto simp: xfs_free_in_def)
qed

section \<open>Properties\<close>

text \<open>
  C22: The bitmap of an XFS scan is exact: after a successful scan a block is marked unused exactly when
  the free list of some allocation group or a record of its free-space B+tree, of any height, covers it.
\<close>

theorem xfs_bitmap_exact:
  assumes "xfs_read_bitmap_info depth lib dev info bm w = Some (True, bm', w')" and "bm_wf (unat (totalblock info)) bm"
    and "xfs_mp w' = Some mp" and "j < unat (totalblock info)"
  shows "pc_test_bit j bm' (unat (totalblock info)) =
    (if \<exists>agno < unat (sb_agcount mp). xfs_free_in lib mp j agno then 0 else 1)"
proof -
  let ?tot = "unat (totalblock info)" and ?bm0 = "for_blocks pc_set_bit (unat (totalblock info)) 0 (unat (totalblock info)) bm"
  obtain r w1 where o: "xfs_fs_open lib dev w = (r, w1)" by fastforce
  have f: "fold_option (scan_ag depth lib mp ?tot) [0..<unat (sb_agcount mp)] ?bm0 = Some bm'"
    using assms(1,3) by (auto simp: xfs_read_bitmap_info_def o bind_eq_Some_conv Let_def)
  have wf0: "bm_wf ?tot ?bm0" using assms(2) by simp
  have "bm_mem bm' j = (bm_mem ?bm0 j \<and> \<not> (\<exists>agno \<in> set [0..<unat (sb_agcount mp)]. xfs_free_in lib mp j agno))"
    by (rule fold_clears [OF f wf0]) (use scan_ag_mem [OF _ _ assms(4)] scan_ag_wf in blast)
  moreover have "bm_mem ?bm0 j" using assms(2,4) by (simp add: pc.for_put_mem)
  ultimately show ?thesis
    using pc.test_in [OF xfs_read_bitmap_info_step(2) [OF assms(1,2)] assms(4)] by auto
qed

text \<open>One group of eight blocks: the free list holds block 2, the tree says that blocks 5 and 6 are free.\<close>

definition tiny_xfs_mount :: xfs_mount where
  "tiny_xfs_mount = zero_mount\<lparr>sb_blocksize := 4096, sb_sectsize := 512, sb_dblocks := 8, sb_fdblocks := 3, sb_agcount := 1,
     sb_agblocks := 8, sb_logstart := 1, agfl_size := 4\<rparr>"

definition tiny_libxfs :: libxfs where
  "tiny_libxfs =
     \<lparr>libxfs_init = (\<lambda>d w. True), libxfs_mount = (\<lambda>sb. Some tiny_xfs_mount),
      read_agf = (\<lambda>a. RB_Data \<lparr>agf_seqno = 0, agf_flcount = 1, agf_flfirst = 1, agf_fllast = 1, agf_root_bno = 1, agf_level_bno = 1\<rparr>),
      read_agfl = (\<lambda>a. RB_Data [0, 2, 0, 0]),
      read_btree = (\<lambda>a b. RB_Data \<lparr>bb_magic = XFS_ABTB_MAGIC, bb_recs = [(5, 2)], bb_ptrs = []\<rparr>)\<rparr>"

definition tiny_xfs_world :: world where
  "tiny_xfs_world = (engine_world engine_source 0 engine_source 0)\<lparr>xfs_mp := Some tiny_xfs_mount\<rparr>"

lemma tiny_xfs_scan:
  "\<exists>bm'. xfs_read_bitmap_info 3 tiny_libxfs ''no such device'' (init_file_system_info\<lparr>totalblock := 8\<rparr>) (Some [0]) tiny_xfs_world =
     Some (True, bm', tiny_xfs_world)"
proof -
  have o: "xfs_fs_open tiny_libxfs ''no such device'' tiny_xfs_world = (False, tiny_xfs_world)"
    by (simp add: xfs_fs_open_def sys_open_def tiny_xfs_world_def engine_world_def rdonly_def)
  show ?thesis
    unfolding xfs_read_bitmap_info_def
    by (simp add: o) (simp add: tiny_xfs_world_def tiny_xfs_mount_def zero_mount_def scan_ag_def scan_freelist_def
        tiny_libxfs_def numeral_3_eq_3)
qed

theorem xfs_bitmap_exact_witness:
  "\<exists>bm'. xfs_read_bitmap_info 3 tiny_libxfs ''no such device'' (init_file_system_info\<lparr>totalblock := 8\<rparr>) (Some [0]) tiny_xfs_world =
     Some (True, bm', tiny_xfs_world) \<and>
   pc_test_bit 5 bm' (unat (totalblock (init_file_system_info\<lparr>totalblock := 8\<rparr>))) =
     (if \<exists>agno < unat (sb_agcount tiny_xfs_mount). xfs_free_in tiny_libxfs tiny_xfs_mount 5 agno then 0 else 1)"
proof -
  obtain bm' where run: "xfs_read_bitmap_info 3 tiny_libxfs ''no such device'' (init_file_system_info\<lparr>totalblock := 8\<rparr>) (Some [0])
      tiny_xfs_world = Some (True, bm', tiny_xfs_world)"
    using tiny_xfs_scan by blast
  have "pc_test_bit 5 bm' (unat (totalblock (init_file_system_info\<lparr>totalblock := 8\<rparr>))) =
     (if \<exists>agno < unat (sb_agcount tiny_xfs_mount). xfs_free_in tiny_libxfs tiny_xfs_mount 5 agno then 0 else 1)"
    by (rule xfs_bitmap_exact [OF run]) (simp_all add: bm_wf_def tiny_xfs_world_def)
  with run show ?thesis by blast
qed

end
