(* ===== verification/Btrfs.thy ===== *)
theory Btrfs
  imports Confinement
begin

text \<open>
  \<^verbatim>\<open>src/src/gdbus-btrfs.c\<close>: Btrfs, and of the vendored btrfs library the mapping of a logical to a
  physical address (\<^verbatim>\<open>btrfs_map_block\<close> of \<^verbatim>\<open>src/src/btrfs/volumes.c\<close>, for a read of mirror 0 without
  a RAID map, the only way the daemon calls it). The rest of the library is a parameter: the record
  \<open>libbtrfs\<close> holds what \<^verbatim>\<open>open_ctree_fs_info\<close>, \<^verbatim>\<open>read_tree_block\<close> and the walk over the tree of roots
  return. The scan starts from what the bitmap memory holds and sets the blocks of every tree
  block and extent it meets. \<^term>\<open>None\<close> is a division by zero, the use of a \<^verbatim>\<open>NULL\<close> or error pointer, or
  a stack overflow.
\<close>

section \<open>Logical and physical addresses\<close>

record map_lookup =
  ce_start :: nat
  ce_size :: nat
  map_type :: u64
  stripe_len :: nat
  num_stripes :: nat
  sub_stripes :: nat
  stripes_physical :: "u64 list"

definition BTRFS_BLOCK_GROUP_RAID0 :: u64 where "BTRFS_BLOCK_GROUP_RAID0 = 8"
definition BTRFS_BLOCK_GROUP_RAID1 :: u64 where "BTRFS_BLOCK_GROUP_RAID1 = 16"
definition BTRFS_BLOCK_GROUP_DUP :: u64 where "BTRFS_BLOCK_GROUP_DUP = 32"
definition BTRFS_BLOCK_GROUP_RAID10 :: u64 where "BTRFS_BLOCK_GROUP_RAID10 = 64"
definition BTRFS_BLOCK_GROUP_RAID5 :: u64 where "BTRFS_BLOCK_GROUP_RAID5 = 128"
definition BTRFS_BLOCK_GROUP_RAID6 :: u64 where "BTRFS_BLOCK_GROUP_RAID6 = 256"

definition nr_parity_stripes :: "map_lookup \<Rightarrow> nat" where
  "nr_parity_stripes m =
     (if map_type m AND BTRFS_BLOCK_GROUP_RAID5 \<noteq> 0 then 1
      else if map_type m AND BTRFS_BLOCK_GROUP_RAID6 \<noteq> 0 then 2 else 0)"

definition nr_data_stripes :: "map_lookup \<Rightarrow> nat" where
  "nr_data_stripes m = num_stripes m - nr_parity_stripes m"

text \<open>The chunk that holds an address, or else the first one after it: chunks come in order.\<close>

definition search_cache_extent :: "map_lookup list \<Rightarrow> nat \<Rightarrow> map_lookup option" where
  "search_cache_extent mapping_tree logical = find (\<lambda>m. logical < ce_start m + ce_size m) mapping_tree"

text \<open>Which stripe of the chunk, and how many stripe lengths into it.\<close>

definition map_stripe :: "map_lookup \<Rightarrow> nat \<Rightarrow> (nat \<times> nat) option" where
  "map_stripe m stripe_nr =
     (if map_type m AND BTRFS_BLOCK_GROUP_RAID1 \<noteq> 0 then do {
        _ \<leftarrow> cdiv stripe_nr (num_stripes m);
        Some (stripe_nr mod num_stripes m, stripe_nr)
      }
      else if map_type m AND BTRFS_BLOCK_GROUP_RAID10 \<noteq> 0 then do {
        factor \<leftarrow> cdiv (num_stripes m) (sub_stripes m);
        q \<leftarrow> cdiv stripe_nr factor;
        Some (stripe_nr mod factor * sub_stripes m, q)
      }
      else if map_type m AND BTRFS_BLOCK_GROUP_DUP \<noteq> 0 then Some (0, stripe_nr)
      else if map_type m AND (BTRFS_BLOCK_GROUP_RAID5 OR BTRFS_BLOCK_GROUP_RAID6) \<noteq> 0 then do {
        q \<leftarrow> cdiv stripe_nr (nr_data_stripes m);
        _ \<leftarrow> cdiv q (num_stripes m);
        Some ((q + stripe_nr mod nr_data_stripes m) mod num_stripes m, q)
      }
      else do {
        q \<leftarrow> cdiv stripe_nr (num_stripes m);
        Some (stripe_nr mod num_stripes m, q)
      })"

text \<open>
  The physical address of \<^verbatim>\<open>multi->stripes[0]\<close>, \<^term>\<open>None\<close> when \<^verbatim>\<open>multi\<close> stays \<^verbatim>\<open>NULL\<close>, and the new
  \<^verbatim>\<open>*length\<close>: how far the mapping reaches, whatever length was asked for.
\<close>

definition btrfs_map_block ::
    "map_lookup list \<Rightarrow> u64 \<Rightarrow> u64 \<Rightarrow> world \<Rightarrow> ((u64 option \<times> u64) \<times> world) option" where
  "btrfs_map_block mapping_tree logical len w =
     (case search_cache_extent mapping_tree (unat logical) of
        None \<Rightarrow> Some ((None, - 1), w)
      | Some m \<Rightarrow>
          if unat logical < ce_start m then Some ((None, of_nat (ce_start m) - logical), w)
          else (let (multi, w) = sys_malloc w; offset = unat logical - ce_start m
                in if \<not> multi then Some ((None, len), w)
                   else do {
                     stripe_nr \<leftarrow> cdiv offset (stripe_len m);
                     let stripe_offset = offset - stripe_nr * stripe_len m;
                     let len = (if map_type m AND (BTRFS_BLOCK_GROUP_RAID0 OR BTRFS_BLOCK_GROUP_RAID1
                                  OR BTRFS_BLOCK_GROUP_RAID5 OR BTRFS_BLOCK_GROUP_RAID6
                                  OR BTRFS_BLOCK_GROUP_RAID10 OR BTRFS_BLOCK_GROUP_DUP) \<noteq> 0
                                then min (ce_size m - offset) (stripe_len m - stripe_offset)
                                else ce_size m - offset);
                     (stripe_index, stripe_nr) \<leftarrow> map_stripe m stripe_nr;
                     if num_stripes m \<le> stripe_index then Some ((None, of_nat len), w)
                     else Some ((Some (stripes_physical m ! stripe_index + of_nat stripe_offset
                                         + of_nat (stripe_nr * stripe_len m)), of_nat len), w)
                   }))"

section \<open>The scan of the trees\<close>

text \<open>
  The global variables that hold for one scan: the device, and of \<^verbatim>\<open>root\<close> (the file system tree)
  the node and the sector size.
\<close>

datatype btrfs_item =
    EXTENT_DATA bool u64 u64
  | EXTENT_ITEM u64 u64
  | ROOT_ITEM u64
  | OTHER_ITEM

datatype eb_body = Leaf "btrfs_item list" | Node "(u64 \<times> u64) list"

record extent_buffer =
  eb_bytenr :: u64
  eb_uptodate :: bool
  eb_body :: eb_body

record btrfs_fs_info =
  nodesize :: u32
  sectorsize :: u32
  super_nodesize :: u32
  super_bytes_used :: u64
  super_total_bytes :: u64
  fs_root_ok :: bool
  mapping_tree :: "map_lookup list"
  extent_root_bytenr :: u64
  csum_root_bytenr :: u64
  dev_root_bytenr :: u64
  fs_root_bytenr :: u64
  tree_root_node :: "extent_buffer option"
  dev_root_node :: "extent_buffer option"
  chunk_root_node :: "extent_buffer option"

record libbtrfs =
  open_ctree_fs_info :: "string \<Rightarrow> world \<Rightarrow> btrfs_fs_info option"
  read_tree_block :: "u64 \<Rightarrow> u64 \<Rightarrow> extent_buffer option"
  tree_root_items :: "btrfs_fs_info \<Rightarrow> btrfs_item list"

definition BTRFS_SUPER_INFO_OFFSET :: u64 where "BTRFS_SUPER_INFO_OFFSET = 65536"

definition extent_buffer_uptodate :: "extent_buffer option \<Rightarrow> bool" where
  "extent_buffer_uptodate eb = (case eb of None \<Rightarrow> False | Some b \<Rightarrow> eb_uptodate b)"

text \<open>
  \<^verbatim>\<open>block_size\<close> is an \<open>int\<close> and is converted to 64 bits in the divisions; \<^verbatim>\<open>pos + length\<close> wraps around.
\<close>

definition btrfs_set_bitmap ::
    "int \<Rightarrow> nat \<Rightarrow> nat \<Rightarrow> u64 \<Rightarrow> u64 \<Rightarrow> bitmap \<Rightarrow> bitmap option" where
  "btrfs_set_bitmap blksize dev_size total_block pos len bitmap =
     (if dev_size < unat pos then Some bitmap
      else do {
        let bsz = nat (blksize mod 2 ^ 64);
        pos_block \<leftarrow> cdiv (unat pos) bsz;
        block_end \<leftarrow> cdiv (unat (pos + len)) bsz;
        let block_end = (if unat (pos + len) mod bsz > 0 then block_end + 1 else block_end);
        Some (for_blocks pc_set_bit total_block pos_block (block_end - pos_block) bitmap)
      })"

text \<open>The result includes \<^verbatim>\<open>*num_bytes\<close>, which \<^verbatim>\<open>btrfs_map_block\<close> changes unless \<^verbatim>\<open>type\<close> is 1.\<close>

definition check_extent_bitmap ::
    "btrfs_fs_info \<Rightarrow> nat \<Rightarrow> nat \<Rightarrow> u64 \<Rightarrow> u64 \<Rightarrow> bool \<Rightarrow> bitmap \<times> world \<Rightarrow> (u64 \<times> bitmap \<times> world) option" where
  "check_extent_bitmap info dev_size total_block bytenr num_bytes type1 bw =
     (case bw of (bitmap, w) \<Rightarrow>
        if sectorsize info = 0 then None
        else if unat num_bytes mod unat (sectorsize info) \<noteq> 0 then Some (num_bytes, bitmap, w)
        else do {
          ((multi, len), w) \<leftarrow> btrfs_map_block (mapping_tree info) bytenr num_bytes w;
          let num_bytes = (if type1 then num_bytes else len);
          physical \<leftarrow> multi;
          bitmap \<leftarrow> btrfs_set_bitmap (btrfs_block_size w) dev_size total_block physical num_bytes bitmap;
          Some (num_bytes, bitmap, w)
        })"

text \<open>The address of a file extent is a logical one, and is used as a physical one.\<close>

definition dump_file_extent_item ::
    "nat \<Rightarrow> nat \<Rightarrow> bool \<Rightarrow> u64 \<Rightarrow> u64 \<Rightarrow> bitmap \<times> world \<Rightarrow> (bitmap \<times> world) option" where
  "dump_file_extent_item dev_size total_block inline_extent disk_bytenr disk_num_bytes bw =
     (case bw of (bitmap, w) \<Rightarrow>
        if inline_extent then Some bw
        else do {
          bitmap \<leftarrow> btrfs_set_bitmap (btrfs_block_size w) dev_size total_block disk_bytenr disk_num_bytes bitmap;
          Some (bitmap, w)
        })"

fun dump_leaf_items ::
    "btrfs_fs_info \<Rightarrow> nat \<Rightarrow> nat \<Rightarrow> btrfs_item list \<Rightarrow> bitmap \<times> world \<Rightarrow> (bitmap \<times> world) option" where
  "dump_leaf_items info dev_size total_block [] bw = Some bw"
| "dump_leaf_items info dev_size total_block (EXTENT_DATA inl bytenr n # items) bw =
     do {
       bw \<leftarrow> dump_file_extent_item dev_size total_block inl bytenr n bw;
       dump_leaf_items info dev_size total_block items bw
     }"
| "dump_leaf_items info dev_size total_block (EXTENT_ITEM objectid offset # items) bw =
     do {
       (_, bw) \<leftarrow> check_extent_bitmap info dev_size total_block objectid offset True bw;
       dump_leaf_items info dev_size total_block items bw
     }"
| "dump_leaf_items info dev_size total_block (_ # items) bw = dump_leaf_items info dev_size total_block items bw"

text \<open>
  One turn of the loop over the children of an inner node, with the recursive call as the argument
  \<open>rec\<close>. \<^verbatim>\<open>size\<close> is never set on this path: the first value is what the stack holds, the next ones
  are what \<^verbatim>\<open>btrfs_map_block\<close> left. The child's header is read before it is known to be there.
\<close>

definition dump_child ::
    "libbtrfs \<Rightarrow> btrfs_fs_info \<Rightarrow> nat \<Rightarrow> nat \<Rightarrow> (extent_buffer \<Rightarrow> bitmap \<times> world \<Rightarrow> (bitmap \<times> world) option)
     \<Rightarrow> u64 \<Rightarrow> u64 \<times> u64 \<Rightarrow> u64 \<times> bitmap \<times> world \<Rightarrow> (u64 \<times> bitmap \<times> world) option" where
  "dump_child lib info dev_size total_block rec header_bytenr ptr st =
     (case st of (sz, bw) \<Rightarrow> do {
        (sz, bw) \<leftarrow> check_extent_bitmap info dev_size total_block header_bytenr sz False bw;
        next_eb \<leftarrow> read_tree_block lib (fst ptr) (snd ptr);
        (sz, bw) \<leftarrow> check_extent_bitmap info dev_size total_block (eb_bytenr next_eb) sz False bw;
        if \<not> eb_uptodate next_eb then Some (sz, bw)
        else do {
          bw \<leftarrow> rec next_eb bw;
          Some (sz, bw)
        }
      })"

primrec dump_start_leaf ::
    "nat \<Rightarrow> libbtrfs \<Rightarrow> btrfs_fs_info \<Rightarrow> nat \<Rightarrow> nat \<Rightarrow> extent_buffer \<Rightarrow> bitmap \<times> world \<Rightarrow> (bitmap \<times> world) option" where
  "dump_start_leaf 0 lib info dev_size total_block eb bw = None"
| "dump_start_leaf (Suc depth) lib info dev_size total_block eb bw =
     (case eb_body eb of
        Leaf items \<Rightarrow> do {
          (_, bw) \<leftarrow> check_extent_bitmap info dev_size total_block (eb_bytenr eb) (ucast (nodesize info)) False bw;
          dump_leaf_items info dev_size total_block items bw
        }
      | Node ptrs \<Rightarrow> do {
          (_, bw) \<leftarrow> fold_option
            (dump_child lib info dev_size total_block (dump_start_leaf depth lib info dev_size total_block) (eb_bytenr eb))
            ptrs (le_word (replicate 8 (w_junk (snd bw))), bw);
          Some bw
        })"

section \<open>Opening and reading\<close>

text \<open>\<^verbatim>\<open>info->fs_root\<close> is read before \<^verbatim>\<open>info\<close> is tested.\<close>

definition btrfs_fs_open :: "libbtrfs \<Rightarrow> string \<Rightarrow> world \<Rightarrow> (btrfs_fs_info \<times> bool) option" where
  "btrfs_fs_open lib device w =
     do {
       info \<leftarrow> open_ctree_fs_info lib device w;
       if \<not> fs_root_ok info then Some (info, False)
       else if \<not> extent_buffer_uptodate (tree_root_node info) \<or> \<not> extent_buffer_uptodate (dev_root_node info)
               \<or> \<not> extent_buffer_uptodate (chunk_root_node info) then Some (info, False)
       else Some (info, True)
     }"

text \<open>The loop over the tree of roots.\<close>

primrec scan_root_items ::
    "nat \<Rightarrow> libbtrfs \<Rightarrow> btrfs_fs_info \<Rightarrow> nat \<Rightarrow> nat \<Rightarrow> btrfs_item list \<Rightarrow> bitmap \<times> world \<Rightarrow> (bitmap \<times> world) option" where
  "scan_root_items depth lib info dev_size total_block [] bw = Some bw"
| "scan_root_items depth lib info dev_size total_block (item # items) bw =
     do {
       bw \<leftarrow> (case item of
                ROOT_ITEM bytenr \<Rightarrow>
                  (case read_tree_block lib bytenr 0 of
                     None \<Rightarrow> Some bw
                   | Some buf \<Rightarrow>
                       if \<not> eb_uptodate buf then Some bw
                       else dump_start_leaf depth lib info dev_size total_block buf bw)
              | _ \<Rightarrow> Some bw);
       scan_root_items depth lib info dev_size total_block items bw
     }"

definition dump_node ::
    "nat \<Rightarrow> libbtrfs \<Rightarrow> btrfs_fs_info \<Rightarrow> nat \<Rightarrow> nat \<Rightarrow> extent_buffer option \<Rightarrow> bitmap \<times> world \<Rightarrow> (bitmap \<times> world) option" where
  "dump_node depth lib info dev_size total_block eb bw =
     (case eb of None \<Rightarrow> Some bw | Some b \<Rightarrow> dump_start_leaf depth lib info dev_size total_block b bw)"

definition btrfs_read_bitmap_info ::
    "nat \<Rightarrow> libbtrfs \<Rightarrow> string \<Rightarrow> file_system_info \<Rightarrow> bitmap \<Rightarrow> world \<Rightarrow> (bool \<times> bitmap \<times> world) option" where
  "btrfs_read_bitmap_info depth lib device fsinfo bitmap w =
     do {
       let total_block = unat (totalblock fsinfo);
       (info, ok) \<leftarrow> btrfs_fs_open lib device w;
       if \<not> ok then Some (False, bitmap, w)
       else do {
         let dev_size = unat (device_size fsinfo);
         let w = w\<lparr>btrfs_block_size := sint (super_nodesize info)\<rparr>;
         let bsize = (word_of_int (btrfs_block_size w) :: u64);
         bitmap \<leftarrow> btrfs_set_bitmap (btrfs_block_size w) dev_size total_block 0 BTRFS_SUPER_INFO_OFFSET bitmap;
         bitmap \<leftarrow> btrfs_set_bitmap (btrfs_block_size w) dev_size total_block BTRFS_SUPER_INFO_OFFSET bsize bitmap;
         (bsize, bw) \<leftarrow> check_extent_bitmap info dev_size total_block (extent_root_bytenr info) bsize False (bitmap, w);
         (bsize, bw) \<leftarrow> check_extent_bitmap info dev_size total_block (csum_root_bytenr info) bsize False bw;
         (bsize, bw) \<leftarrow> check_extent_bitmap info dev_size total_block (dev_root_bytenr info) bsize False bw;
         (bsize, bw) \<leftarrow> check_extent_bitmap info dev_size total_block (fs_root_bytenr info) bsize False bw;
         bw \<leftarrow> dump_node depth lib info dev_size total_block (tree_root_node info) bw;
         bw \<leftarrow> dump_node depth lib info dev_size total_block (chunk_root_node info) bw;
         (bitmap, w) \<leftarrow> (if extent_buffer_uptodate (tree_root_node info)
                         then scan_root_items depth lib info dev_size total_block (tree_root_items lib info) bw
                         else Some bw);
         Some (True, bitmap, w)
       }
     }"

definition btrfs_MAGIC :: "byte list" where "btrfs_MAGIC = cstr ''BTRFS''"

definition btrfs_read_super_blocks ::
    "libbtrfs \<Rightarrow> string \<Rightarrow> file_system_info \<Rightarrow> world \<Rightarrow> (bool \<times> file_system_info \<times> world) option" where
  "btrfs_read_super_blocks lib device fsinfo w =
     do {
       (info, ok) \<leftarrow> btrfs_fs_open lib device w;
       if \<not> ok then Some (False, fsinfo, w)
       else do {
         let blksize = unat (super_nodesize info);
         used \<leftarrow> cdiv (unat (super_bytes_used info)) blksize;
         tot \<leftarrow> cdiv (unat (super_total_bytes info)) blksize;
         Some (True,
               fsinfo\<lparr>fs := strncpy (fs fsinfo) btrfs_MAGIC 15, block_size := super_nodesize info,
                       usedblocks := of_nat used, device_size := super_total_bytes info,
                       totalblock := of_nat tot\<rparr>, w)
       }
     }"

section \<open>Handlers\<close>

text \<open>The copy routines use the global \<^verbatim>\<open>block_size\<close>, not the one of \<^verbatim>\<open>fs_info\<close>.\<close>

definition btrfs_backend :: "nat \<Rightarrow> libbtrfs \<Rightarrow> fs_backend" where
  "btrfs_backend depth lib =
     \<lparr>be_super = btrfs_read_super_blocks lib, be_bitmap = btrfs_read_bitmap_info depth lib,
      be_block_size = (\<lambda>info w. nat (btrfs_block_size w))\<rparr>"

definition btrfs_check_system_space :: "file_system_info \<Rightarrow> string \<Rightarrow> image_options \<Rightarrow> world \<Rightarrow> bool" where
  "btrfs_check_system_space = check_system_space"

definition btrfs_get_read_blocks_size :: "nat \<Rightarrow> nat \<Rightarrow> bitmap \<Rightarrow> nat \<Rightarrow> nat \<times> nat" where
  "btrfs_get_read_blocks_size = get_read_blocks_size"

definition btrfs_read_write_data_ptf ::
    "file_system_info \<Rightarrow> image_options \<Rightarrow> bitmap \<Rightarrow> int \<Rightarrow> int \<Rightarrow> nat \<Rightarrow> world \<Rightarrow> (bool \<times> world) option" where
  "btrfs_read_write_data_ptf info img_opt bitmap dfr dfw copied_count w =
     read_write_data_ptf False (nat (btrfs_block_size w)) info img_opt bitmap dfr dfw copied_count w"

definition btrfs_read_write_data_ptp ::
    "file_system_info \<Rightarrow> bitmap \<Rightarrow> int \<Rightarrow> int \<Rightarrow> world \<Rightarrow> (bool \<times> world) option" where
  "btrfs_read_write_data_ptp info bitmap dfr dfw w =
     read_write_data_ptp (nat (btrfs_block_size w)) info bitmap dfr dfw w"

definition gdbus_sysbak_btrfs_ptf ::
    "nat \<Rightarrow> libbtrfs \<Rightarrow> string \<Rightarrow> string \<Rightarrow> bool \<Rightarrow> world \<Rightarrow> (bool \<times> world) option" where
  "gdbus_sysbak_btrfs_ptf depth lib = backup_ptf ''sysbak_btrfs_ptf'' True False True (btrfs_backend depth lib)"

definition gdbus_sysbak_btrfs_ptp ::
    "nat \<Rightarrow> libbtrfs \<Rightarrow> string \<Rightarrow> string \<Rightarrow> bool \<Rightarrow> world \<Rightarrow> (bool \<times> world) option" where
  "gdbus_sysbak_btrfs_ptp depth lib = backup_ptp ''sysbak_btrfs_ptp'' (btrfs_backend depth lib)"

section \<open>The contract of the handlers\<close>

text \<open>What every step of the scan preserves, seen from the state \<open>w\<close> before it.\<close>

definition scan_inv :: "world \<Rightarrow> (bitmap \<Rightarrow> bool) \<Rightarrow> bitmap \<times> world \<Rightarrow> bool" where
  "scan_inv w P bw \<longleftrightarrow> keeps w (snd bw) \<and> P (fst bw)"

definition bits_closed :: "(bitmap \<Rightarrow> bool) \<Rightarrow> bool" where
  "bits_closed P \<longleftrightarrow> (\<forall>tot b k bm. P bm \<longrightarrow> P (for_blocks pc_set_bit tot b k bm))"

lemma bits_closed_wf: "bits_closed (bm_wf n)" "bits_closed (\<lambda>bm. True)"
  by (simp_all add: bits_closed_def)

lemma btrfs_set_bitmap_closed:
  "btrfs_set_bitmap bsz dev tot pos len bm = Some bm' \<Longrightarrow> bits_closed P \<Longrightarrow> P bm \<Longrightarrow> P bm'"
  by (auto simp: btrfs_set_bitmap_def bits_closed_def bind_eq_Some_conv Let_def split: if_splits)

lemma btrfs_map_block_keeps:
  "btrfs_map_block tree logical len w' = Some (r, w'') \<Longrightarrow> keeps w w' \<Longrightarrow> keeps w w''"
  using keeps_trans [OF _ keeps_malloc]
  by (auto simp: btrfs_map_block_def Let_def bind_eq_Some_conv split: option.splits if_splits prod.splits)

lemma check_extent_bitmap_inv:
  "check_extent_bitmap info dev tot b nb ty bw = Some (nb', bw') \<Longrightarrow> bits_closed P \<Longrightarrow> scan_inv w P bw \<Longrightarrow> scan_inv w P bw'"
  by (cases bw) (auto simp: check_extent_bitmap_def scan_inv_def bind_eq_Some_conv Let_def split: if_splits
      dest: btrfs_set_bitmap_closed btrfs_map_block_keeps)

lemma dump_file_extent_item_inv:
  "dump_file_extent_item dev tot inl b nb bw = Some bw' \<Longrightarrow> bits_closed P \<Longrightarrow> scan_inv w P bw \<Longrightarrow> scan_inv w P bw'"
  by (cases bw) (auto simp: dump_file_extent_item_def scan_inv_def bind_eq_Some_conv split: if_splits
      dest: btrfs_set_bitmap_closed)

lemma dump_leaf_items_inv:
  "dump_leaf_items info dev tot items bw = Some bw' \<Longrightarrow> bits_closed P \<Longrightarrow> scan_inv w P bw \<Longrightarrow> scan_inv w P bw'"
proof (induction items arbitrary: bw)
  case (Cons item items)
  then show ?case
    by (cases item) (auto simp: bind_eq_Some_conv dest!: dump_file_extent_item_inv check_extent_bitmap_inv
        intro: Cons.IH [OF _ Cons.prems(2)])
qed simp

lemma dump_child_inv:
  assumes "dump_child lib info dev tot rec hb ptr st = Some st'" and "scan_inv w P (snd st)" and "bits_closed P"
    and "\<And>eb bw bw'. rec eb bw = Some bw' \<Longrightarrow> bits_closed P \<Longrightarrow> scan_inv w P bw \<Longrightarrow> scan_inv w P bw'"
  shows "scan_inv w P (snd st')"
  using assms
  by (cases st) (auto simp: dump_child_def bind_eq_Some_conv split: if_splits dest: check_extent_bitmap_inv)

lemma dump_start_leaf_inv:
  "dump_start_leaf depth lib info dev tot eb bw = Some bw' \<Longrightarrow> bits_closed P \<Longrightarrow> scan_inv w P bw \<Longrightarrow> scan_inv w P bw'"
proof (induction depth arbitrary: eb bw bw')
  case (Suc depth)
  show ?case
  proof (cases "eb_body eb")
    case (Leaf items)
    then show ?thesis using Suc.prems
      by (auto simp: bind_eq_Some_conv dest: check_extent_bitmap_inv dump_leaf_items_inv)
  next
    case (Node ptrs)
    with Suc.prems obtain sz where
      f: "fold_option (dump_child lib info dev tot (dump_start_leaf depth lib info dev tot) (eb_bytenr eb)) ptrs
            (le_word (replicate 8 (w_junk (snd bw))), bw) = Some (sz, bw')"
      by (auto simp: bind_eq_Some_conv)
    have "scan_inv w P (snd (sz, bw'))"
      by (rule fold_option_invariant [OF f, of "\<lambda>st. scan_inv w P (snd st)"])
         (use Suc.prems(2,3) dump_child_inv [OF _ _ Suc.prems(2) Suc.IH [OF _ Suc.prems(2)]] in auto)
    then show ?thesis by simp
  qed
qed simp

lemma dump_node_inv: "dump_node depth lib info dev tot eb bw = Some bw' \<Longrightarrow> bits_closed P \<Longrightarrow> scan_inv w P bw \<Longrightarrow> scan_inv w P bw'"
  by (auto simp: dump_node_def split: option.splits dest: dump_start_leaf_inv)

lemma scan_root_items_inv:
  "scan_root_items depth lib info dev tot items bw = Some bw' \<Longrightarrow> bits_closed P \<Longrightarrow> scan_inv w P bw \<Longrightarrow> scan_inv w P bw'"
  by (induction items arbitrary: bw)
     (auto simp: bind_eq_Some_conv split: btrfs_item.splits option.splits if_splits dest: dump_start_leaf_inv)

text \<open>The stages of a scan: after the two ranges at the start only bits are set.\<close>

lemma btrfs_scan_stages:
  assumes r: "btrfs_read_bitmap_info depth lib dev fsinfo bm w = Some (ok, bm', w')"
    and io: "btrfs_fs_open lib dev w = Some (info, True)"
  obtains bm1 bm2 where
    "btrfs_set_bitmap (sint (super_nodesize info)) (unat (device_size fsinfo)) (unat (totalblock fsinfo)) 0
       BTRFS_SUPER_INFO_OFFSET bm = Some bm1"
    "btrfs_set_bitmap (sint (super_nodesize info)) (unat (device_size fsinfo)) (unat (totalblock fsinfo))
       BTRFS_SUPER_INFO_OFFSET (word_of_int (sint (super_nodesize info))) bm1 = Some bm2"
    "\<forall>P. bits_closed P \<and> P bm2 \<longrightarrow> scan_inv w P (bm', w')"
proof -
  let ?tot = "unat (totalblock fsinfo)" and ?dev = "unat (device_size fsinfo)"
  let ?w = "w\<lparr>btrfs_block_size := sint (super_nodesize info)\<rparr>"
  let ?bs = "btrfs_block_size ?w"
  from r io obtain bm1 bm2 b1 bw1 b2 bw2 b3 bw3 b4 bw4 bw5 bw6 where
    s: "btrfs_set_bitmap ?bs ?dev ?tot 0 BTRFS_SUPER_INFO_OFFSET bm = Some bm1"
      "btrfs_set_bitmap ?bs ?dev ?tot BTRFS_SUPER_INFO_OFFSET (word_of_int ?bs) bm1 = Some bm2"
    and c: "check_extent_bitmap info ?dev ?tot (extent_root_bytenr info) (word_of_int ?bs) False (bm2, ?w) = Some (b1, bw1)"
      "check_extent_bitmap info ?dev ?tot (csum_root_bytenr info) b1 False bw1 = Some (b2, bw2)"
      "check_extent_bitmap info ?dev ?tot (dev_root_bytenr info) b2 False bw2 = Some (b3, bw3)"
      "check_extent_bitmap info ?dev ?tot (fs_root_bytenr info) b3 False bw3 = Some (b4, bw4)"
    and d: "dump_node depth lib info ?dev ?tot (tree_root_node info) bw4 = Some bw5"
      "dump_node depth lib info ?dev ?tot (chunk_root_node info) bw5 = Some bw6"
    and e: "(if extent_buffer_uptodate (tree_root_node info)
        then scan_root_items depth lib info ?dev ?tot (tree_root_items lib info) bw6 else Some bw6) = Some (bm', w')"
    by (auto simp: btrfs_read_bitmap_info_def bind_eq_Some_conv Let_def)
  have inv: "scan_inv w P (bm', w')" if P: "bits_closed P" "P bm2" for P
  proof -
    have "scan_inv w P (bm2, ?w)" using P(2) by (simp add: scan_inv_def keeps_statics)
    then have "scan_inv w P bw4" by (intro check_extent_bitmap_inv [OF c(4) P(1)] check_extent_bitmap_inv [OF c(3) P(1)]
          check_extent_bitmap_inv [OF c(2) P(1)] check_extent_bitmap_inv [OF c(1) P(1)])
    then have "scan_inv w P bw6" by (intro dump_node_inv [OF d(2) P(1)] dump_node_inv [OF d(1) P(1)])
    then show ?thesis using e scan_root_items_inv P(1) by (auto split: if_splits)
  qed
  have s': "btrfs_block_size ?w = sint (super_nodesize info)" by simp
  have inv': "\<forall>P. bits_closed P \<and> P bm2 \<longrightarrow> scan_inv w P (bm', w')" using inv by blast
  show thesis by (rule that [OF s(1) [unfolded s'] s(2) [unfolded s'] inv'])
qed

lemma btrfs_scan_closed:
  assumes r: "btrfs_read_bitmap_info depth lib dev fsinfo bm w = Some (ok, bm', w')" and P: "bits_closed P" "P bm"
  shows "scan_inv w P (bm', w')"
proof -
  obtain info ok1 where io: "btrfs_fs_open lib dev w = Some (info, ok1)"
    using r by (auto simp: btrfs_read_bitmap_info_def bind_eq_Some_conv Let_def)
  show ?thesis
  proof (cases ok1)
    case False
    then show ?thesis using r io P by (auto simp: btrfs_read_bitmap_info_def scan_inv_def Let_def)
  next
    case True
    then have io': "btrfs_fs_open lib dev w = Some (info, True)" using io by simp
    show ?thesis
      by (rule btrfs_scan_stages [OF r io']) (use P btrfs_set_bitmap_closed in blast)
  qed
qed

lemma btrfs_read_bitmap_info_inv:
  assumes r: "btrfs_read_bitmap_info depth lib dev fsinfo bm w = Some (ok, bm', w')"
  shows "keeps w w'" and "bm_wf n bm \<Longrightarrow> bm_wf n bm'"
proof -
  show "bm_wf n bm \<Longrightarrow> bm_wf n bm'" using btrfs_scan_closed [OF r bits_closed_wf(1)] by (simp add: scan_inv_def)
  show "keeps w w'" using btrfs_scan_closed [OF r bits_closed_wf(2)] by (simp add: scan_inv_def)
qed

interpretation btrfs: fs_backend_contract "btrfs_backend depth lib" for depth lib
proof (unfold_locales, goal_cases)
  case (1 dev info w ok info' w')
  then show ?case
    by (auto simp: btrfs_backend_def btrfs_read_super_blocks_def bind_eq_Some_conv Let_def split: if_splits)
next
  case (2 dev info w ok info' w')
  then show ?case
    by (auto simp: btrfs_backend_def btrfs_read_super_blocks_def fs_info_wf_def bind_eq_Some_conv Let_def
        split: if_splits)
next
  case (3 dev info bm w ok bm' w')
  then show ?case using btrfs_read_bitmap_info_inv(1) by (simp add: btrfs_backend_def)
next
  case (4 dev info bm w ok bm' w' n)
  then show ?case using btrfs_read_bitmap_info_inv(2) by (simp add: btrfs_backend_def)
next
  case (5 info e w)
  then show ?case by (simp add: btrfs_backend_def emit_def)
qed

section \<open>Properties\<close>

lemma btrfs_set_bitmap_mem:
  assumes "btrfs_set_bitmap bsz dev tot pos len bm = Some bm'" and "0 < bsz" and "bsz < 2 ^ 31"
    and "unat pos \<le> dev" and "unat pos + unat len < 2 ^ 64" and "bm_wf tot bm" and "j < tot"
  shows "bm_mem bm' j = (bm_mem bm j \<or> (unat pos div nat bsz \<le> j \<and> j * nat bsz < unat pos + unat len))"
proof -
  let ?b = "nat bsz" and ?e = "unat pos + unat len"
  have b: "0 < ?b" "nat (bsz mod 2 ^ 64) = ?b" using assms(2,3) by simp_all
  have e: "unat (pos + len) = ?e" using assms(5) by (simp add: unat_word_ariths)
  have up: "j < (if ?e mod ?b > 0 then ?e div ?b + 1 else ?e div ?b) \<longleftrightarrow> j * ?b < ?e"
  proof -
    have d: "?e = ?e div ?b * ?b + ?e mod ?b" by simp
    show ?thesis
    proof (cases "?e mod ?b = 0")
      case True
      then have "?e = ?e div ?b * ?b" using d by linarith
      then have "j * ?b < ?e \<longleftrightarrow> j < ?e div ?b" using b(1) by (metis mult_less_cancel2)
      then show ?thesis using True by simp
    next
      case False
      have "j * ?b < ?e \<longleftrightarrow> j \<le> ?e div ?b"
        using less_eq_div_iff_mult_less_eq [OF b(1), of j ?e] False
        by (metis le_neq_implies_less less_imp_le_nat mod_mult_self2_is_0)
      then show ?thesis using False by auto
    qed
  qed
  have "bm' = for_blocks pc_set_bit tot (unat pos div ?b) ((if ?e mod ?b > 0 then ?e div ?b + 1 else ?e div ?b) - unat pos div ?b) bm"
    using assms(1,4) b by (auto simp: btrfs_set_bitmap_def cdiv_def e Let_def)
  then have "bm_mem bm' j = (bm_mem bm j \<or> (unat pos div ?b \<le> j \<and> j < (if ?e mod ?b > 0 then ?e div ?b + 1 else ?e div ?b)))"
    using assms(6,7) by (auto simp: pc.for_put_mem)
  then show ?thesis using up by simp
qed

text \<open>
  C25: \<^verbatim>\<open>set_bitmap\<close> of the Btrfs code marks exactly the blocks that overlap the given range of bytes, and
  leaves every other block as it was.
\<close>

theorem btrfs_set_bitmap_exact:
  assumes "btrfs_set_bitmap bsz dev tot pos len bm = Some bm'" and "0 < bsz" and "bsz < 2 ^ 31"
    and "unat pos \<le> dev" and "unat pos + unat len < 2 ^ 64" and "bm_wf tot bm" and "j < tot"
  shows "pc_test_bit j bm' tot =
    (if pc_test_bit j bm tot = 1 \<or> unat pos < (j + 1) * nat bsz \<and> j * nat bsz < unat pos + unat len then 1 else 0)"
proof -
  have wf: "bm_wf tot bm'" using btrfs_set_bitmap_closed [OF assms(1) bits_closed_wf(1) assms(6)] .
  have "0 < nat bsz" using assms(2) by simp
  then have d: "unat pos div nat bsz \<le> j \<longleftrightarrow> unat pos < (j + 1) * nat bsz"
    using div_less_iff_less_mult [of "nat bsz" "unat pos" "j + 1"] by (simp only: less_Suc_eq_le Suc_eq_plus1 [symmetric])
  have t: "(if a then 1 else 0 :: int) = (if (if b then 1 else 0 :: int) = 1 \<or> c then 1 else 0)" if "a \<longleftrightarrow> b \<or> c" for a b c
    using that by simp
  show ?thesis
    unfolding pc.test_in [OF wf assms(7)] pc.test_in [OF assms(6,7)] btrfs_set_bitmap_mem [OF assms] d by (rule t) (rule refl)
qed

theorem btrfs_set_bitmap_exact_witness:
  "pc_test_bit 3 (Some [13]) 8 =
    (if pc_test_bit 3 (Some [1]) 8 = 1 \<or> unat (9000 :: u64) < (3 + 1) * nat 4096 \<and> 3 * nat 4096 < unat (9000 :: u64) + unat (4096 :: u64) then 1 else 0)"
proof (rule btrfs_set_bitmap_exact)
  show "btrfs_set_bitmap 4096 100000 8 9000 4096 (Some [1]) = Some (Some [13])"
  proof -
    have "btrfs_set_bitmap 4096 100000 8 9000 4096 (Some [1]) = Some (for_blocks pc_set_bit 8 2 2 (Some [1]))"
      by (simp add: btrfs_set_bitmap_def cdiv_def Let_def)
    also have "for_blocks pc_set_bit 8 2 2 (Some [1]) = Some [13]" by code_simp
    finally show ?thesis .
  qed
qed (simp_all add: bm_wf_def)

text \<open>
  The mapping of a logical address in a chunk with a single copy (no striping, mirroring or parity, one
  stripe): \<^verbatim>\<open>btrfs_map_block\<close> gives the physical start of the chunk plus the offset in the chunk, and as the
  length what is left of the chunk, whatever length was asked for.
\<close>

theorem btrfs_map_single_chunk:
  assumes "search_cache_extent tree (unat logical) = Some m" and "ce_start m \<le> unat logical" and "allocs_ok w"
    and "map_type m AND (BTRFS_BLOCK_GROUP_RAID0 OR BTRFS_BLOCK_GROUP_RAID1 OR BTRFS_BLOCK_GROUP_RAID5
      OR BTRFS_BLOCK_GROUP_RAID6 OR BTRFS_BLOCK_GROUP_RAID10 OR BTRFS_BLOCK_GROUP_DUP) = 0"
    and "num_stripes m = 1" and "0 < stripe_len m"
  shows "\<exists>w'. btrfs_map_block tree logical len w =
    Some ((Some (stripes_physical m ! 0 + of_nat (unat logical - ce_start m)),
           of_nat (ce_size m - (unat logical - ce_start m))), w')"
proof -
  obtain a w1 where m: "sys_malloc w = (a, w1)" by fastforce
  obtain c where "w1 = w\<lparr>w_allocs := c\<rparr>" "allocs_ok w \<longrightarrow> a \<and> allocs_ok w1" by (rule sys_malloc_frame [OF m])
  then have a: a using assms(3) by simp
  let ?o = "unat logical - ce_start m" and ?l = "stripe_len m"
  have t: "map_type m AND BTRFS_BLOCK_GROUP_RAID1 = 0" "map_type m AND BTRFS_BLOCK_GROUP_RAID10 = 0"
      "map_type m AND BTRFS_BLOCK_GROUP_DUP = 0" "map_type m AND (BTRFS_BLOCK_GROUP_RAID5 OR BTRFS_BLOCK_GROUP_RAID6) = 0"
    using assms(4) by (simp_all add: bit.conj_disj_distrib or_eq_0_iff)
  have st: "map_stripe m n = Some (0, n)" for n using t assms(5) by (simp add: map_stripe_def cdiv_def)
  have "?o - ?o div ?l * ?l + ?o div ?l * ?l = ?o" using div_times_less_eq_dividend [of ?o ?l] by linarith
  then have off: "of_nat (?o - ?o div ?l * ?l) + of_nat (?o div ?l * ?l) = (of_nat ?o :: u64)" by (metis of_nat_add)
  have d: "cdiv ?o ?l = Some (?o div ?l)" using assms(6) by (simp add: cdiv_def)
  show ?thesis
    using assms(1,2,4,5) a off
    by (simp add: btrfs_map_block_def m d st Let_def add.assoc)
qed

definition tiny_chunk :: map_lookup where
  "tiny_chunk = \<lparr>ce_start = 1000, ce_size = 5000, map_type = 1, stripe_len = 64, num_stripes = 1, sub_stripes = 1, stripes_physical = [20000]\<rparr>"

theorem btrfs_map_single_chunk_witness:
  "\<exists>w'. btrfs_map_block [tiny_chunk] 1777 4096 (engine_world engine_source 0 engine_source 0) =
    Some ((Some (stripes_physical tiny_chunk ! 0 + of_nat (unat (1777 :: u64) - ce_start tiny_chunk)),
           of_nat (ce_size tiny_chunk - (unat (1777 :: u64) - ce_start tiny_chunk))), w')"
  by (rule btrfs_map_single_chunk)
     (simp_all add: tiny_chunk_def search_cache_extent_def engine_world_def allocs_ok_def BTRFS_BLOCK_GROUP_RAID0_def
       BTRFS_BLOCK_GROUP_RAID1_def BTRFS_BLOCK_GROUP_RAID5_def BTRFS_BLOCK_GROUP_RAID6_def BTRFS_BLOCK_GROUP_RAID10_def
       BTRFS_BLOCK_GROUP_DUP_def)

lemma unat_of_small_int:
  assumes "0 \<le> k" and "k < 2 ^ 31"
  shows "unat (word_of_int k :: u64) = nat k"
proof -
  have "uint (word_of_int k :: u64) = k mod 2 ^ 64" by (simp only: uint_word_of_int len_of_numeral_defs len_bit0 len_num1) simp
  also have "\<dots> = k" using assms by (intro mod_pos_pos_trivial) simp_all
  finally show ?thesis by (simp only: unat_eq_nat_uint)
qed

lemma bm_mem_set_mono: "bm_mem b j \<Longrightarrow> bm_mem (snd (pc_set_bit s b t)) j"
  by (cases "j div 64 = s div 64")
     (auto simp: pc_set_bit_def bm_mem_def and_63_eq_mod bit_set_word nth_list_update Let_def split: option.splits)

lemma bits_closed_mem: "bits_closed (\<lambda>b. bm_wf tot b \<and> bm_mem b j)" if "j < tot"
  unfolding bits_closed_def
proof (intro allI impI)
  fix t s k b assume b: "bm_wf tot b \<and> bm_mem b j"
  have mono: "bm_mem (for_blocks pc_set_bit t s k b) j" if "bm_mem b j" for b
    using that
  proof (induction k arbitrary: s b)
    case (Suc k)
    have "bm_mem (snd (pc_set_bit s b t)) j" using Suc.prems by (rule bm_mem_set_mono)
    then show ?case using Suc.IH by simp
  qed simp
  show "bm_wf tot (for_blocks pc_set_bit t s k b) \<and> bm_mem (for_blocks pc_set_bit t s k b) j" using b mono by simp
qed

text \<open>
  C24: A Btrfs scan only adds blocks to the bitmap, and it always includes the start of the device: after a
  successful scan every block that was marked before, and every block up to the end of the superblock at
  64 KiB, is marked, whatever the trees hold.
\<close>

theorem btrfs_scan_keeps_superblock:
  assumes "btrfs_read_bitmap_info depth lib dev fsinfo bm w = Some (True, bm', w')"
    and "btrfs_fs_open lib dev w = Some (info, True)" and "bm_wf (unat (totalblock fsinfo)) bm"
    and "0 < sint (super_nodesize info)" and "65536 \<le> unat (device_size fsinfo)" and "j < unat (totalblock fsinfo)"
    and "pc_test_bit j bm (unat (totalblock fsinfo)) = 1 \<or> j * nat (sint (super_nodesize info)) < 65536 + nat (sint (super_nodesize info))"
  shows "pc_test_bit j bm' (unat (totalblock fsinfo)) = 1"
proof -
  let ?tot = "unat (totalblock fsinfo)" and ?bs = "sint (super_nodesize info)"
  obtain bm1 bm2 where s1: "btrfs_set_bitmap ?bs (unat (device_size fsinfo)) ?tot 0 BTRFS_SUPER_INFO_OFFSET bm = Some bm1"
    and s2: "btrfs_set_bitmap ?bs (unat (device_size fsinfo)) ?tot BTRFS_SUPER_INFO_OFFSET (word_of_int ?bs) bm1 = Some bm2"
    and inv: "\<forall>P. bits_closed P \<and> P bm2 \<longrightarrow> scan_inv w P (bm', w')"
    by (rule btrfs_scan_stages [OF assms(1,2)])
  have bs: "?bs < 2 ^ 31" using sint_lt [of "super_nodesize info"] by simp
  have o: "unat BTRFS_SUPER_INFO_OFFSET = 65536" by (simp add: BTRFS_SUPER_INFO_OFFSET_def)
  have n: "unat (word_of_int ?bs :: u64) = nat ?bs" by (rule unat_of_small_int) (use bs assms(4) in simp_all)
  have wf1: "bm_wf ?tot bm1" using btrfs_set_bitmap_closed [OF s1 bits_closed_wf(1) assms(3)] .
  have wf2: "bm_wf ?tot bm2" using btrfs_set_bitmap_closed [OF s2 bits_closed_wf(1) wf1] .
  have h1: "unat (0 :: u64) \<le> unat (device_size fsinfo)" "unat (0 :: u64) + unat BTRFS_SUPER_INFO_OFFSET < 2 ^ 64"
    by (simp_all add: o)
  have h2: "unat BTRFS_SUPER_INFO_OFFSET \<le> unat (device_size fsinfo)"
    "unat BTRFS_SUPER_INFO_OFFSET + unat (word_of_int ?bs :: u64) < 2 ^ 64"
    using assms(5) bs unfolding o n by simp_all
  note m1 = btrfs_set_bitmap_mem [OF s1 assms(4) bs h1 assms(3,6)]
  note m2 = btrfs_set_bitmap_mem [OF s2 assms(4) bs h2 wf1 assms(6)]
  have m1': "bm_mem bm1 j \<longleftrightarrow> bm_mem bm j \<or> j * nat ?bs < 65536"
    using m1 unfolding o by (simp only: unat_0 div_0 add_0 le0 simp_thms)
  have m2': "bm_mem bm2 j \<longleftrightarrow> bm_mem bm1 j \<or> 65536 div nat ?bs \<le> j \<and> j * nat ?bs < 65536 + nat ?bs"
    using m2 unfolding o n .
  have "bm_mem bm j \<or> j * nat ?bs < 65536 + nat ?bs"
    using assms(7) pc.test_in [OF assms(3,6)] by (auto split: if_splits)
  moreover have "j * nat ?bs < 65536 \<or> 65536 div nat ?bs \<le> j"
  proof (rule disjCI)
    assume "\<not> 65536 div nat ?bs \<le> j"
    then have "(j + 1) * nat ?bs \<le> 65536 div nat ?bs * nat ?bs" by (intro mult_le_mono1) simp
    also have "\<dots> \<le> 65536" by (rule div_times_less_eq_dividend)
    finally have "j * nat ?bs + nat ?bs \<le> 65536" by simp
    then show "j * nat ?bs < 65536" using assms(4) by linarith
  qed
  ultimately have "bm_mem bm2 j" unfolding m2' m1' by blast
  then have "bm_mem bm' j" using inv bits_closed_mem [OF assms(6)] wf2 by (auto simp: scan_inv_def)
  then show ?thesis using pc.test_in [OF btrfs_read_bitmap_info_inv(2) [OF assms(1,3)] assms(6)] by simp
qed

definition tiny_btrfs_chunk :: map_lookup where
  "tiny_btrfs_chunk = \<lparr>ce_start = 0, ce_size = 1048576, map_type = 2, stripe_len = 65536, num_stripes = 1, sub_stripes = 1,
     stripes_physical = [0]\<rparr>"

definition tiny_btrfs_leaf :: "u64 \<Rightarrow> btrfs_item list \<Rightarrow> extent_buffer" where
  "tiny_btrfs_leaf addr items = \<lparr>eb_bytenr = addr, eb_uptodate = True, eb_body = Leaf items\<rparr>"

definition tiny_btrfs_info :: btrfs_fs_info where
  "tiny_btrfs_info = \<lparr>nodesize = 4096, sectorsize = 4096, super_nodesize = 4096, super_bytes_used = 409600,
     super_total_bytes = 1048576, fs_root_ok = True, mapping_tree = [tiny_btrfs_chunk], extent_root_bytenr = 131072,
     csum_root_bytenr = 135168, dev_root_bytenr = 139264, fs_root_bytenr = 143360,
     tree_root_node = Some (tiny_btrfs_leaf 147456 [EXTENT_ITEM 200704 8192]), dev_root_node = Some (tiny_btrfs_leaf 139264 []),
     chunk_root_node = Some (tiny_btrfs_leaf 151552 [])\<rparr>"

definition tiny_libbtrfs :: libbtrfs where
  "tiny_libbtrfs = \<lparr>open_ctree_fs_info = (\<lambda>dev w. Some tiny_btrfs_info), read_tree_block = (\<lambda>addr gen. None),
     tree_root_items = (\<lambda>info. [OTHER_ITEM])\<rparr>"

definition tiny_btrfs_fsinfo :: file_system_info where
  "tiny_btrfs_fsinfo = engine_info\<lparr>device_size := 1048576, totalblock := 256\<rparr>"

lemmas tiny_btrfs_defs = tiny_btrfs_chunk_def tiny_btrfs_leaf_def tiny_btrfs_info_def tiny_libbtrfs_def tiny_btrfs_fsinfo_def

definition tiny_btrfs_world :: world where
  "tiny_btrfs_world = (engine_world engine_source 0 engine_source 0)\<lparr>w_allocs := []\<rparr>"

lemma tiny_btrfs_open: "btrfs_fs_open tiny_libbtrfs dev w = Some (tiny_btrfs_info, True)"
  by (simp add: btrfs_fs_open_def tiny_btrfs_defs extent_buffer_uptodate_def)

lemma tiny_btrfs_parts [simp]:
  "sectorsize tiny_btrfs_info = 4096" "nodesize tiny_btrfs_info = 4096" "super_nodesize tiny_btrfs_info = 4096"
  "mapping_tree tiny_btrfs_info = [tiny_btrfs_chunk]" "extent_root_bytenr tiny_btrfs_info = 131072"
  "csum_root_bytenr tiny_btrfs_info = 135168" "dev_root_bytenr tiny_btrfs_info = 139264"
  "fs_root_bytenr tiny_btrfs_info = 143360"
  "tree_root_node tiny_btrfs_info = Some (tiny_btrfs_leaf 147456 [EXTENT_ITEM 200704 8192])"
  "chunk_root_node tiny_btrfs_info = Some (tiny_btrfs_leaf 151552 [])"
  "tree_root_items tiny_libbtrfs info = [OTHER_ITEM]"
  "unat (totalblock tiny_btrfs_fsinfo) = 256" "unat (device_size tiny_btrfs_fsinfo) = 1048576"
  "w_allocs tiny_btrfs_world = []"
  by (simp_all add: tiny_btrfs_info_def tiny_libbtrfs_def tiny_btrfs_fsinfo_def tiny_btrfs_world_def engine_world_def)

lemma tiny_btrfs_map:
  assumes "w_allocs w = []" and "unat addr < 1048576"
  shows "btrfs_map_block [tiny_btrfs_chunk] addr len w = Some ((Some addr, of_nat (1048576 - unat addr)), w)"
proof -
  have "of_nat (unat addr - unat addr div 65536 * 65536) + of_nat (unat addr div 65536 * 65536) = (of_nat (unat addr) :: u64)"
    using div_times_less_eq_dividend [of "unat addr" 65536] by (subst of_nat_add [symmetric]) simp
  then show ?thesis using assms
    by (simp add: btrfs_map_block_def search_cache_extent_def tiny_btrfs_chunk_def sys_malloc_def map_stripe_def cdiv_def Let_def
      BTRFS_BLOCK_GROUP_RAID0_def BTRFS_BLOCK_GROUP_RAID1_def BTRFS_BLOCK_GROUP_RAID5_def BTRFS_BLOCK_GROUP_RAID6_def
      BTRFS_BLOCK_GROUP_RAID10_def BTRFS_BLOCK_GROUP_DUP_def)
qed

lemma tiny_btrfs_run:
  "\<exists>bm' w'. btrfs_read_bitmap_info 1 tiny_libbtrfs dev tiny_btrfs_fsinfo bm tiny_btrfs_world = Some (True, bm', w')"
  by (simp add: btrfs_read_bitmap_info_def tiny_btrfs_open check_extent_bitmap_def tiny_btrfs_map cdiv_def btrfs_set_bitmap_def
      dump_node_def extent_buffer_uptodate_def tiny_btrfs_leaf_def Let_def BTRFS_SUPER_INFO_OFFSET_def)

theorem btrfs_scan_keeps_superblock_witness:
  "\<exists>bm' w'. btrfs_read_bitmap_info 1 tiny_libbtrfs ''s'' tiny_btrfs_fsinfo (Some (replicate 4 0)) tiny_btrfs_world = Some (True, bm', w')
     \<and> pc_test_bit 16 bm' (unat (totalblock tiny_btrfs_fsinfo)) = 1"
proof -
  obtain bm' w' where r: "btrfs_read_bitmap_info 1 tiny_libbtrfs ''s'' tiny_btrfs_fsinfo (Some (replicate 4 0)) tiny_btrfs_world =
      Some (True, bm', w')"
    using tiny_btrfs_run by blast
  have "pc_test_bit 16 bm' (unat (totalblock tiny_btrfs_fsinfo)) = 1"
    by (rule btrfs_scan_keeps_superblock [OF r tiny_btrfs_open])
       (simp_all add: tiny_btrfs_fsinfo_def tiny_btrfs_info_def bm_wf_def)
  then show ?thesis using r by blast
qed

end
