(* ===== verification/Disk.thy ===== *)
theory Disk
  imports Handlers
begin

text \<open>
  \<^verbatim>\<open>src/src/gdbus-disk.c\<close>: partition tables, MBR, LVM metadata and disk sizes. External programs
  and liblvm2app are parameters: \<open>spawn_env\<close> says how a command ends, \<open>lvm_env\<close> which volume groups
  there are. The commands run are recorded among the events, in order with the messages. An
  uninitialised or \<^verbatim>\<open>NULL\<close> pointer that is dereferenced is \<^term>\<open>None\<close>.
\<close>

section \<open>Running a command\<close>

datatype spawn_result = Spawn_Failed | Exited nat string

type_synonym spawn_env = "string list \<Rightarrow> world \<Rightarrow> spawn_result"

text \<open>
  \<^verbatim>\<open>g_spawn_sync\<close> and \<^verbatim>\<open>g_spawn_check_exit_status\<close>: success, or the standard error of a command
  that ran and failed; it is not set when the command could not be started.
\<close>

definition run_command :: "spawn_env \<Rightarrow> string list \<Rightarrow> world \<Rightarrow> (string option + unit) \<times> world" where
  "run_command spawn argv w =
     (let w' = emit (Spawn argv) w
      in case spawn argv w of
           Spawn_Failed \<Rightarrow> (Inl None, w')
         | Exited status err \<Rightarrow> (if status = 0 then Inr () else Inl (Some err), w'))"

text \<open>The handlers that report the command's standard error, and those with a fixed text.\<close>

definition command_handler :: "spawn_env \<Rightarrow> string \<Rightarrow> string list \<Rightarrow> world \<Rightarrow> (bool \<times> world) option" where
  "command_handler spawn name argv w =
     (case run_command spawn argv w of
        (Inr _, w) \<Rightarrow> Some (True, emit (Reply name [DBool True]) w)
      | (Inl None, w) \<Rightarrow> None
      | (Inl (Some err), w) \<Rightarrow> Some (False, emit (Error (Some err) 1) (emit (Reply name [DBool False]) w)))"

definition fail_reply :: "string \<Rightarrow> string \<Rightarrow> dval \<Rightarrow> world \<Rightarrow> bool \<times> world" where
  "fail_reply name msg v w = (False, emit (Error (Some msg) 1) (emit (Reply name [v]) w))"

section \<open>Handlers\<close>

definition get_restore_cmd_option :: "string \<Rightarrow> string \<Rightarrow> string" where
  "get_restore_cmd_option s t = ''/usr/bin/sfdisk '' @ s @ '' < '' @ t @ '' --force''"

definition gdbus_restore_partition_table :: "spawn_env \<Rightarrow> string \<Rightarrow> string \<Rightarrow> world \<Rightarrow> (bool \<times> world) option" where
  "gdbus_restore_partition_table spawn source target w =
     command_handler spawn ''restore_partition_table''
       [''/usr/bin/bash'', ''-c'', get_restore_cmd_option source target] w"

definition get_backup_cmd_option :: "string \<Rightarrow> string \<Rightarrow> string" where
  "get_backup_cmd_option s t = ''/usr/bin/sfdisk -d '' @ s @ '' > '' @ t"

definition gdbus_backup_partition_table :: "spawn_env \<Rightarrow> string \<Rightarrow> string \<Rightarrow> world \<Rightarrow> (bool \<times> world) option" where
  "gdbus_backup_partition_table spawn source target w =
     command_handler spawn ''backup_partition_table''
       [''/usr/bin/bash'', ''-c'', get_backup_cmd_option source target] w"

definition gdbus_backup_disk_mbr :: "spawn_env \<Rightarrow> string \<Rightarrow> string \<Rightarrow> world \<Rightarrow> (bool \<times> world) option" where
  "gdbus_backup_disk_mbr spawn source target w =
     command_handler spawn ''backup_disk_mbr''
       [''/usr/bin/dd'', ''if='' @ source, ''of='' @ target, ''bs=2048'', ''count=1''] w"

text \<open>This one and \<^verbatim>\<open>gdbus_restart_vg\<close> answer the call before they run anything.\<close>

definition gdbus_restore_lvm_meta :: "spawn_env \<Rightarrow> string \<Rightarrow> string \<Rightarrow> world \<Rightarrow> bool \<times> world" where
  "gdbus_restore_lvm_meta spawn meta vgname w =
     (let w = emit (Reply ''restore_lvm_meta'' [DBool True]) w
      in case run_command spawn [''/sbin/vgcfgrestore'', ''-f'', meta, vgname, ''-y''] w of
           (Inr _, w) \<Rightarrow> (True, w)
         | (Inl _, w) \<Rightarrow> fail_reply ''restore_lvm_meta'' ''vgcfgrestore failed'' (DBool False) w)"

definition gdbus_backup_lvm_meta :: "spawn_env \<Rightarrow> string \<Rightarrow> world \<Rightarrow> (bool \<times> world) option" where
  "gdbus_backup_lvm_meta spawn target w =
     command_handler spawn ''backup_lvm_meta'' [''/sbin/vgcfgbackup'', ''-f'', target @ ''-'' @ ''%s''] w"

definition gdbus_create_pv :: "spawn_env \<Rightarrow> string \<Rightarrow> string \<Rightarrow> string \<Rightarrow> world \<Rightarrow> bool \<times> world" where
  "gdbus_create_pv spawn meta uuid device w =
     (case run_command spawn [''/sbin/pvcreate'', ''--restorefile'', meta, ''--uuid'', uuid, device, ''-y''] w of
        (Inr _, w) \<Rightarrow> (True, emit (Reply ''create_pv'' [DBool True]) w)
      | (Inl _, w) \<Rightarrow> fail_reply ''create_pv'' ''create pv failed'' (DBool False) w)"

definition gdbus_restart_vg :: "spawn_env \<Rightarrow> string \<Rightarrow> world \<Rightarrow> bool \<times> world" where
  "gdbus_restart_vg spawn vgname w =
     (let w = emit (Reply ''restart_vg'' [DBool True]) w
      in case run_command spawn [''/sbin/vgchange'', ''-ay'', vgname] w of
           (Inl _, w) \<Rightarrow> fail_reply ''restart_vg'' ''restart VG failed'' (DBool False) w
         | (Inr _, w) \<Rightarrow>
             (case run_command spawn [''/sbin/lvchange'', ''-ay'', vgname] w of
                (Inl _, w) \<Rightarrow> fail_reply ''restart_vg'' ''restart VG failed'' (DBool False) w
              | (Inr _, w) \<Rightarrow> (True, w)))"

text \<open>The descriptor is never closed.\<close>

definition gdbus_get_disk_size :: "string \<Rightarrow> world \<Rightarrow> bool \<times> world" where
  "gdbus_get_disk_size dev_name w =
     (let (fd, w) = sys_open dev_name rdonly w
      in if fd < 0 then fail_reply ''get_disk_size'' ''get disk size failed'' (DNat 0) w
         else (let sz = get_partition_free_space fd w
               in if sz \<le> 0 then fail_reply ''get_disk_size'' ''get disk size failed'' (DNat 0) w
                  else (True, emit (Reply ''get_disk_size'' [DNat (sz div 1024)]) w)))"

section \<open>The used size of a disk from a partition table dump\<close>

text \<open>
  \<^verbatim>\<open>fgets\<close> with a buffer of 1024 bytes: at most 1023 bytes, up to and with the first newline.
\<close>

definition fgets :: "byte list \<Rightarrow> byte list \<times> byte list" where
  "fgets content =
     (let s = take 1023 content;
          n = length (takeWhile (\<lambda>b. b \<noteq> 10) s);
          n = (if n < length s then n + 1 else n)
      in (take n content, drop n content))"

lemma fgets_progress: "length (snd (fgets (c # cs))) < length (c # cs)"
  by (auto simp: fgets_def Let_def split: if_splits)

text \<open>The loop ends when \<^verbatim>\<open>fgets\<close> has met the end of the file; a failing \<^verbatim>\<open>fgets\<close> keeps \<^verbatim>\<open>line\<close>.\<close>

function last_line_loop :: "byte list \<Rightarrow> byte list \<Rightarrow> byte list" where
  "last_line_loop line [] = line"
| "last_line_loop line (c # cs) = last_line_loop (fst (fgets (c # cs))) (snd (fgets (c # cs)))"
  by pat_completeness auto
termination
  by (relation "measure (\<lambda>(line, content). length content)") (use fgets_progress in \<open>simp_all add: split_beta\<close>)

definition get_file_last_line :: "string \<Rightarrow> world \<Rightarrow> byte list option \<times> world" where
  "get_file_last_line file_path w =
     (let (line, w) = sys_malloc w
      in if \<not> line then (None, w)
         else (case w_nodes w file_path of
                 None \<Rightarrow> (None, w)
               | Some nd \<Rightarrow>
                   if \<not> i_readable nd then (None, w)
                   else (Some (takeWhile (\<lambda>b. b \<noteq> 0)
                           (last_line_loop (replicate 1024 (w_junk w)) (i_bytes nd))), w)))"

text \<open>\<^verbatim>\<open>atoi\<close>: \<^verbatim>\<open>strtol\<close>, which saturates, then the conversion to \<open>int\<close>.\<close>

definition is_space :: "byte \<Rightarrow> bool" where
  "is_space b \<longleftrightarrow> b = 32 \<or> (9 \<le> b \<and> b \<le> 13)"

definition is_digit :: "byte \<Rightarrow> bool" where
  "is_digit b \<longleftrightarrow> 48 \<le> b \<and> b \<le> 57"

definition digits_value :: "byte list \<Rightarrow> int" where
  "digits_value s = foldl (\<lambda>n b. 10 * n + (uint b - 48)) 0 (takeWhile is_digit s)"

definition atoi :: "byte list \<Rightarrow> int" where
  "atoi s =
     (let s = dropWhile is_space s;
          v = (case s of
                 c # cs \<Rightarrow> if c = 45 then - digits_value cs else if c = 43 then digits_value cs
                           else digits_value s
               | [] \<Rightarrow> 0);
          v = max (- (2 ^ 63)) (min (2 ^ 63 - 1) v)
      in sint (word_of_int v :: u32))"

text \<open>\<^verbatim>\<open>g_strsplit\<close> at every \<^verbatim>\<open>=\<close>; the empty string gives no part at all.\<close>

fun strsplit :: "byte \<Rightarrow> byte list \<Rightarrow> byte list list" where
  "strsplit sep [] = [[]]"
| "strsplit sep (c # cs) =
     (if c = sep then [] # strsplit sep cs
      else (case strsplit sep cs of [] \<Rightarrow> [[c]] | p # ps \<Rightarrow> (c # p) # ps))"

definition g_strsplit :: "byte \<Rightarrow> byte list \<Rightarrow> byte list list" where
  "g_strsplit sep s = (if s = [] then [] else strsplit sep s)"

text \<open>
  The counter \<^verbatim>\<open>len\<close> is what is left after the separator: 0 when the separator is the last
  character, and the result is then 0 as if there were none.
\<close>

definition get_spec_data :: "byte list \<Rightarrow> byte \<Rightarrow> int" where
  "get_spec_data source sep =
     (let i = length (takeWhile (\<lambda>b. b \<noteq> sep) source);
          len = int (length source) - 1 - int i
      in if len \<le> 0 then 0 else atoi (take i source))"

definition gdbus_get_source_use_size :: "string \<Rightarrow> world \<Rightarrow> (bool \<times> world) option" where
  "gdbus_get_source_use_size file_path w =
     (let (data, w) = get_file_last_line file_path w
      in case data of
           None \<Rightarrow> Some (fail_reply ''get_source_use_size'' ''get source use size failed'' (DNat 0) w)
         | Some data \<Rightarrow>
             (let str = g_strsplit 61 data
              in if length str < 2
                 then Some (fail_reply ''get_source_use_size'' ''get source use size failed'' (DNat 0) w)
                 else if length str = 2 then None
                 else (let start_size = get_spec_data (str ! 1) 44;
                           sector_szie = get_spec_data (str ! 2) 44;
                           total = sint (word_of_int (start_size + sector_szie) :: u32);
                           sz = (if total < 0 then - ((- total) div 2) else total div 2) mod 2 ^ 64
                       in Some (True, emit (Reply ''get_source_use_size'' [DNat (nat sz)]) w))))"

section \<open>Volume groups\<close>

definition shell_cmd_remove_vg :: "spawn_env \<Rightarrow> string \<Rightarrow> world \<Rightarrow> bool \<times> world" where
  "shell_cmd_remove_vg spawn vgname w =
     (case run_command spawn [''/sbin/vgremove'', vgname, ''-y''] w of
        (Inr _, w) \<Rightarrow> (True, w) | (Inl _, w) \<Rightarrow> (False, w))"

definition shell_cmd_remove_pv :: "spawn_env \<Rightarrow> string \<Rightarrow> world \<Rightarrow> bool \<times> world" where
  "shell_cmd_remove_pv spawn pvname w =
     (case run_command spawn [''/sbin/pvremove'', pvname, ''-y''] w of
        (Inr _, w) \<Rightarrow> (True, w) | (Inl _, w) \<Rightarrow> (False, w))"

fun strstr :: "'a list \<Rightarrow> 'a list \<Rightarrow> bool" where
  "strstr [] needle = (needle = [])"
| "strstr (c # cs) needle = (take (length needle) (c # cs) = needle \<or> strstr cs needle)"

text \<open>
  What liblvm2app reports: the names of the volume groups (\<^term>\<open>None\<close> when they cannot be listed)
  and for each the names of its physical volumes (\<^term>\<open>None\<close> when it cannot be opened or listed).
\<close>

record lvm_env =
  vg_names :: "string list option"
  vg_pvs :: "string \<Rightarrow> string list option"

definition get_vg_pvs :: "lvm_env \<Rightarrow> string \<Rightarrow> string \<Rightarrow> string list option" where
  "get_vg_pvs lvm vg disk_name = map_option (filter (\<lambda>pvname. strstr pvname disk_name)) (vg_pvs lvm vg)"

primrec remove_pvs :: "spawn_env \<Rightarrow> string list \<Rightarrow> world \<Rightarrow> world" where
  "remove_pvs spawn [] w = w"
| "remove_pvs spawn (pv # pvs) w = remove_pvs spawn pvs (snd (shell_cmd_remove_pv spawn pv w))"

primrec remove_vgs :: "spawn_env \<Rightarrow> lvm_env \<Rightarrow> string \<Rightarrow> string list \<Rightarrow> world \<Rightarrow> world option" where
  "remove_vgs spawn lvm disk_name [] w = Some w"
| "remove_vgs spawn lvm disk_name (vg # vgs) w =
     do {
       array \<leftarrow> get_vg_pvs lvm vg disk_name;
       let w = (if length array > 0 then remove_pvs spawn array (snd (shell_cmd_remove_vg spawn vg w)) else w);
       remove_vgs spawn lvm disk_name vgs w
     }"

definition gdbus_remove_all_vg :: "spawn_env \<Rightarrow> lvm_env \<Rightarrow> string \<Rightarrow> world \<Rightarrow> (bool \<times> world) option" where
  "gdbus_remove_all_vg spawn lvm disk_name w =
     (case vg_names lvm of
        None \<Rightarrow> Some (False, emit (Reply ''remove_all_vg'' [DBool False]) w)
      | Some vgs \<Rightarrow> do {
          w \<leftarrow> remove_vgs spawn lvm disk_name vgs w;
          Some (True, emit (Reply ''remove_all_vg'' [DBool True]) w)
        })"

text \<open>
  The buffer is an uninitialised array of 1024 bytes, searched as a C string: without a zero byte
  the search leaves the array.
\<close>

definition gdbus_search_file_data :: "string \<Rightarrow> string \<Rightarrow> world \<Rightarrow> (bool \<times> world) option" where
  "gdbus_search_file_data filepath data w =
     (let (fd, w) = sys_open filepath rdonly w
      in if fd < 0 then Some (False, emit (Reply ''search_file_data'' [DBool False]) w)
         else (let (r, w) = sys_read fd 1024 w;
                   d = (case r of Inl e \<Rightarrow> [] | Inr d \<Rightarrow> d);
                   buf = d @ drop (length d) (replicate 1024 (w_junk w));
                   hay = takeWhile (\<lambda>b. b \<noteq> 0) buf
               in if length hay = 1024 then None
                  else (let ret = strstr hay (cstr data)
                        in Some (ret, emit (Reply ''search_file_data'' [DBool ret]) (sys_close fd w)))))"

section \<open>Reading a partition table dump\<close>

fun decimal :: "nat \<Rightarrow> byte list" where
  "decimal n = (if n < 10 then [48 + of_nat n] else decimal (n div 10) @ [48 + of_nat (n mod 10)])"

declare decimal.simps [simp del]

lemma sint32_small: "n < 2 ^ 31 \<Longrightarrow> sint (word_of_int (int n) :: u32) = int n"
  using to_int32_small [of n] by (simp add: to_int32_def)

lemma digit_byte:
  assumes "n < 10"
  shows "is_digit (48 + of_nat n)" and "uint (48 + of_nat n :: byte) = 48 + int n"
proof -
  have "n \<in> {0, 1, 2, 3, 4, 5, 6, 7, 8, 9}" using assms by auto
  then show "is_digit (48 + of_nat n)" "uint (48 + of_nat n :: byte) = 48 + int n"
    by (elim insertE; simp add: is_digit_def)+
qed

lemma decimal_small: "n < 10 \<Longrightarrow> decimal n = [48 + of_nat n]"
  and decimal_large: "\<not> n < 10 \<Longrightarrow> decimal n = decimal (n div 10) @ [48 + of_nat (n mod 10)]"
  by (subst decimal.simps, simp)+

lemma decimal_digits: "set (decimal n) \<subseteq> {b. is_digit b}"
proof (induction n rule: less_induct)
  case (less n)
  show ?case
  proof (cases "n < 10")
    case True
    then show ?thesis using digit_byte(1) [OF True] by (simp add: decimal_small)
  next
    case False
    have "is_digit (48 + of_nat (n mod 10))" by (rule digit_byte) simp
    then show ?thesis using less [of "n div 10"] False by (simp add: decimal_large)
  qed
qed

lemma decimal_value: "foldl (\<lambda>n b. 10 * n + (uint b - 48)) 0 (decimal n) = int n"
proof (induction n rule: less_induct)
  case (less n)
  show ?case
  proof (cases "n < 10")
    case True
    then show ?thesis using digit_byte(2) [OF True] by (simp add: decimal_small)
  next
    case False
    have d: "uint (48 + of_nat (n mod 10) :: byte) = 48 + int (n mod 10)" by (rule digit_byte) simp
    have "10 * int (n div 10) + int (n mod 10) = int n" by presburger
    then show ?thesis using less [of "n div 10"] False d by (simp add: decimal_large)
  qed
qed

lemma decimal_not_Nil [simp]: "decimal n \<noteq> []"
  by (cases "n < 10") (simp_all add: decimal_small decimal_large)

lemma digits_value_decimal: "digits_value (decimal n) = int n"
proof -
  have "takeWhile is_digit (decimal n) = decimal n" using decimal_digits [of n] by (subst takeWhile_eq_all_conv) auto
  then show ?thesis using decimal_value [of n] by (simp only: digits_value_def)
qed

lemma atoi_decimal:
  assumes "set sp \<subseteq> {b. is_space b}" and "n < 2 ^ 31"
  shows "atoi (sp @ decimal n) = int n"
proof -
  obtain c cs where d: "decimal n = c # cs" by (cases "decimal n") auto
  have c: "is_digit c" using decimal_digits [of n] d by auto
  then have ns: "\<not> is_space c" "c \<noteq> 45" "c \<noteq> 43" by (auto simp: is_digit_def is_space_def word_le_nat_alt)
  have dw: "dropWhile is_space (sp @ decimal n) = decimal n"
    using assms(1) ns(1) by (subst dropWhile_append2) (auto simp: d)
  have dv: "digits_value (c # cs) = int n" using digits_value_decimal [of n] by (simp only: d)
  note sm = sint32_small [OF assms(2)]
  have "max (- (2 ^ 63)) (min (2 ^ 63 - 1) (int n)) = int n" using assms(2) by simp
  then show ?thesis using ns dv sm by (simp only: atoi_def Let_def dw) (simp only: d list.case if_False simp_thms)
qed

lemma get_spec_data_decimal:
  assumes "set sp \<subseteq> {b. is_space b}" and "n < 2 ^ 31" and "r \<noteq> []"
  shows "get_spec_data (sp @ decimal n @ 44 # r) 44 = int n"
proof -
  have no: "\<forall>b \<in> set (sp @ decimal n). b \<noteq> 44"
    using assms(1) decimal_digits [of n] by (auto simp: is_space_def is_digit_def word_le_nat_alt)
  then have tw: "takeWhile (\<lambda>b. b \<noteq> 44) ((sp @ decimal n) @ 44 # r) = sp @ decimal n"
    by (subst takeWhile_append2) auto
  then show ?thesis
    using assms atoi_decimal [OF assms(1,2)] by (simp add: get_spec_data_def)
qed

lemma strsplit_part: "sep \<notin> set p \<Longrightarrow> strsplit sep (p @ sep # q) = p # strsplit sep q"
  by (induction p) auto

lemma strsplit_head: "\<exists>ps. strsplit sep q = takeWhile (\<lambda>b. b \<noteq> sep) q # ps"
  by (induction q) (auto split: list.splits)

lemma last_line_loop_last:
  assumes "10 \<notin> set line" and "length line < 1023"
  shows "last_line_loop junk (pre @ 10 # line @ [10]) = line @ [10]"
proof (induction "length pre" arbitrary: pre junk rule: less_induct)
  case less
  let ?c = "pre @ 10 # line @ [10]"
  have last: "last_line_loop j (line @ [10]) = line @ [10]" for j
  proof -
    have tw: "takeWhile (\<lambda>b. b \<noteq> 10) (line @ [10]) = line" using assms(1) by (subst takeWhile_append2) auto
    have "fgets (line @ [10]) = (line @ [10], [])" using assms(2) by (simp add: fgets_def Let_def tw)
    moreover obtain c cs where "line @ [10] = c # cs" by (cases "line @ [10]") auto
    ultimately show ?thesis by simp
  qed
  let ?s = "take 1023 ?c" and ?t = "takeWhile (\<lambda>b. b \<noteq> 10) (take 1023 ?c)"
  define n where "n = (if length ?t < length ?s then length ?t + 1 else length ?t)"
  have fg: "snd (fgets ?c) = drop n ?c" by (simp add: fgets_def Let_def n_def)
  have "length ?t \<le> length pre"
  proof (cases "length pre < 1023")
    case True
    then have "?s = pre @ 10 # take (1022 - length pre) (line @ [10])" by (simp add: take_Cons')
    then have "?t = takeWhile (\<lambda>b. b \<noteq> 10) pre"
      by (metis (mono_tags, lifting) takeWhile_tail takeWhile_append)
    then show ?thesis by (simp add: length_takeWhile_le)
  next
    case False
    then have "length ?s \<le> length pre" by simp
    then show ?thesis using length_takeWhile_le [of "\<lambda>b. b \<noteq> 10" ?s] by (rule order_trans [rotated])
  qed
  then have n: "n \<le> Suc (length pre)" by (simp only: n_def split: if_split) linarith
  have pos: "0 < n" using fgets_progress [of "hd ?c" "tl ?c"] fg by (cases "n = 0") (auto simp: neq_Nil_conv)
  have step: "last_line_loop junk ?c = last_line_loop (fst (fgets ?c)) (drop n ?c)"
    using fg by (cases ?c) (simp_all del: append_Cons)
  show ?case
  proof (cases "n = Suc (length pre)")
    case True
    then show ?thesis using step last by simp
  next
    case False
    then have d: "drop n ?c = drop n pre @ 10 # line @ [10]" using n by simp
    show ?thesis unfolding step d by (rule less) (use pos False n in simp)
  qed
qed

section \<open>Properties\<close>

text \<open>
  C13: The used size of a disk, from a dump of its partition table: when the last line of the file is a
  partition with \<^verbatim>\<open>start= A,\<close> and \<^verbatim>\<open>size= B,\<close> (with any spaces before the numbers, and anything before
  and after), \<^verbatim>\<open>get_source_use_size\<close> answers half of \<open>A + B\<close>: the end of the last partition in KiB.
\<close>

theorem source_use_size_of_dump:
  assumes "w_nodes w path = Some nd" and "i_readable nd" and "fst (sys_malloc w)"
    and "i_bytes nd = pre @ 10 # line @ [10]" and "length line < 1023" and "10 \<notin> set line" and "0 \<notin> set line"
    and "line = p @ 61 # sp @ decimal a @ 44 # q @ 61 # sp' @ decimal b @ 44 # c # r"
    and "61 \<notin> set p" and "61 \<notin> set q" and "q \<noteq> []" and "c \<noteq> 61"
    and "set sp \<subseteq> {b. is_space b}" and "set sp' \<subseteq> {b. is_space b}" and "a + b < 2 ^ 31"
  shows "gdbus_get_source_use_size path w =
    Some (True, emit (Reply ''get_source_use_size'' [DNat ((a + b) div 2)]) (snd (sys_malloc w)))"
proof -
  obtain w1 where m: "sys_malloc w = (True, w1)" using assms(3) by (cases "sys_malloc w") auto
  have n1: "w_nodes w1 = w_nodes w" using m by (auto simp: sys_malloc_def split: list.splits)
  have z: "takeWhile (\<lambda>b. b \<noteq> 0) (line @ [10]) = line @ [10]" using assms(7) by (subst takeWhile_eq_all_conv) auto
  have data: "get_file_last_line path w = (Some (line @ [10]), w1)"
    using assms(1,2,4) last_line_loop_last [OF assms(6,5)] by (simp add: get_file_last_line_def m n1 z)
  have nd: "61 \<notin> set (sp @ decimal a @ 44 # q)"
    using assms(10,13) decimal_digits [of a] by (auto simp: is_space_def is_digit_def word_le_nat_alt)
  have nd': "\<forall>x \<in> set (sp' @ decimal b @ [44, c]). x \<noteq> 61"
    using assms(12,14) decimal_digits [of b] by (auto simp: is_space_def is_digit_def word_le_nat_alt)
  have l: "line @ [10] = p @ 61 # (sp @ decimal a @ 44 # q) @ 61 # (sp' @ decimal b @ [44, c]) @ r @ [10]"
    using assms(8) by simp
  obtain ps where ps: "strsplit 61 ((sp' @ decimal b @ [44, c]) @ r @ [10]) =
      (sp' @ decimal b @ 44 # c # takeWhile (\<lambda>b. b \<noteq> 61) (r @ [10])) # ps"
    using strsplit_head [of 61 "(sp' @ decimal b @ [44, c]) @ r @ [10]"] nd' by (subst (asm) takeWhile_append2) auto
  have sp: "g_strsplit 61 (line @ [10]) =
      p # (sp @ decimal a @ 44 # q) # (sp' @ decimal b @ 44 # c # takeWhile (\<lambda>b. b \<noteq> 61) (r @ [10])) # ps"
    unfolding g_strsplit_def l strsplit_part [OF assms(9)] strsplit_part [OF nd] ps by simp
  have A: "get_spec_data (sp @ decimal a @ 44 # q) 44 = int a"
    using assms by (intro get_spec_data_decimal) auto
  have B: "get_spec_data (sp' @ decimal b @ 44 # c # takeWhile (\<lambda>b. b \<noteq> 61) (r @ [10])) 44 = int b"
    using assms by (intro get_spec_data_decimal) auto
  have s: "sint (word_of_int (int a + int b) :: u32) = int (a + b)"
    using sint32_small [OF assms(15)] by simp
  have "(if int (a + b) < 0 then - ((- int (a + b)) div 2) else int (a + b) div 2) mod 2 ^ 64 = int ((a + b) div 2)"
    using assms(15) by (simp add: zdiv_int)
  then show ?thesis using s by (simp add: gdbus_get_source_use_size_def data sp A B m Let_def)
qed

definition dump_line :: "byte list" where
  "dump_line = cstr ''/dev/sda1 : start'' @ 61 # [32] @ decimal 2048 @ 44 # cstr '' size'' @ 61 # [32, 32] @ decimal 4096 @ 44 # 32 #
     cstr ''type'' @ 61 # cstr ''83''"

definition dump_file :: inode where
  "dump_file = \<lparr>i_kind = REG, i_bytes = cstr ''label: dos'' @ 10 # dump_line @ [10], i_dirty = False, i_readable = True,
     i_writable = True\<rparr>"

theorem source_use_size_of_dump_witness:
  "gdbus_get_source_use_size ''t'' (engine_world engine_source 0 dump_file 0) =
    Some (True, emit (Reply ''get_source_use_size'' [DNat ((2048 + 4096) div 2)]) (snd (sys_malloc (engine_world engine_source 0 dump_file 0))))"
  by (rule source_use_size_of_dump [where nd = dump_file and pre = "cstr ''label: dos''" and line = dump_line
        and p = "cstr ''/dev/sda1 : start''" and sp = "[32]" and q = "cstr '' size''" and sp' = "[32, 32]" and c = 32
        and r = "cstr ''type'' @ 61 # cstr ''83''"])
     (simp_all add: engine_world_def dump_file_def dump_line_def sys_malloc_def cstr_def decimal_small decimal_large is_space_def)

text \<open>
  C14: \<^verbatim>\<open>remove_all_vg\<close> runs these commands and no others, in this order, whether they fail or not: for
  every volume group with a physical volume whose name contains the name of the disk it removes the
  group and then those physical volumes; then it answers TRUE. The name is searched anywhere: on
  \<^verbatim>\<open>/dev/sda\<close> the volumes of \<^verbatim>\<open>/dev/sdaa\<close> are removed as well, as the witness shows.
\<close>

theorem remove_all_vg_commands:
  assumes "vg_names lvm = Some vgs" and "\<And>vg. vg \<in> set vgs \<Longrightarrow> vg_pvs lvm vg = Some (pvs vg)"
  shows "\<exists>w'. gdbus_remove_all_vg spawn lvm disk w = Some (True, w') \<and>
    w_out w' = w_out w @
      concat (map (\<lambda>vg. let on_disk = filter (\<lambda>pv. strstr pv disk) (pvs vg)
                        in if on_disk = [] then []
                           else Spawn [''/sbin/vgremove'', vg, ''-y''] #
                                map (\<lambda>pv. Spawn [''/sbin/pvremove'', pv, ''-y'']) on_disk) vgs) @
      [Reply ''remove_all_vg'' [DBool True]]"
proof -
  have run: "w_out (snd (run_command spawn argv v)) = w_out v @ [Spawn argv]" for argv v
    by (simp add: run_command_def emit_def Let_def split: spawn_result.split)
  have vg: "w_out (snd (shell_cmd_remove_vg spawn vg v)) = w_out v @ [Spawn [''/sbin/vgremove'', vg, ''-y'']]" for vg v
    using run [of "[''/sbin/vgremove'', vg, ''-y'']" v]
    by (cases "run_command spawn [''/sbin/vgremove'', vg, ''-y''] v") (auto simp: shell_cmd_remove_vg_def split: sum.splits)
  have pv: "w_out (snd (shell_cmd_remove_pv spawn pv v)) = w_out v @ [Spawn [''/sbin/pvremove'', pv, ''-y'']]" for pv v
    using run [of "[''/sbin/pvremove'', pv, ''-y'']" v]
    by (cases "run_command spawn [''/sbin/pvremove'', pv, ''-y''] v") (auto simp: shell_cmd_remove_pv_def split: sum.splits)
  have pvs: "w_out (remove_pvs spawn ps v) = w_out v @ map (\<lambda>pv. Spawn [''/sbin/pvremove'', pv, ''-y'']) ps" for ps v
    by (induction ps arbitrary: v) (simp_all add: pv)
  have "\<exists>w'. remove_vgs spawn lvm disk gs v = Some w' \<and> w_out w' = w_out v @
      concat (map (\<lambda>vg. let on_disk = filter (\<lambda>pv. strstr pv disk) (pvs vg)
                        in if on_disk = [] then []
                           else Spawn [''/sbin/vgremove'', vg, ''-y''] #
                                map (\<lambda>pv. Spawn [''/sbin/pvremove'', pv, ''-y'']) on_disk) gs)"
    if "set gs \<subseteq> set vgs" for gs v
    using that
  proof (induction gs arbitrary: v)
    case (Cons g gs)
    then have g: "get_vg_pvs lvm g disk = Some (filter (\<lambda>pv. strstr pv disk) (pvs g))"
      using assms(2) by (simp add: get_vg_pvs_def)
    let ?v = "remove_pvs spawn (filter (\<lambda>pv. strstr pv disk) (pvs g)) (snd (shell_cmd_remove_vg spawn g v))"
    show ?case using Cons.IH [of v] Cons.IH [of ?v] Cons.prems by (simp add: g pvs vg Let_def)
  qed simp
  from this [OF order_refl, of w] show ?thesis
    by (auto simp: gdbus_remove_all_vg_def assms(1) emit_def)
qed

theorem remove_all_vg_commands_witness:
  "\<exists>w'. gdbus_remove_all_vg (\<lambda>argv w. Exited 5 ''busy'')
      \<lparr>vg_names = Some [''vg0'', ''vg1''], vg_pvs = (\<lambda>vg. Some (if vg = ''vg0'' then [''/dev/sdaa1''] else [''/dev/sdb1'']))\<rparr>
      ''/dev/sda'' (engine_world engine_source 0 dump_file 0) = Some (True, w') \<and>
    w_out w' = [Spawn [''/sbin/vgremove'', ''vg0'', ''-y''], Spawn [''/sbin/pvremove'', ''/dev/sdaa1'', ''-y''],
      Reply ''remove_all_vg'' [DBool True]]"
  using remove_all_vg_commands [of "\<lparr>vg_names = Some [''vg0'', ''vg1''],
      vg_pvs = (\<lambda>vg. Some (if vg = ''vg0'' then [''/dev/sdaa1''] else [''/dev/sdb1'']))\<rparr>" "[''vg0'', ''vg1'']"
      "\<lambda>vg. if vg = ''vg0'' then [''/dev/sdaa1''] else [''/dev/sdb1'']" "\<lambda>argv w. Exited 5 ''busy''" "''/dev/sda''"
      "engine_world engine_source 0 dump_file 0"]
  by (simp add: engine_world_def)

end
