(* ===== verification/Server.thy ===== *)
theory Server
  imports Extfs Fatfs Xfsfs Btrfs Disk
begin

text \<open>
  \<^verbatim>\<open>src/src/gdbus-server.c\<close>: the table that connects every D-Bus method to its handler, and the main
  loop, which runs one handler at a time in the order of the calls. The D-Bus skeleton that unpacks
  the arguments is generated code; \<open>request\<close> has one constructor for each method of the interface.
\<close>

section \<open>Definitions\<close>

datatype request =
    SysbakExtfsPtf string string bool
  | SysbakExtfsPtp string string bool
  | SysbakFatfsPtf string string bool
  | SysbakFatfsPtp string string bool
  | SysbakBtrfsPtf string string bool
  | SysbakBtrfsPtp string string bool
  | SysbakXfsfsPtf string string bool
  | SysbakXfsfsPtp string string bool
  | SysbakRestore string string bool
  | GetDiskSize string
  | GetSourceUseSize string
  | CreatePV string string string
  | RestartVG string
  | BackupPartitionTable string string
  | RestorePartitionTable string string
  | BackupDiskMbr string string
  | BackupLvmMeta string
  | RestoreLvmMeta string string
  | RemoveAllVG string
  | SearchFileData string string
  | GetExtfsDeviceInfo string
  | GetFsImageInfo string

text \<open>The libraries and external programs the handlers use, and the depth for the trees on the disk.\<close>

record server_env =
  env_ext2fs :: libext2fs
  env_btrfs :: libbtrfs
  env_xfs :: libxfs
  env_depth :: nat
  env_spawn :: spawn_env
  env_lvm :: lvm_env

primrec dispatch :: "server_env \<Rightarrow> request \<Rightarrow> world \<Rightarrow> (bool \<times> world) option" where
  "dispatch env (SysbakExtfsPtf source target ovr) = gdbus_sysbak_extfs_ptf (env_ext2fs env) source target ovr"
| "dispatch env (SysbakExtfsPtp source target ovr) = gdbus_sysbak_extfs_ptp (env_ext2fs env) source target ovr"
| "dispatch env (SysbakFatfsPtf source target ovr) = gdbus_sysbak_fatfs_ptf source target ovr"
| "dispatch env (SysbakFatfsPtp source target ovr) = gdbus_sysbak_fatfs_ptp source target ovr"
| "dispatch env (SysbakBtrfsPtf source target ovr) = gdbus_sysbak_btrfs_ptf (env_depth env) (env_btrfs env) source target ovr"
| "dispatch env (SysbakBtrfsPtp source target ovr) = gdbus_sysbak_btrfs_ptp (env_depth env) (env_btrfs env) source target ovr"
| "dispatch env (SysbakXfsfsPtf source target ovr) = gdbus_sysbak_xfsfs_ptf (env_depth env) (env_xfs env) source target ovr"
| "dispatch env (SysbakXfsfsPtp source target ovr) = gdbus_sysbak_xfsfs_ptp (env_depth env) (env_xfs env) source target ovr"
| "dispatch env (SysbakRestore source target ovr) = gdbus_sysbak_restore source target ovr"
| "dispatch env (GetDiskSize dev_name) = (\<lambda>w. Some (gdbus_get_disk_size dev_name w))"
| "dispatch env (GetSourceUseSize file_path) = gdbus_get_source_use_size file_path"
| "dispatch env (CreatePV meta uuid device) = (\<lambda>w. Some (gdbus_create_pv (env_spawn env) meta uuid device w))"
| "dispatch env (RestartVG vgname) = (\<lambda>w. Some (gdbus_restart_vg (env_spawn env) vgname w))"
| "dispatch env (BackupPartitionTable source target) = gdbus_backup_partition_table (env_spawn env) source target"
| "dispatch env (RestorePartitionTable source target) = gdbus_restore_partition_table (env_spawn env) source target"
| "dispatch env (BackupDiskMbr source target) = gdbus_backup_disk_mbr (env_spawn env) source target"
| "dispatch env (BackupLvmMeta target) = gdbus_backup_lvm_meta (env_spawn env) target"
| "dispatch env (RestoreLvmMeta meta vgname) = (\<lambda>w. Some (gdbus_restore_lvm_meta (env_spawn env) meta vgname w))"
| "dispatch env (RemoveAllVG diskname) = gdbus_remove_all_vg (env_spawn env) (env_lvm env) diskname"
| "dispatch env (SearchFileData filepath data) = gdbus_search_file_data filepath data"
| "dispatch env (GetExtfsDeviceInfo device) = (\<lambda>w. Some (gdbus_get_extfs_device_info (env_ext2fs env) device w))"
| "dispatch env (GetFsImageInfo image_name) = (\<lambda>w. Some (gdbus_get_fs_image_info image_name w))"

primrec serve :: "server_env \<Rightarrow> request list \<Rightarrow> world \<Rightarrow> world option" where
  "serve env [] w = Some w"
| "serve env (r # rs) w = do { (_, w) \<leftarrow> dispatch env r w; serve env rs w }"

section \<open>What a request may change\<close>

text \<open>The target of a backup, a copy or a restore; the other calls write nothing themselves.\<close>

fun request_target :: "request \<Rightarrow> string option" where
  "request_target (SysbakExtfsPtf source target ovr) = Some target"
| "request_target (SysbakExtfsPtp source target ovr) = Some target"
| "request_target (SysbakFatfsPtf source target ovr) = Some target"
| "request_target (SysbakFatfsPtp source target ovr) = Some target"
| "request_target (SysbakBtrfsPtf source target ovr) = Some target"
| "request_target (SysbakBtrfsPtp source target ovr) = Some target"
| "request_target (SysbakXfsfsPtf source target ovr) = Some target"
| "request_target (SysbakXfsfsPtp source target ovr) = Some target"
| "request_target (SysbakRestore source target ovr) = Some target"
| "request_target _ = None"

text \<open>The two kinds of handlers, as facts about one call.\<close>

definition changes_only :: "string option \<Rightarrow> world \<Rightarrow> world \<Rightarrow> bool" where
  "changes_only t w w' \<longleftrightarrow> (\<forall>p. t \<noteq> Some p \<longrightarrow> w_nodes w' p = w_nodes w p)"

lemma changes_only_target: "others_same target w w' \<Longrightarrow> changes_only (Some target) w w'"
  by (simp add: changes_only_def others_same_iff)

lemma changes_only_same: "w_nodes w' = w_nodes w \<Longrightarrow> changes_only t w w'"
  by (simp add: changes_only_def)

lemma copy_call:
  assumes "dispatch env r w = Some (ok, w')" and "request_target r = Some target"
  shows "others_same target w w' \<and> call_log w ok w'"
  using assms ext.ptf_call ext.ptp_call fat.ptf_call fat.ptp_call xfs.ptf_call xfs.ptp_call btrfs.ptf_call btrfs.ptp_call
    restore_call
  by (cases r) (simp_all add: gdbus_sysbak_extfs_ptf_def gdbus_sysbak_fatfs_ptf_def gdbus_sysbak_xfsfs_ptf_def
      gdbus_sysbak_btrfs_ptf_def gdbus_sysbak_extfs_ptp_def gdbus_sysbak_fatfs_ptp_def gdbus_sysbak_xfsfs_ptp_def
      gdbus_sysbak_btrfs_ptp_def)

lemma nodes_run_command: "run_command spawn argv w = (r, w') \<Longrightarrow> w_nodes w' = w_nodes w"
  by (auto simp: run_command_def Let_def split: spawn_result.splits if_splits)

lemma nodes_command_handler: "command_handler spawn name argv w = Some (ok, w') \<Longrightarrow> w_nodes w' = w_nodes w"
  by (auto simp: command_handler_def split: prod.splits sum.splits option.splits dest!: nodes_run_command)

lemma nodes_fail_reply [simp]: "w_nodes (snd (fail_reply name msg v w)) = w_nodes w"
  by (simp add: fail_reply_def)

lemma fail_reply_nodes: "fail_reply name msg v w = (ok, w') \<Longrightarrow> w_nodes w' = w_nodes w"
  using nodes_fail_reply [of name msg v w] by simp

lemma nodes_open_rdonly: "sys_open path rdonly w = (fd, w') \<Longrightarrow> w_nodes w' = w_nodes w"
  using keeps_open_rdonly(1) keeps_nodes by blast

lemma nodes_read: "sys_read fd n w = (r, w') \<Longrightarrow> w_nodes w' = w_nodes w"
  using touches_read touches_all by blast

lemma nodes_get_disk_size: "gdbus_get_disk_size dev w = (ok, w') \<Longrightarrow> w_nodes w' = w_nodes w"
  by (auto simp: gdbus_get_disk_size_def Let_def split: prod.splits if_splits dest!: nodes_open_rdonly fail_reply_nodes)

lemma nodes_get_file_last_line: "get_file_last_line path w = (r, w') \<Longrightarrow> w_nodes w' = w_nodes w"
  using touches_all [OF touches_malloc]
  by (auto simp: get_file_last_line_def Let_def split: prod.splits if_splits option.splits)

lemma nodes_source_use_size: "gdbus_get_source_use_size path w = Some (ok, w') \<Longrightarrow> w_nodes w' = w_nodes w"
  by (auto simp: gdbus_get_source_use_size_def Let_def split: prod.splits if_splits option.splits
      dest!: nodes_get_file_last_line fail_reply_nodes)

lemma nodes_create_pv: "gdbus_create_pv spawn meta uuid device w = (ok, w') \<Longrightarrow> w_nodes w' = w_nodes w"
  by (auto simp: gdbus_create_pv_def split: prod.splits sum.splits dest!: nodes_run_command fail_reply_nodes)

lemma nodes_restart_vg: "gdbus_restart_vg spawn vg w = (ok, w') \<Longrightarrow> w_nodes w' = w_nodes w"
  by (auto simp: gdbus_restart_vg_def Let_def split: prod.splits sum.splits dest!: nodes_run_command fail_reply_nodes)

lemma nodes_restore_lvm_meta: "gdbus_restore_lvm_meta spawn meta vg w = (ok, w') \<Longrightarrow> w_nodes w' = w_nodes w"
  by (auto simp: gdbus_restore_lvm_meta_def Let_def split: prod.splits sum.splits dest!: nodes_run_command fail_reply_nodes)

lemma nodes_remove_vg: "w_nodes (snd (shell_cmd_remove_vg spawn vg w)) = w_nodes w"
  and nodes_remove_pv: "w_nodes (snd (shell_cmd_remove_pv spawn pv w)) = w_nodes w"
  by (auto simp: shell_cmd_remove_vg_def shell_cmd_remove_pv_def split: prod.split sum.split dest!: nodes_run_command)

lemma nodes_remove_pvs: "w_nodes (remove_pvs spawn pvs w) = w_nodes w"
  by (induction pvs arbitrary: w) (simp_all add: nodes_remove_pv)

lemma nodes_remove_vgs: "remove_vgs spawn lvm disk vgs w = Some w' \<Longrightarrow> w_nodes w' = w_nodes w"
proof (induction vgs arbitrary: w)
  case (Cons vg vgs)
  obtain ps where g: "get_vg_pvs lvm vg disk = Some ps" using Cons.prems by (cases "get_vg_pvs lvm vg disk") auto
  let ?w = "if length ps > 0 then remove_pvs spawn ps (snd (shell_cmd_remove_vg spawn vg w)) else w"
  have "remove_vgs spawn lvm disk vgs ?w = Some w'" using Cons.prems by (simp add: g Let_def)
  then have "w_nodes w' = w_nodes ?w" by (rule Cons.IH)
  then show ?case by (simp add: nodes_remove_pvs nodes_remove_vg split: if_splits)
qed simp

lemma nodes_remove_all_vg: "gdbus_remove_all_vg spawn lvm disk w = Some (ok, w') \<Longrightarrow> w_nodes w' = w_nodes w"
  by (auto simp: gdbus_remove_all_vg_def bind_eq_Some_conv split: option.splits dest: nodes_remove_vgs)

lemma nodes_search_file_data: "gdbus_search_file_data path data w = Some (ok, w') \<Longrightarrow> w_nodes w' = w_nodes w"
  by (auto simp: gdbus_search_file_data_def Let_def split: prod.splits if_splits dest!: nodes_open_rdonly nodes_read)

lemma nodes_device_info: "gdbus_get_extfs_device_info lib dev w = (ok, w') \<Longrightarrow> w_nodes w' = w_nodes w"
  by (auto simp: gdbus_get_extfs_device_info_def split: option.splits)

lemma nodes_read_image_desc: "read_image_desc fd w = (r, w') \<Longrightarrow> w_nodes w' = w_nodes w"
  using touches_read_image_desc touches_all by blast

lemma nodes_image_info: "gdbus_get_fs_image_info path w = (ok, w') \<Longrightarrow> w_nodes w' = w_nodes w"
  by (auto simp: gdbus_get_fs_image_info_def Let_def split: prod.splits if_splits option.splits
      dest!: open_source_nodes nodes_read_image_desc)

lemmas nodes_queries = nodes_get_disk_size nodes_source_use_size nodes_create_pv nodes_restart_vg nodes_command_handler
  nodes_restore_lvm_meta nodes_remove_all_vg nodes_search_file_data nodes_device_info nodes_image_info

lemma other_call:
  assumes "dispatch env r w = Some (ok, w')" and "request_target r = None"
  shows "w_nodes w' = w_nodes w"
  using assms
  by (cases r) (auto simp: gdbus_backup_partition_table_def gdbus_restore_partition_table_def gdbus_backup_disk_mbr_def
      gdbus_backup_lvm_meta_def dest: nodes_queries)

lemma dispatch_changes: "dispatch env r w = Some (ok, w') \<Longrightarrow> changes_only (request_target r) w w'"
  using copy_call other_call changes_only_target changes_only_same by (cases "request_target r") fastforce+

lemma serve_changes:
  "serve env rs w = Some w' \<Longrightarrow> p \<notin> set (List.map_filter request_target rs) \<Longrightarrow> w_nodes w' p = w_nodes w p"
proof (induction rs arbitrary: w)
  case (Cons r rs)
  then obtain ok w1 where d: "dispatch env r w = Some (ok, w1)" and s: "serve env rs w1 = Some w'"
    by (auto simp: bind_eq_Some_conv)
  have p: "request_target r \<noteq> Some p" "p \<notin> set (List.map_filter request_target rs)"
    using Cons.prems(2) by (auto simp: List.map_filter_simps split: option.splits)
  have "w_nodes w1 p = w_nodes w p" using dispatch_changes [OF d] p(1) by (simp add: changes_only_def)
  then show ?case using Cons.IH [OF s p(2)] by simp
qed simp

section \<open>Properties\<close>


text \<open>
  C7: The protocol of the nine long calls: a call that returns has sent exactly one final signal, which is
  \<^verbatim>\<open>sysbak-finished\<close> exactly when the call was successful and \<^verbatim>\<open>sysbak-error\<close> when not; a successful call
  was answered once, a failed one once or twice.
\<close>

theorem copy_call_signals:
  "case (request_target r, dispatch env r w) of
     (Some target, Some (ok, w')) \<Rightarrow>
       (\<exists>evs. w_out w' = w_out w @ evs \<and> outcomes evs = [ok] \<and> (ok, replies evs) \<in> {(True, 1), (False, 1), (False, 2)})
   | _ \<Rightarrow> True"
  using copy_call [of env r w] by (fastforce simp: call_log_def split: option.split)

end
