(* ===== verification/Client.thy ===== *)
theory Client
  imports Server
begin

text \<open>
  The client library \<^verbatim>\<open>src/src/libsysbak\<close>, without the disk functions: the object of \<^verbatim>\<open>sysbak-gdbus.c\<close>,
  the checks of \<^verbatim>\<open>sysbak-check.c\<close>, and the calls of \<^verbatim>\<open>sysbak-extfs.c\<close>, \<^verbatim>\<open>sysbak-fatfs.c\<close>,
  \<^verbatim>\<open>sysbak-btrfs.c\<close> and \<^verbatim>\<open>sysbak-xfsfs.c\<close>. What the client does is a history: D-Bus calls sent to the
  daemon, signals emitted to the application, directories made, programs run. What it finds out
  about its surroundings is a function of that history (\<open>client_env\<close>), so that it may change at any
  step. A \<^verbatim>\<open>NULL\<close> string is \<^term>\<open>None\<close>; a \<^verbatim>\<open>NULL\<close> argument of a D-Bus call or a \<^verbatim>\<open>NULL\<close> dereference is the
  result \<^term>\<open>None\<close>.
\<close>

section \<open>State and surroundings\<close>

datatype client_event =
    Call request
  | SignalError "string option"
  | SignalProgress rat rat int
  | SignalFinished nat nat nat
  | Mkdir string
  | Lsblk "string list"
  | SaveConfig string

record sysbak_admin =
  sa_overwrite :: bool
  sa_source :: "string option"
  sa_target :: "string option"

record client =
  cl_out :: "client_event list"
  cl_allocs :: "bool list"
  group_name :: "string option"

text \<open>
  \<open>ce_exists\<close> and \<open>ce_readable\<close> are \<^verbatim>\<open>access\<close> with \<^verbatim>\<open>F_OK\<close> and \<^verbatim>\<open>R_OK\<close>, \<open>ce_mounts\<close> the file system names of
  \<^verbatim>\<open>MOUNTED\<close> (\<^term>\<open>None\<close> when it cannot be opened), \<open>ce_reply\<close> the answer to a synchronous call (\<^term>\<open>None\<close>
  when the call fails).
\<close>

record client_env =
  ce_exists :: "client_event list \<Rightarrow> string \<Rightarrow> bool"
  ce_readable :: "client_event list \<Rightarrow> string \<Rightarrow> bool"
  ce_realpath :: "client_event list \<Rightarrow> string \<Rightarrow> string option"
  ce_mounts :: "client_event list \<Rightarrow> string list option"
  ce_reply :: "client_event list \<Rightarrow> request \<Rightarrow> dval option"

definition happen :: "client_event \<Rightarrow> client \<Rightarrow> client" where
  "happen e c = c\<lparr>cl_out := cl_out c @ [e]\<rparr>"

definition client_malloc :: "client \<Rightarrow> bool \<times> client" where
  "client_malloc c = (case cl_allocs c of [] \<Rightarrow> (True, c) | a # as \<Rightarrow> (a, c\<lparr>cl_allocs := as\<rparr>))"

section \<open>The object\<close>

definition sysbak_admin_new :: sysbak_admin where
  "sysbak_admin_new = \<lparr>sa_overwrite = False, sa_source = None, sa_target = None\<rparr>"

definition sysbak_admin_set_source :: "sysbak_admin \<Rightarrow> string \<Rightarrow> sysbak_admin" where
  "sysbak_admin_set_source sysbak source = sysbak\<lparr>sa_source := Some source\<rparr>"

definition sysbak_admin_set_target :: "sysbak_admin \<Rightarrow> string \<Rightarrow> sysbak_admin" where
  "sysbak_admin_set_target sysbak target = sysbak\<lparr>sa_target := Some target\<rparr>"

definition sysbak_admin_set_option :: "sysbak_admin \<Rightarrow> bool \<Rightarrow> sysbak_admin" where
  "sysbak_admin_set_option sysbak ovr = sysbak\<lparr>sa_overwrite := ovr\<rparr>"

text \<open>The daemon's signals, passed on; the error code is dropped.\<close>

definition on_progress :: "rat \<Rightarrow> rat \<Rightarrow> int \<Rightarrow> client \<Rightarrow> client" where
  "on_progress pct spd time = happen (SignalProgress pct spd time)"

definition on_findshed :: "nat \<Rightarrow> nat \<Rightarrow> nat \<Rightarrow> client \<Rightarrow> client" where
  "on_findshed tot used bsize = happen (SignalFinished tot used bsize)"

definition on_error :: "string option \<Rightarrow> int \<Rightarrow> client \<Rightarrow> client" where
  "on_error error_message e_code = happen (SignalError error_message)"

text \<open>The signals that \<^verbatim>\<open>sysbak_admin_init\<close> connects, for one message of the daemon.\<close>

fun receive :: "dbus_event \<Rightarrow> client \<Rightarrow> client" where
  "receive (Progress pct spd time) = on_progress pct spd time"
| "receive (Finished tot used bsize) = on_findshed tot used bsize"
| "receive (Error msg e_code) = on_error msg e_code"
| "receive _ = (\<lambda>c. c)"

text \<open>The client emits its own errors as the daemon's signal on the proxy, where \<^verbatim>\<open>on_error\<close> takes them up.\<close>

definition emit_sysbak_error :: "string \<Rightarrow> client \<Rightarrow> client" where
  "emit_sysbak_error msg = on_error (Some msg) (- 1)"

section \<open>Checks\<close>

definition check_file_device :: "'a client_env_scheme \<Rightarrow> string option \<Rightarrow> client \<Rightarrow> bool" where
  "check_file_device env path c = (case path of None \<Rightarrow> False | Some p \<Rightarrow> ce_exists env (cl_out c) p)"

definition check_file_permission :: "'a client_env_scheme \<Rightarrow> string \<Rightarrow> client \<Rightarrow> bool" where
  "check_file_permission env path c = ce_readable env (cl_out c) path"

text \<open>Without memory, without a real path or without a list of mounts the device counts as not mounted.\<close>

definition check_device_mount :: "'a client_env_scheme \<Rightarrow> string \<Rightarrow> client \<Rightarrow> bool \<times> client" where
  "check_device_mount env device c =
     (let (real_file, c) = client_malloc c
      in if \<not> real_file then (False, c)
         else (let (real_fsname, c) = client_malloc c
               in if \<not> real_fsname then (False, c)
                  else (case (ce_realpath env (cl_out c) device, ce_mounts env (cl_out c)) of
                          (Some real_name, Some mounts) \<Rightarrow>
                            (list_ex (\<lambda>fsname. ce_realpath env (cl_out c) fsname = Some real_name) mounts, c)
                        | _ \<Rightarrow> (False, c))))"

section \<open>Calls\<close>

text \<open>What the callback of an asynchronous call does when the call has ended: \<open>err\<close> is the error, if any.\<close>

definition call_finish :: "string \<Rightarrow> string option \<Rightarrow> client \<Rightarrow> client" where
  "call_finish base_error err c =
     (case err of None \<Rightarrow> c | Some msg \<Rightarrow> emit_sysbak_error (base_error @ '' '' @ msg) c)"

definition call_sysbak_extfs_ptf :: "string option \<Rightarrow> client \<Rightarrow> client" where
  "call_sysbak_extfs_ptf = call_finish ''Backup partition to file failed''"

definition call_sysbak_extfs_ptp :: "string option \<Rightarrow> client \<Rightarrow> client" where
  "call_sysbak_extfs_ptp = call_finish ''Backup partition to partition failed''"

text \<open>This one builds the message and drops it.\<close>

definition call_sysbak_restore :: "string option \<Rightarrow> client \<Rightarrow> client" where
  "call_sysbak_restore err c = c"

definition call_sysbak_fatfs_ptf :: "string option \<Rightarrow> client \<Rightarrow> client" where
  "call_sysbak_fatfs_ptf = call_finish ''Backup fatfs partition to file failed''"

definition call_sysbak_fatfs_ptp :: "string option \<Rightarrow> client \<Rightarrow> client" where
  "call_sysbak_fatfs_ptp = call_finish ''Backup fatfs partition to partition failed''"

definition call_sysbak_btrfs_ptf :: "string option \<Rightarrow> client \<Rightarrow> client" where
  "call_sysbak_btrfs_ptf = call_finish ''Backup btrfs partition to file failed''"

definition call_sysbak_btrfs_ptp :: "string option \<Rightarrow> client \<Rightarrow> client" where
  "call_sysbak_btrfs_ptp = call_finish ''Backup btrfs partition to partition failed''"

definition call_sysbak_xfsfs_ptf :: "string option \<Rightarrow> client \<Rightarrow> client" where
  "call_sysbak_xfsfs_ptf = call_finish ''Backup xfs partition to file failed''"

definition call_sysbak_xfsfs_ptp :: "string option \<Rightarrow> client \<Rightarrow> client" where
  "call_sysbak_xfsfs_ptp = call_finish ''Backup xfs partition to partition failed''"

text \<open>The same code in four files, for the request that each sends.\<close>

definition ptf_async ::
    "(string \<Rightarrow> string \<Rightarrow> bool \<Rightarrow> request) \<Rightarrow> 'a client_env_scheme \<Rightarrow> sysbak_admin \<Rightarrow> client \<Rightarrow> (bool \<times> client) option" where
  "ptf_async method env sysbak c =
     (let base_error = ''Backup partition to file failed'';
          failing = (\<lambda>msg c. Some (False, emit_sysbak_error (base_error @ msg) c))
      in case sa_source sysbak of
           None \<Rightarrow> failing '' (null) device does not exist'' c
         | Some source \<Rightarrow>
             if \<not> check_file_device env (Some source) c then failing ('' '' @ source @ '' device does not exist'') c
             else if check_file_device env (sa_target sysbak) c \<and> \<not> sa_overwrite sysbak
             then failing ('' Overwrite is not set, but the '' @ the (sa_target sysbak) @ '' file already exists'') c
             else (let (mounted, c) = check_device_mount env source c
                   in if mounted then failing ('' Please umount the '' @ source @ '' to be backed up'') c
                      else do {
                        target \<leftarrow> sa_target sysbak;
                        Some (True, happen (Call (method source target (sa_overwrite sysbak))) c)
                      }))"

definition ptp_async ::
    "(string \<Rightarrow> string \<Rightarrow> bool \<Rightarrow> request) \<Rightarrow> 'a client_env_scheme \<Rightarrow> sysbak_admin \<Rightarrow> client \<Rightarrow> bool \<times> client" where
  "ptp_async method env sysbak c =
     (let base_error = ''Backup partition to partition failed'';
          failing = (\<lambda>msg c. (False, emit_sysbak_error (base_error @ msg) c))
      in case sa_source sysbak of
           None \<Rightarrow> failing '' (null) device does not exist'' c
         | Some source \<Rightarrow>
             if \<not> check_file_device env (Some source) c then failing ('' '' @ source @ '' device does not exist'') c
             else (case sa_target sysbak of
               None \<Rightarrow> failing '' (null) device does not exist'' c
             | Some target \<Rightarrow>
                 if \<not> check_file_device env (Some target) c then failing ('' '' @ target @ '' device does not exist'') c
                 else (let (mounted, c) = check_device_mount env source c
                       in if mounted then failing ('' Please umount the '' @ source @ '' to be backed up'') c
                          else (let (mounted, c) = check_device_mount env target c
                                in if mounted then failing ('' Please umount the '' @ target @ '' to be backed up'') c
                                   else (True, happen (Call (method source target (sa_overwrite sysbak))) c)))))"

definition sysbak_admin_extfs_ptf_async :: "'a client_env_scheme \<Rightarrow> sysbak_admin \<Rightarrow> client \<Rightarrow> (bool \<times> client) option" where
  "sysbak_admin_extfs_ptf_async = ptf_async SysbakExtfsPtf"

definition sysbak_admin_extfs_ptp_async :: "'a client_env_scheme \<Rightarrow> sysbak_admin \<Rightarrow> client \<Rightarrow> bool \<times> client" where
  "sysbak_admin_extfs_ptp_async = ptp_async SysbakExtfsPtp"

definition sysbak_admin_fatfs_ptf_async :: "'a client_env_scheme \<Rightarrow> sysbak_admin \<Rightarrow> client \<Rightarrow> (bool \<times> client) option" where
  "sysbak_admin_fatfs_ptf_async = ptf_async SysbakFatfsPtf"

definition sysbak_admin_fatfs_ptp_async :: "'a client_env_scheme \<Rightarrow> sysbak_admin \<Rightarrow> client \<Rightarrow> bool \<times> client" where
  "sysbak_admin_fatfs_ptp_async = ptp_async SysbakFatfsPtp"

definition sysbak_admin_btrfs_ptf_async :: "'a client_env_scheme \<Rightarrow> sysbak_admin \<Rightarrow> client \<Rightarrow> (bool \<times> client) option" where
  "sysbak_admin_btrfs_ptf_async = ptf_async SysbakBtrfsPtf"

definition sysbak_admin_btrfs_ptp_async :: "'a client_env_scheme \<Rightarrow> sysbak_admin \<Rightarrow> client \<Rightarrow> bool \<times> client" where
  "sysbak_admin_btrfs_ptp_async = ptp_async SysbakBtrfsPtp"

definition sysbak_admin_xfsfs_ptf_async :: "'a client_env_scheme \<Rightarrow> sysbak_admin \<Rightarrow> client \<Rightarrow> (bool \<times> client) option" where
  "sysbak_admin_xfsfs_ptf_async = ptf_async SysbakXfsfsPtf"

definition sysbak_admin_xfsfs_ptp_async :: "'a client_env_scheme \<Rightarrow> sysbak_admin \<Rightarrow> client \<Rightarrow> bool \<times> client" where
  "sysbak_admin_xfsfs_ptp_async = ptp_async SysbakXfsfsPtp"

text \<open>\<^verbatim>\<open>is_lvm\<close> of \<^verbatim>\<open>sysbak-extfs.c\<close>: the number of slashes in the name is not one.\<close>

definition is_lvm_path :: "string \<Rightarrow> bool" where
  "is_lvm_path dev_name \<longleftrightarrow> length (filter (\<lambda>ch. ch = CHR ''/'') dev_name) \<noteq> 1"

definition sysbak_admin_restore_async :: "'a client_env_scheme \<Rightarrow> sysbak_admin \<Rightarrow> client \<Rightarrow> (bool \<times> client) option" where
  "sysbak_admin_restore_async env sysbak c =
     (let base_error = ''Restore image to partition failed'';
          failing = (\<lambda>msg c. Some (False, emit_sysbak_error (base_error @ msg) c))
      in case sa_source sysbak of
           None \<Rightarrow> failing '' (null) device does not exist'' c
         | Some source \<Rightarrow>
             if \<not> check_file_device env (Some source) c then failing ('' '' @ source @ '' device does not exist'') c
             else do {
               target \<leftarrow> sa_target sysbak;
               if \<not> is_lvm_path target \<and> \<not> check_file_device env (Some target) c
               then failing ('' '' @ target @ '' device does not exist'') c
               else (let (mounted, c) = check_device_mount env target c
                     in if mounted then failing ('' Please umount the '' @ target @ '' to be backed up'') c
                        else Some (True, happen (Call (SysbakRestore source target (sa_overwrite sysbak))) c))
             })"

section \<open>Lemmas\<close>

lemma out_happen [simp]: "cl_out (happen e c) = cl_out c @ [e]"
  by (simp add: happen_def)

lemma out_error [simp]: "cl_out (emit_sysbak_error msg c) = cl_out c @ [SignalError (Some msg)]"
  by (simp add: emit_sysbak_error_def on_error_def)

text \<open>A device is mounted when one of the mounted file systems has the same real path.\<close>

definition mounted :: "'a client_env_scheme \<Rightarrow> client_event list \<Rightarrow> string \<Rightarrow> bool" where
  "mounted env h device =
     (case (ce_realpath env h device, ce_mounts env h) of
        (Some real_name, Some mounts) \<Rightarrow> list_ex (\<lambda>fsname. ce_realpath env h fsname = Some real_name) mounts
      | _ \<Rightarrow> False)"

lemma check_device_mount_eq:
  "cl_allocs c = [] \<Longrightarrow> check_device_mount env device c = (mounted env (cl_out c) device, c)"
  by (simp add: check_device_mount_def client_malloc_def mounted_def split: option.split)

lemma check_device_mount_out: "check_device_mount env device c = (m, c') \<Longrightarrow> cl_out c' = cl_out c"
  by (auto simp: check_device_mount_def client_malloc_def Let_def split: list.splits if_splits option.splits)

lemma ptf_async_guard:
  assumes "cl_allocs c = []" and "sa_source sysbak = Some s" and "sa_target sysbak = Some t"
  shows "\<exists>c' e. ptf_async method env sysbak c =
      Some (ce_exists env (cl_out c) s \<and> (ce_exists env (cl_out c) t \<longrightarrow> sa_overwrite sysbak) \<and> \<not> mounted env (cl_out c) s, c') \<and>
    cl_out c' = cl_out c @
      [if ce_exists env (cl_out c) s \<and> (ce_exists env (cl_out c) t \<longrightarrow> sa_overwrite sysbak) \<and> \<not> mounted env (cl_out c) s
       then Call (method s t (sa_overwrite sysbak)) else SignalError (Some e)]"
  using assms by (simp add: ptf_async_def Let_def check_file_device_def check_device_mount_eq)

lemma ptp_async_guard:
  assumes "cl_allocs c = []" and "sa_source sysbak = Some s" and "sa_target sysbak = Some t"
  shows "\<exists>c' e. ptp_async method env sysbak c =
      (ce_exists env (cl_out c) s \<and> ce_exists env (cl_out c) t \<and> \<not> mounted env (cl_out c) s \<and> \<not> mounted env (cl_out c) t, c') \<and>
    cl_out c' = cl_out c @
      [if ce_exists env (cl_out c) s \<and> ce_exists env (cl_out c) t \<and> \<not> mounted env (cl_out c) s \<and> \<not> mounted env (cl_out c) t
       then Call (method s t (sa_overwrite sysbak)) else SignalError (Some e)]"
  using assms by (simp add: ptp_async_def Let_def check_file_device_def check_device_mount_eq)

text \<open>The final signals that reach the application.\<close>

fun client_outcomes :: "client_event list \<Rightarrow> bool list" where
  "client_outcomes [] = []"
| "client_outcomes (SignalFinished t u b # es) = True # client_outcomes es"
| "client_outcomes (SignalError m # es) = False # client_outcomes es"
| "client_outcomes (e # es) = client_outcomes es"

lemma client_outcomes_append [simp]: "client_outcomes (xs @ ys) = client_outcomes xs @ client_outcomes ys"
  by (induction xs rule: client_outcomes.induct) simp_all

lemma receive_outcomes:
  "\<exists>sigs. cl_out (fold receive evs c) = cl_out c @ sigs \<and> client_outcomes sigs = outcomes evs"
proof (induction evs arbitrary: c)
  case (Cons e evs)
  obtain sigs where IH: "cl_out (fold receive evs (receive e c)) = cl_out (receive e c) @ sigs"
      "client_outcomes sigs = outcomes evs"
    using Cons by blast
  obtain s where s: "cl_out (receive e c) = cl_out c @ s" "client_outcomes s = outcomes [e]"
    by (cases e) (auto simp: on_progress_def on_findshed_def on_error_def)
  have "outcomes (e # evs) = outcomes [e] @ outcomes evs" using outcomes_append [of "[e]" evs] by simp
  then show ?case using IH s by (intro exI [of _ "s @ sigs"]) simp
qed simp

section \<open>Properties\<close>

text \<open>
  C12: The guards of the client. A backup to a file is requested from the daemon exactly when the source
  exists and is not mounted and the target is new or may be overwritten; a copy to a partition exactly
  when both devices exist and neither is mounted. Otherwise one error is signalled, nothing is sent and
  the result is FALSE. This holds for the functions of all four file systems.
\<close>

theorem partition_calls_guarded:
  assumes "cl_allocs c = []" and "sa_source sysbak = Some s" and "sa_target sysbak = Some t"
    and "(ptf, ptf_request) \<in> {(sysbak_admin_extfs_ptf_async, SysbakExtfsPtf), (sysbak_admin_fatfs_ptf_async, SysbakFatfsPtf),
        (sysbak_admin_btrfs_ptf_async, SysbakBtrfsPtf), (sysbak_admin_xfsfs_ptf_async, SysbakXfsfsPtf)}"
    and "(ptp, ptp_request) \<in> {(sysbak_admin_extfs_ptp_async, SysbakExtfsPtp), (sysbak_admin_fatfs_ptp_async, SysbakFatfsPtp),
        (sysbak_admin_btrfs_ptp_async, SysbakBtrfsPtp), (sysbak_admin_xfsfs_ptp_async, SysbakXfsfsPtp)}"
    and "ptf_ok = (ce_exists env (cl_out c) s \<and> (\<not> ce_exists env (cl_out c) t \<or> sa_overwrite sysbak) \<and> \<not> mounted env (cl_out c) s)"
    and "ptp_ok = (ce_exists env (cl_out c) s \<and> ce_exists env (cl_out c) t \<and> \<not> mounted env (cl_out c) s \<and> \<not> mounted env (cl_out c) t)"
  shows "(\<exists>c' e. ptf env sysbak c = Some (ptf_ok, c') \<and>
      cl_out c' = cl_out c @ [if ptf_ok then Call (ptf_request s t (sa_overwrite sysbak)) else SignalError (Some e)]) \<and>
    (\<exists>c' e. ptp env sysbak c = (ptp_ok, c') \<and>
      cl_out c' = cl_out c @ [if ptp_ok then Call (ptp_request s t (sa_overwrite sysbak)) else SignalError (Some e)])"
proof -
  have "ptf = ptf_async ptf_request" "ptp = ptp_async ptp_request"
    using assms(4,5) by (auto simp: sysbak_admin_extfs_ptf_async_def sysbak_admin_fatfs_ptf_async_def
        sysbak_admin_btrfs_ptf_async_def sysbak_admin_xfsfs_ptf_async_def sysbak_admin_extfs_ptp_async_def
        sysbak_admin_fatfs_ptp_async_def sysbak_admin_btrfs_ptp_async_def sysbak_admin_xfsfs_ptp_async_def)
  moreover have "ptf_ok = (ce_exists env (cl_out c) s \<and> (ce_exists env (cl_out c) t \<longrightarrow> sa_overwrite sysbak) \<and> \<not> mounted env (cl_out c) s)"
    using assms(6) by blast
  ultimately show ?thesis
    using ptf_async_guard [OF assms(1-3), of ptf_request env] ptp_async_guard [OF assms(1-3), of ptp_request env] assms(7) by simp
qed

definition tiny_client_env :: client_env where
  "tiny_client_env = \<lparr>ce_exists = (\<lambda>h p. p = ''/dev/sda1'' \<or> p = ''/dev/sdb1''), ce_readable = (\<lambda>h p. True),
     ce_realpath = (\<lambda>h p. Some p), ce_mounts = (\<lambda>h. Some [''/dev/sdb1'']), ce_reply = (\<lambda>h r. Some (DBool True))\<rparr>"

definition tiny_admin :: sysbak_admin where
  "tiny_admin = \<lparr>sa_overwrite = False, sa_source = Some ''/dev/sda1'', sa_target = Some ''/dev/sdb1''\<rparr>"

definition tiny_client :: client where
  "tiny_client = \<lparr>cl_out = [], cl_allocs = [], group_name = None\<rparr>"

lemmas tiny_client_defs = tiny_client_env_def tiny_admin_def tiny_client_def mounted_def

theorem partition_calls_guarded_witness:
  "(\<exists>c' e. sysbak_admin_fatfs_ptf_async tiny_client_env tiny_admin tiny_client = Some (False, c') \<and>
      cl_out c' = cl_out tiny_client @ [SignalError (Some e)]) \<and>
   (\<exists>c' e. sysbak_admin_xfsfs_ptp_async tiny_client_env tiny_admin tiny_client = (False, c') \<and>
      cl_out c' = cl_out tiny_client @ [SignalError (Some e)])"
  using partition_calls_guarded [of tiny_client tiny_admin "''/dev/sda1''" "''/dev/sdb1''" sysbak_admin_fatfs_ptf_async SysbakFatfsPtf
      sysbak_admin_xfsfs_ptp_async SysbakXfsfsPtp False tiny_client_env False]
  by (simp add: tiny_client_defs)

text \<open>
  The restore request does not check that its target exists: \<^verbatim>\<open>is_lvm\<close> takes every name with other than
  one slash for a logical volume, so also \<^verbatim>\<open>/dev/sda1\<close>. For every target directly under a directory like
  \<^verbatim>\<open>/dev\<close> the request is sent exactly when the source exists and the target is not mounted.
\<close>

theorem restore_target_not_checked:
  assumes "cl_allocs c = []" and "sa_source sysbak = Some s" and "sa_target sysbak = Some (CHR ''/'' # d @ CHR ''/'' # t)"
    and "ok = (ce_exists env (cl_out c) s \<and> \<not> mounted env (cl_out c) (CHR ''/'' # d @ CHR ''/'' # t))"
  shows "\<exists>c' e. sysbak_admin_restore_async env sysbak c = Some (ok, c') \<and>
    cl_out c' = cl_out c @
      [if ok then Call (SysbakRestore s (CHR ''/'' # d @ CHR ''/'' # t) (sa_overwrite sysbak)) else SignalError (Some e)]"
  using assms
  by (simp add: sysbak_admin_restore_async_def Let_def check_file_device_def is_lvm_path_def check_device_mount_eq)

theorem restore_target_not_checked_witness:
  "\<exists>c'. sysbak_admin_restore_async tiny_client_env (tiny_admin\<lparr>sa_target := Some ''/dev/nothing''\<rparr>) tiny_client = Some (True, c') \<and>
    cl_out c' = cl_out tiny_client @ [Call (SysbakRestore ''/dev/sda1'' ''/dev/nothing'' False)]"
  using restore_target_not_checked [of tiny_client "tiny_admin\<lparr>sa_target := Some ''/dev/nothing''\<rparr>" "''/dev/sda1''" "''dev''" "''nothing''"
      True tiny_client_env]
  by (simp add: tiny_client_defs)

end
