(* ===== verification/ClientDisk.thy ===== *)
theory ClientDisk
  imports Client "HOL-Library.AList"
begin

text \<open>
  \<^verbatim>\<open>src/src/libsysbak/sysbak-disk.c\<close>: the backup of a whole disk to a directory and its restore. Programs,
  json-c, GLib's key files and the directory are parameters (\<open>disk_env\<close>): \<open>ce_lsblk\<close> is the output of
  \<^verbatim>\<open>lsblk\<close>, \<open>ce_json\<close> the parsed object as its keys with their arrays of objects (a JSON \<^verbatim>\<open>null\<close> is \<^term>\<open>None\<close>),
  \<open>ce_dir\<close> the names in a directory, and \<open>kf_new\<close>, \<open>kf_set\<close>, \<open>kf_get\<close>, \<open>kf_groups\<close>, \<open>ce_save\<close>, \<open>ce_load\<close> the
  operations on key files, of a type \<open>'kf\<close> that only they know.
\<close>

section \<open>Definitions\<close>

record 'kf disk_env = client_env +
  ce_mkdir :: "client_event list \<Rightarrow> string \<Rightarrow> bool"
  ce_lsblk :: "client_event list \<Rightarrow> string list \<Rightarrow> string option"
  ce_json :: "string \<Rightarrow> (string \<times> (string \<times> string option) list list) list option"
  ce_dir :: "client_event list \<Rightarrow> string \<Rightarrow> string list option"
  kf_new :: 'kf
  kf_set :: "string \<Rightarrow> string \<Rightarrow> string \<Rightarrow> 'kf \<Rightarrow> 'kf"
  kf_get :: "'kf \<Rightarrow> string \<Rightarrow> string \<Rightarrow> string option"
  kf_groups :: "'kf \<Rightarrow> string list"
  ce_save :: "client_event list \<Rightarrow> 'kf \<Rightarrow> string \<Rightarrow> bool"
  ce_load :: "client_event list \<Rightarrow> string \<Rightarrow> string + 'kf"

subsection \<open>The description of the disk\<close>

definition execute_command_line :: "'kf disk_env \<Rightarrow> string \<Rightarrow> client \<Rightarrow> string option \<times> client" where
  "execute_command_line env disk_name c =
     (let argv = [''/usr/bin/lsblk'', ''-o'', ''NAME,FSTYPE,UUID'', disk_name, ''-Jl''];
          c = happen (Lsblk argv) c
      in (ce_lsblk env (cl_out c) argv, c))"

text \<open>A key file ignores a \<^verbatim>\<open>NULL\<close> group.\<close>

definition g_key_file_set_string :: "'kf disk_env \<Rightarrow> string option \<Rightarrow> string \<Rightarrow> string \<Rightarrow> 'kf \<Rightarrow> 'kf" where
  "g_key_file_set_string env grp key value kf = (case grp of None \<Rightarrow> kf | Some g \<Rightarrow> kf_set env g key value kf)"

text \<open>
  Partitions: the group is the name without its first three characters; the disk itself, with a name of
  three characters, and logical volumes, with a hyphen in their names, are left out.
\<close>

fun record_standard_disk_info ::
    "'kf disk_env \<Rightarrow> (string \<times> string option) list \<Rightarrow> 'kf \<times> client \<Rightarrow> ('kf \<times> client) option" where
  "record_standard_disk_info env [] kc = Some kc"
| "record_standard_disk_info env ((key, vale) # pairs) (kf, c) =
     (let next = (\<lambda>c. record_standard_disk_info env pairs
                        (g_key_file_set_string env (group_name c) key (case vale of None \<Rightarrow> ''free'' | Some v \<Rightarrow> v) kf, c))
      in if key = ''name''
         then do {
           value \<leftarrow> vale;
           if CHR ''-'' \<in> set value \<or> length value = 3 then Some (kf, c)
           else if length value < 3 then None
           else next (c\<lparr>group_name := Some (drop 3 value)\<rparr>)
         }
         else next c)"

fun record_lvm_disk_info :: "'kf disk_env \<Rightarrow> (string \<times> string option) list \<Rightarrow> 'kf \<times> client \<Rightarrow> 'kf \<times> client" where
  "record_lvm_disk_info env [] kc = kc"
| "record_lvm_disk_info env ((key, vale) # pairs) (kf, c) =
     (let next = (\<lambda>c. record_lvm_disk_info env pairs
                        ((case vale of None \<Rightarrow> kf | Some v \<Rightarrow> g_key_file_set_string env (group_name c) key v kf), c))
      in if key = ''name''
         then (case vale of
                 None \<Rightarrow> (kf, c)
               | Some value \<Rightarrow>
                   if CHR ''-'' \<notin> set value then (kf, c) else next (c\<lparr>group_name := Some value\<rparr>))
         else next c)"

definition json_parse_array ::
    "'kf disk_env \<Rightarrow> (string \<times> string option) list list \<Rightarrow> string \<Rightarrow> client \<Rightarrow> (bool \<times> client) option" where
  "json_parse_array env jarray config_name c =
     do {
       (kf, c) \<leftarrow> fold_option (record_standard_disk_info env) jarray (kf_new env, c);
       let kf = kf_set env ''end'' ''name'' ''lvm'' kf;
       let kf = kf_set env ''end'' ''fstype'' ''lvm'' kf;
       let (kf, c) = fold (record_lvm_disk_info env) jarray (kf, c);
       let c = happen (SaveConfig config_name) c;
       Some (ce_save env (cl_out c) kf config_name, c)
     }"

primrec json_parse_object ::
    "'kf disk_env \<Rightarrow> (string \<times> (string \<times> string option) list list) list \<Rightarrow> string \<Rightarrow> client \<Rightarrow> (bool \<times> client) option" where
  "json_parse_object env [] config_name c = Some (True, c)"
| "json_parse_object env (kv # kvs) config_name c =
     do {
       (ok, c) \<leftarrow> json_parse_array env (snd kv) config_name c;
       if \<not> ok then Some (False, c) else json_parse_object env kvs config_name c
     }"

definition get_disk_info_config :: "'kf disk_env \<Rightarrow> string \<Rightarrow> string \<Rightarrow> client \<Rightarrow> (bool \<times> client) option" where
  "get_disk_info_config env disk_name config_name c =
     (if \<not> check_file_device env (Some disk_name) c then Some (False, c)
      else (case execute_command_line env disk_name c of
              (None, c) \<Rightarrow> Some (False, c)
            | (Some cmd_data, c) \<Rightarrow>
                (case ce_json env cmd_data of
                   None \<Rightarrow> Some (False, c)
                 | Some jobj \<Rightarrow> json_parse_object env jobj config_name c)))"

subsection \<open>Synchronous and asynchronous calls\<close>

definition call_bool_sync :: "'kf disk_env \<Rightarrow> request \<Rightarrow> client \<Rightarrow> bool \<times> client" where
  "call_bool_sync env r c =
     (let c = happen (Call r) c in (ce_reply env (cl_out c) r = Some (DBool True), c))"

definition call_size_sync :: "'kf disk_env \<Rightarrow> request \<Rightarrow> client \<Rightarrow> nat \<times> client" where
  "call_size_sync env r c =
     (let c = happen (Call r) c in ((case ce_reply env (cl_out c) r of Some (DNat n) \<Rightarrow> n | _ \<Rightarrow> 0), c))"

definition get_disk_mbr :: "'kf disk_env \<Rightarrow> sysbak_admin \<Rightarrow> client \<Rightarrow> (bool \<times> client) option" where
  "get_disk_mbr env sysbak c =
     (if \<not> check_file_device env (sa_source sysbak) c then Some (False, c)
      else do {
        source \<leftarrow> sa_source sysbak;
        target \<leftarrow> sa_target sysbak;
        Some (call_bool_sync env (BackupDiskMbr source target) c)
      })"

definition get_disk_partition_table :: "'kf disk_env \<Rightarrow> sysbak_admin \<Rightarrow> client \<Rightarrow> (bool \<times> client) option" where
  "get_disk_partition_table env sysbak c =
     (if \<not> check_file_device env (sa_source sysbak) c then Some (False, c)
      else do {
        source \<leftarrow> sa_source sysbak;
        target \<leftarrow> sa_target sysbak;
        Some (call_bool_sync env (BackupPartitionTable source target) c)
      })"

definition get_disk_lvm_metadata :: "'kf disk_env \<Rightarrow> sysbak_admin \<Rightarrow> client \<Rightarrow> (bool \<times> client) option" where
  "get_disk_lvm_metadata env sysbak c =
     do {
       target \<leftarrow> sa_target sysbak;
       Some (call_bool_sync env (BackupLvmMeta target) c)
     }"

definition set_disk_partition_table :: "'kf disk_env \<Rightarrow> sysbak_admin \<Rightarrow> client \<Rightarrow> (bool \<times> client) option" where
  "set_disk_partition_table env sysbak c =
     (if \<not> check_file_device env (sa_source sysbak) c then Some (False, c)
      else if \<not> check_file_device env (sa_target sysbak) c then Some (False, c)
      else do {
        source \<leftarrow> sa_source sysbak;
        target \<leftarrow> sa_target sysbak;
        Some (call_bool_sync env (RestorePartitionTable source target) c)
      })"

definition create_lvm_pv :: "'kf disk_env \<Rightarrow> sysbak_admin \<Rightarrow> string option \<Rightarrow> client \<Rightarrow> (bool \<times> client) option" where
  "create_lvm_pv env sysbak uuid c =
     (case uuid of
        None \<Rightarrow> Some (False, c)
      | Some uuid \<Rightarrow>
          if \<not> check_file_device env (sa_target sysbak) c then Some (False, c)
          else if \<not> check_file_device env (sa_source sysbak) c then Some (False, c)
          else do {
            source \<leftarrow> sa_source sysbak;
            target \<leftarrow> sa_target sysbak;
            Some (call_bool_sync env (CreatePV source uuid target) c)
          })"

definition set_disk_lvm_metadata :: "'kf disk_env \<Rightarrow> sysbak_admin \<Rightarrow> client \<Rightarrow> (bool \<times> client) option" where
  "set_disk_lvm_metadata env sysbak c =
     (if \<not> check_file_device env (sa_source sysbak) c then Some (False, c)
      else do {
        source \<leftarrow> sa_source sysbak;
        target \<leftarrow> sa_target sysbak;
        Some (True, happen (Call (RestoreLvmMeta source target)) c)
      })"

definition restart_lvm_vg :: "sysbak_admin \<Rightarrow> client \<Rightarrow> (bool \<times> client) option" where
  "restart_lvm_vg sysbak c =
     do {
       source \<leftarrow> sa_source sysbak;
       Some (True, happen (Call (RestartVG source)) c)
     }"

definition get_source_space_size :: "'kf disk_env \<Rightarrow> string \<Rightarrow> client \<Rightarrow> nat \<times> client" where
  "get_source_space_size env config_path c =
     (if \<not> check_file_device env (Some config_path) c then (0, c)
      else call_size_sync env (GetSourceUseSize config_path) c)"

definition get_disk_space_size :: "'kf disk_env \<Rightarrow> string \<Rightarrow> client \<Rightarrow> nat \<times> client" where
  "get_disk_space_size env dev_name c =
     (if \<not> check_file_device env (Some dev_name) c then (0, c)
      else call_size_sync env (GetDiskSize dev_name) c)"

subsection \<open>Backup of a disk\<close>

definition get_dev_path :: "string \<Rightarrow> string" where
  "get_dev_path str = (if CHR ''-'' \<in> set str then ''/dev/mapper/'' @ str else ''/dev/'' @ str)"

definition array_data :: "(string \<times> (string \<Rightarrow> string \<Rightarrow> bool \<Rightarrow> request)) list" where
  "array_data =
     [(''ext2'', SysbakExtfsPtf), (''ext3'', SysbakExtfsPtf), (''ext4'', SysbakExtfsPtf), (''vfat'', SysbakFatfsPtf),
      (''btrfs'', SysbakBtrfsPtf), (''xfs'', SysbakXfsfsPtf)]"

text \<open>
  The inner loop over the table. The message about an unsupported file system stands behind the test,
  inside the loop: it is sent for every entry of the table.
\<close>

primrec fs_table_loop ::
    "'kf disk_env \<Rightarrow> string \<Rightarrow> string option \<Rightarrow> string option \<Rightarrow> (string \<times> (string \<Rightarrow> string \<Rightarrow> bool \<Rightarrow> request)) list
     \<Rightarrow> sysbak_admin \<times> client \<Rightarrow> (sysbak_admin \<times> client) option" where
  "fs_table_loop env dir_name pname fs_type [] sc = Some sc"
| "fs_table_loop env dir_name pname fs_type (entry # table) sc =
     do {
       (sysbak, c) \<leftarrow>
         (if fs_type = Some (fst entry)
          then do {
            part \<leftarrow> pname;
            let sysbak = sysbak_admin_set_source (fst sc) (get_dev_path part);
            let sysbak = sysbak_admin_set_target sysbak (dir_name @ ''/'' @ part @ ''.img'');
            let sysbak = sysbak_admin_set_option sysbak True;
            (_, c) \<leftarrow> ptf_async (snd entry) env sysbak (snd sc);
            Some (sysbak, c)
          }
          else Some sc);
       fs_table_loop env dir_name pname fs_type table
         (sysbak, emit_sysbak_error ''There are unsupported file systems'' c)
     }"

primrec disk_data_loop ::
    "'kf disk_env \<Rightarrow> string \<Rightarrow> 'kf \<Rightarrow> string list \<Rightarrow> sysbak_admin \<times> client \<Rightarrow> (sysbak_admin \<times> client) option" where
  "disk_data_loop env dir_name keyfile [] sc = Some sc"
| "disk_data_loop env dir_name keyfile (g # groups) sc =
     do {
       sc \<leftarrow> fs_table_loop env dir_name (kf_get env keyfile g ''name'') (kf_get env keyfile g ''fstype'') array_data sc;
       disk_data_loop env dir_name keyfile groups sc
     }"

definition load_config :: "'kf disk_env \<Rightarrow> string \<Rightarrow> client \<Rightarrow> 'kf" where
  "load_config env path c = (case ce_load env (cl_out c) path of Inl e \<Rightarrow> kf_new env | Inr kf \<Rightarrow> kf)"

definition sysbak_admin_disk_data ::
    "'kf disk_env \<Rightarrow> sysbak_admin \<Rightarrow> string \<Rightarrow> client \<Rightarrow> (sysbak_admin \<times> client) option" where
  "sysbak_admin_disk_data env sysbak dir_name c =
     (let keyfile = load_config env (dir_name @ ''/disk-info.ini'') c
      in disk_data_loop env dir_name keyfile (kf_groups env keyfile) (sysbak, c))"

definition create_target_dir :: "'kf disk_env \<Rightarrow> string \<Rightarrow> client \<Rightarrow> int \<times> client" where
  "create_target_dir env target c =
     (if ce_exists env (cl_out c) target then (-1, c)
      else (let c = happen (Mkdir target) c in (if ce_mkdir env (cl_out c) target then 0 else -1, c)))"

definition sysbak_admin_disk_to_file :: "'kf disk_env \<Rightarrow> sysbak_admin \<Rightarrow> client \<Rightarrow> (bool \<times> client) option" where
  "sysbak_admin_disk_to_file env sysbak c =
     (case (sa_source sysbak, sa_target sysbak) of
        (Some source, Some target) \<Rightarrow>
          if \<not> check_file_device env (Some source) c then Some (False, c)
          else (let (r, c) = create_target_dir env target c
                in if r < 0 then Some (False, c)
                   else do {
                     let sysbak = sysbak_admin_set_target sysbak (target @ ''/lvm'');
                     (ret, c) \<leftarrow> get_disk_lvm_metadata env sysbak c;
                     if \<not> ret then Some (False, c)
                     else do {
                       (ret, c) \<leftarrow> get_disk_info_config env source (target @ ''/disk-info.ini'') c;
                       if \<not> ret then Some (False, c)
                       else do {
                         let sysbak = sysbak_admin_set_target sysbak (target @ ''/disk-table'');
                         (ret, c) \<leftarrow> get_disk_partition_table env sysbak c;
                         if \<not> ret then Some (False, c)
                         else do {
                           let sysbak = sysbak_admin_set_target sysbak (target @ ''/disk-mbr'');
                           (ret, c) \<leftarrow> get_disk_mbr env sysbak c;
                           if \<not> ret then Some (False, c)
                           else do {
                             (_, c) \<leftarrow> sysbak_admin_disk_data env sysbak target c;
                             Some (True, c)
                           }
                         }
                       }
                     }
                   })
      | _ \<Rightarrow> Some (False, c))"

subsection \<open>Restore of a disk\<close>

definition restore_partition_table :: "'kf disk_env \<Rightarrow> string \<Rightarrow> string \<Rightarrow> client \<Rightarrow> (bool \<times> client) option" where
  "restore_partition_table env source target c =
     set_disk_partition_table env (sysbak_admin_set_target (sysbak_admin_set_source sysbak_admin_new target) source) c"

definition restore_disk_mbr :: "'kf disk_env \<Rightarrow> string \<Rightarrow> string \<Rightarrow> client \<Rightarrow> (bool \<times> client) option" where
  "restore_disk_mbr env source target c =
     get_disk_mbr env (sysbak_admin_set_target (sysbak_admin_set_source sysbak_admin_new (source @ ''/disk-mbr'')) target) c"

definition g_str_has_prefix :: "string \<Rightarrow> string \<Rightarrow> bool" where
  "g_str_has_prefix str prefix = (take (length prefix) str = prefix)"

text \<open>\<^verbatim>\<open>g_build_filename\<close> of a directory and a plain name: one slash between them.\<close>

definition g_build_filename :: "string \<Rightarrow> string \<Rightarrow> string" where
  "g_build_filename dir fn = rev (dropWhile (\<lambda>ch. ch = CHR ''/'') (rev dir)) @ ''/'' @ fn"

primrec activation_loop ::
    "'kf disk_env \<Rightarrow> string \<Rightarrow> string list \<Rightarrow> sysbak_admin \<times> client \<Rightarrow> (sysbak_admin \<times> client) option" where
  "activation_loop env dir_path [] sc = Some sc"
| "activation_loop env dir_path (fn # fns) sc =
     do {
       (sysbak, c) \<leftarrow>
         (if g_str_has_prefix fn ''lvm-''
          then do {
            let sysbak = sysbak_admin_set_source (fst sc) (g_build_filename dir_path fn);
            let sysbak = sysbak_admin_set_target sysbak (drop 4 fn);
            (_, c) \<leftarrow> set_disk_lvm_metadata env sysbak (snd sc);
            let sysbak = sysbak_admin_set_source sysbak (drop 4 fn);
            (_, c) \<leftarrow> restart_lvm_vg sysbak c;
            Some (sysbak, c)
          }
          else Some sc);
       activation_loop env dir_path fns (sysbak, c)
     }"

definition activation_lvm_pv ::
    "'kf disk_env \<Rightarrow> string \<Rightarrow> sysbak_admin \<times> client \<Rightarrow> (bool \<times> sysbak_admin \<times> client) option" where
  "activation_lvm_pv env dir_path sc =
     (case ce_dir env (cl_out (snd sc)) dir_path of
        None \<Rightarrow> Some (False, sc)
      | Some fns \<Rightarrow> do { sc \<leftarrow> activation_loop env dir_path fns sc; Some (True, sc) })"

definition is_vg :: "'kf disk_env \<Rightarrow> string \<Rightarrow> string option \<Rightarrow> client \<Rightarrow> (bool \<times> client) option" where
  "is_vg env file_name uuid c = do { uuid \<leftarrow> uuid; Some (call_bool_sync env (SearchFileData file_name uuid) c) }"

primrec restore_lvm_pv_loop ::
    "'kf disk_env \<Rightarrow> string \<Rightarrow> string \<Rightarrow> string option \<Rightarrow> string list \<Rightarrow> client \<Rightarrow> (bool \<times> client) option" where
  "restore_lvm_pv_loop env dir_path dev_name uuid [] c = Some (False, c)"
| "restore_lvm_pv_loop env dir_path dev_name uuid (fn # fns) c =
     (if g_str_has_prefix fn ''lvm-''
      then do {
        let filename = g_build_filename dir_path fn;
        (found, c) \<leftarrow> is_vg env filename uuid c;
        if found
        then create_lvm_pv env (sysbak_admin_set_target (sysbak_admin_set_source sysbak_admin_new filename) dev_name) uuid c
        else restore_lvm_pv_loop env dir_path dev_name uuid fns c
      }
      else restore_lvm_pv_loop env dir_path dev_name uuid fns c)"

definition restore_lvm_pv ::
    "'kf disk_env \<Rightarrow> string \<Rightarrow> string \<Rightarrow> string option \<Rightarrow> client \<Rightarrow> (bool \<times> client) option" where
  "restore_lvm_pv env dir_path dev_name uuid c =
     (case ce_dir env (cl_out c) dir_path of
        None \<Rightarrow> Some (False, c)
      | Some fns \<Rightarrow> restore_lvm_pv_loop env dir_path dev_name uuid fns c)"

definition restore_disk_partition_data ::
    "'kf disk_env \<Rightarrow> sysbak_admin \<Rightarrow> string \<Rightarrow> string \<Rightarrow> client \<Rightarrow> (bool \<times> sysbak_admin \<times> client) option" where
  "restore_disk_partition_data env sysbak file_name dev_name c =
     do {
       let sysbak = sysbak_admin_set_source sysbak file_name;
       let sysbak = sysbak_admin_set_target sysbak dev_name;
       let sysbak = sysbak_admin_set_option sysbak True;
       (ok, c) \<leftarrow> sysbak_admin_restore_async env sysbak c;
       Some (ok, sysbak, c)
     }"

definition is_lvm :: "string \<Rightarrow> bool" where
  "is_lvm grp \<longleftrightarrow> CHR ''-'' \<in> set grp"

text \<open>The device and the image of a group; \<^verbatim>\<open>g_strconcat\<close> ends at a \<^verbatim>\<open>NULL\<close> name.\<close>

definition restore_device :: "string \<Rightarrow> string \<Rightarrow> string" where
  "restore_device target g = (if is_lvm g then ''/dev/mapper/'' @ g else target @ g)"

definition restore_image_file :: "string \<Rightarrow> string option \<Rightarrow> string" where
  "restore_image_file source name = source @ ''/'' @ (case name of None \<Rightarrow> [] | Some n \<Rightarrow> n @ ''.img'')"

primrec restore_groups ::
    "'kf disk_env \<Rightarrow> 'kf \<Rightarrow> string \<Rightarrow> string \<Rightarrow> string list \<Rightarrow> sysbak_admin \<times> client \<Rightarrow> (sysbak_admin \<times> client) option" where
  "restore_groups env kconfig source target [] sc = Some sc"
| "restore_groups env kconfig source target (g # groups) sc =
     (if g = ''end''
      then do {
        (ok, sc) \<leftarrow> activation_lvm_pv env source sc;
        if \<not> ok then Some sc else restore_groups env kconfig source target groups sc
      }
      else if kf_get env kconfig g ''fstype'' = Some ''LVM2_member''
      then do {
        (_, c) \<leftarrow> restore_lvm_pv env source (target @ g) (kf_get env kconfig g ''uuid'') (snd sc);
        restore_groups env kconfig source target groups (fst sc, c)
      }
      else if kf_get env kconfig g ''fstype'' = Some ''free'' then restore_groups env kconfig source target groups sc
      else do {
        (_, sc) \<leftarrow> restore_disk_partition_data env (fst sc) (restore_image_file source (kf_get env kconfig g ''name''))
                     (restore_device target g) (snd sc);
        restore_groups env kconfig source target groups sc
      })"

text \<open>The result is always FALSE, and is not looked at.\<close>

definition read_cfg_file_restore ::
    "'kf disk_env \<Rightarrow> sysbak_admin \<Rightarrow> string \<Rightarrow> string \<Rightarrow> client \<Rightarrow> (bool \<times> sysbak_admin \<times> client) option" where
  "read_cfg_file_restore env sysbak source target c =
     (let disk_info = source @ ''/disk-info.ini''
      in if \<not> check_file_device env (Some disk_info) c then Some (False, sysbak, c)
         else (case ce_load env (cl_out c) disk_info of
                 Inl e \<Rightarrow> Some (False, sysbak, c)
               | Inr kconfig \<Rightarrow> do {
                   (sysbak, c) \<leftarrow> restore_groups env kconfig source target (kf_groups env kconfig) (sysbak, c);
                   Some (False, sysbak, c)
                 }))"

text \<open>
  The devices are those the image was made from, and the loop ends at the group \<^verbatim>\<open>end\<close>, before the
  logical volumes. The result is the message when a device is in use.
\<close>

primrec mount_loop :: "'kf disk_env \<Rightarrow> 'kf \<Rightarrow> string list \<Rightarrow> client \<Rightarrow> string option \<times> client" where
  "mount_loop env kconfig [] c = (None, c)"
| "mount_loop env kconfig (g # groups) c =
     (let name = kf_get env kconfig g ''name''
      in if name = Some ''lvm'' then (None, c)
         else (let dev_name = (case name of
                                 None \<Rightarrow> ''/dev/''
                               | Some n \<Rightarrow> if is_lvm n then ''/dev/mapper/'' @ n else ''/dev/'' @ n);
                   (in_use, c) = check_device_mount env dev_name c
               in if in_use then (Some ''Device in use'', c) else mount_loop env kconfig groups c))"

definition check_dev_is_mount :: "'kf disk_env \<Rightarrow> string \<Rightarrow> client \<Rightarrow> string option \<times> client" where
  "check_dev_is_mount env source c =
     (let disk_info = source @ ''/disk-info.ini''
      in if \<not> check_file_permission env disk_info c then (Some ''source dir Permission denied'', c)
         else if \<not> check_file_device env (Some disk_info) c then (Some ''source dir Non-existent'', c)
         else (case ce_load env (cl_out c) disk_info of
                 Inl e \<Rightarrow> (Some e, c)
               | Inr kconfig \<Rightarrow> mount_loop env kconfig (kf_groups env kconfig) c))"

definition remove_disk_old_lvm :: "string \<Rightarrow> client \<Rightarrow> client" where
  "remove_disk_old_lvm disk_name = happen (Call (RemoveAllVG disk_name))"

definition sysbak_admin_restore_disk :: "'kf disk_env \<Rightarrow> sysbak_admin \<Rightarrow> client \<Rightarrow> (bool \<times> client) option" where
  "sysbak_admin_restore_disk env sysbak c =
     (if \<not> check_file_device env (sa_target sysbak) c
      then Some (False, emit_sysbak_error ''Device does not exist'' c)
      else if \<not> check_file_device env (sa_source sysbak) c
      then Some (False, emit_sysbak_error ''File does not exist'' c)
      else do {
        source \<leftarrow> sa_source sysbak;
        target \<leftarrow> sa_target sysbak;
        let (message, c) = check_dev_is_mount env source c;
        case message of
          Some msg \<Rightarrow> Some (False, emit_sysbak_error msg c)
        | None \<Rightarrow> do {
            let c = remove_disk_old_lvm target c;
            let file_path = source @ ''/disk-table'';
            let (needed_space, c) = get_source_space_size env file_path c;
            let (disk_space, c) = get_disk_space_size env target c;
            if disk_space < needed_space
            then Some (False, emit_sysbak_error ''Insufficient storage space'' c)
            else do {
              (ok, c) \<leftarrow> restore_disk_mbr env source target c;
              if \<not> ok then Some (False, emit_sysbak_error ''Failed to recover the hard disk MBR'' c)
              else do {
                (ok, c) \<leftarrow> restore_partition_table env file_path target c;
                if \<not> ok then Some (False, c)
                else do {
                  (_, _, c) \<leftarrow> read_cfg_file_restore env sysbak source target c;
                  Some (True, c)
                }
              }
            }
          }
      })"

section \<open>Lemmas\<close>

fun calls :: "client_event list \<Rightarrow> request list" where
  "calls [] = []"
| "calls (Call r # es) = r # calls es"
| "calls (e # es) = calls es"

fun is_restore :: "request \<Rightarrow> bool" where
  "is_restore (SysbakRestore source target ovr) = True"
| "is_restore r = False"

lemma calls_append [simp]: "calls (xs @ ys) = calls xs @ calls ys"
  by (induction xs rule: calls.induct) simp_all

lemma allocs_happen [simp]: "cl_allocs (happen e c) = cl_allocs c" "cl_allocs (emit_sysbak_error msg c) = cl_allocs c"
  by (simp_all add: happen_def emit_sysbak_error_def on_error_def)

subsection \<open>Backup\<close>

text \<open>The requests and errors that a step adds to the history.\<close>

definition adds :: "request list \<Rightarrow> bool list \<Rightarrow> client \<Rightarrow> client \<Rightarrow> bool" where
  "adds rs os c c' \<longleftrightarrow>
     cl_allocs c = [] \<and> cl_allocs c' = [] \<and> (\<exists>new. cl_out c' = cl_out c @ new \<and> calls new = rs \<and> client_outcomes new = os)"

lemma adds_refl: "cl_allocs c = [] \<Longrightarrow> adds [] [] c c"
  by (simp add: adds_def)

lemma adds_trans: "adds rs os c c' \<Longrightarrow> adds rs' os' c' c'' \<Longrightarrow> adds (rs @ rs') (os @ os') c c''"
  unfolding adds_def by (elim conjE exE, intro conjI, assumption+, rule_tac x = "new @ newa" in exI) simp

lemma ptf_async_adds:
  assumes "cl_allocs c = []" and "sa_source sysbak = Some s" and "sa_target sysbak = Some t" and "sa_overwrite sysbak"
    and "ce_exists env (cl_out c) s" and "\<not> mounted env (cl_out c) s"
  shows "\<exists>c'. ptf_async method env sysbak c = Some (True, c') \<and> adds [method s t True] [] c c'"
  using assms by (simp add: ptf_async_def Let_def check_file_device_def check_device_mount_eq adds_def)

lemma fs_table_loop_adds:
  assumes "\<forall>e \<in> set table. fs_type = Some (fst e) \<longrightarrow>
      pname = Some n \<and> (\<forall>h. ce_exists env h (get_dev_path n) \<and> \<not> mounted env h (get_dev_path n))"
    and "cl_allocs c = []"
  shows "\<exists>s' c'. fs_table_loop env dir pname fs_type table (s, c) = Some (s', c') \<and>
    adds (map (\<lambda>e. snd e (get_dev_path n) (dir @ ''/'' @ n @ ''.img'') True) (filter (\<lambda>e. fs_type = Some (fst e)) table))
      (replicate (length table) False) c c'"
  using assms
proof (induction table arbitrary: s c)
  case Nil
  then show ?case by (simp add: adds_def)
next
  case (Cons e table)
  let ?msg = "''There are unsupported file systems''"
  have err: "adds [] [False] c1 (emit_sysbak_error ?msg c1)" if "cl_allocs c1 = []" for c1
    using that by (simp add: adds_def)
  show ?case
  proof (cases "fs_type = Some (fst e)")
    case True
    then have g: "pname = Some n" "\<And>h. ce_exists env h (get_dev_path n)" "\<And>h. \<not> mounted env h (get_dev_path n)"
      using Cons.prems(1) by auto
    let ?s = "sysbak_admin_set_option (sysbak_admin_set_target (sysbak_admin_set_source s (get_dev_path n))
        (dir @ ''/'' @ n @ ''.img'')) True"
    have "sa_source ?s = Some (get_dev_path n)" "sa_target ?s = Some (dir @ ''/'' @ n @ ''.img'')" "sa_overwrite ?s"
      by (simp_all add: sysbak_admin_set_option_def sysbak_admin_set_target_def sysbak_admin_set_source_def)
    then obtain c1 where c1: "ptf_async (snd e) env ?s c = Some (True, c1)"
        "adds [snd e (get_dev_path n) (dir @ ''/'' @ n @ ''.img'') True] [] c c1"
      using ptf_async_adds [OF Cons.prems(2) _ _ _ g(2,3)] by blast
    have a1: "cl_allocs c1 = []" using c1(2) by (simp add: adds_def)
    obtain s' c' where IH: "fs_table_loop env dir pname fs_type table (?s, emit_sysbak_error ?msg c1) = Some (s', c')"
        "adds (map (\<lambda>e. snd e (get_dev_path n) (dir @ ''/'' @ n @ ''.img'') True) (filter (\<lambda>e. fs_type = Some (fst e)) table))
          (replicate (length table) False) (emit_sysbak_error ?msg c1) c'"
      using Cons.IH [of "emit_sysbak_error ?msg c1" ?s] Cons.prems(1) a1 by auto
    show ?thesis
      using True c1(1) IH(1) adds_trans [OF adds_trans [OF c1(2) err [OF a1]] IH(2)] by (simp add: g(1) Let_def)
  next
    case False
    obtain s' c' where IH: "fs_table_loop env dir pname fs_type table (s, emit_sysbak_error ?msg c) = Some (s', c')"
        "adds (map (\<lambda>e. snd e (get_dev_path n) (dir @ ''/'' @ n @ ''.img'') True) (filter (\<lambda>e. fs_type = Some (fst e)) table))
          (replicate (length table) False) (emit_sysbak_error ?msg c) c'"
      using Cons.IH [of "emit_sysbak_error ?msg c" s] Cons.prems by auto
    show ?thesis using False IH(1) adds_trans [OF err [OF Cons.prems(2)] IH(2)] by simp
  qed
qed

text \<open>The request for the image of a group, if its file system is in the table.\<close>

definition image_request :: "'kf disk_env \<Rightarrow> 'kf \<Rightarrow> (string \<Rightarrow> string) \<Rightarrow> string \<Rightarrow> string \<Rightarrow> request list" where
  "image_request env kf name dir g =
     map (\<lambda>e. snd e (get_dev_path (name g)) (dir @ ''/'' @ name g @ ''.img'') True)
       (filter (\<lambda>e. kf_get env kf g ''fstype'' = Some (fst e)) array_data)"

lemma disk_data_loop_adds:
  assumes "\<forall>g \<in> set groups. kf_get env kf g ''fstype'' \<in> Some ` fst ` set array_data \<longrightarrow>
      kf_get env kf g ''name'' = Some (name g) \<and>
      (\<forall>h. ce_exists env h (get_dev_path (name g)) \<and> \<not> mounted env h (get_dev_path (name g)))"
    and "cl_allocs c = []"
  shows "\<exists>s' c'. disk_data_loop env dir kf groups (s, c) = Some (s', c') \<and>
    adds (concat (map (image_request env kf name dir) groups)) (replicate (6 * length groups) False) c c'"
  using assms
proof (induction groups arbitrary: s c)
  case Nil
  then show ?case by (simp add: adds_def)
next
  case (Cons g groups)
  have "\<forall>e \<in> set array_data. kf_get env kf g ''fstype'' = Some (fst e) \<longrightarrow>
      kf_get env kf g ''name'' = Some (name g) \<and>
      (\<forall>h. ce_exists env h (get_dev_path (name g)) \<and> \<not> mounted env h (get_dev_path (name g)))"
    using Cons.prems(1) by auto
  from fs_table_loop_adds [OF this Cons.prems(2), of dir s] obtain s1 c1 where
    l: "fs_table_loop env dir (kf_get env kf g ''name'') (kf_get env kf g ''fstype'') array_data (s, c) = Some (s1, c1)"
    and a: "adds (image_request env kf name dir g) (replicate (length array_data) False) c c1"
    unfolding image_request_def by blast
  have six: "length array_data = 6" by (simp add: array_data_def)
  have "cl_allocs c1 = []" using a by (simp add: adds_def)
  then obtain s' c' where IH: "disk_data_loop env dir kf groups (s1, c1) = Some (s', c')"
      "adds (concat (map (image_request env kf name dir) groups)) (replicate (6 * length groups) False) c1 c'"
    using Cons.IH [of c1 s1] Cons.prems(1) by auto
  have "replicate 6 False @ replicate (6 * length groups) False = replicate (6 * length (g # groups)) False"
    by (simp add: replicate_add [symmetric])
  then show ?case using l IH(1) adds_trans [OF a IH(2)] by (simp add: six)
qed

subsection \<open>Restore\<close>

definition restores_only :: "request list \<Rightarrow> client \<Rightarrow> client \<Rightarrow> bool" where
  "restores_only rs c c' \<longleftrightarrow>
     cl_allocs c = [] \<and> cl_allocs c' = [] \<and> (\<exists>new. cl_out c' = cl_out c @ new \<and> filter is_restore (calls new) = rs)"

lemma restores_refl: "cl_allocs c = [] \<Longrightarrow> restores_only [] c c"
  by (simp add: restores_only_def)

lemma restores_trans: "restores_only rs c c' \<Longrightarrow> restores_only rs' c' c'' \<Longrightarrow> restores_only (rs @ rs') c c''"
  unfolding restores_only_def by (elim conjE exE, intro conjI, assumption+, rule_tac x = "new @ newa" in exI) simp

lemma restores_call: "cl_allocs c = [] \<Longrightarrow> \<not> is_restore r \<Longrightarrow> restores_only [] c (happen (Call r) c)"
  by (simp add: restores_only_def)

lemma restores_allocs: "restores_only rs c c' \<Longrightarrow> cl_allocs c' = []"
  by (simp add: restores_only_def)

lemma call_bool_restores:
  "cl_allocs c = [] \<Longrightarrow> \<not> is_restore r \<Longrightarrow> \<exists>b c'. call_bool_sync env r c = (b, c') \<and> restores_only [] c c'"
  by (simp add: call_bool_sync_def Let_def restores_call)

lemma activation_loop_restores:
  "cl_allocs c = [] \<Longrightarrow> \<exists>s' c'. activation_loop env dir fns (s, c) = Some (s', c') \<and> restores_only [] c c'"
proof (induction fns arbitrary: s c)
  case Nil
  then show ?case by (simp add: restores_refl)
next
  case (Cons fn fns)
  show ?case
  proof (cases "g_str_has_prefix fn ''lvm-''")
    case True
    define s1 where "s1 = sysbak_admin_set_target (sysbak_admin_set_source s (g_build_filename dir fn)) (drop 4 fn)"
    have s1: "sa_source s1 = Some (g_build_filename dir fn)" "sa_target s1 = Some (drop 4 fn)"
      by (simp_all add: s1_def sysbak_admin_set_source_def sysbak_admin_set_target_def)
    obtain b c1 where m: "set_disk_lvm_metadata env s1 c = Some (b, c1)" "restores_only [] c c1"
      using Cons.prems restores_refl [OF Cons.prems]
      by (cases "check_file_device env (sa_source s1) c") (auto simp: set_disk_lvm_metadata_def s1 restores_call)
    define s2 where "s2 = sysbak_admin_set_source s1 (drop 4 fn)"
    have s2: "sa_source s2 = Some (drop 4 fn)" by (simp add: s2_def sysbak_admin_set_source_def)
    let ?c2 = "happen (Call (RestartVG (drop 4 fn))) c1"
    have r: "restart_lvm_vg s2 c1 = Some (True, ?c2)" by (simp add: restart_lvm_vg_def s2)
    have c2: "restores_only [] c1 ?c2" using restores_call restores_allocs [OF m(2)] by simp
    obtain s' c' where IH: "activation_loop env dir fns (s2, ?c2) = Some (s', c')" "restores_only [] ?c2 c'"
      using Cons.IH [OF restores_allocs [OF c2]] by blast
    have "activation_loop env dir (fn # fns) (s, c) = Some (s', c')"
      using True m(1) r IH(1) by (simp add: s1_def [symmetric] s2_def [symmetric] Let_def)
    then show ?thesis using restores_trans [OF restores_trans [OF m(2) c2] IH(2)] by simp
  next
    case False
    then show ?thesis using Cons by simp
  qed
qed

lemma activation_restores:
  assumes "cl_allocs c = []" and "ce_dir env (cl_out c) dir \<noteq> None"
  shows "\<exists>s' c'. activation_lvm_pv env dir (s, c) = Some (True, s', c') \<and> restores_only [] c c'"
proof -
  obtain fns where d: "ce_dir env (cl_out c) dir = Some fns" using assms(2) by auto
  then show ?thesis using activation_loop_restores [OF assms(1), of env dir fns s] by (auto simp: activation_lvm_pv_def)
qed

lemma restore_lvm_pv_loop_restores:
  "cl_allocs c = [] \<Longrightarrow> \<exists>b c'. restore_lvm_pv_loop env dir dev (Some uuid) fns c = Some (b, c') \<and> restores_only [] c c'"
proof (induction fns arbitrary: c)
  case Nil
  then show ?case using restores_refl by auto
next
  case (Cons fn fns)
  show ?case
  proof (cases "g_str_has_prefix fn ''lvm-''")
    case True
    obtain b c1 where v: "call_bool_sync env (SearchFileData (g_build_filename dir fn) uuid) c = (b, c1)" "restores_only [] c c1"
      using call_bool_restores [OF Cons.prems, of "SearchFileData (g_build_filename dir fn) uuid" env] by auto
    let ?s = "sysbak_admin_set_target (sysbak_admin_set_source sysbak_admin_new (g_build_filename dir fn)) dev"
    have s: "sa_source ?s = Some (g_build_filename dir fn)" "sa_target ?s = Some dev"
      by (simp_all add: sysbak_admin_set_source_def sysbak_admin_set_target_def)
    note a1 = restores_allocs [OF v(2)]
    have pv: "\<exists>b c2. create_lvm_pv env ?s (Some uuid) c1 = Some (b, c2) \<and> restores_only [] c1 c2"
      using call_bool_restores [OF a1, of "CreatePV (g_build_filename dir fn) uuid dev" env] restores_refl [OF a1]
      by (auto simp: create_lvm_pv_def s)
    show ?thesis
    proof (cases b)
      case True
      then show ?thesis using \<open>g_str_has_prefix fn ''lvm-''\<close> v pv restores_trans [OF v(2)] by (fastforce simp: is_vg_def Let_def)
    next
      case False
      then show ?thesis using \<open>g_str_has_prefix fn ''lvm-''\<close> v Cons.IH [OF a1] restores_trans [OF v(2)]
        by (fastforce simp: is_vg_def Let_def)
    qed
  next
    case False
    then show ?thesis using Cons by simp
  qed
qed

lemma restore_lvm_pv_restores:
  "cl_allocs c = [] \<Longrightarrow> \<exists>b c'. restore_lvm_pv env dir dev (Some uuid) c = Some (b, c') \<and> restores_only [] c c'"
  using restore_lvm_pv_loop_restores restores_refl by (fastforce simp: restore_lvm_pv_def split: option.split)

lemma restore_async_restores:
  assumes "cl_allocs c = []" and "sa_source sysbak = Some s" and "sa_target sysbak = Some t"
  shows "\<exists>b c'. sysbak_admin_restore_async env sysbak c = Some (b, c') \<and>
    restores_only (if ce_exists env (cl_out c) s \<and> (is_lvm_path t \<or> ce_exists env (cl_out c) t) \<and> \<not> mounted env (cl_out c) t
      then [SysbakRestore s t (sa_overwrite sysbak)] else []) c c'"
  using assms
  by (auto simp: sysbak_admin_restore_async_def Let_def check_file_device_def check_device_mount_eq restores_only_def)

text \<open>The restore request for a group, given what exists and what is mounted.\<close>

definition restorable :: "'kf disk_env \<Rightarrow> 'kf \<Rightarrow> string \<Rightarrow> bool" where
  "restorable env kf g \<longleftrightarrow> g \<noteq> ''end'' \<and> kf_get env kf g ''fstype'' \<noteq> Some ''LVM2_member'' \<and> kf_get env kf g ''fstype'' \<noteq> Some ''free''"

definition restore_request ::
    "'kf disk_env \<Rightarrow> 'kf \<Rightarrow> (string \<Rightarrow> bool) \<Rightarrow> (string \<Rightarrow> bool) \<Rightarrow> string \<Rightarrow> string \<Rightarrow> string \<Rightarrow> request list" where
  "restore_request env kf present in_use source target g =
     (let image = restore_image_file source (kf_get env kf g ''name''); device = restore_device target g
      in if restorable env kf g \<and> present image \<and> (is_lvm_path device \<or> present device) \<and> \<not> in_use device
         then [SysbakRestore image device True] else [])"

lemma restore_groups_restores:
  assumes "\<forall>h p. ce_exists env h p = present p" and "\<forall>h p. mounted env h p = in_use p" and "\<forall>h. ce_dir env h source \<noteq> None"
    and "\<forall>g \<in> set groups. kf_get env kf g ''fstype'' = Some ''LVM2_member'' \<longrightarrow> kf_get env kf g ''uuid'' \<noteq> None"
    and "cl_allocs c = []"
  shows "\<exists>s' c'. restore_groups env kf source target groups (s, c) = Some (s', c') \<and>
    restores_only (concat (map (restore_request env kf present in_use source target) groups)) c c'"
  using assms(4,5)
proof (induction groups arbitrary: s c)
  case Nil
  then show ?case by (simp add: restores_refl)
next
  case (Cons g groups)
  let ?R = "restore_request env kf present in_use source target"
  obtain rs0 s1 c1 where step: "restores_only (?R g) c c1"
    "restore_groups env kf source target (g # groups) (s, c) = restore_groups env kf source target groups (s1, c1)"
  proof -
    consider "g = ''end''" | "g \<noteq> ''end''" "kf_get env kf g ''fstype'' = Some ''LVM2_member''"
      | "g \<noteq> ''end''" "kf_get env kf g ''fstype'' = Some ''free''" | "restorable env kf g"
      by (auto simp: restorable_def)
    then show thesis
    proof cases
      case 1
      obtain s1 c1 where "activation_lvm_pv env source (s, c) = Some (True, s1, c1)" "restores_only [] c c1"
        using activation_restores [OF Cons.prems(2)] assms(3) by blast
      then show thesis using that [of c1 s1] 1 by (simp add: restore_request_def restorable_def)
    next
      case 2
      then obtain uuid where u: "kf_get env kf g ''uuid'' = Some uuid" using Cons.prems(1) by auto
      obtain b c1 where "restore_lvm_pv env source (target @ g) (Some uuid) c = Some (b, c1)" "restores_only [] c c1"
        using restore_lvm_pv_restores [OF Cons.prems(2)] by blast
      then show thesis using that [of c1 s] 2 u by (simp add: restore_request_def restorable_def)
    next
      case 3
      then show thesis using that [of c s] restores_refl [OF Cons.prems(2)] by (simp add: restore_request_def restorable_def)
    next
      case 4
      let ?f = "restore_image_file source (kf_get env kf g ''name'')" and ?d = "restore_device target g"
      define s1 where "s1 = sysbak_admin_set_option (sysbak_admin_set_target (sysbak_admin_set_source s ?f) ?d) True"
      have s1: "sa_source s1 = Some ?f" "sa_target s1 = Some ?d" "sa_overwrite s1"
        by (simp_all add: s1_def sysbak_admin_set_option_def sysbak_admin_set_target_def sysbak_admin_set_source_def)
      obtain b c1 where r: "sysbak_admin_restore_async env s1 c = Some (b, c1)"
        "restores_only (if present ?f \<and> (is_lvm_path ?d \<or> present ?d) \<and> \<not> in_use ?d then [SysbakRestore ?f ?d True] else []) c c1"
        using restore_async_restores [OF Cons.prems(2) s1(1,2), of env] that
        by (simp only: assms(1,2) [rule_format] s1(3) eq_True simp_thms) blast
      have "?R g = (if present ?f \<and> (is_lvm_path ?d \<or> present ?d) \<and> \<not> in_use ?d then [SysbakRestore ?f ?d True] else [])"
        using 4 by (simp add: restore_request_def Let_def)
      then have "restores_only (?R g) c c1" using r(2) by simp
      then show thesis using that [of c1 s1] 4 r(1)
        by (simp add: restorable_def restore_disk_partition_data_def s1_def [symmetric] Let_def)
    qed
  qed
  obtain s' c' where IH: "restore_groups env kf source target groups (s1, c1) = Some (s', c')"
      "restores_only (concat (map ?R groups)) c1 c'"
    using Cons.IH [OF _ restores_allocs [OF step(1)], of s1] Cons.prems(1) by (auto simp del: not_None_eq)
  show ?case unfolding step(2) using IH(1) restores_trans [OF step(1) IH(2)] by simp
qed

lemma mount_loop_free:
  assumes "\<forall>g \<in> set pre. \<exists>n. kf_get env kf g ''name'' = Some n \<and> n \<noteq> ''lvm'' \<and> \<not> mounted env (cl_out c) (get_dev_path n)"
    and "kf_get env kf g0 ''name'' = Some ''lvm''" and "cl_allocs c = []"
  shows "mount_loop env kf (pre @ g0 # post) c = (None, c)"
  using assms(1)
proof (induction pre)
  case Nil
  then show ?case by (simp add: assms(2))
next
  case (Cons g pre)
  then obtain n where n: "kf_get env kf g ''name'' = Some n" "n \<noteq> ''lvm''" "\<not> mounted env (cl_out c) (get_dev_path n)" by auto
  have "(if is_lvm n then ''/dev/mapper/'' @ n else ''/dev/'' @ n) = get_dev_path n" by (simp add: is_lvm_def get_dev_path_def)
  then show ?case using Cons n check_device_mount_eq [OF assms(3), of env "get_dev_path n"] by (simp add: Let_def)
qed

section \<open>Properties\<close>

text \<open>
  C9: The backup of a disk requests the images that its description calls for: for every group with a file
  system in the table, and for no other, one backup of \<^verbatim>\<open>/dev/<name>\<close> (of \<^verbatim>\<open>/dev/mapper/<name>\<close> for a logical
  volume) to \<^verbatim>\<open><dir>/<name>.img\<close>, with the file system's method, in the order of the groups. Although
  nothing is wrong, six errors are signalled for every group.
\<close>

theorem disk_backup_requests:
  assumes "cl_allocs c = []" and "ce_load env (cl_out c) (dir @ ''/disk-info.ini'') = Inr kf"
    and "\<And>g. g \<in> set (kf_groups env kf) \<Longrightarrow> kf_get env kf g ''fstype'' \<in> Some ` fst ` set array_data \<Longrightarrow>
      kf_get env kf g ''name'' = Some (name g) \<and>
      (\<forall>h. ce_exists env h (get_dev_path (name g)) \<and> \<not> mounted env h (get_dev_path (name g)))"
  shows "\<exists>sysbak' c' new. sysbak_admin_disk_data env sysbak dir c = Some (sysbak', c') \<and> cl_out c' = cl_out c @ new \<and>
    calls new = concat (map (image_request env kf name dir) (kf_groups env kf)) \<and>
    client_outcomes new = replicate (6 * length (kf_groups env kf)) False"
proof -
  have "\<exists>s' c'. disk_data_loop env dir kf (kf_groups env kf) (sysbak, c) = Some (s', c') \<and>
      adds (concat (map (image_request env kf name dir) (kf_groups env kf))) (replicate (6 * length (kf_groups env kf)) False) c c'"
    by (rule disk_data_loop_adds) (use assms(1,3) in blast)+
  then show ?thesis by (auto simp: sysbak_admin_disk_data_def load_config_def assms(2) adds_def)
qed

type_synonym alist_kf = "(string \<times> (string \<times> string) list) list"

definition tiny_config :: alist_kf where
  "tiny_config = [(''1'', [(''name'', ''sda1''), (''fstype'', ''ext4'')]), (''2'', [(''name'', ''sda2''), (''fstype'', ''swap'')]),
     (''end'', [(''name'', ''lvm''), (''fstype'', ''lvm'')]), (''vg-home'', [(''name'', ''vg-home''), (''fstype'', ''xfs'')])]"

definition tiny_disk_env :: "alist_kf disk_env" where
  "tiny_disk_env = \<lparr>ce_exists = (\<lambda>h p. True), ce_readable = (\<lambda>h p. True), ce_realpath = (\<lambda>h p. Some p),
     ce_mounts = (\<lambda>h. Some [''/dev/mapper/vg-root'']),
     ce_reply = (\<lambda>h r. Some (case r of GetSourceUseSize p \<Rightarrow> DNat 500 | GetDiskSize d \<Rightarrow> DNat 400 | _ \<Rightarrow> DBool True)),
     ce_mkdir = (\<lambda>h p. True), ce_lsblk = (\<lambda>h argv. Some []), ce_json = (\<lambda>s. None), ce_dir = (\<lambda>h p. Some [''lvm-vg'', ''sda1.img'']),
     kf_new = [], kf_set = (\<lambda>g k v kf. AList.update g (AList.update k v (case map_of kf g of None \<Rightarrow> [] | Some m \<Rightarrow> m)) kf),
     kf_get = (\<lambda>kf g k. Option.bind (map_of kf g) (\<lambda>m. map_of m k)), kf_groups = map fst,
     ce_save = (\<lambda>h kf p. True), ce_load = (\<lambda>h p. Inr tiny_config)\<rparr>"

lemma tiny_disk_parts [simp]:
  "ce_exists tiny_disk_env h p" "ce_readable tiny_disk_env h p" "ce_dir tiny_disk_env h p = Some [''lvm-vg'', ''sda1.img'']"
  "mounted tiny_disk_env h p \<longleftrightarrow> p = ''/dev/mapper/vg-root''" "ce_load tiny_disk_env h p = Inr tiny_config"
  "kf_groups tiny_disk_env kf = map fst kf" "kf_get tiny_disk_env kf g k = Option.bind (map_of kf g) (\<lambda>m. map_of m k)"
  "ce_reply tiny_disk_env h (GetSourceUseSize p) = Some (DNat 500)" "ce_reply tiny_disk_env h (GetDiskSize p) = Some (DNat 400)"
  by (auto simp: tiny_disk_env_def mounted_def)

lemma tiny_client_parts [simp]: "cl_allocs tiny_client = []" "cl_out tiny_client = []"
  by (simp_all add: tiny_client_def)

theorem disk_backup_requests_witness:
  "\<exists>sysbak' c' new. sysbak_admin_disk_data tiny_disk_env tiny_admin ''/b'' tiny_client = Some (sysbak', c') \<and>
    cl_out c' = cl_out tiny_client @ new \<and>
    calls new = [SysbakExtfsPtf ''/dev/sda1'' ''/b/sda1.img'' True, SysbakXfsfsPtf ''/dev/mapper/vg-home'' ''/b/vg-home.img'' True] \<and>
    client_outcomes new = replicate (6 * 4) False"
  using disk_backup_requests [of tiny_client tiny_disk_env "''/b''" tiny_config
      "\<lambda>g. if g = ''1'' then ''sda1'' else g" tiny_admin]
  by (force simp: tiny_config_def array_data_def image_request_def get_dev_path_def)



text \<open>
  C11: The restore of a disk has removed the volume groups of the target before it finds that the disk is too
  small. Only the devices that the backup was made from are tested for being mounted, and of these only
  the ones before the group of the logical volumes: not the target.
\<close>

theorem disk_restore_removes_groups_first:
  assumes "cl_allocs c = []" and "sa_source sysbak = Some dir" and "sa_target sysbak = Some disk"
    and "\<And>h p. p \<in> {dir, disk, dir @ ''/disk-info.ini'', dir @ ''/disk-table''} \<Longrightarrow> ce_exists env h p"
    and "ce_readable env (cl_out c) (dir @ ''/disk-info.ini'')" and "ce_load env (cl_out c) (dir @ ''/disk-info.ini'') = Inr kf"
    and "kf_groups env kf = pre @ g0 # post" and "kf_get env kf g0 ''name'' = Some ''lvm''"
    and "\<And>g. g \<in> set pre \<Longrightarrow> \<exists>n. kf_get env kf g ''name'' = Some n \<and> n \<noteq> ''lvm'' \<and> \<not> mounted env (cl_out c) (get_dev_path n)"
    and "\<And>h. ce_reply env h (GetSourceUseSize (dir @ ''/disk-table'')) = Some (DNat needed)"
    and "\<And>h. ce_reply env h (GetDiskSize disk) = Some (DNat space)" and "space < needed"
  shows "\<exists>c'. sysbak_admin_restore_disk env sysbak c = Some (False, c') \<and>
    cl_out c' = cl_out c @ [Call (RemoveAllVG disk), Call (GetSourceUseSize (dir @ ''/disk-table'')), Call (GetDiskSize disk),
      SignalError (Some ''Insufficient storage space'')]"
proof -
  have "mount_loop env kf (kf_groups env kf) c = (None, c)"
    unfolding assms(7) by (rule mount_loop_free) (use assms in auto)
  then have "check_dev_is_mount env dir c = (None, c)"
    using assms by (simp add: check_dev_is_mount_def check_file_permission_def check_file_device_def)
  then show ?thesis
    using assms by (simp add: sysbak_admin_restore_disk_def check_file_device_def remove_disk_old_lvm_def Let_def
        get_source_space_size_def get_disk_space_size_def call_size_sync_def)
qed

theorem disk_restore_removes_groups_first_witness:
  "\<exists>c'. sysbak_admin_restore_disk tiny_disk_env (tiny_admin\<lparr>sa_source := Some ''/b'', sa_target := Some ''/dev/sdb''\<rparr>) tiny_client =
      Some (False, c') \<and>
    cl_out c' = [Call (RemoveAllVG ''/dev/sdb''), Call (GetSourceUseSize ''/b/disk-table''), Call (GetDiskSize ''/dev/sdb''),
      SignalError (Some ''Insufficient storage space'')]"
  using disk_restore_removes_groups_first [of tiny_client "tiny_admin\<lparr>sa_source := Some ''/b'', sa_target := Some ''/dev/sdb''\<rparr>"
      "''/b''" "''/dev/sdb''" tiny_disk_env tiny_config "[''1'', ''2'']" "''end''" "[''vg-home'']" 500 400]
  by (force simp: tiny_config_def get_dev_path_def)

end
