(* ===== verification/CacheExtent.thy ===== *)
theory CacheExtent
  imports Btrfs
begin

text \<open>
  \<^verbatim>\<open>src/src/btrfs/rbtree-utils.c\<close> and \<^verbatim>\<open>src/src/btrfs/extent-cache.c\<close>: the search trees of the vendored
  btrfs library, which hold the chunks that \<^verbatim>\<open>btrfs_map_block\<close> looks up, the cached tree blocks and
  the extent states. \<^verbatim>\<open>struct cache_extent\<close> is embedded in what the tree holds, so a node is of a
  record type that extends \<open>cache_extent\<close>. What \<^verbatim>\<open><btrfs/rbtree.h>\<close> provides is not part of the
  sources: \<^verbatim>\<open>rb_insert_color\<close> and \<^verbatim>\<open>rb_next\<close> are arguments, with what is documented of them, that
  recolouring keeps the order of the nodes and that the next node is the next one in that order,
  as the predicates \<open>recolours\<close> and \<open>successor\<close>. The theorems say that search and insertion in
  a tree are search and insertion in the ordered list of its nodes.
\<close>

section \<open>Definitions\<close>

datatype 'a rb_tree = RB_Null | RB_Node "'a rb_tree" 'a "'a rb_tree"

primrec rb_list :: "'a rb_tree \<Rightarrow> 'a list" where
  "rb_list RB_Null = []"
| "rb_list (RB_Node l n r) = rb_list l @ n # rb_list r"

definition EEXIST :: int where "EEXIST = 17"

text \<open>
  The loop of \<^verbatim>\<open>rb_insert\<close> down to the empty place where \<^verbatim>\<open>rb_link_node\<close> puts the node, \<^term>\<open>None\<close> for
  \<^verbatim>\<open>-EEXIST\<close>.
\<close>

primrec rb_link :: "('a \<Rightarrow> 'a \<Rightarrow> int) \<Rightarrow> 'a \<Rightarrow> 'a rb_tree \<Rightarrow> 'a rb_tree option" where
  "rb_link cmp node RB_Null = Some (RB_Node RB_Null node RB_Null)"
| "rb_link cmp node (RB_Node l p r) =
     (if cmp p node < 0 then map_option (\<lambda>l. RB_Node l p r) (rb_link cmp node l)
      else if cmp p node > 0 then map_option (RB_Node l p) (rb_link cmp node r)
      else None)"

definition rb_insert ::
    "('a rb_tree \<Rightarrow> 'a rb_tree) \<Rightarrow> ('a \<Rightarrow> 'a \<Rightarrow> int) \<Rightarrow> 'a \<Rightarrow> 'a rb_tree \<Rightarrow> int \<times> 'a rb_tree" where
  "rb_insert rb_insert_color cmp node rb_root =
     (case rb_link cmp node rb_root of
        None \<Rightarrow> (- EEXIST, rb_root)
      | Some rb_root \<Rightarrow> (0, rb_insert_color rb_root))"

text \<open>The loop of \<^verbatim>\<open>rb_search\<close>: the node that compares equal, the last node visited, and its \<^verbatim>\<open>ret\<close>.\<close>

primrec rb_descend ::
    "('a \<Rightarrow> 'k \<Rightarrow> int) \<Rightarrow> 'k \<Rightarrow> 'a rb_tree \<Rightarrow> 'a option \<Rightarrow> int \<Rightarrow> 'a option \<times> 'a option \<times> int" where
  "rb_descend cmp key RB_Null parent ret = (None, parent, ret)"
| "rb_descend cmp key (RB_Node l n r) parent ret =
     (if cmp n key < 0 then rb_descend cmp key l (Some n) (cmp n key)
      else if cmp n key > 0 then rb_descend cmp key r (Some n) (cmp n key)
      else (Some n, Some n, cmp n key))"

text \<open>The result and \<^verbatim>\<open>*next_ret\<close>.\<close>

definition rb_search ::
    "('a rb_tree \<Rightarrow> 'a \<Rightarrow> 'a option) \<Rightarrow> ('a \<Rightarrow> 'k \<Rightarrow> int) \<Rightarrow> 'k \<Rightarrow> 'a rb_tree \<Rightarrow> 'a option \<times> 'a option" where
  "rb_search rb_next cmp key rb_root =
     (case rb_descend cmp key rb_root None 0 of
        (Some n, _) \<Rightarrow> (Some n, None)
      | (None, None, _) \<Rightarrow> (None, None)
      | (None, Some parent, ret) \<Rightarrow>
          (None, if ret > 0 then rb_next rb_root parent else Some parent))"

record cache_extent =
  xe_start :: u64
  xe_size :: u64

definition cache_tree_comp_range :: "'a cache_extent_scheme \<Rightarrow> u64 \<times> u64 \<Rightarrow> int" where
  "cache_tree_comp_range entry rng =
     (if xe_start entry + xe_size entry \<le> fst rng then 1
      else if fst rng + snd rng \<le> xe_start entry then - 1
      else 0)"

definition cache_tree_comp_nodes :: "'a cache_extent_scheme \<Rightarrow> 'a cache_extent_scheme \<Rightarrow> int" where
  "cache_tree_comp_nodes node1 node2 = cache_tree_comp_range node1 (xe_start node2, xe_size node2)"

definition insert_cache_extent ::
    "('a cache_extent_scheme rb_tree \<Rightarrow> 'a cache_extent_scheme rb_tree) \<Rightarrow> 'a cache_extent_scheme
     \<Rightarrow> 'a cache_extent_scheme rb_tree \<Rightarrow> int \<times> 'a cache_extent_scheme rb_tree" where
  "insert_cache_extent rb_insert_color pe tree = rb_insert rb_insert_color cache_tree_comp_nodes pe tree"

definition lookup_cache_extent ::
    "('a cache_extent_scheme rb_tree \<Rightarrow> 'a cache_extent_scheme \<Rightarrow> 'a cache_extent_scheme option)
     \<Rightarrow> 'a cache_extent_scheme rb_tree \<Rightarrow> u64 \<Rightarrow> u64 \<Rightarrow> 'a cache_extent_scheme option" where
  "lookup_cache_extent rb_next tree pos sz = fst (rb_search rb_next cache_tree_comp_range (pos, sz) tree)"

definition tree_search_cache_extent ::
    "('a cache_extent_scheme rb_tree \<Rightarrow> 'a cache_extent_scheme \<Rightarrow> 'a cache_extent_scheme option)
     \<Rightarrow> 'a cache_extent_scheme rb_tree \<Rightarrow> u64 \<Rightarrow> 'a cache_extent_scheme option" where
  "tree_search_cache_extent rb_next tree pos =
     (case rb_search rb_next cache_tree_comp_range (pos, 1) tree of
        (Some n, _) \<Rightarrow> Some n
      | (None, next_ret) \<Rightarrow> next_ret)"

section \<open>Ordered extents\<close>

definition successor :: "('a rb_tree \<Rightarrow> 'a \<Rightarrow> 'a option) \<Rightarrow> bool" where
  "successor rb_next \<longleftrightarrow>
     (\<forall>t xs x ys. rb_list t = xs @ x # ys \<longrightarrow> distinct (rb_list t) \<longrightarrow>
        rb_next t x = (case ys of [] \<Rightarrow> None | y # _ \<Rightarrow> Some y))"

definition recolours :: "('a rb_tree \<Rightarrow> 'a rb_tree) \<Rightarrow> bool" where
  "recolours rb_insert_color \<longleftrightarrow> (\<forall>t. rb_list (rb_insert_color t) = rb_list t)"

text \<open>No extent is empty or wraps around, and each ends before the next one starts.\<close>

definition xe_wf :: "'a cache_extent_scheme \<Rightarrow> bool" where
  "xe_wf e \<longleftrightarrow> 0 < xe_size e \<and> xe_start e < xe_start e + xe_size e"

definition extents_ordered :: "'a cache_extent_scheme list \<Rightarrow> bool" where
  "extents_ordered xs \<longleftrightarrow>
     list_all xe_wf xs \<and> sorted_wrt (\<lambda>a b. xe_start a + xe_size a \<le> xe_start b) xs"

primrec insert_ordered ::
    "'a cache_extent_scheme \<Rightarrow> 'a cache_extent_scheme list \<Rightarrow> 'a cache_extent_scheme list option" where
  "insert_ordered pe [] = Some [pe]"
| "insert_ordered pe (x # xs) =
     (if xe_start x + xe_size x \<le> xe_start pe then map_option ((#) x) (insert_ordered pe xs)
      else if xe_start pe + xe_size pe \<le> xe_start x then Some (pe # x # xs)
      else None)"

lemma extents_ordered_append:
  "extents_ordered (xs @ e # ys) \<longleftrightarrow>
     extents_ordered xs \<and> extents_ordered ys \<and> xe_wf e
     \<and> (\<forall>x \<in> set xs. xe_start x + xe_size x \<le> xe_start e)
     \<and> (\<forall>y \<in> set ys. xe_start e + xe_size e \<le> xe_start y)
     \<and> (\<forall>x \<in> set xs. \<forall>y \<in> set ys. xe_start x + xe_size x \<le> xe_start y)"
  by (auto simp: extents_ordered_def sorted_wrt_append list_all_iff)

lemma extents_ordered_distinct: "extents_ordered xs \<Longrightarrow> distinct xs"
proof (induction xs)
  case (Cons a xs)
  then have "extents_ordered ([] @ a # xs)" by simp
  then have "xe_wf a" "\<forall>y \<in> set xs. xe_start a + xe_size a \<le> xe_start y" "extents_ordered xs"
    by (simp_all only: extents_ordered_append) auto
  with Cons.IH show ?case by (auto simp: xe_wf_def)
qed simp

text \<open>Where the descent ends when no node compares equal.\<close>

lemma rb_descend_None:
  assumes "rb_descend cache_tree_comp_range (pos, 1) t parent ret = (None, q, r)"
    and "extents_ordered (rb_list t)" and "t \<noteq> RB_Null"
  shows "\<exists>p xs ys. q = Some p \<and> rb_list t = xs @ p # ys \<and>
           (r < 0 \<and> pos < xe_start p + xe_size p \<and> (\<forall>x \<in> set xs. xe_start x + xe_size x \<le> pos)
            \<or> r > 0 \<and> xe_start p + xe_size p \<le> pos \<and> (\<forall>y \<in> set ys. pos < xe_start y + xe_size y))"
  using assms
proof (induction t arbitrary: parent ret)
  case (RB_Node l n u)
  have ord: "extents_ordered (rb_list l)" "extents_ordered (rb_list u)" "xe_wf n"
      "\<forall>x \<in> set (rb_list l). xe_start x + xe_size x \<le> xe_start n"
      "\<forall>y \<in> set (rb_list u). xe_start n + xe_size n \<le> xe_start y"
    using RB_Node.prems(2) by (simp_all add: extents_ordered_append)
  consider (before) "xe_start n + xe_size n \<le> pos"
    | (after) "pos < xe_start n + xe_size n" "pos + 1 \<le> xe_start n"
    using RB_Node.prems(1) by (fastforce simp: cache_tree_comp_range_def not_le split: if_splits)
  then show ?case
  proof cases
    case before
    then have one [simp]: "cache_tree_comp_range n (pos, 1) = 1" by (simp add: cache_tree_comp_range_def)
    have wf: "xe_wf y" if "y \<in> set (rb_list u)" for y
      using ord(2) that by (auto simp: extents_ordered_def list_all_iff)
    have late: "\<forall>x \<in> set (rb_list l). xe_start x + xe_size x \<le> pos"
      using ord(3,4) before by (meson xe_wf_def order.strict_implies_order order_trans)
    show ?thesis
    proof (cases "u = RB_Null")
      case True
      with RB_Node.prems(1) before show ?thesis
        by (intro exI [of _ n] exI [of _ "rb_list l"] exI [of _ "[]"])
          auto
    next
      case False
      from RB_Node.prems(1)
      have "rb_descend cache_tree_comp_range (pos, 1) u (Some n) 1 = (None, q, r)" by simp
      from RB_Node.IH(2) [OF this ord(2) False] obtain p xs ys where "q = Some p"
        "rb_list u = xs @ p # ys" and *: "r < 0 \<and> pos < xe_start p + xe_size p \<and> (\<forall>x \<in> set xs. xe_start x + xe_size x \<le> pos)
            \<or> r > 0 \<and> xe_start p + xe_size p \<le> pos \<and> (\<forall>y \<in> set ys. pos < xe_start y + xe_size y)"
        by blast
      then show ?thesis
        using late before
        by (intro exI [of _ p] exI [of _ "rb_list l @ n # xs"] exI [of _ ys]) auto
    qed
  next
    case after
    then have minus [simp]: "cache_tree_comp_range n (pos, 1) = - 1"
      by (simp add: cache_tree_comp_range_def not_le)
    have late: "\<forall>y \<in> set (rb_list u). pos < xe_start y + xe_size y"
    proof
      fix y assume y: "y \<in> set (rb_list u)"
      with ord(2) have "xe_wf y" by (auto simp: extents_ordered_def list_all_iff)
      then have "xe_start y < xe_start y + xe_size y" by (simp add: xe_wf_def)
      with ord(5) y after(1) show "pos < xe_start y + xe_size y" by fastforce
    qed
    show ?thesis
    proof (cases "l = RB_Null")
      case True
      with RB_Node.prems(1) after show ?thesis
        by (intro exI [of _ n] exI [of _ "[]"] exI [of _ "rb_list u"])
          (use ord after in auto)
    next
      case False
      from RB_Node.prems(1)
      have "rb_descend cache_tree_comp_range (pos, 1) l (Some n) (- 1) = (None, q, r)" by simp
      from RB_Node.IH(1) [OF this ord(1) False] obtain p xs ys where "q = Some p"
        "rb_list l = xs @ p # ys" and *: "r < 0 \<and> pos < xe_start p + xe_size p \<and> (\<forall>x \<in> set xs. xe_start x + xe_size x \<le> pos)
            \<or> r > 0 \<and> xe_start p + xe_size p \<le> pos \<and> (\<forall>y \<in> set ys. pos < xe_start y + xe_size y)"
        by blast
      then show ?thesis
        using late after(1)
        by (intro exI [of _ p] exI [of _ xs] exI [of _ "ys @ n # rb_list u"]) auto
    qed
  qed
qed simp

lemma rb_descend_Some:
  assumes "rb_descend cache_tree_comp_range (pos, sz) t parent ret = (Some n, q)"
  shows "n \<in> set (rb_list t) \<and> cache_tree_comp_range n (pos, sz) = 0"
  using assms by (induction t arbitrary: parent ret) (auto split: if_splits)

lemma find_append_Cons:
  "\<forall>x \<in> set xs. \<not> P x \<Longrightarrow> find P (xs @ ys) = find P ys"
  by (induction xs) auto

text \<open>Before an extent that holds or follows an address, every extent ends at or before it.\<close>

lemma ends_before:
  assumes "extents_ordered (xs @ p # ys)" and "xe_start p \<le> pos" and "x \<in> set xs"
  shows "xe_start x + xe_size x \<le> pos"
  using assms by (auto simp: extents_ordered_append intro: order_trans)

lemma tree_search_first:
  assumes next_law: "successor rb_next" and ord: "extents_ordered (rb_list t)"
  shows "tree_search_cache_extent rb_next t pos = find (\<lambda>e. pos < xe_start e + xe_size e) (rb_list t)"
proof (cases "rb_descend cache_tree_comp_range (pos, 1) t None 0")
  case (fields found q r)
  show ?thesis
  proof (cases found)
    case (Some n)
    with fields have n: "n \<in> set (rb_list t)" "cache_tree_comp_range n (pos, 1) = 0"
      using rb_descend_Some by blast+
    then obtain xs ys where split: "rb_list t = xs @ n # ys" by (meson split_list)
    have hit: "pos < xe_start n + xe_size n" "xe_start n < pos + 1"
      using n(2) by (auto simp: cache_tree_comp_range_def not_le split: if_splits)
    then have "xe_start n \<le> pos" by unat_arith
    then have "\<forall>x \<in> set xs. \<not> pos < xe_start x + xe_size x"
      using ends_before ord split by (metis not_less)
    with hit(1) have "find (\<lambda>e. pos < xe_start e + xe_size e) (rb_list t) = Some n"
      by (simp add: split find_append_Cons)
    with Some fields show ?thesis by (simp add: tree_search_cache_extent_def rb_search_def)
  next
    case None
    show ?thesis
    proof (cases "t = RB_Null")
      case False
      with rb_descend_None [OF _ ord] fields None obtain p xs ys where q: "q = Some p"
        and split: "rb_list t = xs @ p # ys"
        and *: "r < 0 \<and> pos < xe_start p + xe_size p \<and> (\<forall>x \<in> set xs. xe_start x + xe_size x \<le> pos)
            \<or> r > 0 \<and> xe_start p + xe_size p \<le> pos \<and> (\<forall>y \<in> set ys. pos < xe_start y + xe_size y)"
        by blast
      from * show ?thesis
      proof (elim disjE conjE)
        assume "r < 0" "pos < xe_start p + xe_size p" "\<forall>x \<in> set xs. xe_start x + xe_size x \<le> pos"
        then show ?thesis
          using fields None q
          by (simp add: tree_search_cache_extent_def rb_search_def split find_append_Cons not_less)
      next
        assume r: "r > 0" and p: "xe_start p + xe_size p \<le> pos"
          and ys: "\<forall>y \<in> set ys. pos < xe_start y + xe_size y"
        have "xe_start p \<le> pos"
          using ord p unfolding split extents_ordered_append xe_wf_def
          by (meson order.strict_implies_order order_trans)
        then have "\<forall>x \<in> set xs. \<not> pos < xe_start x + xe_size x"
          using ends_before ord split by (metis not_less)
        with p ys have "find (\<lambda>e. pos < xe_start e + xe_size e) (rb_list t)
            = (case ys of [] \<Rightarrow> None | y # _ \<Rightarrow> Some y)"
          by (simp add: split find_append_Cons not_less split: list.split)
        moreover have "rb_next t p = (case ys of [] \<Rightarrow> None | y # _ \<Rightarrow> Some y)"
          using next_law split extents_ordered_distinct [OF ord] by (simp add: successor_def)
        ultimately show ?thesis
          using fields None q r by (simp add: tree_search_cache_extent_def rb_search_def)
      qed
    qed (use fields None in \<open>auto simp: tree_search_cache_extent_def rb_search_def\<close>)
  qed
qed

text \<open>Insertion goes to the place that the order asks for, or finds an overlapping extent.\<close>

lemma insert_ordered_after:
  "\<forall>x \<in> set xs. xe_start x + xe_size x \<le> xe_start pe \<Longrightarrow>
     insert_ordered pe (xs @ ys) = map_option (\<lambda>zs. xs @ zs) (insert_ordered pe ys)"
  by (cases "insert_ordered pe ys"; induction xs) auto

lemma insert_ordered_before:
  "\<lbrakk>xe_start pe < xe_start n + xe_size n; xe_start pe + xe_size pe \<le> xe_start n\<rbrakk> \<Longrightarrow>
     insert_ordered pe (xs @ n # ys) = map_option (\<lambda>zs. zs @ n # ys) (insert_ordered pe xs)"
  by (induction xs) (auto simp: option.map_comp o_def not_le)

lemma insert_ordered_overlap:
  "\<lbrakk>xe_start pe < xe_start n + xe_size n; xe_start n < xe_start pe + xe_size pe;
    \<forall>x \<in> set xs. xe_wf x \<and> xe_start x + xe_size x \<le> xe_start n\<rbrakk> \<Longrightarrow>
     insert_ordered pe (xs @ n # ys) = None"
  by (induction xs) (auto simp: not_le xe_wf_def)

lemma rb_link_ordered:
  assumes "extents_ordered (rb_list t)" and "xe_wf pe"
  shows "map_option rb_list (rb_link cache_tree_comp_nodes pe t) = insert_ordered pe (rb_list t)"
  using assms(1)
proof (induction t)
  case (RB_Node l n u)
  have ord: "extents_ordered (rb_list l)" "extents_ordered (rb_list u)" "xe_wf n"
      "\<forall>x \<in> set (rb_list l). xe_wf x \<and> xe_start x + xe_size x \<le> xe_start n"
    using RB_Node.prems by (auto simp: extents_ordered_append) (auto simp: extents_ordered_def list_all_iff)
  consider (before) "xe_start n + xe_size n \<le> xe_start pe"
    | (after) "xe_start pe < xe_start n + xe_size n" "xe_start pe + xe_size pe \<le> xe_start n"
    | (overlap) "xe_start pe < xe_start n + xe_size n" "xe_start n < xe_start pe + xe_size pe"
    by fastforce
  then show ?case
  proof cases
    case before
    then have c: "cache_tree_comp_nodes n pe = 1"
      by (simp add: cache_tree_comp_nodes_def cache_tree_comp_range_def)
    have "\<forall>x \<in> set (rb_list l). xe_start x + xe_size x \<le> xe_start pe"
      using ord(3,4) before by (meson xe_wf_def order.strict_implies_order order_trans)
    with before c RB_Node.IH(2) [OF ord(2), symmetric] show ?thesis
      by (simp add: insert_ordered_after option.map_comp o_def)
  next
    case after
    then have "cache_tree_comp_nodes n pe = - 1"
      by (simp add: cache_tree_comp_nodes_def cache_tree_comp_range_def not_le)
    with after RB_Node.IH(1) [OF ord(1), symmetric] show ?thesis
      by (simp add: insert_ordered_before option.map_comp o_def)
  next
    case overlap
    then have "cache_tree_comp_nodes n pe = 0"
      by (simp add: cache_tree_comp_nodes_def cache_tree_comp_range_def not_le)
    with overlap ord(4) show ?thesis by (simp add: insert_ordered_overlap)
  qed
qed simp

definition overlaps :: "'a cache_extent_scheme \<Rightarrow> 'a cache_extent_scheme \<Rightarrow> bool" where
  "overlaps a b \<longleftrightarrow> xe_start a < xe_start b + xe_size b \<and> xe_start b < xe_start a + xe_size a"

lemma insert_ordered_cases:
  assumes "extents_ordered xs" and "xe_wf pe"
  shows "case insert_ordered pe xs of
           None \<Rightarrow> \<exists>e \<in> set xs. overlaps e pe
         | Some ys \<Rightarrow> extents_ordered ys \<and> set ys = insert pe (set xs) \<and> (\<forall>e \<in> set xs. \<not> overlaps e pe)"
  using assms(1)
proof (induction xs)
  case Nil
  with assms(2) show ?case by (simp add: extents_ordered_def)
next
  case (Cons x xs)
  from Cons.prems have ord: "extents_ordered xs" "xe_wf x" "\<forall>y \<in> set xs. xe_start x + xe_size x \<le> xe_start y"
    using extents_ordered_append [of "[]" x xs] by simp_all
  show ?case
  proof (cases "xe_start x + xe_size x \<le> xe_start pe")
    case True
    with Cons.IH [OF ord(1)] ord show ?thesis
      using extents_ordered_append [of "[]" x]
      by (auto simp: overlaps_def not_less extents_ordered_def split: option.splits)
  next
    case False
    show ?thesis
    proof (cases "xe_start pe + xe_size pe \<le> xe_start x")
      case True
      then have "\<forall>y \<in> set (x # xs). xe_start pe + xe_size pe \<le> xe_start y"
        using ord(2,3) by (auto simp: xe_wf_def)
      with True False Cons.prems assms(2) show ?thesis
        by (auto simp: overlaps_def not_less extents_ordered_def)
    qed (use False in \<open>auto simp: overlaps_def\<close>)
  qed
qed

section \<open>Properties\<close>

definition map_extent :: "map_lookup \<Rightarrow> map_lookup cache_extent_scheme" where
  "map_extent m = \<lparr>xe_start = of_nat (ce_start m), xe_size = of_nat (ce_size m), \<dots> = m\<rparr>"

text \<open>
  C26: Looking up a logical address in the mapping tree, whatever its shape, gives the first chunk in
  the order of the addresses that does not end at or before the address: the chunk that holds it
  or else the next one, as the scan of a Btrfs device assumes when it looks through a list.
\<close>

theorem mapping_tree_search:
  assumes "successor rb_next" and "extents_ordered (rb_list t)" and "rb_list t = map map_extent chunks"
    and "\<forall>m \<in> set chunks. ce_start m + ce_size m < 2 ^ 64"
  shows "map_option cache_extent.more (tree_search_cache_extent rb_next t logical) =
         search_cache_extent chunks (unat logical)"
proof -
  have "logical < of_nat (ce_start m) + of_nat (ce_size m) \<longleftrightarrow> unat logical < ce_start m + ce_size m"
    if "m \<in> set chunks" for m
  proof -
    have "unat (of_nat (ce_start m + ce_size m) :: u64) = ce_start m + ce_size m"
      using assms(4) that by (simp add: unsigned_of_nat take_bit_nat_eq_self del: of_nat_add)
    then show ?thesis by (simp add: word_less_nat_alt)
  qed
  then have "map_option cache_extent.more
        (find (\<lambda>e. logical < xe_start e + xe_size e) (map map_extent chunks)) =
      find (\<lambda>m. unat logical < ce_start m + ce_size m) chunks"
    by (induction chunks) (auto simp: map_extent_def)
  with assms show ?thesis by (simp add: tree_search_first search_cache_extent_def)
qed

definition tiny_next :: "'a rb_tree \<Rightarrow> 'a \<Rightarrow> 'a option" where
  "tiny_next t x =
     (case dropWhile (\<lambda>y. y \<noteq> x) (rb_list t) of _ # y # _ \<Rightarrow> Some y | _ \<Rightarrow> None)"

lemma tiny_next_successor: "successor tiny_next"
  unfolding successor_def
proof (intro allI impI)
  fix t :: "'a rb_tree" and xs x ys
  assume t: "rb_list t = xs @ x # ys" and "distinct (rb_list t)"
  then have "\<forall>y \<in> set xs. y \<noteq> x" by auto
  then have "dropWhile (\<lambda>y. y \<noteq> x) (rb_list t) = x # ys"
    unfolding t by (induction xs) auto
  then show "tiny_next t x = (case ys of [] \<Rightarrow> None | y # _ \<Rightarrow> Some y)"
    by (simp add: tiny_next_def split: list.split)
qed

definition tiny_chunks :: "map_lookup list" where
  "tiny_chunks = [tiny_chunk, tiny_chunk\<lparr>ce_start := ce_start tiny_chunk + 2 * ce_size tiny_chunk\<rparr>]"

theorem mapping_tree_search_witness:
  "map_option cache_extent.more (tree_search_cache_extent tiny_next
       (RB_Node (RB_Node RB_Null (map_extent (tiny_chunks ! 0)) RB_Null) (map_extent (tiny_chunks ! 1)) RB_Null)
       (of_nat (ce_start tiny_chunk + ce_size tiny_chunk))) = Some (tiny_chunks ! 1)"
proof -
  let ?t = "RB_Node (RB_Node RB_Null (map_extent (tiny_chunks ! 0)) RB_Null) (map_extent (tiny_chunks ! 1)) RB_Null"
  have "rb_list ?t = map map_extent tiny_chunks" by (simp add: tiny_chunks_def)
  moreover have "extents_ordered (rb_list ?t)"
    by (simp add: tiny_chunks_def tiny_chunk_def map_extent_def extents_ordered_def xe_wf_def)
  moreover have "\<forall>m \<in> set tiny_chunks. ce_start m + ce_size m < 2 ^ 64"
    by (simp add: tiny_chunks_def tiny_chunk_def)
  ultimately show ?thesis
    using mapping_tree_search [OF tiny_next_successor, of ?t tiny_chunks "of_nat (ce_start tiny_chunk + ce_size tiny_chunk)"]
    by (simp add: tiny_chunks_def tiny_chunk_def search_cache_extent_def)
qed

text \<open>
  Inserting an extent into a tree of ordered extents keeps them ordered: the extent is in the
  tree afterwards, unless it overlaps one of them; then the tree is left alone and the result is
  \<^verbatim>\<open>-EEXIST\<close>.
\<close>

theorem insert_cache_extent_ordered:
  assumes "recolours rb_insert_color" and "extents_ordered (rb_list t)" and "xe_wf pe"
  shows "case insert_cache_extent rb_insert_color pe t of (ret, t') \<Rightarrow>
           extents_ordered (rb_list t') \<and>
           (if \<exists>e \<in> set (rb_list t). overlaps e pe then ret = - EEXIST \<and> t' = t
            else ret = 0 \<and> set (rb_list t') = insert pe (set (rb_list t)))"
proof (cases "rb_link cache_tree_comp_nodes pe t")
  case None
  with assms rb_link_ordered [of t pe] insert_ordered_cases [of "rb_list t" pe] show ?thesis
    by (simp add: insert_cache_extent_def rb_insert_def)
next
  case (Some u)
  with assms rb_link_ordered [of t pe] insert_ordered_cases [of "rb_list t" pe] show ?thesis
    by (auto simp: insert_cache_extent_def rb_insert_def recolours_def split: option.splits)
qed

theorem insert_cache_extent_ordered_witness:
  "\<exists>t'. insert_cache_extent id \<lparr>xe_start = 8, xe_size = 8\<rparr>
       (RB_Node RB_Null \<lparr>xe_start = 0, xe_size = 8\<rparr> RB_Null) = (0, t') \<and> extents_ordered (rb_list t')"
proof -
  let ?t = "RB_Node RB_Null \<lparr>xe_start = 0, xe_size = 8\<rparr> RB_Null" and ?e = "\<lparr>xe_start = 8, xe_size = 8\<rparr>"
  have "recolours id" "extents_ordered (rb_list ?t)" "xe_wf ?e" "\<not> overlaps \<lparr>xe_start = 0, xe_size = 8\<rparr> ?e"
    by (simp_all add: recolours_def extents_ordered_def xe_wf_def overlaps_def)
  with insert_cache_extent_ordered [of id ?t ?e] show ?thesis
    by (auto split: prod.splits)
qed

end
