(* ===== verification/ExtentBits.thy ===== *)
theory ExtentBits
  imports CacheExtent
begin

text \<open>
  \<^verbatim>\<open>src/src/btrfs/extent_io.c\<close>: which bits are set on which ranges of addresses. \<^verbatim>\<open>open_ctree_fs_info\<close>
  records the block groups and the pinned extents of a Btrfs device this way. A tree of extent
  states is the list of its states in the order of the tree; that searching and inserting in the
  tree is searching and inserting in the list is shown in \<open>CacheExtent\<close>. \<^verbatim>\<open>update_extent_state\<close> keeps
  \<^verbatim>\<open>cache_node\<close> in step with \<^verbatim>\<open>start\<close> and \<^verbatim>\<open>end\<close>, so the node is a function of the state; every state has one
  reference. A pointer to a state in the tree is the state itself: no two states of a tree are equal.
  The number of turns is bounded by the fuel; \<^term>\<open>None\<close> is also the use of a state that could not be
  inserted, which does not happen in an ordered tree.
\<close>

section \<open>Definitions\<close>

record extent_state =
  es_start :: u64
  es_end :: u64
  es_state :: u64
  es_private :: u64

definition EXTENT_DIRTY :: u32 where "EXTENT_DIRTY = 1"
definition EXTENT_WRITEBACK :: u64 where "EXTENT_WRITEBACK = 2"
definition EXTENT_LOCKED :: u64 where "EXTENT_LOCKED = 8"
definition EXTENT_IOBITS :: u64 where "EXTENT_IOBITS = EXTENT_LOCKED OR EXTENT_WRITEBACK"

definition ENOMEM :: int where "ENOMEM = 12"
definition ENOENT :: int where "ENOENT = 2"

definition update_extent_state :: "extent_state \<Rightarrow> extent_state cache_extent_scheme" where
  "update_extent_state s = \<lparr>xe_start = es_start s, xe_size = es_end s + 1 - es_start s, \<dots> = s\<rparr>"

definition before_state :: "extent_state \<Rightarrow> extent_state list \<Rightarrow> extent_state list" where
  "before_state s tree = takeWhile (\<lambda>x. x \<noteq> s) tree"

definition after_state :: "extent_state \<Rightarrow> extent_state list \<Rightarrow> extent_state list" where
  "after_state s tree = tl (dropWhile (\<lambda>x. x \<noteq> s) tree)"

definition change_state :: "extent_state \<Rightarrow> extent_state \<Rightarrow> extent_state list \<Rightarrow> extent_state list" where
  "change_state s s' tree = before_state s tree @ s' # after_state s tree"

text \<open>\<^verbatim>\<open>insert_cache_extent\<close>: the states before and after the new one, \<^term>\<open>None\<close> for \<^verbatim>\<open>-EEXIST\<close>.\<close>

primrec insert_node :: "extent_state \<Rightarrow> extent_state list \<Rightarrow> (extent_state list \<times> extent_state list) option" where
  "insert_node s [] = Some ([], [])"
| "insert_node s (x # xs) =
     (if es_end x + 1 \<le> es_start s
      then map_option (\<lambda>(before, after). (x # before, after)) (insert_node s xs)
      else if es_end s + 1 \<le> es_start x then Some ([], x # xs)
      else None)"

text \<open>\<^verbatim>\<open>search_cache_extent\<close> at \<open>pos\<close>, with the nodes that \<^verbatim>\<open>next_cache_extent\<close> goes through from there.\<close>

definition states_from :: "u64 \<Rightarrow> extent_state list \<Rightarrow> extent_state list" where
  "states_from pos tree = dropWhile (\<lambda>s. es_end s + 1 \<le> pos) tree"

definition merge_with_prev :: "extent_state list \<Rightarrow> extent_state \<Rightarrow> extent_state list \<times> extent_state" where
  "merge_with_prev before s =
     (if before \<noteq> [] \<and> es_end (last before) = es_start s - 1 \<and> es_state (last before) = es_state s
      then (butlast before, s\<lparr>es_start := es_start (last before)\<rparr>)
      else (before, s))"

definition merge_with_next ::
    "extent_state list \<Rightarrow> extent_state \<Rightarrow> extent_state list \<Rightarrow> extent_state list" where
  "merge_with_next before s after =
     (case after of
        [] \<Rightarrow> before @ [s]
      | other # rest \<Rightarrow>
          if es_start other = es_end s + 1 \<and> es_state other = es_state s
          then before @ other\<lparr>es_start := es_start s\<rparr> # rest
          else before @ s # after)"

definition merge_state :: "extent_state list \<Rightarrow> extent_state \<Rightarrow> extent_state list" where
  "merge_state tree s =
     (if es_state s AND EXTENT_IOBITS \<noteq> 0 then tree
      else (case merge_with_prev (before_state s tree) s of
              (before, s') \<Rightarrow> merge_with_next before s' (after_state s tree)))"

definition insert_state ::
    "extent_state list \<Rightarrow> extent_state \<Rightarrow> u64 \<Rightarrow> u64 \<Rightarrow> u32 \<Rightarrow> int \<times> extent_state list" where
  "insert_state tree s pos lst bits =
     (if lst < pos then (-1, tree)
      else (let s = s\<lparr>es_state := es_state s OR scast bits, es_start := pos, es_end := lst\<rparr>
            in case insert_node s tree of
                 None \<Rightarrow> (-1, tree)
               | Some (before, after) \<Rightarrow> (0, merge_state (before @ s # after) s)))"

text \<open>The result, the first half (\<^verbatim>\<open>prealloc\<close>), the second half (\<^verbatim>\<open>orig\<close>) and the tree.\<close>

definition split_state ::
    "extent_state list \<Rightarrow> extent_state \<Rightarrow> extent_state \<Rightarrow> u64
     \<Rightarrow> int \<times> extent_state \<times> extent_state \<times> extent_state list" where
  "split_state tree orig prealloc split =
     (let prealloc = prealloc\<lparr>es_start := es_start orig, es_end := split - 1, es_state := es_state orig\<rparr>;
          orig' = orig\<lparr>es_start := split\<rparr>;
          tree = change_state orig orig' tree
      in case insert_node prealloc tree of
           None \<Rightarrow> (-1, prealloc, orig', tree)
         | Some (before, after) \<Rightarrow> (0, prealloc, orig', before @ prealloc # after))"

definition clear_state_bit :: "extent_state list \<Rightarrow> extent_state \<Rightarrow> u32 \<Rightarrow> u32 \<times> extent_state list" where
  "clear_state_bit tree s bits =
     (let ret = ucast (es_state s) AND bits;
          s' = s\<lparr>es_state := es_state s AND NOT (scast bits)\<rparr>
      in if es_state s' = 0 then (ret, before_state s tree @ after_state s tree)
         else (ret, merge_state (change_state s s' tree) s'))"

text \<open>What \<^verbatim>\<open>alloc_extent_state\<close> leaves unset is overwritten before it is read.\<close>

definition new_state :: extent_state where
  "new_state = \<lparr>es_start = 0, es_end = 0, es_state = 0, es_private = 0\<rparr>"

definition alloc_extent_state :: "bool \<Rightarrow> world \<Rightarrow> bool \<times> world" where
  "alloc_extent_state prealloc w = (if prealloc then (True, w) else sys_malloc w)"

text \<open>
  The body from \<open>again\<close> on. The result is an \<open>int\<close>: the bits that were set, or \<^verbatim>\<open>-ENOMEM\<close>. \<open>prealloc\<close> says
  whether a state that a former turn allocated is still to be used.
\<close>

primrec clear_bits_loop ::
    "nat \<Rightarrow> u64 \<Rightarrow> u32 \<Rightarrow> u64 \<Rightarrow> extent_state list \<Rightarrow> u32 \<Rightarrow> bool \<Rightarrow> world
     \<Rightarrow> ((int \<times> extent_state list) \<times> world) option" where
  "clear_bits_loop 0 lst bits pos tree st prealloc w = None"
| "clear_bits_loop (Suc fuel) lst bits pos tree st prealloc w =
     (case alloc_extent_state prealloc w of
        (False, w) \<Rightarrow> Some ((- ENOMEM, tree), w)
      | (True, w) \<Rightarrow>
          (case states_from pos tree of
             [] \<Rightarrow> Some ((sint st, tree), w)
           | s # _ \<Rightarrow>
               if lst < es_start s then Some ((sint st, tree), w)
               else if es_start s < pos then
                 (case split_state tree s new_state pos of
                    (err, _, s', tree) \<Rightarrow>
                      if err \<noteq> 0 then Some ((sint st, tree), w)
                      else if es_end s' \<le> lst then
                        (case clear_state_bit tree s' bits of
                           (ret, tree) \<Rightarrow>
                             if es_end s = -1 \<or> lst < es_end s + 1 then Some ((sint (st OR ret), tree), w)
                             else clear_bits_loop fuel lst bits (es_end s + 1) tree (st OR ret) False w)
                      else if lst < es_start s' then Some ((sint st, tree), w)
                      else clear_bits_loop fuel lst bits (es_start s') tree st False w)
               else if es_start s \<le> lst \<and> lst < es_end s then
                 (case split_state tree s new_state (lst + 1) of
                    (err, prealloc, _, tree) \<Rightarrow>
                      if err \<noteq> 0 then None
                      else (case clear_state_bit tree prealloc bits of
                              (ret, tree) \<Rightarrow> Some ((sint (st OR ret), tree), w)))
               else
                 (case clear_state_bit tree s bits of
                    (ret, tree) \<Rightarrow>
                      if es_end s = -1 \<or> lst < es_end s + 1 then Some ((sint (st OR ret), tree), w)
                      else clear_bits_loop fuel lst bits (es_end s + 1) tree (st OR ret) True w)))"

primrec set_bits_loop ::
    "nat \<Rightarrow> u64 \<Rightarrow> u32 \<Rightarrow> u64 \<Rightarrow> extent_state list \<Rightarrow> bool \<Rightarrow> world
     \<Rightarrow> ((int \<times> extent_state list) \<times> world) option" where
  "set_bits_loop 0 lst bits pos tree prealloc w = None"
| "set_bits_loop (Suc fuel) lst bits pos tree prealloc w =
     (case alloc_extent_state prealloc w of
        (False, w) \<Rightarrow> Some ((- ENOMEM, tree), w)
      | (True, w) \<Rightarrow>
          (case states_from pos tree of
             [] \<Rightarrow> Some (insert_state tree new_state pos lst bits, w)
           | s # _ \<Rightarrow>
               if es_start s = pos \<and> es_end s \<le> lst then
                 (let s' = s\<lparr>es_state := es_state s OR scast bits\<rparr>;
                      tree = merge_state (change_state s s' tree) s'
                  in if es_end s = -1 \<or> lst < es_end s + 1 then Some ((0, tree), w)
                     else set_bits_loop fuel lst bits (es_end s + 1) tree True w)
               else if es_start s < pos then
                 (case split_state tree s new_state pos of
                    (err, _, s', tree) \<Rightarrow>
                      if err \<noteq> 0 then Some ((err, tree), w)
                      else if es_end s' \<le> lst then
                        (let s'' = s'\<lparr>es_state := es_state s' OR scast bits\<rparr>;
                             tree = merge_state (change_state s' s'' tree) s''
                         in if es_end s = -1 \<or> lst < es_end s + 1 then Some ((0, tree), w)
                            else set_bits_loop fuel lst bits (es_end s + 1) tree False w)
                      else if lst < es_start s' then Some ((0, tree), w)
                      else set_bits_loop fuel lst bits (es_start s') tree False w)
               else if pos < es_start s then
                 (let this_end = (if lst < es_start s then lst else es_start s - 1)
                  in case insert_state tree new_state pos this_end bits of
                       (err, tree) \<Rightarrow>
                         if err \<noteq> 0 then Some ((err, tree), w)
                         else if lst < this_end + 1 then Some ((0, tree), w)
                         else set_bits_loop fuel lst bits (this_end + 1) tree False w)
               else
                 (case split_state tree s new_state (lst + 1) of
                    (err, prealloc, s', tree) \<Rightarrow>
                      if err \<noteq> 0 then None
                      else Some ((0, merge_state
                             (change_state s' (s'\<lparr>es_state := es_state s' OR scast bits\<rparr>) tree) prealloc), w))))"

text \<open>Every turn but two finishes with a state, so three turns for each state and three more are enough.\<close>

definition clear_extent_bits ::
    "extent_state list \<Rightarrow> u64 \<Rightarrow> u64 \<Rightarrow> u32 \<Rightarrow> world \<Rightarrow> ((int \<times> extent_state list) \<times> world) option" where
  "clear_extent_bits tree pos lst bits w = clear_bits_loop (3 * length tree + 3) lst bits pos tree 0 False w"

definition set_extent_bits ::
    "extent_state list \<Rightarrow> u64 \<Rightarrow> u64 \<Rightarrow> u32 \<Rightarrow> world \<Rightarrow> ((int \<times> extent_state list) \<times> world) option" where
  "set_extent_bits tree pos lst bits w = set_bits_loop (3 * length tree + 3) lst bits pos tree False w"

definition set_extent_dirty ::
    "extent_state list \<Rightarrow> u64 \<Rightarrow> u64 \<Rightarrow> world \<Rightarrow> ((int \<times> extent_state list) \<times> world) option" where
  "set_extent_dirty tree pos lst w = set_extent_bits tree pos lst EXTENT_DIRTY w"

definition clear_extent_dirty ::
    "extent_state list \<Rightarrow> u64 \<Rightarrow> u64 \<Rightarrow> world \<Rightarrow> ((int \<times> extent_state list) \<times> world) option" where
  "clear_extent_dirty tree pos lst w = clear_extent_bits tree pos lst EXTENT_DIRTY w"

text \<open>The range of the state found, or \<^term>\<open>None\<close> for the result 1.\<close>

primrec first_bit_loop :: "u64 \<Rightarrow> u32 \<Rightarrow> extent_state list \<Rightarrow> (u64 \<times> u64) option" where
  "first_bit_loop pos bits [] = None"
| "first_bit_loop pos bits (s # rest) =
     (if pos \<le> es_end s \<and> es_state s AND scast bits \<noteq> 0 then Some (es_start s, es_end s)
      else first_bit_loop pos bits rest)"

definition find_first_extent_bit :: "extent_state list \<Rightarrow> u64 \<Rightarrow> u32 \<Rightarrow> (u64 \<times> u64) option" where
  "find_first_extent_bit tree pos bits = first_bit_loop pos bits (states_from pos tree)"

primrec range_bit_loop :: "extent_state list \<Rightarrow> u64 \<Rightarrow> u64 \<Rightarrow> u32 \<Rightarrow> bool \<Rightarrow> bool \<Rightarrow> bool" where
  "range_bit_loop [] pos lst bits filled bitset = bitset"
| "range_bit_loop (s # rest) pos lst bits filled bitset =
     (if lst < pos then bitset
      else if filled \<and> pos < es_start s then False
      else if lst < es_start s then bitset
      else if es_state s AND scast bits \<noteq> 0 \<and> \<not> filled then True
      else if \<not> es_state s AND scast bits \<noteq> 0 \<and> filled then False
      else (let bitset = (if es_state s AND scast bits \<noteq> 0 then True else bitset); pos = es_end s + 1
            in if lst < pos then bitset
               else if rest = [] then (if filled then False else bitset)
               else range_bit_loop rest pos lst bits filled bitset))"

definition test_range_bit :: "extent_state list \<Rightarrow> u64 \<Rightarrow> u64 \<Rightarrow> u32 \<Rightarrow> bool \<Rightarrow> bool" where
  "test_range_bit tree pos lst bits filled =
     range_bit_loop (states_from pos tree) pos lst bits filled False"

definition set_state_private :: "extent_state list \<Rightarrow> u64 \<Rightarrow> u64 \<Rightarrow> int \<times> extent_state list" where
  "set_state_private tree pos private =
     (case states_from pos tree of
        [] \<Rightarrow> (- ENOENT, tree)
      | s # _ \<Rightarrow> if es_start s \<noteq> pos then (- ENOENT, tree)
                else (0, change_state s (s\<lparr>es_private := private\<rparr>) tree))"

definition get_state_private :: "extent_state list \<Rightarrow> u64 \<Rightarrow> int + u64" where
  "get_state_private tree pos =
     (case states_from pos tree of
        [] \<Rightarrow> Inl (- ENOENT)
      | s # _ \<Rightarrow> if es_start s \<noteq> pos then Inl (- ENOENT) else Inr (es_private s))"

section \<open>Ordered states\<close>

definition covers :: "extent_state \<Rightarrow> u64 \<Rightarrow> bool" where
  "covers s a \<longleftrightarrow> es_start s \<le> a \<and> a \<le> es_end s"

primrec bits_at :: "extent_state list \<Rightarrow> u64 \<Rightarrow> u64" where
  "bits_at [] a = 0"
| "bits_at (s # tree) a = (if covers s a then es_state s else bits_at tree a)"

primrec end_at :: "extent_state list \<Rightarrow> u64 \<Rightarrow> u64 option" where
  "end_at [] a = None"
| "end_at (s # tree) a = (if covers s a then Some (es_end s) else end_at tree a)"

definition covered :: "extent_state list \<Rightarrow> u64 \<Rightarrow> bool" where
  "covered tree a \<longleftrightarrow> (\<exists>s \<in> set tree. covers s a)"

text \<open>States are in order and do not overlap, and none ends at the last address, which no device has.\<close>

definition es_wf :: "extent_state \<Rightarrow> bool" where
  "es_wf s \<longleftrightarrow> es_start s \<le> es_end s \<and> es_end s < - 1"

primrec states_wf :: "extent_state list \<Rightarrow> bool" where
  "states_wf [] = True"
| "states_wf (s # tree) \<longleftrightarrow> es_wf s \<and> (\<forall>t \<in> set tree. es_end s < es_start t) \<and> states_wf tree"

lemma covered_simps [simp]:
  "covered [] a = False" "covered (s # tree) a \<longleftrightarrow> covers s a \<or> covered tree a"
  "covered (xs @ ys) a \<longleftrightarrow> covered xs a \<or> covered ys a"
  by (auto simp: covered_def)

lemma at_append [simp]:
  "bits_at (xs @ ys) a = (if covered xs a then bits_at xs a else bits_at ys a)"
  "end_at (xs @ ys) a = (if covered xs a then end_at xs a else end_at ys a)"
  by (induction xs) auto

lemma not_covered [simp]: "\<not> covered xs a \<Longrightarrow> bits_at xs a = 0" "\<not> covered xs a \<Longrightarrow> end_at xs a = None"
  by (induction xs) auto

lemma end_at_covered: "end_at xs a = None \<longleftrightarrow> \<not> covered xs a"
  by (induction xs) auto

lemma states_wf_append:
  "states_wf (xs @ ys) \<longleftrightarrow> states_wf xs \<and> states_wf ys \<and> (\<forall>x \<in> set xs. \<forall>y \<in> set ys. es_end x < es_start y)"
  by (induction xs) auto

lemma states_wf_es_wf: "states_wf xs \<Longrightarrow> x \<in> set xs \<Longrightarrow> es_wf x"
  by (induction xs) auto

lemma states_wf_notin: "states_wf (xs @ s # ys) \<Longrightarrow> s \<notin> set xs"
  by (auto simp: states_wf_append es_wf_def)

lemma focus [simp]:
  assumes "s \<notin> set xs"
  shows "before_state s (xs @ s # ys) = xs" "after_state s (xs @ s # ys) = ys"
    "change_state s s' (xs @ s # ys) = xs @ s' # ys"
proof -
  have "takeWhile (\<lambda>x. x \<noteq> s) (xs @ s # ys) = xs" "dropWhile (\<lambda>x. x \<noteq> s) (xs @ s # ys) = s # ys"
    using assms by (induction xs) auto
  then show "before_state s (xs @ s # ys) = xs" "after_state s (xs @ s # ys) = ys"
    "change_state s s' (xs @ s # ys) = xs @ s' # ys"
    by (simp_all add: before_state_def after_state_def change_state_def)
qed

text \<open>What lies beyond an address: the number of states that reach it.\<close>

definition reaching :: "u64 \<Rightarrow> extent_state list \<Rightarrow> nat" where
  "reaching a tree = length (filter (\<lambda>s. a \<le> es_end s) tree)"

lemma reaching_simps [simp]:
  "reaching a [] = 0" "reaching a (s # tree) = (if a \<le> es_end s then 1 else 0) + reaching a tree"
  "reaching a (xs @ ys) = reaching a xs + reaching a ys"
  by (auto simp: reaching_def)

text \<open>Two trees that agree on the bits of every address, and on everything beyond \<open>m\<close>.\<close>

definition same_view :: "u64 \<Rightarrow> extent_state list \<Rightarrow> extent_state list \<Rightarrow> bool" where
  "same_view m t u \<longleftrightarrow>
     (\<forall>a. bits_at t a = bits_at u a) \<and> (\<forall>a > m. end_at t a = end_at u a \<and> reaching a t = reaching a u)"

lemma same_view_refl [simp]: "same_view m t t"
  by (simp add: same_view_def)

lemma same_view_trans: "same_view m t u \<Longrightarrow> same_view m u v \<Longrightarrow> same_view m t v"
  by (simp add: same_view_def)

lemma adjacent:
  fixes a :: u64 and b :: u64
  shows "a < b \<Longrightarrow> a = b - 1 \<Longrightarrow> x \<le> a \<longleftrightarrow> x < b"
  by unat_arith

lemma merge_prev:
  assumes wf: "states_wf (xs @ p # s # ys)" and adj: "es_end p = es_start s - 1" and eq: "es_state p = es_state s"
  shows "states_wf (xs @ s\<lparr>es_start := es_start p\<rparr> # ys)"
    and "same_view (es_end s) (xs @ s\<lparr>es_start := es_start p\<rparr> # ys) (xs @ p # s # ys)"
proof -
  have ps: "es_start p \<le> es_end p" "es_end p < es_start s" "es_start s \<le> es_end s" "es_end s < - 1"
    using wf by (simp_all add: states_wf_append es_wf_def)
  then show "states_wf (xs @ s\<lparr>es_start := es_start p\<rparr> # ys)"
    using wf by (auto simp: states_wf_append es_wf_def)
  have cov: "covers (s\<lparr>es_start := es_start p\<rparr>) a \<longleftrightarrow> covers p a \<or> covers s a" for a
    using ps adjacent [OF ps(2) adj, of a] by (auto simp: covers_def)
  have "es_end p < es_end s" using ps by simp
  then show "same_view (es_end s) (xs @ s\<lparr>es_start := es_start p\<rparr> # ys) (xs @ p # s # ys)"
    using eq by (auto simp: same_view_def cov) (auto simp: covers_def)
qed

lemma merge_next:
  assumes wf: "states_wf (xs @ s # t # ys)" and adj: "es_start t = es_end s + 1" and eq: "es_state t = es_state s"
  shows "states_wf (xs @ t\<lparr>es_start := es_start s\<rparr> # ys)"
    and "same_view (es_end s) (xs @ t\<lparr>es_start := es_start s\<rparr> # ys) (xs @ s # t # ys)"
proof -
  have st: "es_start s \<le> es_end s" "es_end s < es_start t" "es_start t \<le> es_end t" "es_end t < - 1"
    using wf by (simp_all add: states_wf_append es_wf_def)
  then show "states_wf (xs @ t\<lparr>es_start := es_start s\<rparr> # ys)"
    using wf by (auto simp: states_wf_append es_wf_def)
  have "es_end s = es_start t - 1" using adj by simp
  then have cov: "covers (t\<lparr>es_start := es_start s\<rparr>) a \<longleftrightarrow> covers s a \<or> covers t a" for a
    using st adjacent [OF st(2), of a] by (auto simp: covers_def)
  show "same_view (es_end s) (xs @ t\<lparr>es_start := es_start s\<rparr> # ys) (xs @ s # t # ys)"
    using eq by (auto simp: same_view_def cov) (auto simp: covers_def)
qed

lemma merge_with_prev_view:
  assumes "states_wf (xs @ s # ys)" and "merge_with_prev xs s = (xs', s')"
  shows "states_wf (xs' @ s' # ys) \<and> same_view (es_end s) (xs' @ s' # ys) (xs @ s # ys)
    \<and> es_end s' = es_end s \<and> es_state s' = es_state s"
  using assms merge_prev [of "butlast xs" "last xs" s ys]
  by (cases xs rule: rev_cases) (auto simp: merge_with_prev_def split: if_splits)

lemma merge_with_next_view:
  assumes "states_wf (xs @ s # ys)"
  shows "states_wf (merge_with_next xs s ys) \<and> same_view (es_end s) (merge_with_next xs s ys) (xs @ s # ys)"
  using assms merge_next by (auto simp: merge_with_next_def split: list.split)

lemma merge_state_view:
  assumes wf: "states_wf (xs @ s # ys)"
  shows "states_wf (merge_state (xs @ s # ys) s) \<and> same_view (es_end s) (merge_state (xs @ s # ys) s) (xs @ s # ys)"
proof (cases "es_state s AND EXTENT_IOBITS \<noteq> 0")
  case False
  obtain xs' s' where m: "merge_with_prev xs s = (xs', s')" by fastforce
  with merge_with_prev_view [OF wf m] merge_with_next_view [of xs' s' ys] False states_wf_notin [OF wf]
  show ?thesis by (auto simp: merge_state_def intro: same_view_trans)
qed (use wf in \<open>simp add: merge_state_def\<close>)

text \<open>Looking for the place of an address.\<close>

lemma reaches:
  assumes "es_wf s"
  shows "es_end s + 1 \<le> pos \<longleftrightarrow> es_end s < pos"
  using assms unfolding es_wf_def by unat_arith

lemma states_from_split:
  assumes "states_wf tree"
  shows "\<exists>before. tree = before @ states_from pos tree \<and> (\<forall>x \<in> set before. es_end x < pos)
    \<and> (\<forall>x \<in> set (states_from pos tree). pos \<le> es_end x)"
  using assms
proof (induction tree)
  case (Cons s tree)
  then obtain before where IH: "tree = before @ states_from pos tree" "\<forall>x \<in> set before. es_end x < pos"
    "\<forall>x \<in> set (states_from pos tree). pos \<le> es_end x" by auto
  have r: "es_end s + 1 \<le> pos \<longleftrightarrow> es_end s < pos" using Cons.prems by (simp add: reaches)
  show ?case
  proof (cases "es_end s < pos")
    case True
    with IH r show ?thesis by (intro exI [of _ "s # before"]) (simp add: states_from_def)
  next
    case False
    have "\<forall>t \<in> set tree. pos \<le> es_end t"
      using Cons.prems False states_wf_es_wf [of tree] by (fastforce simp: es_wf_def)
    with False r show ?thesis by (intro exI [of _ "[]"]) (simp add: states_from_def)
  qed
qed (simp add: states_from_def)

lemma states_from_cases:
  assumes "states_wf tree"
  obtains (none) "states_from pos tree = []" "\<forall>x \<in> set tree. es_end x < pos"
    | (some) xs s ys where "tree = xs @ s # ys" "states_from pos tree = s # ys"
        "\<forall>x \<in> set xs. es_end x < pos" "pos \<le> es_end s"
  using states_from_split [OF assms, of pos]
  by (cases "states_from pos tree") (auto dest!: spec)

lemma insert_node_between:
  assumes "\<forall>x \<in> set xs. es_wf x \<and> es_end x < es_start s" and "es_wf s"
    and "case ys of [] \<Rightarrow> True | y # _ \<Rightarrow> es_wf y \<and> es_end s < es_start y"
  shows "insert_node s (xs @ ys) = Some (xs, ys)"
  using assms(1)
proof (induction xs)
  case Nil
  have "\<not> es_end y + 1 \<le> es_start s \<and> es_end s + 1 \<le> es_start y" if "es_wf y" "es_end s < es_start y" for y
    using that assms(2) reaches [of y] reaches [of s] by (auto simp: es_wf_def)
  with assms(3) show ?case by (auto split: list.splits)
qed (simp add: reaches)

text \<open>The tie to the trees: \<open>insert_node\<close> is insertion among the ordered nodes.\<close>

lemma insert_node_ordered:
  "insert_ordered (update_extent_state s) (map update_extent_state tree) =
     map_option (\<lambda>(before, after). map update_extent_state (before @ s # after)) (insert_node s tree)"
  by (induction tree) (auto simp: update_extent_state_def option.map_comp o_def split_def intro!: option.map_cong)

lemma states_from_search:
  "find (\<lambda>e. pos < xe_start e + xe_size e) (map update_extent_state tree) =
     (case states_from pos tree of [] \<Rightarrow> None | s # _ \<Rightarrow> Some (update_extent_state s))"
  by (induction tree) (auto simp: states_from_def update_extent_state_def)

section \<open>One turn of the loops\<close>

lemma at_focus:
  assumes "states_wf (xs @ s # ys)" and "covers s a"
  shows "bits_at (xs @ s # ys) a = es_state s" "end_at (xs @ s # ys) a = Some (es_end s)" "\<not> covered xs a"
proof -
  show "\<not> covered xs a"
    using assms by (fastforce simp: states_wf_append covers_def covered_def)
  with assms(2) show "bits_at (xs @ s # ys) a = es_state s" "end_at (xs @ s # ys) a = Some (es_end s)"
    by simp_all
qed

lemma state_update_wf:
  "states_wf (xs @ s\<lparr>es_state := v\<rparr> # ys) \<longleftrightarrow> states_wf (xs @ s # ys)"
  by (simp add: states_wf_append es_wf_def)

lemma state_update_view:
  "covers (s\<lparr>es_state := v\<rparr>) a = covers s a" "end_at (xs @ s\<lparr>es_state := v\<rparr> # ys) a = end_at (xs @ s # ys) a"
  "reaching a (xs @ s\<lparr>es_state := v\<rparr> # ys) = reaching a (xs @ s # ys)"
  by (simp_all add: covers_def)

lemma merge_updated:
  assumes wf: "states_wf (xs @ s # ys)"
    and t: "t = merge_state (change_state s (s\<lparr>es_state := v\<rparr>) (xs @ s # ys)) (s\<lparr>es_state := v\<rparr>)"
  shows "states_wf t" "bits_at t a = (if covers s a then v else bits_at (xs @ s # ys) a)"
    "es_end s < a \<Longrightarrow> end_at t a = end_at (xs @ s # ys) a \<and> reaching a t = reaching a (xs @ s # ys)"
proof -
  have wf': "states_wf (xs @ s\<lparr>es_state := v\<rparr> # ys)" using wf by (simp add: state_update_wf)
  have t': "t = merge_state (xs @ s\<lparr>es_state := v\<rparr> # ys) (s\<lparr>es_state := v\<rparr>)"
    using t states_wf_notin [OF wf] by simp
  note view = merge_state_view [OF wf', folded t']
  then show "states_wf t" by simp
  show "bits_at t a = (if covers s a then v else bits_at (xs @ s # ys) a)"
    using view at_focus [OF wf', of a]
    by (auto simp: same_view_def state_update_view simp del: at_append) (simp_all add: state_update_view)
  show "end_at t a = end_at (xs @ s # ys) a \<and> reaching a t = reaching a (xs @ s # ys)" if "es_end s < a"
    using view that by (simp only: same_view_def state_update_view) (simp add: state_update_view)
qed

lemma split_state_wf:
  assumes wf: "states_wf (xs @ s # ys)" and sp: "es_start s < sp" "sp \<le> es_end s"
  shows "\<exists>p o'. split_state (xs @ s # ys) s new_state sp = (0, p, o', xs @ p # o' # ys) \<and>
    states_wf (xs @ p # o' # ys) \<and> o' = s\<lparr>es_start := sp\<rparr> \<and> es_end p = sp - 1 \<and> es_start p = es_start s
    \<and> es_state p = es_state s"
proof -
  let ?p = "new_state\<lparr>es_start := es_start s, es_end := sp - 1, es_state := es_state s\<rparr>" and ?o = "s\<lparr>es_start := sp\<rparr>"
  have "sp - 1 < sp" using sp(1) by unat_arith
  then have lt: "sp - 1 < sp" "es_start s \<le> sp - 1" "sp - 1 < - 1"
    using sp adjacent [of "sp - 1" sp "es_start s"] wf by (auto simp: states_wf_append es_wf_def)
  have wf': "states_wf (xs @ ?p # ?o # ys)"
    unfolding states_wf_append states_wf.simps
  proof (intro conjI ballI)
    have s: "es_wf s" "\<forall>t \<in> set ys. es_end s < es_start t" "\<forall>x \<in> set xs. es_end x < es_start s"
      "states_wf xs" "states_wf ys" "\<forall>x \<in> set xs. \<forall>y \<in> set ys. es_end x < es_start y"
      using wf by (simp_all add: states_wf_append)
    then show "states_wf xs" "states_wf ys" "es_wf ?p" "es_wf ?o"
      using sp lt by (simp_all add: es_wf_def)
    show "es_end ?p < es_start t" if "t \<in> set (?o # ys)" for t
      using that s(1,2) sp lt(1) by (auto simp: es_wf_def)
    show "es_end ?o < es_start t" if "t \<in> set ys" for t using that s by simp
    show "es_end x < es_start y" if "x \<in> set xs" "y \<in> set (?p # ?o # ys)" for x y
      using that s sp by auto
  qed
  have "insert_node ?p (xs @ ?o # ys) = Some (xs, ?o # ys)"
    using wf' by (intro insert_node_between) (auto simp: states_wf_append dest: states_wf_es_wf)
  then show ?thesis
    using wf' states_wf_notin [OF wf] by (simp add: split_state_def Let_def)
qed

lemma split_view:
  assumes "states_wf (xs @ s # ys)" and "es_start s < sp" "sp \<le> es_end s"
    and "es_end p = sp - 1" "es_start p = es_start s" "es_state p = es_state s"
  shows "bits_at (xs @ p # s\<lparr>es_start := sp\<rparr> # ys) a = bits_at (xs @ s # ys) a"
    "sp \<le> a \<Longrightarrow> end_at (xs @ p # s\<lparr>es_start := sp\<rparr> # ys) a = end_at (xs @ s # ys) a"
    "sp \<le> a \<Longrightarrow> reaching a (xs @ p # s\<lparr>es_start := sp\<rparr> # ys) = reaching a (xs @ s # ys)"
proof -
  have lt: "sp - 1 < sp" using assms(2) by unat_arith
  have cov: "covers s x \<longleftrightarrow> covers p x \<or> covers (s\<lparr>es_start := sp\<rparr>) x" for x
    using adjacent [OF lt refl, of x] assms lt by (auto simp: covers_def)
  show "bits_at (xs @ p # s\<lparr>es_start := sp\<rparr> # ys) a = bits_at (xs @ s # ys) a"
    using assms(6) by (auto simp: cov)
  have out: "\<not> covers p a \<and> \<not> a \<le> es_end p" if "sp \<le> a"
    using that assms(4) lt by (auto simp: covers_def)
  show "sp \<le> a \<Longrightarrow> end_at (xs @ p # s\<lparr>es_start := sp\<rparr> # ys) a = end_at (xs @ s # ys) a"
    using out by (auto simp: cov)
  show "sp \<le> a \<Longrightarrow> reaching a (xs @ p # s\<lparr>es_start := sp\<rparr> # ys) = reaching a (xs @ s # ys)"
    using out by auto
qed

lemma insert_state_view:
  assumes wf: "states_wf (xs @ ys)" and xs: "\<forall>x \<in> set xs. es_end x < pos"
    and ys: "\<forall>y \<in> set ys. e < es_start y" and pe: "pos \<le> e" "e < - 1"
  shows "\<exists>t. insert_state (xs @ ys) new_state pos e bits = (0, t) \<and> states_wf t \<and>
    (\<forall>a. bits_at t a = (if pos \<le> a \<and> a \<le> e then scast bits else bits_at (xs @ ys) a)) \<and>
    (\<forall>a > e. end_at t a = end_at (xs @ ys) a \<and> reaching a t = reaching a (xs @ ys))"
proof -
  define n where "n = new_state\<lparr>es_state := scast bits, es_start := pos, es_end := e\<rparr>"
  have n: "es_start n = pos" "es_end n = e" "es_state n = scast bits" "es_wf n"
    using pe by (simp_all add: n_def es_wf_def)
  have wf': "states_wf (xs @ n # ys)"
    using wf xs ys n by (auto simp: states_wf_append)
  have "insert_node n (xs @ ys) = Some (xs, ys)"
    using wf xs ys n
    by (intro insert_node_between) (auto simp: states_wf_append dest: states_wf_es_wf split: list.split)
  then have i: "insert_state (xs @ ys) new_state pos e bits = (0, merge_state (xs @ n # ys) n)"
    using pe by (simp add: insert_state_def new_state_def n_def Let_def not_less)
  have cov: "covers n a \<longleftrightarrow> pos \<le> a \<and> a \<le> e" for a using n by (simp add: covers_def)
  have "bits_at (xs @ n # ys) a = (if pos \<le> a \<and> a \<le> e then scast bits else bits_at (xs @ ys) a)" for a
    using at_focus [OF wf', of a] n by (auto simp: cov)
  moreover have "end_at (xs @ n # ys) a = end_at (xs @ ys) a" "reaching a (xs @ n # ys) = reaching a (xs @ ys)"
    if "e < a" for a using that n(2) cov [of a] by auto
  ultimately show ?thesis
    unfolding i using merge_state_view [OF wf'] n(2) by (auto simp: same_view_def simp del: at_append reaching_simps)
qed

section \<open>Setting bits\<close>

text \<open>
  The addresses up to \<open>lst\<close> that lie in a state which goes on after \<open>lst\<close>, and what \<^verbatim>\<open>set_extent_bits\<close> makes
  of an address: in such a state it sets the bits on the part after \<open>lst\<close>, not on the part up to it.
\<close>

definition straddles :: "extent_state list \<Rightarrow> u64 \<Rightarrow> u64 \<Rightarrow> bool" where
  "straddles tree lst a = (case end_at tree a of None \<Rightarrow> False | Some e \<Rightarrow> lst < e)"

definition bits_after_set :: "extent_state list \<Rightarrow> u64 \<Rightarrow> u64 \<Rightarrow> u64 \<Rightarrow> u64 \<Rightarrow> u64" where
  "bits_after_set tree pos lst b a =
     (if a < pos then bits_at tree a
      else if a \<le> lst then if straddles tree lst a then bits_at tree a else bits_at tree a OR b
      else (case end_at tree lst of
              None \<Rightarrow> bits_at tree a
            | Some e \<Rightarrow> if a \<le> e then bits_at tree a OR b else bits_at tree a))"

definition delay :: "u64 \<Rightarrow> extent_state list \<Rightarrow> nat" where
  "delay pos tree = (if \<exists>s \<in> set tree. es_start s = pos then 0 else if covered tree pos then 1 else 2)"

lemma bits_after_set_step:
  assumes "\<And>a. a < nxt \<Longrightarrow> bits_at t a = bits_after_set tree pos lst b a"
    and "\<And>a. nxt \<le> a \<Longrightarrow> bits_at t a = bits_at tree a \<and> end_at t a = end_at tree a"
    and "pos \<le> nxt" "nxt \<le> lst"
  shows "bits_after_set t nxt lst b a = bits_after_set tree pos lst b a"
  using assms(1) [of a] assms(2) [of a] assms(2) [of lst] assms(3,4)
  by (simp add: bits_after_set_def [of t] straddles_def not_less [symmetric])
    (auto simp: bits_after_set_def straddles_def split: option.split)

lemma delay_le: "delay pos tree \<le> 2"
  by (simp add: delay_def)

lemma next_address:
  fixes e :: u64
  assumes "e < - 1"
  shows "e < e + 1" "e < a \<longleftrightarrow> e + 1 \<le> a" "a < e + 1 \<longleftrightarrow> a \<le> e"
proof -
  show "e < e + 1" using assms by unat_arith
  show "e < a \<longleftrightarrow> e + 1 \<le> a" using assms by unat_arith
  then show "a < e + 1 \<longleftrightarrow> a \<le> e" by (metis not_less)
qed

lemma reaching_split:
  assumes "states_wf (xs @ s # ys)" and "\<forall>x \<in> set xs. es_end x < pos" and "pos \<le> es_end s"
  shows "reaching pos (xs @ s # ys) = Suc (length ys)" "reaching (es_end s + 1) (xs @ s # ys) = length ys"
proof -
  have wf: "es_wf s" "\<forall>y \<in> set ys. es_wf y \<and> es_end s < es_start y" "\<forall>x \<in> set xs. es_end x < es_start s"
    using assms(1) by (auto simp: states_wf_append dest: states_wf_es_wf)
  have e: "es_end s < - 1" using wf(1) by (simp add: es_wf_def)
  have late: "\<forall>y \<in> set ys. es_end s < es_end y" using wf by (auto simp: es_wf_def intro: less_le_trans)
  have 1: "reaching c zs = length zs" if "\<forall>z \<in> set zs. c \<le> es_end z" for c zs
    using that by (simp add: reaching_def)
  have 0: "reaching c zs = 0" if "\<forall>z \<in> set zs. es_end z < c" for c zs
    using that by (auto simp: reaching_def filter_empty_conv)
  have "\<forall>y \<in> set ys. pos \<le> es_end y" using assms(3) late by fastforce
  then show "reaching pos (xs @ s # ys) = Suc (length ys)"
    using assms(2,3) 0 [of xs pos] 1 [of ys pos] by simp
  have "\<forall>x \<in> set xs. es_end x < es_end s + 1"
    using wf(1,3) next_address(3) [OF e] by (auto simp: es_wf_def intro: order_trans order.strict_implies_order)
  moreover have "\<forall>y \<in> set ys. es_end s + 1 \<le> es_end y" using late next_address(2) [OF e] by simp
  ultimately show "reaching (es_end s + 1) (xs @ s # ys) = length ys"
    using 0 [of xs "es_end s + 1"] 1 [of ys "es_end s + 1"] next_address(1) [OF e] by (simp add: not_le)
qed

text \<open>What a turn that finishes with a state has done.\<close>

lemma finished_state:
  assumes wf: "states_wf (xs @ s # ys)" and pos: "\<forall>x \<in> set xs. es_end x < pos" "es_start s \<le> pos" "pos \<le> es_end s"
    and lst: "es_end s \<le> lst"
    and t: "\<And>a. bits_at t a = (if pos \<le> a \<and> covers s a then bits_at (xs @ s # ys) a OR b else bits_at (xs @ s # ys) a)"
  shows "a < es_end s + 1 \<Longrightarrow> bits_at t a = bits_after_set (xs @ s # ys) pos lst b a"
    "lst < es_end s + 1 \<Longrightarrow> bits_at t a = bits_after_set (xs @ s # ys) pos lst b a"
proof -
  have e: "es_end s < - 1" using wf by (simp add: states_wf_append es_wf_def)
  note na = next_address [OF e]
  have c: "covers s x" if "pos \<le> x" "x \<le> es_end s" for x using that pos(2) by (simp add: covers_def)
  show *: "bits_at t a = bits_after_set (xs @ s # ys) pos lst b a" if "a < es_end s + 1" for a
    using that lst t [of a] c [of a] at_focus [OF wf, of a]
    by (auto simp: bits_after_set_def na straddles_def not_less simp del: at_append)
  show "bits_at t a = bits_after_set (xs @ s # ys) pos lst b a" if "lst < es_end s + 1"
  proof (cases "a < es_end s + 1")
    case False
    with that na(3) [of lst] na(3) [of a] lst have "lst = es_end s" "es_end s < a" by simp_all
    with t [of a] at_focus [OF wf c, of lst] pos show ?thesis
      by (auto simp: bits_after_set_def covers_def simp del: at_append)
  qed (rule *)
qed

lemma set_bits_loop_spec:
  assumes "states_wf tree" and "pos \<le> lst" and "lst < - 1" and "3 * reaching pos tree + delay pos tree < fuel"
  shows "\<exists>ret t w'. set_bits_loop fuel lst bits pos tree prealloc w = Some ((ret, t), w') \<and> states_wf t \<and>
    (ret = - ENOMEM \<or> ret = 0 \<and> (\<forall>a. bits_at t a = bits_after_set tree pos lst (scast bits) a))"
  using assms
proof (induction fuel arbitrary: tree pos prealloc w)
  case (Suc fuel)
  note wf = Suc.prems(1) and le = Suc.prems(2) and lst = Suc.prems(3) and fuel = Suc.prems(4)
  obtain ok w1 where al: "alloc_extent_state prealloc w = (ok, w1)" by fastforce
  show ?case
  proof (cases ok)
    case False
    with al wf show ?thesis by simp
  next
    case True
    with al have al: "alloc_extent_state prealloc w = (True, w1)" by simp
    from wf show ?thesis
    proof (cases rule: states_from_cases [of tree pos])
      case none
      have xs: "\<forall>x \<in> set tree. es_end x < pos" by (rule none)
      from insert_state_view [of tree "[]" pos lst bits] wf xs le lst obtain t where
        t: "insert_state tree new_state pos lst bits = (0, t)" "states_wf t"
        "\<forall>a. bits_at t a = (if pos \<le> a \<and> a \<le> lst then scast bits else bits_at tree a)" by auto
      have nc: "\<not> covered tree a" if "pos \<le> a" for a
        using xs that by (auto simp: covered_def covers_def)
      have "bits_at t a = bits_after_set tree pos lst (scast bits) a" for a
        using t(3) nc [of a] nc [of lst] le by (auto simp: bits_after_set_def straddles_def not_less)
      moreover have "set_bits_loop (Suc fuel) lst bits pos tree prealloc w = Some ((0, t), w1)"
        using al none(1) t(1) by simp
      ultimately show ?thesis using t(2) by blast
    next
      case (some xs s ys)
      note tree = some(1) and sf = some(2) and xs = some(3) and es = some(4)
      note wf = wf [unfolded tree] and fuel = fuel [unfolded tree]
      have s: "es_start s \<le> es_end s" "es_end s < - 1" using wf by (simp_all add: states_wf_append es_wf_def)
      note na = next_address [OF s(2)]
      note k = reaching_split [OF wf xs es]
      have loop: "set_bits_loop (Suc fuel) lst bits pos tree prealloc w =
          (if es_start s = pos \<and> es_end s \<le> lst then
                 (let s' = s\<lparr>es_state := es_state s OR scast bits\<rparr>;
                      tree = merge_state (change_state s s' tree) s'
                  in if es_end s = -1 \<or> lst < es_end s + 1 then Some ((0, tree), w1)
                     else set_bits_loop fuel lst bits (es_end s + 1) tree True w1)
               else if es_start s < pos then
                 (case split_state tree s new_state pos of
                    (err, _, s', tree) \<Rightarrow>
                      if err \<noteq> 0 then Some ((err, tree), w1)
                      else if es_end s' \<le> lst then
                        (let s'' = s'\<lparr>es_state := es_state s' OR scast bits\<rparr>;
                             tree = merge_state (change_state s' s'' tree) s''
                         in if es_end s = -1 \<or> lst < es_end s + 1 then Some ((0, tree), w1)
                            else set_bits_loop fuel lst bits (es_end s + 1) tree False w1)
                      else if lst < es_start s' then Some ((0, tree), w1)
                      else set_bits_loop fuel lst bits (es_start s') tree False w1)
               else if pos < es_start s then
                 (let this_end = (if lst < es_start s then lst else es_start s - 1)
                  in case insert_state tree new_state pos this_end bits of
                       (err, tree) \<Rightarrow>
                         if err \<noteq> 0 then Some ((err, tree), w1)
                         else if lst < this_end + 1 then Some ((0, tree), w1)
                         else set_bits_loop fuel lst bits (this_end + 1) tree False w1)
               else
                 (case split_state tree s new_state (lst + 1) of
                    (err, prealloc, s', tree) \<Rightarrow>
                      if err \<noteq> 0 then None
                      else Some ((0, merge_state
                             (change_state s' (s'\<lparr>es_state := es_state s' OR scast bits\<rparr>) tree) prealloc), w1)))"
        using al sf by simp
      have finish: ?thesis
        if t: "states_wf t" "es_start s \<le> pos" "es_end s \<le> lst"
          "\<And>a. bits_at t a = (if pos \<le> a \<and> covers s a then bits_at (xs @ s # ys) a OR scast bits else bits_at (xs @ s # ys) a)"
          "\<And>a. es_end s < a \<Longrightarrow> end_at t a = end_at (xs @ s # ys) a \<and> reaching a t = reaching a (xs @ s # ys)"
          and r: "set_bits_loop (Suc fuel) lst bits pos tree prealloc w =
            (if es_end s = -1 \<or> lst < es_end s + 1 then Some ((0, t), w1)
             else set_bits_loop fuel lst bits (es_end s + 1) t p w1)" for t p
      proof (cases "lst < es_end s + 1")
        case True
        with t(1) r finished_state(2) [OF wf xs t(2) es t(3,4) True] tree show ?thesis by auto
      next
        case False
        then have nl: "es_end s + 1 \<le> lst" by simp
        have "reaching (es_end s + 1) t = length ys" using t(5) [OF na(1)] k(2) by simp
        with fuel k(1) delay_le [of "es_end s + 1" t]
        have "3 * reaching (es_end s + 1) t + delay (es_end s + 1) t < fuel" by simp
        from Suc.IH [OF t(1) nl lst this, of p w1] obtain ret u w' where u:
          "set_bits_loop fuel lst bits (es_end s + 1) t p w1 = Some ((ret, u), w')" "states_wf u"
          "ret = - ENOMEM \<or> ret = 0 \<and> (\<forall>a. bits_at u a = bits_after_set t (es_end s + 1) lst (scast bits) a)"
          by blast
        have "bits_after_set t (es_end s + 1) lst (scast bits) a = bits_after_set tree pos lst (scast bits) a" for a
          unfolding tree
        proof (rule bits_after_set_step)
          show "bits_at t a = bits_after_set (xs @ s # ys) pos lst (scast bits) a" if "a < es_end s + 1" for a
            by (rule finished_state(1) [OF wf xs t(2) es t(3,4) that])
          show "bits_at t a = bits_at (xs @ s # ys) a \<and> end_at t a = end_at (xs @ s # ys) a" if "es_end s + 1 \<le> a" for a
            using t(4) [of a] t(5) [of a] that na(2) [of a] by (auto simp: covers_def simp del: at_append)
          show "pos \<le> es_end s + 1" using es na(1) by simp
        qed (rule nl)
        with u r s False show ?thesis by auto
      qed
      consider (whole) "es_start s = pos" "es_end s \<le> lst" | (before) "es_start s < pos"
        | (hole) "pos < es_start s" | (tail) "es_start s = pos" "lst < es_end s"
        by (metis linorder_less_linear not_le)
      then show ?thesis
      proof cases
        case whole
        define t where "t = merge_state (change_state s (s\<lparr>es_state := es_state s OR scast bits\<rparr>) tree)
          (s\<lparr>es_state := es_state s OR scast bits\<rparr>)"
        note m = merge_updated [OF wf t_def [unfolded tree]]
        have c: "covers s a \<Longrightarrow> pos \<le> a \<and> bits_at (xs @ s # ys) a = es_state s" for a
          using at_focus(1) [OF wf] whole(1) by (simp add: covers_def)
        show ?thesis
        proof (rule finish)
          show "states_wf t" by (rule m(1))
          show "bits_at t a = (if pos \<le> a \<and> covers s a then bits_at (xs @ s # ys) a OR scast bits
              else bits_at (xs @ s # ys) a)" for a using m(2) [of a] c [of a] by auto
          show "end_at t a = end_at (xs @ s # ys) a \<and> reaching a t = reaching a (xs @ s # ys)" if "es_end s < a" for a
            using m(3) that by blast
          show "set_bits_loop (Suc fuel) lst bits pos tree prealloc w =
              (if es_end s = -1 \<or> lst < es_end s + 1 then Some ((0, t), w1)
               else set_bits_loop fuel lst bits (es_end s + 1) t True w1)"
            using whole loop by (simp add: t_def Let_def del: set_bits_loop.simps)
        qed (use whole in auto)
      next
        case before
        then have ne: "es_start s \<noteq> pos" by simp
        obtain p o' where sp: "split_state (xs @ s # ys) s new_state pos = (0, p, o', xs @ p # o' # ys)"
          and wf1: "states_wf (xs @ p # o' # ys)" and o': "o' = s\<lparr>es_start := pos\<rparr>"
          and p: "es_end p = pos - 1" "es_start p = es_start s" "es_state p = es_state s"
          using split_state_wf [OF wf before es] by blast
        note v = split_view [OF wf before es p, folded o']
        show ?thesis
        proof (cases "es_end s \<le> lst")
          case True
          define t where "t = merge_state (change_state o' (o'\<lparr>es_state := es_state o' OR scast bits\<rparr>) (xs @ p # o' # ys))
            (o'\<lparr>es_state := es_state o' OR scast bits\<rparr>)"
          have wf2: "states_wf ((xs @ [p]) @ o' # ys)" using wf1 by simp
          have "t = merge_state (change_state o' (o'\<lparr>es_state := es_state o' OR scast bits\<rparr>) ((xs @ [p]) @ o' # ys))
            (o'\<lparr>es_state := es_state o' OR scast bits\<rparr>)" by (simp add: t_def)
          note m = merge_updated [OF wf2 this]
          have c: "covers o' a \<longleftrightarrow> pos \<le> a \<and> covers s a" for a
            using before by (auto simp: o' covers_def)
          have b: "covers s a \<Longrightarrow> bits_at (xs @ s # ys) a = es_state s" for a using at_focus(1) [OF wf] .
          show ?thesis
          proof (rule finish)
            show "states_wf t" by (rule m(1))
            show "bits_at t a = (if pos \<le> a \<and> covers s a then bits_at (xs @ s # ys) a OR scast bits
                else bits_at (xs @ s # ys) a)" for a
              using m(2) [of a] c [of a] b [of a] v(1) [of a] by (auto simp: o' simp del: at_append)
            show "end_at t a = end_at (xs @ s # ys) a \<and> reaching a t = reaching a (xs @ s # ys)" if "es_end s < a" for a
              using m(3) [of a] v(2,3) [of a] that es by (auto simp: o' simp del: at_append reaching_simps)
            show "set_bits_loop (Suc fuel) lst bits pos tree prealloc w =
                (if es_end s = -1 \<or> lst < es_end s + 1 then Some ((0, t), w1)
                 else set_bits_loop fuel lst bits (es_end s + 1) t False w1)"
              using before ne loop True sp tree by (simp add: t_def Let_def o' del: set_bits_loop.simps)
          qed (use before True in auto)
        next
          case False
          have "delay pos (xs @ p # o' # ys) = 0" by (simp add: delay_def o')
          moreover have "delay pos (xs @ s # ys) = 1"
          proof -
            have "es_start x \<noteq> pos" if "x \<in> set (xs @ s # ys)" for x
              using that wf xs before es by (fastforce simp: states_wf_append es_wf_def dest: states_wf_es_wf)
            moreover have "covered (xs @ s # ys) pos" using before es by (auto simp: covers_def)
            ultimately show ?thesis by (auto simp: delay_def)
          qed
          ultimately have "3 * reaching pos (xs @ p # o' # ys) + delay pos (xs @ p # o' # ys) < fuel"
            using fuel v(3) [of pos] by simp
          from Suc.IH [OF wf1 le lst this, of False w1] obtain ret u w' where u:
            "set_bits_loop fuel lst bits pos (xs @ p # o' # ys) False w1 = Some ((ret, u), w')" "states_wf u"
            "ret = - ENOMEM \<or> ret = 0 \<and> (\<forall>a. bits_at u a = bits_after_set (xs @ p # o' # ys) pos lst (scast bits) a)"
            by blast
          have "bits_after_set (xs @ p # o' # ys) pos lst (scast bits) a = bits_after_set tree pos lst (scast bits) a" for a
            unfolding tree
            by (rule bits_after_set_step) (use v le in \<open>auto simp: bits_after_set_def simp del: at_append\<close>)
          moreover have "set_bits_loop (Suc fuel) lst bits pos tree prealloc w =
              set_bits_loop fuel lst bits pos (xs @ p # o' # ys) False w1"
            using before ne loop False sp tree leD [OF le] by (simp add: o' del: set_bits_loop.simps)
          ultimately show ?thesis using u by auto
        qed
      next
        case hole
        then have ne: "es_start s \<noteq> pos" "\<not> es_start s < pos" by auto
        define te where "te = (if lst < es_start s then lst else es_start s - 1)"
        have "es_start s - 1 < es_start s" using hole by unat_arith
        note adj = adjacent [OF this refl]
        have te: "pos \<le> te" "te < es_start s" "te \<le> lst" "te < - 1"
          using hole le lst s adj [of pos] adj [of "es_start s - 1"] by (auto simp: te_def not_less)
        note nt = next_address [OF te(4)]
        have "\<forall>y \<in> set (s # ys). te < es_start y"
          using wf te(2) s by (auto simp: states_wf_append)
        from insert_state_view [OF wf xs this te(1,4), of bits] obtain t where
          t: "insert_state (xs @ s # ys) new_state pos te bits = (0, t)" "states_wf t"
          "\<And>a. bits_at t a = (if pos \<le> a \<and> a \<le> te then scast bits else bits_at (xs @ s # ys) a)"
          "\<And>a. te < a \<Longrightarrow> end_at t a = end_at (xs @ s # ys) a \<and> reaching a t = reaching a (xs @ s # ys)"
          by blast
        have free: "\<not> covered (xs @ s # ys) a" if "pos \<le> a" "a \<le> te" for a
          using that xs te(2) wf s by (fastforce simp: covered_def covers_def states_wf_append)
        have low: "bits_at t a = bits_after_set (xs @ s # ys) pos lst (scast bits) a" if "a \<le> te" for a
          using that t(3) [of a] free [of a] te
          by (auto simp: bits_after_set_def straddles_def simp del: at_append covered_simps)
        show ?thesis
        proof (cases "lst < te + 1")
          case True
          then have "lst = te" using te(3) nt(3) by fastforce
          then have "bits_at t a = bits_after_set (xs @ s # ys) pos lst (scast bits) a" for a
            using low [of a] t(3) [of a] free [of lst] te
            by (cases "a \<le> te") (auto simp: bits_after_set_def simp del: at_append covered_simps)
          moreover have "set_bits_loop (Suc fuel) lst bits pos tree prealloc w = Some ((0, t), w1)"
            using hole ne loop t(1) True tree by (simp add: te_def [symmetric] Let_def del: set_bits_loop.simps)
          ultimately show ?thesis using t(2) tree by auto
        next
          case False
          then have nl: "te + 1 \<le> lst" by simp
          then have "te = es_start s - 1" using nt by (auto simp: te_def split: if_splits)
          then have nx: "te + 1 = es_start s" by simp
          have "reaching (te + 1) t = reaching pos (xs @ s # ys)"
          proof -
            have "\<forall>x \<in> set xs. es_end x < te + 1" using xs te(1) nt(1) by fastforce
            moreover have "te + 1 \<le> es_end s" using nx s by simp
            ultimately show ?thesis
              using reaching_split(1) [OF wf, of "te + 1"] t(4) [OF nt(1)] k(1) by simp
          qed
          moreover have "delay pos (xs @ s # ys) = 2"
            using free [OF order_refl te(1)] wf states_wf_es_wf [OF wf]
            by (fastforce simp: delay_def covered_def covers_def es_wf_def simp del: covered_simps)
          moreover have "delay (te + 1) t \<le> 1"
          proof -
            have "end_at t (te + 1) = end_at (xs @ s # ys) (te + 1)" using t(4) [OF nt(1)] by blast
            then have "covered t (te + 1)"
              using end_at_covered [of t "te + 1"] end_at_covered [of "xs @ s # ys" "te + 1"] nx s(1)
              by (auto simp: covers_def)
            then show ?thesis by (simp add: delay_def)
          qed
          ultimately have "3 * reaching (te + 1) t + delay (te + 1) t < fuel" using fuel by simp
          from Suc.IH [OF t(2) nl lst this, of False w1] obtain ret u w' where u:
            "set_bits_loop fuel lst bits (te + 1) t False w1 = Some ((ret, u), w')" "states_wf u"
            "ret = - ENOMEM \<or> ret = 0 \<and> (\<forall>a. bits_at u a = bits_after_set t (te + 1) lst (scast bits) a)"
            by blast
          have "bits_after_set t (te + 1) lst (scast bits) a = bits_after_set tree pos lst (scast bits) a" for a
            unfolding tree
          proof (rule bits_after_set_step)
            show "bits_at t a = bits_after_set (xs @ s # ys) pos lst (scast bits) a" if "a < te + 1" for a
              using low that nt(3) by blast
            show "bits_at t a = bits_at (xs @ s # ys) a \<and> end_at t a = end_at (xs @ s # ys) a" if "te + 1 \<le> a" for a
              using t(3) [of a] t(4) [of a] that nt(2) [of a] by (auto simp: not_less simp del: at_append)
            show "pos \<le> te + 1" using te(1) nt(1) by simp
          qed (rule nl)
          moreover have "set_bits_loop (Suc fuel) lst bits pos tree prealloc w =
              set_bits_loop fuel lst bits (te + 1) t False w1"
            using hole ne loop t(1) False tree by (simp add: te_def [symmetric] Let_def del: set_bits_loop.simps)
          ultimately show ?thesis using u by auto
        qed
      next
        case tail
        note nl = next_address [OF lst]
        have sp1: "es_start s < lst + 1" "lst + 1 \<le> es_end s" using tail le nl by auto
        obtain p o' where sp: "split_state (xs @ s # ys) s new_state (lst + 1) = (0, p, o', xs @ p # o' # ys)"
          and wf1: "states_wf (xs @ p # o' # ys)" and o': "o' = s\<lparr>es_start := lst + 1\<rparr>"
          and p: "es_end p = lst + 1 - 1" "es_start p = es_start s" "es_state p = es_state s"
          using split_state_wf [OF wf sp1] by blast
        note v = split_view [OF wf sp1 p, folded o']
        let ?o = "o'\<lparr>es_state := es_state o' OR scast bits\<rparr>"
        have wf2: "states_wf ((xs @ [p]) @ o' # ys)" using wf1 by simp
        have "change_state o' ?o ((xs @ [p]) @ o' # ys) = (xs @ [p]) @ ?o # ys"
          by (rule focus(3) [OF states_wf_notin [OF wf2]])
        then have ch: "change_state o' ?o (xs @ p # o' # ys) = xs @ p # ?o # ys" by simp
        have wf3: "states_wf (xs @ p # ?o # ys)"
          using wf1 by (simp add: states_wf_append es_wf_def)
        define t where "t = merge_state (xs @ p # ?o # ys) p"
        note m = merge_state_view [OF wf3, folded t_def]
        have b: "bits_at t a = (if lst < a \<and> a \<le> es_end s then bits_at (xs @ s # ys) a OR scast bits
            else bits_at (xs @ s # ys) a)" for a
        proof -
          have "covers o' a \<longleftrightarrow> lst < a \<and> a \<le> es_end s" using nl by (auto simp: o' covers_def)
          moreover have "bits_at ((xs @ [p]) @ ?o # ys) a = (if covers o' a then es_state ?o else bits_at ((xs @ [p]) @ o' # ys) a)"
            using at_focus(3) [OF wf2, of a] by (auto simp: state_update_view)
          moreover have "covers o' a \<Longrightarrow> bits_at (xs @ s # ys) a = es_state o'"
            using at_focus(1) [OF wf, of a] sp1 by (auto simp: o' covers_def)
          ultimately show ?thesis
            using m v(1) [of a] by (simp add: same_view_def o' del: at_append)
        qed
        have "bits_at t a = bits_after_set (xs @ s # ys) pos lst (scast bits) a" for a
        proof -
          have c: "covers s x \<longleftrightarrow> pos \<le> x \<and> x \<le> es_end s" for x using tail by (simp add: covers_def)
          have "end_at (xs @ s # ys) lst = Some (es_end s)" using at_focus(2) [OF wf, of lst] c tail le by simp
          moreover have "pos \<le> a" if "lst < a" using le that by simp
          ultimately show ?thesis
            using b [of a] at_focus(2) [OF wf, of a] c [of a] tail(2)
            by (auto simp: bits_after_set_def straddles_def not_less simp del: at_append)
        qed
        moreover have n: "(es_start s = pos \<and> es_end s \<le> lst) = False" "(es_start s < pos) = False"
            "(pos < es_start s) = False" using tail by auto
        have "set_bits_loop (Suc fuel) lst bits pos tree prealloc w = Some ((0, t), w1)"
          unfolding loop n if_False unfolding tree sp prod.case ch t_def by simp
        ultimately show ?thesis using m tree by auto
      qed
    qed
  qed
qed simp

section \<open>Clearing bits\<close>

definition bits_after_clear :: "extent_state list \<Rightarrow> u64 \<Rightarrow> u64 \<Rightarrow> u64 \<Rightarrow> u64 \<Rightarrow> u64" where
  "bits_after_clear tree pos lst b a =
     (if pos \<le> a \<and> a \<le> lst then bits_at tree a AND NOT b else bits_at tree a)"

lemma clear_state_bit_view:
  assumes wf: "states_wf (xs @ s # ys)" and c: "clear_state_bit (xs @ s # ys) s bits = (r, t)"
  shows "states_wf t" "bits_at t a = (if covers s a then bits_at (xs @ s # ys) a AND NOT (scast bits) else bits_at (xs @ s # ys) a)"
    "es_end s < a \<Longrightarrow> reaching a t = reaching a (xs @ s # ys)"
proof -
  define v where "v = es_state s AND NOT (scast bits :: u64)"
  have *: "states_wf t \<and> bits_at t a = (if covers s a then v else bits_at (xs @ s # ys) a) \<and>
      (es_end s < a \<longrightarrow> reaching a t = reaching a (xs @ s # ys))"
  proof (cases "v = 0")
    case True
    then have "t = xs @ ys"
      using c states_wf_notin [OF wf] by (auto simp: clear_state_bit_def v_def Let_def)
    moreover have "\<not> covered ys a" if "covers s a"
      using wf that by (fastforce simp: states_wf_append covered_def covers_def)
    ultimately show ?thesis
      using wf at_focus(3) [OF wf, of a] True by (auto simp: states_wf_append)
  next
    case False
    then have "t = merge_state (change_state s (s\<lparr>es_state := v\<rparr>) (xs @ s # ys)) (s\<lparr>es_state := v\<rparr>)"
      using c by (auto simp: clear_state_bit_def v_def Let_def)
    from merge_updated [OF wf this] show ?thesis by simp
  qed
  then show "states_wf t" by simp
  show "bits_at t a = (if covers s a then bits_at (xs @ s # ys) a AND NOT (scast bits) else bits_at (xs @ s # ys) a)"
    using * at_focus(1) [OF wf, of a] by (simp add: v_def del: at_append)
  show "es_end s < a \<Longrightarrow> reaching a t = reaching a (xs @ s # ys)" using * by simp
qed

lemma clear_bits_loop_spec:
  assumes "states_wf tree" and "pos \<le> lst" and "lst < - 1" and "3 * reaching pos tree + delay pos tree < fuel"
    and "allocs_ok w"
  shows "\<exists>ret t w'. clear_bits_loop fuel lst bits pos tree st prealloc w = Some ((ret, t), w') \<and> states_wf t \<and>
    (\<forall>a. bits_at t a = bits_after_clear tree pos lst (scast bits) a)"
  using assms
proof (induction fuel arbitrary: tree pos st prealloc w)
  case (Suc fuel)
  note wf = Suc.prems(1) and le = Suc.prems(2) and lst = Suc.prems(3) and fuel = Suc.prems(4)
  obtain w1 where al: "alloc_extent_state prealloc w = (True, w1)" and ok: "allocs_ok w1"
  proof -
    obtain a w1 where m: "sys_malloc w = (a, w1)" by fastforce
    obtain c where "w1 = w\<lparr>w_allocs := c\<rparr>" "allocs_ok w \<longrightarrow> a \<and> allocs_ok w1" by (rule sys_malloc_frame [OF m])
    with Suc.prems(5) m that [of w] that [of w1] show thesis
      by (cases prealloc) (auto simp: alloc_extent_state_def)
  qed
  from wf show ?case
  proof (cases rule: states_from_cases [of tree pos])
    case none
    have "\<not> covered tree a" if "pos \<le> a" for a
      using none(2) that by (auto simp: covered_def covers_def)
    then have "bits_at tree a = bits_after_clear tree pos lst (scast bits) a" for a
      by (simp add: bits_after_clear_def)
    moreover have "clear_bits_loop (Suc fuel) lst bits pos tree st prealloc w = Some ((sint st, tree), w1)"
      using al none(1) by simp
    ultimately show ?thesis using wf by blast
  next
    case (some xs s ys)
    note tree = some(1) and sf = some(2) and xs = some(3) and es = some(4)
    note wf = wf [unfolded tree] and fuel = fuel [unfolded tree]
    have s: "es_start s \<le> es_end s" "es_end s < - 1" using wf by (simp_all add: states_wf_append es_wf_def)
    note na = next_address [OF s(2)] and nl = next_address [OF lst]
    note k = reaching_split [OF wf xs es]
    have loop: "clear_bits_loop (Suc fuel) lst bits pos tree st prealloc w =
        (if lst < es_start s then Some ((sint st, tree), w1)
               else if es_start s < pos then
                 (case split_state tree s new_state pos of
                    (err, _, s', tree) \<Rightarrow>
                      if err \<noteq> 0 then Some ((sint st, tree), w1)
                      else if es_end s' \<le> lst then
                        (case clear_state_bit tree s' bits of
                           (ret, tree) \<Rightarrow>
                             if es_end s = -1 \<or> lst < es_end s + 1 then Some ((sint (st OR ret), tree), w1)
                             else clear_bits_loop fuel lst bits (es_end s + 1) tree (st OR ret) False w1)
                      else if lst < es_start s' then Some ((sint st, tree), w1)
                      else clear_bits_loop fuel lst bits (es_start s') tree st False w1)
               else if es_start s \<le> lst \<and> lst < es_end s then
                 (case split_state tree s new_state (lst + 1) of
                    (err, prealloc, _, tree) \<Rightarrow>
                      if err \<noteq> 0 then None
                      else (case clear_state_bit tree prealloc bits of
                              (ret, tree) \<Rightarrow> Some ((sint (st OR ret), tree), w1)))
               else
                 (case clear_state_bit tree s bits of
                    (ret, tree) \<Rightarrow>
                      if es_end s = -1 \<or> lst < es_end s + 1 then Some ((sint (st OR ret), tree), w1)
                      else clear_bits_loop fuel lst bits (es_end s + 1) tree (st OR ret) True w1))"
      using al sf by simp
    have gap: "\<not> covered (xs @ s # ys) a" if "pos \<le> a" "a < es_start s" for a
      using that xs wf s by (fastforce simp: covered_def covers_def states_wf_append)
    have finish: ?thesis
      if t: "states_wf t" "es_end s \<le> lst"
        "\<And>a. bits_at t a = (if pos \<le> a \<and> covers s a then bits_at (xs @ s # ys) a AND NOT (scast bits) else bits_at (xs @ s # ys) a)"
        "\<And>a. es_end s < a \<Longrightarrow> reaching a t = reaching a (xs @ s # ys)"
        and r: "clear_bits_loop (Suc fuel) lst bits pos tree st prealloc w =
          (if es_end s = -1 \<or> lst < es_end s + 1 then Some ((sint (st OR ret), t), w1)
           else clear_bits_loop fuel lst bits (es_end s + 1) t (st OR ret) p w1)" for t p ret
    proof -
      have low: "bits_at t a = bits_after_clear tree pos lst (scast bits) a" if "a \<le> es_end s" for a
        using t(3) [of a] gap [of a] that t(2) unfolding tree
        by (cases "es_start s \<le> a") (auto simp: bits_after_clear_def covers_def not_le simp del: at_append covered_simps)
      show ?thesis
      proof (cases "lst < es_end s + 1")
        case True
        then have "lst = es_end s" using t(2) na(3) by fastforce
        then have "bits_at t a = bits_after_clear tree pos lst (scast bits) a" for a
          using low [of a] t(3) [of a] unfolding tree
          by (cases "a \<le> es_end s") (auto simp: bits_after_clear_def covers_def simp del: at_append)
        with t(1) r True show ?thesis by auto
      next
        case False
        then have nx: "es_end s + 1 \<le> lst" by simp
        have "reaching (es_end s + 1) t = length ys" using t(4) [OF na(1)] k(2) by simp
        with fuel k(1) delay_le [of "es_end s + 1" t]
        have "3 * reaching (es_end s + 1) t + delay (es_end s + 1) t < fuel" by simp
        from Suc.IH [OF t(1) nx lst this ok, of "st OR ret" p] obtain ret' u w' where u:
          "clear_bits_loop fuel lst bits (es_end s + 1) t (st OR ret) p w1 = Some ((ret', u), w')" "states_wf u"
          "\<And>a. bits_at u a = bits_after_clear t (es_end s + 1) lst (scast bits) a"
          by blast
        have "bits_after_clear t (es_end s + 1) lst (scast bits) a = bits_after_clear tree pos lst (scast bits) a" for a
        proof (cases "a \<le> es_end s")
          case True
          then have "\<not> es_end s + 1 \<le> a" using na(2) [of a] leD by blast
          then show ?thesis using low [OF True] by (simp add: bits_after_clear_def [of t])
        next
          case False
          then have "bits_at t a = bits_at tree a" "es_end s + 1 \<le> a" "pos \<le> a"
            using t(3) [of a] na(2) [of a] es unfolding tree by (auto simp: covers_def simp del: at_append)
          then show ?thesis by (simp add: bits_after_clear_def)
        qed
        with u r s False show ?thesis by auto
      qed
    qed
    consider (beyond) "lst < es_start s" | (before) "es_start s < pos" "\<not> lst < es_start s"
      | (tail) "pos \<le> es_start s" "es_start s \<le> lst" "lst < es_end s"
      | (whole) "pos \<le> es_start s" "es_start s \<le> lst" "es_end s \<le> lst"
      by fastforce
    then show ?thesis
    proof cases
      case beyond
      then have "bits_at tree a = bits_after_clear tree pos lst (scast bits) a" for a
        using gap [of a] unfolding tree by (auto simp: bits_after_clear_def simp del: at_append covered_simps)
      then show ?thesis using loop beyond Suc.prems(1) by auto
    next
      case before
      obtain p o' where sp: "split_state (xs @ s # ys) s new_state pos = (0, p, o', xs @ p # o' # ys)"
        and wf1: "states_wf (xs @ p # o' # ys)" and o': "o' = s\<lparr>es_start := pos\<rparr>"
        and p: "es_end p = pos - 1" "es_start p = es_start s" "es_state p = es_state s"
        using split_state_wf [OF wf before(1) es] by blast
      note v = split_view [OF wf before(1) es p, folded o']
      show ?thesis
      proof (cases "es_end s \<le> lst")
        case True
        have wf2: "states_wf ((xs @ [p]) @ o' # ys)" using wf1 by simp
        obtain ret t where c: "clear_state_bit (xs @ p # o' # ys) o' bits = (ret, t)" by fastforce
        then have "clear_state_bit ((xs @ [p]) @ o' # ys) o' bits = (ret, t)" by simp
        note m = clear_state_bit_view [OF wf2 this]
        have cv: "covers o' a \<longleftrightarrow> pos \<le> a \<and> covers s a" for a
          using before by (auto simp: o' covers_def)
        show ?thesis
        proof (rule finish)
          show "states_wf t" by (rule m(1))
          show "bits_at t a = (if pos \<le> a \<and> covers s a then bits_at (xs @ s # ys) a AND NOT (scast bits)
              else bits_at (xs @ s # ys) a)" for a
            using m(2) [of a] cv [of a] v(1) [of a] by (simp del: at_append)
          show "reaching a t = reaching a (xs @ s # ys)" if "es_end s < a" for a
            using m(3) [of a] v(3) [of a] that es by (auto simp: o' simp del: reaching_simps)
          show "clear_bits_loop (Suc fuel) lst bits pos tree st prealloc w =
              (if es_end s = -1 \<or> lst < es_end s + 1 then Some ((sint (st OR ret), t), w1)
               else clear_bits_loop fuel lst bits (es_end s + 1) t (st OR ret) False w1)"
          proof -
            have n: "(lst < es_start s) = False" "(es_start s < pos) = True" "(es_end o' \<le> lst) = True"
              using before True by (auto simp: o')
            show ?thesis
              unfolding loop n(1,2) if_False if_True unfolding tree sp prod.case n(3) c by simp
          qed
        qed (rule True)
      next
        case False
        have "delay pos (xs @ p # o' # ys) = 0" by (simp add: delay_def o')
        moreover have "0 < delay pos (xs @ s # ys)"
        proof -
          have "es_start x \<noteq> pos" if "x \<in> set (xs @ s # ys)" for x
            using that wf xs before es by (fastforce simp: states_wf_append es_wf_def dest: states_wf_es_wf)
          then show ?thesis by (auto simp: delay_def)
        qed
        ultimately have "3 * reaching pos (xs @ p # o' # ys) + delay pos (xs @ p # o' # ys) < fuel"
          using fuel v(3) [of pos] by simp
        from Suc.IH [OF wf1 le lst this ok, of st False] obtain ret u w' where u:
          "clear_bits_loop fuel lst bits pos (xs @ p # o' # ys) st False w1 = Some ((ret, u), w')" "states_wf u"
          "\<And>a. bits_at u a = bits_after_clear (xs @ p # o' # ys) pos lst (scast bits) a"
          by blast
        have "bits_after_clear (xs @ p # o' # ys) pos lst (scast bits) a = bits_after_clear tree pos lst (scast bits) a" for a
          unfolding tree bits_after_clear_def v(1) ..
        moreover have "clear_bits_loop (Suc fuel) lst bits pos tree st prealloc w =
            clear_bits_loop fuel lst bits pos (xs @ p # o' # ys) st False w1"
        proof -
          have n: "(lst < es_start s) = False" "(es_start s < pos) = True" "(es_end o' \<le> lst) = False"
            "(lst < pos) = False" "es_start o' = pos"
            using before False le by (auto simp: o')
          show ?thesis
            unfolding loop n(1,2) if_False if_True unfolding tree sp prod.case n(3-5) using le by simp
        qed
        ultimately show ?thesis using u by auto
      qed
    next
      case tail
      have sp1: "es_start s < lst + 1" "lst + 1 \<le> es_end s" using tail nl by auto
      obtain p o' where sp: "split_state (xs @ s # ys) s new_state (lst + 1) = (0, p, o', xs @ p # o' # ys)"
        and wf1: "states_wf (xs @ p # o' # ys)" and o': "o' = s\<lparr>es_start := lst + 1\<rparr>"
        and p: "es_end p = lst + 1 - 1" "es_start p = es_start s" "es_state p = es_state s"
        using split_state_wf [OF wf sp1] by blast
      note v = split_view [OF wf sp1 p, folded o']
      obtain ret t where c: "clear_state_bit (xs @ p # o' # ys) p bits = (ret, t)" by fastforce
      note m = clear_state_bit_view [OF wf1 c]
      have "bits_at t a = bits_after_clear tree pos lst (scast bits) a" for a
        using m(2) [of a] v(1) [of a] p gap [of a] tail unfolding tree
        by (auto simp: bits_after_clear_def covers_def not_le simp del: at_append covered_simps)
      moreover have n: "(lst < es_start s) = False" "(es_start s < pos) = False"
          "(es_start s \<le> lst \<and> lst < es_end s) = True" using tail by auto
      have "clear_bits_loop (Suc fuel) lst bits pos tree st prealloc w = Some ((sint (st OR ret), t), w1)"
        unfolding loop n if_False if_True unfolding tree sp prod.case c by simp
      ultimately show ?thesis using m(1) by auto
    next
      case whole
      obtain ret t where c: "clear_state_bit (xs @ s # ys) s bits = (ret, t)" by fastforce
      note m = clear_state_bit_view [OF wf c]
      show ?thesis
      proof (rule finish)
        show "states_wf t" by (rule m(1))
        show "bits_at t a = (if pos \<le> a \<and> covers s a then bits_at (xs @ s # ys) a AND NOT (scast bits)
            else bits_at (xs @ s # ys) a)" for a
          using m(2) [of a] whole(1) by (auto simp: covers_def simp del: at_append)
        show "reaching a t = reaching a (xs @ s # ys)" if "es_end s < a" for a using m(3) that by blast
        have n: "(lst < es_start s) = False" "(es_start s < pos) = False"
          "(es_start s \<le> lst \<and> lst < es_end s) = False" using whole by auto
        show "clear_bits_loop (Suc fuel) lst bits pos tree st prealloc w =
            (if es_end s = -1 \<or> lst < es_end s + 1 then Some ((sint (st OR ret), t), w1)
             else clear_bits_loop fuel lst bits (es_end s + 1) t (st OR ret) True w1)"
          unfolding loop n if_False unfolding tree c prod.case ..
      qed (rule whole)
    qed
  qed
qed simp


section \<open>Properties\<close>

lemma straddles_up_to:
  assumes "states_wf tree" and "straddles tree lst a" and "a \<le> lst"
  shows "straddles tree lst lst"
  using assms
proof (induction tree)
  case (Cons s tree)
  show ?case
  proof (cases "covers s a")
    case True
    then have "lst < es_end s" using Cons.prems(2) by (simp add: straddles_def)
    moreover from this have "covers s lst" using True Cons.prems(3) by (auto simp: covers_def)
    ultimately show ?thesis by (simp add: straddles_def)
  next
    case False
    then have *: "straddles tree lst a" using Cons.prems(2) by (simp add: straddles_def)
    then have "covered tree a" using end_at_covered [of tree a] by (auto simp: straddles_def)
    then have "es_end s < a" using Cons.prems(1) by (auto simp: covered_def covers_def intro: less_le_trans)
    then have "\<not> covers s lst" using Cons.prems(3) by (auto simp: covers_def)
    with Cons.IH * Cons.prems show ?thesis by (simp add: straddles_def)
  qed
qed (simp add: straddles_def)

lemma enough_turns: "3 * reaching pos tree + delay pos tree < 3 * length tree + 3"
proof -
  have "reaching pos tree \<le> length tree" by (simp add: reaching_def)
  with delay_le [of pos tree] show ?thesis by linarith
qed

lemma set_extent_bits_spec:
  assumes "states_wf tree" and "pos \<le> lst" and "lst < - 1"
  shows "\<exists>ret t w'. set_extent_bits tree pos lst bits w = Some ((ret, t), w') \<and> states_wf t \<and>
    (ret = - ENOMEM \<or> ret = 0 \<and> (\<forall>a. bits_at t a = bits_after_set tree pos lst (scast bits) a))"
proof -
  note enough_turns [of pos tree]
  with set_bits_loop_spec assms show ?thesis by (simp add: set_extent_bits_def)
qed

definition tiny_states :: "extent_state list" where
  "tiny_states =
     [\<lparr>es_start = 0, es_end = 9, es_state = 1, es_private = 0\<rparr>,
      \<lparr>es_start = 20, es_end = 29, es_state = 4, es_private = 0\<rparr>]"

lemma tiny_states_wf: "states_wf tiny_states"
  by (simp add: tiny_states_def es_wf_def)



text \<open>
  A state that reaches across the end of the range gets the bits on the wrong side: its addresses
  after the range get them and the last address of the range does not, because \<^verbatim>\<open>set_extent_bits\<close> sets them
  on the second half of the split state, where \<^verbatim>\<open>clear_extent_bits\<close> takes the first.
\<close>

theorem set_extent_bits_wrong_half:
  assumes "states_wf tree" and "pos \<le> lst" and "lst < - 1" and "end_at tree lst = Some e" and "lst < e"
  shows "\<exists>ret t w'. set_extent_bits tree pos lst bits w = Some ((ret, t), w') \<and>
    (ret = - ENOMEM \<or> ret = 0 \<and> bits_at t lst = bits_at tree lst \<and>
       (\<forall>a. lst < a \<and> a \<le> e \<longrightarrow> bits_at t a = bits_at tree a OR scast bits))"
proof -
  have "bits_after_set tree pos lst b lst = bits_at tree lst"
    "lst < a \<and> a \<le> e \<longrightarrow> bits_after_set tree pos lst b a = bits_at tree a OR b" for a b
    using assms(2,4,5) by (auto simp: bits_after_set_def straddles_def)
  with set_extent_bits_spec [OF assms(1-3), of bits w] show ?thesis by auto
qed

theorem set_extent_bits_wrong_half_witness:
  "\<exists>ret t w'. set_extent_bits tiny_states 15 24 2 (engine_world engine_source 0 engine_source 0) = Some ((ret, t), w') \<and>
    (ret = - ENOMEM \<or> ret = 0 \<and> bits_at t 24 = 4 \<and> bits_at t 25 = 6)"
proof -
  have "end_at tiny_states 24 = Some 29" by (simp add: tiny_states_def covers_def)
  from set_extent_bits_wrong_half [OF tiny_states_wf _ _ this, of 15 2 "engine_world engine_source 0 engine_source 0"]
  obtain ret t w' where "set_extent_bits tiny_states 15 24 2 (engine_world engine_source 0 engine_source 0) = Some ((ret, t), w')"
    and *: "ret = - ENOMEM \<or> ret = 0 \<and> bits_at t 24 = bits_at tiny_states 24 \<and>
       (\<forall>a. 24 < a \<and> a \<le> 29 \<longrightarrow> bits_at t a = bits_at tiny_states a OR scast (2 :: u32))"
    by auto
  moreover from * have "ret = - ENOMEM \<or> ret = 0 \<and> bits_at t 24 = 4 \<and> bits_at t 25 = 6"
    by (auto simp: tiny_states_def covers_def dest: spec [of _ 25])
  ultimately show ?thesis by blast
qed

text \<open>
  C28: Clearing bits on a range of addresses returns after finitely many turns, keeps the states in
  order and, when memory does not run out, clears the bits on exactly the addresses of the range.
\<close>

theorem clear_extent_bits_exact:
  assumes "states_wf tree" and "pos \<le> lst" and "lst < - 1" and "allocs_ok w"
  shows "\<exists>ret t w'. clear_extent_bits tree pos lst bits w = Some ((ret, t), w') \<and> states_wf t \<and>
    (\<forall>a. bits_at t a =
       (if pos \<le> a \<and> a \<le> lst then bits_at tree a AND NOT (scast bits) else bits_at tree a))"
proof -
  from clear_bits_loop_spec [OF assms(1-3) enough_turns assms(4), of bits 0 False]
  show ?thesis by (simp add: clear_extent_bits_def bits_after_clear_def)
qed

theorem clear_extent_bits_exact_witness:
  "\<exists>ret t w'. clear_extent_bits tiny_states 5 24 4 (engine_world engine_source 0 engine_source 0) = Some ((ret, t), w') \<and>
    states_wf t \<and> bits_at t 9 = 1 \<and> bits_at t 24 = 0 \<and> bits_at t 25 = 4"
proof -
  have "allocs_ok (engine_world engine_source 0 engine_source 0)" by (simp add: allocs_ok_def engine_world_def)
  from clear_extent_bits_exact [OF tiny_states_wf _ _ this, of 5 24 4]
  obtain ret t w' where "clear_extent_bits tiny_states 5 24 4 (engine_world engine_source 0 engine_source 0) = Some ((ret, t), w')"
    and "states_wf t" and *: "\<forall>a. bits_at t a =
       (if 5 \<le> a \<and> a \<le> 24 then bits_at tiny_states a AND NOT (scast (4 :: u32)) else bits_at tiny_states a)"
    by auto
  moreover from * have "bits_at t 9 = 1 \<and> bits_at t 24 = 0 \<and> bits_at t 25 = 4"
    by (simp add: tiny_states_def covers_def)
  ultimately show ?thesis by blast
qed

end
