(* ===== verification/RadixTree.thy ===== *)
theory RadixTree
  imports ExtentBits
begin

text \<open>
  \<^verbatim>\<open>src/src/xfs/radix-tree.c\<close>: the map from the numbers of allocation groups to their descriptions
  that \<^verbatim>\<open>libxfs_mount\<close> builds. A slot is
  \<^verbatim>\<open>NULL\<close>, a pointer to an item, or a pointer to a node with its \<^verbatim>\<open>count\<close>, its 64 slots and its two words
  of tags. No two slots point to the same node, so a tree is a value, and a node that is changed
  through a pointer is put back into the nodes above it. \<^verbatim>\<open>radix_tree_init\<close> has run: \<^verbatim>\<open>libxfs_init\<close>
  calls it first. \<^term>\<open>None\<close> is a read after the end of \<^verbatim>\<open>height_to_maxindex\<close>.
\<close>

section \<open>Definitions\<close>

datatype 'a radix_slot = R_Null | R_Item 'a | R_Node nat "'a radix_slot list" "u64 list"

record 'a radix_tree_root =
  rt_height :: nat
  rt_rnode :: "'a radix_slot"

definition RADIX_TREE_MAP_SHIFT :: nat where "RADIX_TREE_MAP_SHIFT = 6"
definition RADIX_TREE_MAP_SIZE :: nat where "RADIX_TREE_MAP_SIZE = 64"
definition RADIX_TREE_MAX_TAGS :: nat where "RADIX_TREE_MAX_TAGS = 2"
definition RADIX_TREE_MAX_PATH :: nat where "RADIX_TREE_MAX_PATH = 12"

definition INIT_RADIX_TREE :: "'a radix_tree_root" where
  "INIT_RADIX_TREE = \<lparr>rt_height = 0, rt_rnode = R_Null\<rparr>"

definition radix_tree_node_alloc :: "world \<Rightarrow> 'a radix_slot \<times> world" where
  "radix_tree_node_alloc w =
     (case sys_malloc w of
        (ok, w) \<Rightarrow> (if ok then R_Node 0 (replicate RADIX_TREE_MAP_SIZE R_Null) (replicate RADIX_TREE_MAX_TAGS 0)
                    else R_Null, w))"

definition tag_set :: "u64 list \<Rightarrow> nat \<Rightarrow> nat \<Rightarrow> u64 list" where
  "tag_set tags tag offset = tags[tag := tags ! tag OR push_bit offset 1]"

definition tag_clear :: "u64 list \<Rightarrow> nat \<Rightarrow> nat \<Rightarrow> u64 list" where
  "tag_clear tags tag offset = tags[tag := tags ! tag AND NOT (push_bit offset 1)]"

definition tag_get :: "u64 list \<Rightarrow> nat \<Rightarrow> nat \<Rightarrow> bool" where
  "tag_get tags tag offset = bit (tags ! tag) offset"

definition any_tag_set :: "u64 list \<Rightarrow> nat \<Rightarrow> bool" where
  "any_tag_set tags tag \<longleftrightarrow> tags ! tag \<noteq> 0"

definition maxindex :: "nat \<Rightarrow> u64" where
  "maxindex height =
     (let width = height * RADIX_TREE_MAP_SHIFT; shift = int 64 - int width
      in if shift < 0 then - 1 else if shift \<ge> 64 then 0 else drop_bit (nat shift) (- 1))"

definition height_to_maxindex :: "u64 list" where
  "height_to_maxindex = map maxindex [0..<RADIX_TREE_MAX_PATH]"

definition radix_tree_maxindex :: "nat \<Rightarrow> u64" where
  "radix_tree_maxindex height = height_to_maxindex ! height"

text \<open>The \<^verbatim>\<open>while\<close> loop that finds the new height.\<close>

function new_height :: "u64 \<Rightarrow> nat \<Rightarrow> nat option" where
  "new_height index height =
     (if RADIX_TREE_MAX_PATH \<le> height then None
      else if index > radix_tree_maxindex height then new_height index (Suc height)
      else Some height)"
  by auto
termination by (relation "measure (\<lambda>(_, height). RADIX_TREE_MAX_PATH - height)") auto

declare new_height.simps [simp del]

text \<open>The \<^verbatim>\<open>do\<close> loop: one more node above the root, \<open>n\<close> times.\<close>

primrec extend_loop :: "nat \<Rightarrow> bool list \<Rightarrow> 'a radix_tree_root \<Rightarrow> world \<Rightarrow> (int \<times> 'a radix_tree_root) \<times> world" where
  "extend_loop 0 tags rt w = ((0, rt), w)"
| "extend_loop (Suc n) tags rt w =
     (case radix_tree_node_alloc w of
        (R_Node _ slots node_tags, w) \<Rightarrow>
          (let node_tags = fold (\<lambda>tag ts. if tags ! tag then tag_set ts tag 0 else ts)
                             [0..<RADIX_TREE_MAX_TAGS] node_tags
           in extend_loop n tags
                \<lparr>rt_height = rt_height rt + 1, rt_rnode = R_Node 1 (slots[0 := rt_rnode rt]) node_tags\<rparr> w)
      | (_, w) \<Rightarrow> ((- ENOMEM, rt), w))"

definition radix_tree_extend ::
    "'a radix_tree_root \<Rightarrow> u64 \<Rightarrow> world \<Rightarrow> ((int \<times> 'a radix_tree_root) \<times> world) option" where
  "radix_tree_extend rt index w =
     (case new_height index (rt_height rt + 1) of
        None \<Rightarrow> None
      | Some height \<Rightarrow>
          (case rt_rnode rt of
             R_Node _ _ node_tags \<Rightarrow>
               Some (extend_loop (height - rt_height rt)
                 (map (any_tag_set node_tags) [0..<RADIX_TREE_MAX_TAGS]) rt w)
           | _ \<Rightarrow> Some ((0, rt\<lparr>rt_height := height\<rparr>), w)))"

text \<open>\<^verbatim>\<open>(index >> shift) & RADIX_TREE_MAP_MASK\<close>, where \<open>h\<close> levels of nodes are below.\<close>

definition radix_offset :: "nat \<Rightarrow> u64 \<Rightarrow> nat" where
  "radix_offset h index = unat (drop_bit (h * RADIX_TREE_MAP_SHIFT) index AND of_nat (RADIX_TREE_MAP_SIZE - 1))"

fun slot_at :: "'a radix_slot \<Rightarrow> nat \<Rightarrow> 'a radix_slot" where
  "slot_at (R_Node _ slots _) offset = slots ! offset"
| "slot_at _ offset = R_Null"

primrec lookup_loop :: "nat \<Rightarrow> 'a radix_slot \<Rightarrow> u64 \<Rightarrow> 'a radix_slot" where
  "lookup_loop 0 slot index = slot"
| "lookup_loop (Suc h) slot index =
     (case slot of
        R_Null \<Rightarrow> R_Null
      | _ \<Rightarrow> lookup_loop h (slot_at slot (radix_offset h index)) index)"

definition radix_tree_lookup :: "'a radix_tree_root \<Rightarrow> u64 \<Rightarrow> 'a radix_slot" where
  "radix_tree_lookup rt index =
     (if index > radix_tree_maxindex (rt_height rt) then R_Null
      else lookup_loop (rt_height rt) (rt_rnode rt) index)"

text \<open>
  The \<^verbatim>\<open>do\<close> loop of \<^verbatim>\<open>radix_tree_insert\<close> from one slot on, with \<open>Suc h\<close> levels of nodes to go: the error,
  and what the slot holds afterwards. A slot that was \<^verbatim>\<open>NULL\<close> and holds a node now adds to the
  \<^verbatim>\<open>count\<close> of its node.
\<close>

definition set_slot :: "'a radix_slot list \<Rightarrow> nat \<Rightarrow> nat \<Rightarrow> 'a radix_slot \<Rightarrow> u64 list \<Rightarrow> 'a radix_slot" where
  "set_slot slots count offset child tags =
     R_Node (case (slots ! offset, child) of (R_Null, R_Null) \<Rightarrow> count | (R_Null, _) \<Rightarrow> count + 1 | _ \<Rightarrow> count)
       (slots[offset := child]) tags"

primrec insert_loop :: "nat \<Rightarrow> u64 \<Rightarrow> 'a \<Rightarrow> 'a radix_slot \<Rightarrow> world \<Rightarrow> (int \<times> 'a radix_slot) \<times> world" where
  "insert_loop 0 index item slot w =
     ((case slot of R_Null \<Rightarrow> (0, R_Item item) | _ \<Rightarrow> (- EEXIST, slot)), w)"
| "insert_loop (Suc h) index item slot w =
     (case (case slot of R_Null \<Rightarrow> radix_tree_node_alloc w | _ \<Rightarrow> (slot, w)) of
        (R_Node count slots tags, w) \<Rightarrow>
          (case insert_loop h index item (slots ! radix_offset h index) w of
             ((ret, child), w) \<Rightarrow> ((ret, set_slot slots count (radix_offset h index) child tags), w))
      | (_, w) \<Rightarrow> ((- ENOMEM, slot), w))"

definition radix_tree_insert ::
    "'a radix_tree_root \<Rightarrow> u64 \<Rightarrow> 'a \<Rightarrow> world \<Rightarrow> ((int \<times> 'a radix_tree_root) \<times> world) option" where
  "radix_tree_insert rt index item w =
     (case (if (index = 0 \<and> (case rt_rnode rt of R_Null \<Rightarrow> True | _ \<Rightarrow> False))
               \<or> index > radix_tree_maxindex (rt_height rt)
            then radix_tree_extend rt index w else Some ((0, rt), w)) of
        None \<Rightarrow> None
      | Some ((err, rt), w) \<Rightarrow>
          if err \<noteq> 0 then Some ((err, rt), w)
          else (case insert_loop (rt_height rt) index item (rt_rnode rt) w of
                  ((ret, slot), w) \<Rightarrow> Some ((ret, rt\<lparr>rt_rnode := slot\<rparr>), w)))"

primrec radix_tree_shrink :: "nat \<Rightarrow> 'a radix_slot \<Rightarrow> 'a radix_tree_root" where
  "radix_tree_shrink 0 rnode = \<lparr>rt_height = 0, rt_rnode = rnode\<rparr>"
| "radix_tree_shrink (Suc h) rnode =
     (case rnode of
        R_Node count slots _ \<Rightarrow>
          if 0 < h \<and> count = 1 \<and> (case slots ! 0 of R_Null \<Rightarrow> False | _ \<Rightarrow> True)
          then radix_tree_shrink h (slots ! 0)
          else \<lparr>rt_height = Suc h, rt_rnode = rnode\<rparr>
      | _ \<Rightarrow> \<lparr>rt_height = Suc h, rt_rnode = rnode\<rparr>)"

text \<open>
  \<^verbatim>\<open>radix_tree_delete\<close>: the loop down to the slot, which collects \<^verbatim>\<open>path\<close> with the lowest node first;
  \<^term>\<open>None\<close> when it meets \<^verbatim>\<open>NULL\<close>. Then the tags of the nodes on the path, then the slots.
\<close>

type_synonym 'a radix_path = "('a radix_slot \<times> nat) list"

primrec delete_descend ::
    "nat \<Rightarrow> u64 \<Rightarrow> 'a radix_slot \<Rightarrow> 'a radix_path \<Rightarrow> ('a radix_path \<times> 'a radix_slot) option" where
  "delete_descend 0 index slot path = Some (path, slot)"
| "delete_descend (Suc h) index slot path =
     (case slot of
        R_Null \<Rightarrow> None
      | _ \<Rightarrow> delete_descend h index (slot_at slot (radix_offset h index)) ((slot, radix_offset h index) # path))"

definition leaf_tag :: "nat \<Rightarrow> nat \<Rightarrow> u64 list \<times> bool list \<times> nat \<Rightarrow> u64 list \<times> bool list \<times> nat" where
  "leaf_tag offset tag st =
     (case st of (ts, tags, nr_cleared) \<Rightarrow>
        if \<not> tag_get ts tag offset then st
        else (let ts = tag_clear ts tag offset
              in if any_tag_set ts tag then (ts, tags, nr_cleared) else (ts, tags[tag := False], nr_cleared + 1)))"

definition inner_tag :: "nat \<Rightarrow> nat \<Rightarrow> u64 list \<times> bool list \<times> nat \<Rightarrow> u64 list \<times> bool list \<times> nat" where
  "inner_tag offset tag st =
     (case st of (ts, tags, nr_cleared) \<Rightarrow>
        if tags ! tag then st
        else (let ts = tag_clear ts tag offset
              in if any_tag_set ts tag then (ts, tags[tag := True], nr_cleared - 1) else (ts, tags, nr_cleared)))"

primrec clear_inner_tags :: "bool list \<Rightarrow> nat \<Rightarrow> 'a radix_path \<Rightarrow> 'a radix_path" where
  "clear_inner_tags tags nr_cleared [] = []"
| "clear_inner_tags tags nr_cleared (step # up) =
     (if nr_cleared = 0 then step # up
      else case step of
        (R_Node count slots ts, offset) \<Rightarrow>
          (case fold (inner_tag offset) [0..<RADIX_TREE_MAX_TAGS] (ts, tags, nr_cleared) of
             (ts, tags, nr_cleared) \<Rightarrow> (R_Node count slots ts, offset) # clear_inner_tags tags nr_cleared up)
      | _ \<Rightarrow> step # up)"

fun clear_path_tags :: "'a radix_path \<Rightarrow> 'a radix_path" where
  "clear_path_tags ((R_Node count slots ts, offset) # up) =
     (case fold (leaf_tag offset) [0..<RADIX_TREE_MAX_TAGS] (ts, replicate RADIX_TREE_MAX_TAGS True, 0) of
        (ts, tags, nr_cleared) \<Rightarrow> (R_Node count slots ts, offset) # clear_inner_tags tags nr_cleared up)"
| "clear_path_tags path = path"

fun put_back :: "'a radix_path \<Rightarrow> 'a radix_slot \<Rightarrow> 'a radix_slot" where
  "put_back ((R_Node count slots ts, offset) # up) child = put_back up (R_Node count (slots[offset := child]) ts)"
| "put_back _ child = child"

fun delete_up :: "nat \<Rightarrow> 'a radix_path \<Rightarrow> 'a radix_tree_root" where
  "delete_up height ((R_Node count slots ts, offset) # up) =
     (if count - 1 \<noteq> 0
      then (let node = R_Node (count - 1) (slots[offset := R_Null]) ts
            in if up = [] then radix_tree_shrink height node
               else \<lparr>rt_height = height, rt_rnode = put_back up node\<rparr>)
      else delete_up height up)"
| "delete_up height _ = \<lparr>rt_height = 0, rt_rnode = R_Null\<rparr>"

definition radix_tree_delete :: "'a radix_tree_root \<Rightarrow> u64 \<Rightarrow> 'a radix_slot \<times> 'a radix_tree_root" where
  "radix_tree_delete rt index =
     (if index > radix_tree_maxindex (rt_height rt) then (R_Null, rt)
      else case delete_descend (rt_height rt) index (rt_rnode rt) [] of
             None \<Rightarrow> (R_Null, rt)
           | Some (path, ret) \<Rightarrow>
               (case ret of
                  R_Null \<Rightarrow> (R_Null, rt)
                | _ \<Rightarrow> (ret, delete_up (rt_height rt) (clear_path_tags path))))"


section \<open>Well-formed trees\<close>

text \<open>The digits of an index to the base 64.\<close>

lemma radix_offset_eq: "radix_offset h index = unat index div 64 ^ h mod 64"
proof -
  have "(of_nat (RADIX_TREE_MAP_SIZE - 1) :: u64) = mask 6" by (simp add: RADIX_TREE_MAP_SIZE_def mask_eq_exp_minus_1)
  then have "radix_offset h index = unat (take_bit 6 (drop_bit (h * 6) index))"
    by (simp add: radix_offset_def RADIX_TREE_MAP_SHIFT_def take_bit_eq_mask)
  also have "\<dots> = take_bit 6 (drop_bit (h * 6) (unat index))"
  proof -
    have "unat index < 2 ^ 64" using unsigned_less [of index] by simp
    then have "take_bit 64 (unat index) = unat index" by (simp add: take_bit_nat_eq_self)
    then show ?thesis by (simp only: unsigned_take_bit_eq unsigned_drop_bit_eq) simp
  qed
  also have "\<dots> = unat index div 2 ^ (h * 6) mod 2 ^ 6"
    by (simp only: take_bit_eq_mod drop_bit_eq_div)
  finally show ?thesis by (simp add: power_mult mult.commute [of h])
qed

lemma radix_offset_less [simp]: "radix_offset h index < 64"
  by (simp add: radix_offset_eq)

lemma low_digits:
  "(n :: nat) mod 64 ^ Suc h = m mod 64 ^ Suc h \<longleftrightarrow> n div 64 ^ h mod 64 = m div 64 ^ h mod 64 \<and> n mod 64 ^ h = m mod 64 ^ h"
proof -
  have split: "k mod 64 ^ Suc h = 64 ^ h * (k div 64 ^ h mod 64) + k mod 64 ^ h" for k :: nat
    using mod_mult2_eq [of k "64 ^ h" 64] by (simp add: mult.commute)
  show ?thesis
  proof
    assume *: "n mod 64 ^ Suc h = m mod 64 ^ Suc h"
    have "(n mod 64 ^ Suc h) mod 64 ^ h = n mod 64 ^ h" for n :: nat by (simp add: mod_mod_cancel)
    with * have low: "n mod 64 ^ h = m mod 64 ^ h" by metis
    with * have "64 ^ h * (n div 64 ^ h mod 64) = (64 :: nat) ^ h * (m div 64 ^ h mod 64)" unfolding split by linarith
    with low show "n div 64 ^ h mod 64 = m div 64 ^ h mod 64 \<and> n mod 64 ^ h = m mod 64 ^ h" by simp
  qed (simp only: split)
qed

definition same_low :: "nat \<Rightarrow> u64 \<Rightarrow> u64 \<Rightarrow> bool" where
  "same_low h i j \<longleftrightarrow> unat i mod 64 ^ h = unat j mod 64 ^ h"

lemma same_low_simps [simp]:
  "same_low 0 i j" "same_low h i i"
  by (simp_all add: same_low_def)

lemma same_low_Suc:
  "same_low (Suc h) i j \<longleftrightarrow> radix_offset h i = radix_offset h j \<and> same_low h i j"
  by (simp only: same_low_def radix_offset_eq low_digits)

lemma maxindex_less:
  assumes "h < RADIX_TREE_MAX_PATH"
  shows "index \<le> radix_tree_maxindex h \<longleftrightarrow> unat index < 64 ^ h"
proof -
  have "h < 12" using assms by (simp add: RADIX_TREE_MAX_PATH_def)
  moreover have "radix_tree_maxindex h = maxindex h"
    using assms by (simp add: radix_tree_maxindex_def height_to_maxindex_def)
  moreover have "unat index < 2 ^ 64" using unsigned_less [of index] by simp
  moreover have "h = 0 \<or> h = 1 \<or> h = 2 \<or> h = 3 \<or> h = 4 \<or> h = 5 \<or> h = 6 \<or> h = 7 \<or> h = 8 \<or> h = 9 \<or> h = 10 \<or> h = 11"
    using \<open>h < 12\<close> by presburger
  ultimately show ?thesis
    by (elim disjE) (simp_all add: maxindex_def RADIX_TREE_MAP_SHIFT_def word_le_nat_alt mask_eq_exp_minus_1 less_eq_Suc_le
        unsigned_minus_1_eq_mask)
qed

text \<open>
  A tree with \<open>h\<close> levels of nodes: every node has 64 slots and no tag, counts its slots that are not
  \<^verbatim>\<open>NULL\<close>, and the items are below the lowest nodes.
\<close>

definition used_slots :: "'a radix_slot list \<Rightarrow> nat" where
  "used_slots slots = length (filter (\<lambda>s. s \<noteq> R_Null) slots)"

primrec node_ok :: "nat \<Rightarrow> 'a radix_slot \<Rightarrow> bool" where
  "node_ok 0 slot = (case slot of R_Item _ \<Rightarrow> True | _ \<Rightarrow> False)"
| "node_ok (Suc h) slot =
     (case slot of
        R_Node count slots tags \<Rightarrow>
          length slots = 64 \<and> tags = [0, 0] \<and> count = used_slots slots
          \<and> list_all (\<lambda>s. s = R_Null \<or> node_ok h s) slots
      | _ \<Rightarrow> False)"

lemma node_ok_cases:
  assumes "node_ok (Suc h) slot"
  obtains count slots where "slot = R_Node count slots [0, 0]" "length slots = 64" "count = used_slots slots"
    "\<And>i. i < 64 \<Longrightarrow> slots ! i = R_Null \<or> node_ok h (slots ! i)"
  using assms by (cases slot) (auto simp: list_all_length)

lemma node_ok_R_Null [simp]: "\<not> node_ok h R_Null"
  by (cases h) auto

lemma lookup_R_Null [simp]: "lookup_loop h R_Null index = R_Null"
  by (cases h) auto

lemma lookup_R_Node [simp]:
  "lookup_loop (Suc h) (R_Node count slots tags) index = lookup_loop h (slots ! radix_offset h index) index"
  by simp

lemma lookup_same_low: "same_low h i j \<Longrightarrow> lookup_loop h slot i = lookup_loop h slot j"
  by (induction h arbitrary: slot) (auto simp: same_low_Suc split: radix_slot.split)

lemma lookup_ok: "node_ok h slot \<Longrightarrow> lookup_loop h slot index = R_Null \<or> (\<exists>x. lookup_loop h slot index = R_Item x)"
proof (induction h arbitrary: slot)
  case (Suc h)
  from Suc.prems obtain count slots where "slot = R_Node count slots [0, 0]"
    "\<And>i. i < 64 \<Longrightarrow> slots ! i = R_Null \<or> node_ok h (slots ! i)"
    by (rule node_ok_cases) blast
  with Suc.IH [of "slots ! radix_offset h index"] show ?case
    by (auto simp del: lookup_loop.simps(2)) (metis lookup_R_Null radix_offset_less)
qed (auto split: radix_slot.splits)

lemma used_slots_simps [simp]:
  "used_slots [] = 0" "used_slots (s # slots) = (if s = R_Null then 0 else 1) + used_slots slots"
  by (simp_all add: used_slots_def)

lemma used_slots_update:
  assumes "k < length slots"
  shows "used_slots (slots[k := s]) + (if slots ! k = R_Null then 0 else 1) = used_slots slots + (if s = R_Null then 0 else 1)"
  using assms
proof (induction slots arbitrary: k)
  case (Cons x slots)
  then show ?case by (cases k) auto
qed simp

lemma used_slots_replicate [simp]: "used_slots (replicate n R_Null) = 0"
  by (simp add: used_slots_def)

lemma used_slots_pos: "k < length slots \<Longrightarrow> slots ! k \<noteq> R_Null \<Longrightarrow> 0 < used_slots slots"
  by (auto simp: used_slots_def filter_empty_conv intro: nth_mem)

lemma node_ok_set_slot:
  assumes "node_ok (Suc h) (R_Node count slots tags)" and "k < 64" and "child = R_Null \<and> slots ! k = R_Null \<or> node_ok h child"
  shows "node_ok (Suc h) (set_slot slots count k child tags)"
proof -
  have "set_slot slots count k child tags =
      R_Node (if slots ! k = R_Null \<and> child \<noteq> R_Null then count + 1 else count) (slots[k := child]) tags"
    by (auto simp: set_slot_def split: radix_slot.split)
  moreover have "child = R_Null \<Longrightarrow> slots ! k = R_Null" using assms(3) by auto
  ultimately show ?thesis
    using assms used_slots_update [of k slots child]
    by (cases "child = R_Null") (auto simp: list_all_length nth_list_update)
qed

lemma lookup_set_slot:
  assumes "length slots = 64" and "k < 64"
  shows "lookup_loop (Suc h) (set_slot slots count k child tags) j =
    (if radix_offset h j = k then lookup_loop h child j else lookup_loop h (slots ! radix_offset h j) j)"
  using assms by (simp add: set_slot_def split: radix_slot.split)

text \<open>A fresh node is an empty tree of any height.\<close>

lemma node_alloc_cases:
  obtains (fail) w' where "radix_tree_node_alloc w = (R_Null, w')"
    | (ok) w' where "radix_tree_node_alloc w = (R_Node 0 (replicate 64 R_Null) [0, 0], w')"
proof (cases "sys_malloc w")
  case (Pair a w')
  then show thesis
    using fail [of w'] ok [of w']
    by (cases a) (simp_all add: radix_tree_node_alloc_def RADIX_TREE_MAP_SIZE_def RADIX_TREE_MAX_TAGS_def numeral_2_eq_2)
qed

lemma node_ok_fresh: "node_ok (Suc h) (R_Node 0 (replicate 64 R_Null) [0, 0])"
  by (simp add: list_all_length)

section \<open>Insertion\<close>

text \<open>
  What the loop of \<^verbatim>\<open>radix_tree_insert\<close> does to the slot it starts from: on success the item is at its
  index and nothing else changed; otherwise no item changed.
\<close>

lemma insert_loop_spec:
  assumes "slot = R_Null \<or> node_ok h slot" and "insert_loop h index item slot w = ((ret, slot'), w')"
  shows "(slot' = R_Null \<and> slot = R_Null \<and> ret = - ENOMEM \<or> node_ok h slot') \<and>
    (ret = 0 \<and> lookup_loop h slot index = R_Null \<and>
       (\<forall>j. lookup_loop h slot' j = (if same_low h index j then R_Item item else lookup_loop h slot j))
     \<or> (ret = - EEXIST \<and> lookup_loop h slot index \<noteq> R_Null \<or> ret = - ENOMEM) \<and>
       (\<forall>j. lookup_loop h slot' j = lookup_loop h slot j))"
  using assms
proof (induction h arbitrary: slot w ret slot' w')
  case 0
  then show ?case by (auto split: radix_slot.splits)
next
  case (Suc h)
  define k where "k = radix_offset h index"
  have k: "k < 64" by (simp add: k_def)
  show ?case
  proof (cases "slot = R_Null \<and> (\<exists>w'. radix_tree_node_alloc w = (R_Null :: 'a radix_slot, w'))")
    case True
    with Suc.prems(2) show ?thesis by auto
  next
    case False
    obtain count slots w1 where n: "(case slot of R_Null \<Rightarrow> radix_tree_node_alloc w | _ \<Rightarrow> (slot, w)) = (R_Node count slots [0, 0], w1)"
      and ok: "node_ok (Suc h) (R_Node count slots [0, 0])"
      and lk: "\<And>j. lookup_loop (Suc h) slot j = lookup_loop (Suc h) (R_Node count slots [0, 0]) j"
    proof (cases "slot = R_Null")
      case True
      with False obtain w1 where a: "radix_tree_node_alloc w = (R_Node 0 (replicate 64 R_Null :: 'a radix_slot list) [0, 0], w1)"
        by (cases rule: node_alloc_cases [of w, where 'a = 'a]) auto
      show thesis
        by (rule that [of 0 "replicate 64 R_Null" w1]) (use True a node_ok_fresh in \<open>auto simp: list_all_length\<close>)
    next
      case False
      with Suc.prems(1) have ok: "node_ok (Suc h) slot" by simp
      then obtain count slots where s: "slot = R_Node count slots [0, 0]" by (rule node_ok_cases)
      show thesis by (rule that [of count slots w]) (use s ok in auto)
    qed
    from ok have len: "length slots = 64" and sub: "slots ! k = R_Null \<or> node_ok h (slots ! k)"
      using k by (auto simp: list_all_length)
    obtain child w2 where c: "insert_loop h index item (slots ! k) w1 = ((ret, child), w2)"
      and slot': "slot' = set_slot slots count k child [0, 0]"
      using Suc.prems(2) n by (auto simp: k_def split: prod.splits)
    note IH = Suc.IH [OF sub c]
    then have "node_ok (Suc h) slot'"
      unfolding slot' by (intro node_ok_set_slot [OF ok k]) auto
    moreover have "lookup_loop (Suc h) slot' j = (if radix_offset h j = k then lookup_loop h child j else lookup_loop (Suc h) slot j)" for j
      unfolding slot' lk using lookup_set_slot [OF len k] by simp
    moreover have "lookup_loop (Suc h) slot j = lookup_loop h (slots ! k) j" if "radix_offset h j = k" for j
      unfolding lk using that by simp
    moreover have "same_low (Suc h) index j \<longleftrightarrow> radix_offset h j = k \<and> same_low h index j" for j
      by (auto simp: same_low_Suc k_def)
    ultimately show ?thesis
      using IH by (auto simp: k_def simp del: lookup_loop.simps node_ok.simps)
  qed
qed

definition radix_ok :: "'a radix_tree_root \<Rightarrow> bool" where
  "radix_ok rt \<longleftrightarrow> rt_height rt < RADIX_TREE_MAX_PATH \<and>
     (if rt_rnode rt = R_Null then rt_height rt = 0 else 0 < rt_height rt \<and> node_ok (rt_height rt) (rt_rnode rt))"

lemma radix_ok_init: "radix_ok INIT_RADIX_TREE"
  by (simp add: radix_ok_def INIT_RADIX_TREE_def RADIX_TREE_MAX_PATH_def)

lemma lookup_root:
  assumes "rt_height rt < RADIX_TREE_MAX_PATH"
  shows "radix_tree_lookup rt j =
    (if unat j < 64 ^ rt_height rt then lookup_loop (rt_height rt) (rt_rnode rt) j else R_Null)"
  using maxindex_less [OF assms, of j] by (auto simp: radix_tree_lookup_def not_le)

lemma same_low_eq: "unat i < 64 ^ h \<Longrightarrow> unat j < 64 ^ h \<Longrightarrow> same_low h i j \<longleftrightarrow> i = j"
  by (auto simp: same_low_def intro: unsigned_word_eqI)

lemma every_index: "unat (i :: u64) < 64 ^ 11"
proof -
  have "unat i < 2 ^ 64" using unsigned_less [of i] by simp
  then show ?thesis by simp
qed

lemma new_height_Some:
  assumes "h < RADIX_TREE_MAX_PATH"
  shows "\<exists>h'. new_height index h = Some h' \<and> h \<le> h' \<and> h' < RADIX_TREE_MAX_PATH \<and> unat index < 64 ^ h'"
  using assms
proof (induction "RADIX_TREE_MAX_PATH - h" arbitrary: h)
  case (Suc n)
  show ?case
  proof (cases "index > radix_tree_maxindex h")
    case False
    then show ?thesis using Suc.prems maxindex_less [OF Suc.prems, of index] by (subst new_height.simps) auto
  next
    case True
    then have "\<not> unat index < 64 ^ h" using maxindex_less [OF Suc.prems, of index] by (metis not_le)
    then have "h \<noteq> 11" using every_index [of index] by auto
    with Suc.prems have "Suc h < RADIX_TREE_MAX_PATH" by (simp add: RADIX_TREE_MAX_PATH_def)
    moreover have "n = RADIX_TREE_MAX_PATH - Suc h" using Suc.hyps(2) by simp
    ultimately obtain h' where "new_height index (Suc h) = Some h'" "Suc h \<le> h'"
      "h' < RADIX_TREE_MAX_PATH" "unat index < 64 ^ h'" using Suc.hyps(1) by blast
    then show ?thesis using True Suc.prems by (subst new_height.simps) auto
  qed
qed simp

text \<open>A node on top of the root.\<close>

lemma wrapped_root:
  assumes ok: "node_ok h r" and h: "Suc h < RADIX_TREE_MAX_PATH"
  shows "node_ok (Suc h) (R_Node 1 ((replicate 64 R_Null)[0 := r]) [0, 0])"
    "radix_tree_lookup \<lparr>rt_height = Suc h, rt_rnode = R_Node 1 ((replicate 64 R_Null)[0 := r]) [0, 0]\<rparr> j =
     radix_tree_lookup \<lparr>rt_height = h, rt_rnode = r\<rparr> j"
proof -
  have "r \<noteq> R_Null" using ok by auto
  then have "used_slots ((replicate 64 R_Null)[0 := r]) = 1"
    using used_slots_update [of 0 "replicate 64 R_Null" r] by simp
  with ok show "node_ok (Suc h) (R_Node 1 ((replicate 64 R_Null)[0 := r]) [0, 0])"
    by (auto simp: list_all_length nth_list_update)
  have "radix_offset h j = 0 \<longleftrightarrow> unat j < 64 ^ h" if "unat j < 64 ^ Suc h"
  proof -
    have "unat j div 64 ^ h < 64" using that by (simp add: less_mult_imp_div_less mult.commute)
    then show ?thesis by (simp add: radix_offset_eq div_eq_0_iff)
  qed
  moreover have "unat j < 64 ^ h \<Longrightarrow> unat j < 64 ^ Suc h" by simp
  ultimately show "radix_tree_lookup \<lparr>rt_height = Suc h, rt_rnode = R_Node 1 ((replicate 64 R_Null)[0 := r]) [0, 0]\<rparr> j =
     radix_tree_lookup \<lparr>rt_height = h, rt_rnode = r\<rparr> j"
    using h by (auto simp: lookup_root nth_list_update simp del: power_Suc)
qed

lemma extend_loop_spec:
  assumes "node_ok (rt_height rt) (rt_rnode rt)" and "0 < rt_height rt" and "rt_height rt + n < RADIX_TREE_MAX_PATH"
    and "extend_loop n [False, False] rt w = ((ret, rt'), w')"
  shows "node_ok (rt_height rt') (rt_rnode rt') \<and> 0 < rt_height rt' \<and> rt_height rt' < RADIX_TREE_MAX_PATH \<and>
    (ret = 0 \<and> rt_height rt' = rt_height rt + n \<or> ret = - ENOMEM) \<and> (\<forall>j. radix_tree_lookup rt' j = radix_tree_lookup rt j)"
  using assms
proof (induction n arbitrary: rt w)
  case (Suc n)
  have h: "Suc (rt_height rt) < RADIX_TREE_MAX_PATH" using Suc.prems(3) by simp
  consider (fail) w1 where "radix_tree_node_alloc w = (R_Null :: 'a radix_slot, w1)"
    | (ok) w1 where "radix_tree_node_alloc w = (R_Node 0 (replicate 64 R_Null :: 'a radix_slot list) [0, 0], w1)"
    by (rule node_alloc_cases)
  then show ?case
  proof cases
    case fail
    with Suc.prems show ?thesis by auto
  next
    case ok
    let ?rt = "\<lparr>rt_height = Suc (rt_height rt), rt_rnode = R_Node 1 ((replicate 64 R_Null)[0 := rt_rnode rt]) [0, 0]\<rparr>"
    have "[0..<RADIX_TREE_MAX_TAGS] = [0, 1]" by (simp add: RADIX_TREE_MAX_TAGS_def upt_rec)
    then have "extend_loop n [False, False] ?rt w1 = ((ret, rt'), w')"
      using Suc.prems(4) ok by simp
    moreover have "radix_tree_lookup ?rt j = radix_tree_lookup rt j" for j
      using wrapped_root(2) [OF Suc.prems(1) h, of j] by (cases rt) simp
    ultimately show ?thesis
      using Suc.IH [of ?rt w1] Suc.prems(3) wrapped_root(1) [OF Suc.prems(1) h] by simp
  qed
qed (auto simp: RADIX_TREE_MAX_PATH_def)

lemma extend_spec:
  assumes ok: "radix_ok rt" and grow: "rt_rnode rt = R_Null \<or> index > radix_tree_maxindex (rt_height rt)"
  shows "\<exists>ret rt' w'. radix_tree_extend rt index w = Some ((ret, rt'), w') \<and>
    (rt_rnode rt' = R_Null \<or> node_ok (rt_height rt') (rt_rnode rt')) \<and> 0 < rt_height rt' \<and>
    rt_height rt' < RADIX_TREE_MAX_PATH \<and> (rt_rnode rt \<noteq> R_Null \<longrightarrow> rt_rnode rt' \<noteq> R_Null) \<and>
    (ret = 0 \<and> unat index < 64 ^ rt_height rt' \<or> ret = - ENOMEM) \<and> (\<forall>j. radix_tree_lookup rt' j = radix_tree_lookup rt j)"
proof -
  have h: "rt_height rt < RADIX_TREE_MAX_PATH" using ok by (simp add: radix_ok_def)
  have "Suc (rt_height rt) < RADIX_TREE_MAX_PATH"
  proof (cases "rt_rnode rt = R_Null")
    case True
    with ok show ?thesis by (simp add: radix_ok_def RADIX_TREE_MAX_PATH_def)
  next
    case False
    with grow maxindex_less [OF h, of index] have "\<not> unat index < 64 ^ rt_height rt" by (metis not_le)
    then have "rt_height rt \<noteq> 11" using every_index [of index] by auto
    with h show ?thesis by (simp add: RADIX_TREE_MAX_PATH_def)
  qed
  from new_height_Some [OF this, of index] obtain h' where h': "new_height index (rt_height rt + 1) = Some h'"
    "rt_height rt < h'" "h' < RADIX_TREE_MAX_PATH" "unat index < 64 ^ h'" by auto
  show ?thesis
  proof (cases "rt_rnode rt = R_Null")
    case True
    with h' h show ?thesis by (auto simp: radix_tree_extend_def lookup_root)
  next
    case False
    with ok have n: "node_ok (rt_height rt) (rt_rnode rt)" "0 < rt_height rt" by (simp_all add: radix_ok_def)
    then obtain hh where hh: "rt_height rt = Suc hh" by (cases "rt_height rt") auto
    from n(1) [unfolded hh] obtain count slots where r: "rt_rnode rt = R_Node count slots [0, 0]"
      by (rule node_ok_cases)
    have tags: "map (any_tag_set [0, 0]) [0..<RADIX_TREE_MAX_TAGS] = [False, False]"
      by (simp add: RADIX_TREE_MAX_TAGS_def upt_rec any_tag_set_def)
    obtain ret rt' w' where e: "extend_loop (h' - rt_height rt) [False, False] rt w = ((ret, rt'), w')"
      by (cases "extend_loop (h' - rt_height rt) [False, False] rt w") auto
    with h' r tags have "radix_tree_extend rt index w = Some ((ret, rt'), w')"
      by (simp add: radix_tree_extend_def)
    with extend_loop_spec [OF n _ e] h' show ?thesis by auto
  qed
qed

lemma radix_insert_spec:
  assumes ok: "radix_ok rt"
  shows "\<exists>ret rt' w'. radix_tree_insert rt index item w = Some ((ret, rt'), w') \<and> (ret \<noteq> - ENOMEM \<or> rt_rnode rt \<noteq> R_Null \<longrightarrow> radix_ok rt') \<and>
    (ret = 0 \<and> radix_tree_lookup rt index = R_Null \<and>
       (\<forall>j. radix_tree_lookup rt' j = (if j = index then R_Item item else radix_tree_lookup rt j))
     \<or> (ret = - EEXIST \<and> radix_tree_lookup rt index \<noteq> R_Null \<or> ret = - ENOMEM) \<and>
       (\<forall>j. radix_tree_lookup rt' j = radix_tree_lookup rt j))"
proof -
  define grow where "grow \<longleftrightarrow> index = 0 \<and> rt_rnode rt = R_Null \<or> index > radix_tree_maxindex (rt_height rt)"
  have h: "rt_height rt < RADIX_TREE_MAX_PATH" using ok by (simp add: radix_ok_def)
  have null: "(case rt_rnode rt of R_Null \<Rightarrow> True | _ \<Rightarrow> False) \<longleftrightarrow> rt_rnode rt = R_Null" by (simp split: radix_slot.split)
  obtain err rt1 w1 where e: "(if grow then radix_tree_extend rt index w else Some ((0, rt), w)) = Some ((err, rt1), w1)"
    and r1: "rt_rnode rt1 = R_Null \<or> node_ok (rt_height rt1) (rt_rnode rt1)" "0 < rt_height rt1"
      "rt_height rt1 < RADIX_TREE_MAX_PATH" "err = 0 \<and> unat index < 64 ^ rt_height rt1 \<or> err = - ENOMEM"
      "\<And>j. radix_tree_lookup rt1 j = radix_tree_lookup rt j" "rt_rnode rt \<noteq> R_Null \<Longrightarrow> rt_rnode rt1 \<noteq> R_Null"
  proof (cases grow)
    case True
    then have "rt_rnode rt = R_Null \<or> index > radix_tree_maxindex (rt_height rt)" by (auto simp: grow_def)
    from extend_spec [OF ok this, of w] True that show thesis by auto
  next
    case False
    then have i: "unat index < 64 ^ rt_height rt" using maxindex_less [OF h, of index] by (auto simp: grow_def)
    have "rt_rnode rt \<noteq> R_Null"
    proof
      assume n: "rt_rnode rt = R_Null"
      with ok i have "index = 0" by (simp add: radix_ok_def unat_eq_zero)
      with n False show False by (simp add: grow_def)
    qed
    with ok i that [of 0 rt w] False show thesis by (simp add: radix_ok_def)
  qed
  show ?thesis
  proof (cases "err = 0")
    case False
    with e null r1 have "radix_tree_insert rt index item w = Some ((err, rt1), w1)"
      by (simp add: radix_tree_insert_def grow_def)
    moreover have "rt_rnode rt \<noteq> R_Null \<Longrightarrow> radix_ok rt1" using r1 by (auto simp: radix_ok_def)
    ultimately show ?thesis using False r1(4,5) by (simp add: ENOMEM_def EEXIST_def)
  next
    case True
    obtain ret slot' w2 where l: "insert_loop (rt_height rt1) index item (rt_rnode rt1) w1 = ((ret, slot'), w2)"
      by (cases "insert_loop (rt_height rt1) index item (rt_rnode rt1) w1") auto
    have ins: "radix_tree_insert rt index item w = Some ((ret, rt1\<lparr>rt_rnode := slot'\<rparr>), w2)"
      using e null True l by (simp add: radix_tree_insert_def grow_def)
    note spec = insert_loop_spec [OF r1(1) l]
    have i: "unat index < 64 ^ rt_height rt1" using r1(4) True by (simp add: ENOMEM_def)
    have "same_low (rt_height rt1) index j \<longleftrightarrow> j = index" if "unat j < 64 ^ rt_height rt1" for j
      using same_low_eq [OF i that] by auto
    then have lk: "(\<forall>j. lookup_loop (rt_height rt1) slot' j = (if same_low (rt_height rt1) index j then R_Item item
          else lookup_loop (rt_height rt1) (rt_rnode rt1) j)) \<Longrightarrow>
        radix_tree_lookup (rt1\<lparr>rt_rnode := slot'\<rparr>) j = (if j = index then R_Item item else radix_tree_lookup rt j)"
      "(\<forall>j. lookup_loop (rt_height rt1) slot' j = lookup_loop (rt_height rt1) (rt_rnode rt1) j) \<Longrightarrow>
        radix_tree_lookup (rt1\<lparr>rt_rnode := slot'\<rparr>) j = radix_tree_lookup rt j"
      "radix_tree_lookup rt index = lookup_loop (rt_height rt1) (rt_rnode rt1) index" for j
      using r1(3) i by (auto simp: lookup_root simp flip: r1(5))
    have "radix_ok (rt1\<lparr>rt_rnode := slot'\<rparr>)" if "ret \<noteq> - ENOMEM \<or> rt_rnode rt \<noteq> R_Null"
      using spec that r1(2,3,6) by (auto simp: radix_ok_def)
    with ins spec lk show ?thesis by auto
  qed
qed

section \<open>Deletion\<close>

text \<open>Deletion as one recursion, which the code spreads over three loops along the path.\<close>

primrec cut_item :: "nat \<Rightarrow> u64 \<Rightarrow> 'a radix_slot \<Rightarrow> 'a radix_slot" where
  "cut_item 0 index slot = R_Null"
| "cut_item (Suc h) index slot =
     (case slot of
        R_Node count slots tags \<Rightarrow>
          (let k = radix_offset h index; child = cut_item h index (slots ! k)
           in if child \<noteq> R_Null then R_Node count (slots[k := child]) tags
              else if count - 1 \<noteq> 0 then R_Node (count - 1) (slots[k := R_Null]) tags
              else R_Null)
      | _ \<Rightarrow> R_Null)"

lemma used_slots_0: "used_slots slots = 0 \<Longrightarrow> i < length slots \<Longrightarrow> slots ! i = R_Null"
  using used_slots_pos by fastforce

lemma cut_item_spec:
  assumes "node_ok h slot" and "lookup_loop h slot index \<noteq> R_Null"
  shows "(cut_item h index slot = R_Null \<or> node_ok h (cut_item h index slot)) \<and>
    (\<forall>j. lookup_loop h (cut_item h index slot) j = (if same_low h index j then R_Null else lookup_loop h slot j))"
  using assms
proof (induction h arbitrary: slot)
  case (Suc h)
  obtain count slots where slot: "slot = R_Node count slots [0, 0]" and len: "length slots = 64"
    and count: "count = used_slots slots" and sub: "\<And>i. i < 64 \<Longrightarrow> slots ! i = R_Null \<or> node_ok h (slots ! i)"
    using Suc.prems(1) by (rule node_ok_cases) blast
  define k where "k = radix_offset h index"
  have k: "k < 64" by (simp add: k_def)
  have lk: "lookup_loop h (slots ! k) index \<noteq> R_Null" using Suc.prems(2) by (simp add: slot k_def)
  then have nk: "slots ! k \<noteq> R_Null" by auto
  with sub k have "node_ok h (slots ! k)" by blast
  note IH = Suc.IH [OF this lk]
  define child where "child = cut_item h index (slots ! k)"
  have sl: "same_low (Suc h) index j \<longleftrightarrow> radix_offset h j = k \<and> same_low h index j" for j
    by (auto simp: same_low_Suc k_def)
  show ?case
  proof (cases "child = R_Null")
    case False
    then have c: "cut_item (Suc h) index slot = R_Node count (slots[k := child]) [0, 0]"
      by (simp add: slot child_def k_def Let_def)
    have "used_slots (slots[k := child]) = count"
      using used_slots_update [of k slots child] len k nk False count by simp
    then have "node_ok (Suc h) (R_Node count (slots[k := child]) [0, 0])"
      using IH False sub len k by (auto simp: list_all_length nth_list_update child_def)
    then show ?thesis
      unfolding c using IH False len k sl by (auto simp: slot nth_list_update child_def simp del: node_ok.simps)
  next
    case True
    have u: "used_slots (slots[k := R_Null]) = count - 1"
      using used_slots_update [of k slots R_Null] len k nk count by simp
    have gone: "lookup_loop h (slots ! k) j = R_Null" if "\<not> same_low h index j" for j
      using IH that True by (simp add: child_def) (metis lookup_R_Null)
    show ?thesis
    proof (cases "count - 1 = 0")
      case False
      with True have c: "cut_item (Suc h) index slot = R_Node (count - 1) (slots[k := R_Null]) [0, 0]"
        by (simp add: slot child_def k_def Let_def)
      have "node_ok (Suc h) (R_Node (count - 1) (slots[k := R_Null]) [0, 0])"
        using u sub len k by (auto simp: list_all_length nth_list_update)
      then show ?thesis
        unfolding c using gone len k sl by (auto simp: slot nth_list_update simp del: node_ok.simps)
    next
      case zero: True
      with True have c: "cut_item (Suc h) index slot = R_Null"
        by (simp add: slot child_def k_def Let_def)
      have "slots ! i = R_Null" if "i < 64" "i \<noteq> k" for i
        using used_slots_0 [of "slots[k := R_Null]" i] u zero that len by simp
      then have "lookup_loop (Suc h) slot j = R_Null" if "\<not> same_low (Suc h) index j" for j
        using gone [of j] sl [of j] that by (cases "radix_offset h j = k") (simp_all add: slot)
      then show ?thesis unfolding c by simp
    qed
  qed
qed simp

definition plain_step :: "'a radix_slot \<times> nat \<Rightarrow> bool" where
  "plain_step step \<longleftrightarrow> (\<exists>count slots. fst step = R_Node count slots [0, 0])"

lemma clear_path_tags_plain: "list_all plain_step path \<Longrightarrow> clear_path_tags path = path"
proof (cases path)
  case (Cons step up)
  assume "list_all plain_step path"
  with Cons have "plain_step step" by simp
  then obtain count slots where "fst step = R_Node count slots [0, 0]" unfolding plain_step_def by blast
  with Cons have "path = (R_Node count slots [0, 0], snd step) # up" by (cases step) simp
  moreover have "[0..<RADIX_TREE_MAX_TAGS] = [0, 1]" by (simp add: RADIX_TREE_MAX_TAGS_def upt_rec)
  moreover have "clear_inner_tags tags 0 up = up" for tags by (cases up) auto
  ultimately show ?thesis by (simp add: leaf_tag_def tag_get_def)
qed simp

lemma delete_descend_spec:
  assumes "node_ok h slot" and "lookup_loop h slot index \<noteq> R_Null" and "list_all plain_step path"
  shows "\<exists>p b. delete_descend h index slot path = Some (p, lookup_loop h slot index) \<and> list_all plain_step p \<and>
    (\<forall>height. delete_up height p =
       (if cut_item h index slot = R_Null then delete_up height path
        else if path = [] \<and> b then radix_tree_shrink height (cut_item h index slot)
        else \<lparr>rt_height = height, rt_rnode = put_back path (cut_item h index slot)\<rparr>))"
  using assms
proof (induction h arbitrary: slot path)
  case (Suc h)
  obtain count slots where slot: "slot = R_Node count slots [0, 0]"
    and sub: "\<And>i. i < 64 \<Longrightarrow> slots ! i = R_Null \<or> node_ok h (slots ! i)"
    using Suc.prems(1) by (rule node_ok_cases) blast
  define k where "k = radix_offset h index"
  have lk: "lookup_loop h (slots ! k) index \<noteq> R_Null" using Suc.prems(2) by (simp add: slot k_def)
  then have "slots ! k \<noteq> R_Null" by auto
  with sub [of k] have "node_ok h (slots ! k)" by (simp add: k_def)
  moreover have "plain_step (slot, k)" by (auto simp: plain_step_def slot)
  with Suc.prems(3) have "list_all plain_step ((slot, k) # path)" by simp
  ultimately obtain p b where p: "delete_descend h index (slots ! k) ((slot, k) # path) = Some (p, lookup_loop h (slots ! k) index)"
    "list_all plain_step p" and up: "\<And>height. delete_up height p =
       (if cut_item h index (slots ! k) = R_Null then delete_up height ((slot, k) # path)
        else \<lparr>rt_height = height, rt_rnode = put_back ((slot, k) # path) (cut_item h index (slots ! k))\<rparr>)"
    using Suc.IH [OF _ lk, of "(slot, k) # path"] by auto
  have "delete_descend (Suc h) index slot path = Some (p, lookup_loop (Suc h) slot index)"
    using p(1) by (simp add: slot k_def)
  moreover have "delete_up height p =
       (if cut_item (Suc h) index slot = R_Null then delete_up height path
        else if path = [] \<and> cut_item h index (slots ! k) = R_Null then radix_tree_shrink height (cut_item (Suc h) index slot)
        else \<lparr>rt_height = height, rt_rnode = put_back path (cut_item (Suc h) index slot)\<rparr>)" for height
    using up [of height] by (auto simp: slot k_def Let_def)
  ultimately show ?case using p(2) by blast
qed auto

lemma delete_descend_None:
  assumes "slot = R_Null \<or> node_ok h slot" and "lookup_loop h slot index = R_Null"
  shows "case delete_descend h index slot path of None \<Rightarrow> True | Some (_, ret) \<Rightarrow> ret = R_Null"
  using assms
proof (induction h arbitrary: slot path)
  case (Suc h)
  show ?case
  proof (cases "slot = R_Null")
    case False
    with Suc.prems(1) have "node_ok (Suc h) slot" by simp
    then obtain count slots where slot: "slot = R_Node count slots [0, 0]"
      and sub: "\<And>i. i < 64 \<Longrightarrow> slots ! i = R_Null \<or> node_ok h (slots ! i)"
      by (rule node_ok_cases) blast
    from Suc.IH [OF sub [OF radix_offset_less]] Suc.prems(2) slot show ?thesis by simp
  qed simp
qed simp

lemma shrink_spec:
  assumes "node_ok h r" and "0 < h" and "h < RADIX_TREE_MAX_PATH"
  shows "radix_ok (radix_tree_shrink h r) \<and>
    radix_tree_lookup (radix_tree_shrink h r) j = radix_tree_lookup \<lparr>rt_height = h, rt_rnode = r\<rparr> j"
  using assms
proof (induction h arbitrary: r)
  case (Suc h)
  obtain count slots where r: "r = R_Node count slots [0, 0]" and len: "length slots = 64"
    and count: "count = used_slots slots" and sub: "\<And>i. i < 64 \<Longrightarrow> slots ! i = R_Null \<or> node_ok h (slots ! i)"
    using Suc.prems(1) by (rule node_ok_cases) blast
  have null: "(case slots ! 0 of R_Null \<Rightarrow> False | _ \<Rightarrow> True) \<longleftrightarrow> slots ! 0 \<noteq> R_Null" by (simp split: radix_slot.split)
  show ?case
  proof (cases "0 < h \<and> count = 1 \<and> slots ! 0 \<noteq> R_Null")
    case True
    then have ok: "node_ok h (slots ! 0)" using sub [of 0] by simp
    have "used_slots (slots[0 := R_Null]) = 0"
      using used_slots_update [of 0 slots R_Null] True count len by simp
    then have "slots ! i = R_Null" if "i < 64" "i \<noteq> 0" for i
      using used_slots_0 [of "slots[0 := R_Null]" i] that len by simp
    then have "slots = (replicate 64 R_Null)[0 := slots ! 0]"
      using len by (intro nth_equalityI) (auto simp: nth_list_update)
    then have "r = R_Node 1 ((replicate 64 R_Null)[0 := slots ! 0]) [0, 0]" using r True by simp
    with wrapped_root(2) [OF ok Suc.prems(3), of j] Suc.IH [OF ok] True Suc.prems(3) r null show ?thesis by simp
  next
    case False
    then have "radix_tree_shrink (Suc h) r = \<lparr>rt_height = Suc h, rt_rnode = r\<rparr>" using null by (auto simp: r)
    with Suc.prems r show ?thesis by (simp add: radix_ok_def)
  qed
qed simp

lemma radix_delete_spec:
  assumes ok: "radix_ok rt" and d: "radix_tree_delete rt index = (ret, rt')"
  shows "ret = radix_tree_lookup rt index \<and> radix_ok rt' \<and>
    radix_tree_lookup rt' j = (if j = index then R_Null else radix_tree_lookup rt j)"
proof -
  have h: "rt_height rt < RADIX_TREE_MAX_PATH" using ok by (simp add: radix_ok_def)
  note mx = maxindex_less [OF h, of index]
  note slot = ok [unfolded radix_ok_def]
  show ?thesis
  proof (cases "radix_tree_lookup rt index = R_Null")
    case True
    have "(ret, rt') = (R_Null, rt)"
    proof (cases "index \<le> radix_tree_maxindex (rt_height rt)")
      case le: True
      then have "lookup_loop (rt_height rt) (rt_rnode rt) index = R_Null"
        using True by (simp add: radix_tree_lookup_def not_less [symmetric])
      moreover have "rt_rnode rt = R_Null \<or> node_ok (rt_height rt) (rt_rnode rt)" using slot by (auto split: if_splits)
      ultimately show ?thesis
        using delete_descend_None [of "rt_rnode rt" "rt_height rt" index "[]"] d le
        by (auto simp: radix_tree_delete_def leD split: option.splits prod.splits)
    qed (use d in \<open>simp add: radix_tree_delete_def not_le\<close>)
    with True ok show ?thesis by auto
  next
    case False
    then have i: "unat index < 64 ^ rt_height rt" and lk: "lookup_loop (rt_height rt) (rt_rnode rt) index \<noteq> R_Null"
      by (auto simp: lookup_root [OF h] split: if_splits)
    then have "rt_rnode rt \<noteq> R_Null" by auto
    with slot have n: "node_ok (rt_height rt) (rt_rnode rt)" "0 < rt_height rt" by simp_all
    define r where "r = cut_item (rt_height rt) index (rt_rnode rt)"
    obtain p b where p: "delete_descend (rt_height rt) index (rt_rnode rt) [] = Some (p, lookup_loop (rt_height rt) (rt_rnode rt) index)"
      "list_all plain_step p" and "\<forall>height. delete_up height p =
       (if r = R_Null then \<lparr>rt_height = 0, rt_rnode = R_Null\<rparr> else if b then radix_tree_shrink height r
        else \<lparr>rt_height = height, rt_rnode = r\<rparr>)"
      using delete_descend_spec [OF n(1) lk, of "[]"] unfolding r_def by (auto cong: if_cong)
    then have up: "delete_up (rt_height rt) p =
       (if r = R_Null then \<lparr>rt_height = 0, rt_rnode = R_Null\<rparr>
        else if b then radix_tree_shrink (rt_height rt) r else \<lparr>rt_height = rt_height rt, rt_rnode = r\<rparr>)"
      by simp
    have rt': "ret = lookup_loop (rt_height rt) (rt_rnode rt) index" "rt' = delete_up (rt_height rt) p"
      using d p lk mx i clear_path_tags_plain [OF p(2)]
      by (auto simp: radix_tree_delete_def not_less [symmetric] split: radix_slot.splits)
    then have rt'_at: "ret = radix_tree_lookup rt index" using lookup_root [OF h, of index] i by simp
    have cut: "r = R_Null \<or> node_ok (rt_height rt) r"
      "lookup_loop (rt_height rt) r j = (if same_low (rt_height rt) index j then R_Null
         else lookup_loop (rt_height rt) (rt_rnode rt) j)"
      using cut_item_spec [OF n(1) lk] by (simp_all add: r_def)
    have view: "radix_tree_lookup \<lparr>rt_height = rt_height rt, rt_rnode = r\<rparr> j = (if j = index then R_Null else radix_tree_lookup rt j)"
      using cut(2) same_low_eq [OF i, of j] by (auto simp: lookup_root h)
    show ?thesis
    proof (cases "r = R_Null")
      case True
      then have "radix_tree_lookup \<lparr>rt_height = rt_height rt, rt_rnode = r\<rparr> j = R_Null" by (simp add: lookup_root h)
      moreover have "radix_tree_lookup \<lparr>rt_height = 0, rt_rnode = R_Null :: 'a radix_slot\<rparr> j = R_Null"
        by (simp add: radix_tree_lookup_def)
      ultimately show ?thesis
        using True up rt'(2) rt'_at view by (simp add: radix_ok_def RADIX_TREE_MAX_PATH_def)
    next
      case nn: False
      with cut(1) have nr: "node_ok (rt_height rt) r" by simp
      have "radix_ok \<lparr>rt_height = rt_height rt, rt_rnode = r\<rparr>" using nn nr n(2) h by (simp add: radix_ok_def)
      with shrink_spec [OF nr n(2) h, of j] nn up rt'(2) rt'_at view show ?thesis by (cases b; cases "j = index") simp_all
    qed
  qed
qed

section \<open>Properties\<close>

text \<open>
  C32: A tree is a map from \<^verbatim>\<open>unsigned long\<close> to items, and insertion puts one item into it. It never
  reads past \<^verbatim>\<open>height_to_maxindex\<close>; it returns 0 only for an index that had no item, and then that
  index alone has changed, however many nodes the code put above the root and below it; it returns
  \<^verbatim>\<open>-EEXIST\<close> only where there is an item already, and with this or with \<^verbatim>\<open>-ENOMEM\<close> no item has changed.
  The counts of the nodes stay right, except that the tree may keep a height without a root when an
  allocation fails in an empty tree.
\<close>

theorem radix_insert:
  assumes "radix_ok rt"
  shows "\<exists>ret rt' w'. radix_tree_insert rt index item w = Some ((ret, rt'), w') \<and>
    (ret \<noteq> - ENOMEM \<or> rt_rnode rt \<noteq> R_Null \<longrightarrow> radix_ok rt') \<and>
    (ret = 0 \<and> radix_tree_lookup rt index = R_Null \<and>
       (\<forall>j. radix_tree_lookup rt' j = (if j = index then R_Item item else radix_tree_lookup rt j))
     \<or> (ret = - EEXIST \<and> radix_tree_lookup rt index \<noteq> R_Null \<or> ret = - ENOMEM) \<and>
       (\<forall>j. radix_tree_lookup rt' j = radix_tree_lookup rt j))"
  using assms by (rule radix_insert_spec)

text \<open>An item put into the empty tree: a root with one of its 64 slots used.\<close>

definition small_tree :: "nat radix_tree_root" where
  "small_tree = \<lparr>rt_height = 1, rt_rnode = R_Node 1 ((replicate 64 R_Null)[3 := R_Item 7]) [0, 0]\<rparr>"

lemma lookup_INIT: "radix_tree_lookup INIT_RADIX_TREE j = R_Null"
  by (simp add: radix_tree_lookup_def INIT_RADIX_TREE_def)

lemma max_tags: "[0..<RADIX_TREE_MAX_TAGS] = [0, 1]" "replicate RADIX_TREE_MAX_TAGS x = [x, x]"
  by (simp_all add: RADIX_TREE_MAX_TAGS_def upt_rec numeral_2_eq_2)

definition roomy_world :: world where
  "roomy_world = engine_world engine_source 0 engine_source 0\<lparr>w_allocs := []\<rparr>"

lemma small_offset: "radix_offset 0 3 = 3"
  by (simp add: radix_offset_def RADIX_TREE_MAP_SIZE_def RADIX_TREE_MAP_SHIFT_def)

lemma small_tree_ok: "radix_ok small_tree"
  using used_slots_update [of 3 "replicate 64 R_Null" "R_Item (7 :: nat)"]
  by (simp add: radix_ok_def small_tree_def RADIX_TREE_MAX_PATH_def list_all_length nth_list_update)

lemma small_maxindex: "radix_tree_maxindex 0 = 0" "radix_tree_maxindex (Suc 0) = 63"
  by (simp_all add: radix_tree_maxindex_def height_to_maxindex_def maxindex_def RADIX_TREE_MAX_PATH_def RADIX_TREE_MAP_SHIFT_def
      drop_bit_minus_one mask_numeral mask_Suc_exp)

lemma small_tree_inserted:
  "radix_tree_insert INIT_RADIX_TREE 3 7 roomy_world =
   Some ((0, small_tree), roomy_world)"
proof -
  have "new_height 3 1 = Some 1"
    by (subst new_height.simps) (simp add: small_maxindex RADIX_TREE_MAX_PATH_def)
  moreover note small_offset
  moreover have "sys_malloc roomy_world = (True, roomy_world)"
    by (simp add: sys_malloc_def roomy_world_def)
  ultimately show ?thesis
    by (simp add: radix_tree_insert_def INIT_RADIX_TREE_def small_maxindex radix_tree_extend_def radix_tree_node_alloc_def
        set_slot_def small_tree_def RADIX_TREE_MAP_SIZE_def max_tags)
qed

lemma radix_insert_witness:
  "radix_tree_insert INIT_RADIX_TREE 3 7 roomy_world =
     Some ((0, small_tree), roomy_world) \<and>
   radix_ok small_tree \<and> radix_tree_lookup small_tree 3 = R_Item 7 \<and> radix_tree_lookup small_tree 5 = R_Null"
  using radix_insert [OF radix_ok_init, of 3 "7 :: nat" "roomy_world"] small_tree_inserted
  by (auto simp: ENOMEM_def EEXIST_def lookup_INIT)

text \<open>
  C33: Deletion returns the item of the index, or \<^verbatim>\<open>NULL\<close>, and takes it out: every other index keeps its
  item, although the code frees the nodes that the deletion empties and lowers the root.
  The counts of the nodes stay right.
\<close>

theorem radix_delete:
  assumes "radix_ok rt" and "radix_tree_delete rt index = (ret, rt')"
  shows "ret = radix_tree_lookup rt index \<and> radix_ok rt' \<and>
    radix_tree_lookup rt' j = (if j = index then R_Null else radix_tree_lookup rt j)"
  using assms by (rule radix_delete_spec)

lemma radix_delete_witness:
  "radix_tree_delete small_tree 3 = (R_Item 7, INIT_RADIX_TREE) \<and> radix_tree_lookup small_tree 3 = R_Item 7"
proof -
  have "radix_ok small_tree" by (rule small_tree_ok)
  moreover have "radix_tree_delete small_tree 3 = (R_Item 7, INIT_RADIX_TREE)"
    by (simp add: radix_tree_delete_def small_tree_def small_maxindex small_offset INIT_RADIX_TREE_def
        max_tags leaf_tag_def tag_get_def)
  ultimately show ?thesis using radix_delete [of small_tree 3 "R_Item 7" INIT_RADIX_TREE] by simp
qed

end
