(* ===== verification/Perag.thy ===== *)
theory Perag
  imports RadixTree
begin

text \<open>
  \<^verbatim>\<open>libxfs_initialize_perag\<close> of \<^verbatim>\<open>src/src/xfs/xfs_init.c\<close>: the descriptions of the allocation groups: the loop
  that adds those that are missing to the radix tree, and the way back
  when it fails. The tree holds the descriptions themselves, because nothing else points to them;
  a group that is there already has its reference count raised and lowered again, which is left
  out. \<^verbatim>\<open>XFS_MOUNT_SMALL_INUMS\<close> is 0 in \<^verbatim>\<open>libxfs.h\<close>, so the test for 32-bit inode numbers fails whatever
  the numbers are, its branch is never taken, and the loop of the other branch is empty and ends at \<^verbatim>\<open>agcount\<close>.
\<close>

section \<open>Definitions\<close>

type_synonym xfs_agnumber_t = "32 word"

record perag =
  pag_agno :: xfs_agnumber_t
  pag_ref :: int

text \<open>\<^verbatim>\<open>kmem_zalloc\<close> clears the memory before anyone has looked at the pointer: \<^term>\<open>None\<close> is a write through \<^verbatim>\<open>NULL\<close>.\<close>

definition kmem_zalloc :: "world \<Rightarrow> world option" where
  "kmem_zalloc w = (case sys_malloc w of (ok, w) \<Rightarrow> if ok then Some w else None)"

text \<open>The loop: the index at which it left for \<^verbatim>\<open>out_unwind\<close>, \<^verbatim>\<open>first_initialised\<close> and the tree.\<close>

primrec perag_walk ::
    "xfs_agnumber_t list \<Rightarrow> xfs_agnumber_t \<Rightarrow> perag radix_tree_root \<Rightarrow> world
     \<Rightarrow> ((xfs_agnumber_t option \<times> xfs_agnumber_t \<times> perag radix_tree_root) \<times> world) option" where
  "perag_walk [] first_initialised tree w = Some ((None, first_initialised, tree), w)"
| "perag_walk (index # indices) first_initialised tree w =
     (case radix_tree_lookup tree (ucast index) of
        R_Null \<Rightarrow>
          (let first_initialised = (if first_initialised = 0 then index else first_initialised)
           in case kmem_zalloc w of
                None \<Rightarrow> None
              | Some w \<Rightarrow>
                  (case radix_tree_insert tree (ucast index) \<lparr>pag_agno = index, pag_ref = 0\<rparr> w of
                     None \<Rightarrow> None
                   | Some ((ret, tree), w) \<Rightarrow>
                       if ret \<noteq> 0 then Some ((Some index, first_initialised, tree), w)
                       else perag_walk indices first_initialised tree w))
      | _ \<Rightarrow> perag_walk indices first_initialised tree w)"

text \<open>\<^verbatim>\<open>out_unwind\<close>, where \<open>n\<close> is how far \<^verbatim>\<open>index\<close> is above \<^verbatim>\<open>first_initialised\<close>.\<close>

primrec perag_unwind :: "nat \<Rightarrow> xfs_agnumber_t \<Rightarrow> perag radix_tree_root \<Rightarrow> perag radix_tree_root" where
  "perag_unwind 0 first_initialised tree = tree"
| "perag_unwind (Suc n) first_initialised tree =
     perag_unwind n first_initialised (snd (radix_tree_delete tree (ucast (first_initialised + of_nat (Suc n)))))"

definition XFS_MOUNT_32BITINODES :: u32 where "XFS_MOUNT_32BITINODES = 0x0002"

text \<open>The error, the tree, \<^verbatim>\<open>m_flags\<close>, and what is put into \<^verbatim>\<open>maxagi\<close>, if anything.\<close>

definition libxfs_initialize_perag ::
    "perag radix_tree_root \<Rightarrow> u32 \<Rightarrow> xfs_agnumber_t \<Rightarrow> world
     \<Rightarrow> ((int \<times> perag radix_tree_root \<times> u32 \<times> xfs_agnumber_t option) \<times> world) option" where
  "libxfs_initialize_perag tree m_flags agcount w =
     (case perag_walk (map of_nat [0..<unat agcount]) 0 tree w of
        None \<Rightarrow> None
      | Some ((None, _, tree), w) \<Rightarrow> Some ((0, tree, m_flags AND NOT XFS_MOUNT_32BITINODES, Some agcount), w)
      | Some ((Some index, first_initialised, tree), w) \<Rightarrow>
          Some ((- EEXIST, perag_unwind (unat index - unat first_initialised) first_initialised tree, m_flags, None), w))"

section \<open>Lemmas\<close>

text \<open>The tree that holds the descriptions of the groups below \<open>n\<close>.\<close>

definition perags :: "nat \<Rightarrow> u64 \<Rightarrow> perag radix_slot" where
  "perags n j = (if unat j < n then R_Item \<lparr>pag_agno = ucast j, pag_ref = 0\<rparr> else R_Null)"

lemma wide_unat: "unat (x :: xfs_agnumber_t) = n \<Longrightarrow> unat (ucast x :: u64) = n"
proof -
  assume n: "unat x = n"
  moreover have "unat x < 2 ^ 32" using unsigned_less [of x] by simp
  ultimately show ?thesis by (simp add: unsigned_ucast_eq take_bit_nat_eq_self)
qed

lemma unwind_spec:
  assumes "radix_ok tree" and "unat f + n < 2 ^ 32"
  shows "radix_tree_lookup (perag_unwind n f tree) j =
    (if unat f < unat j \<and> unat j \<le> unat f + n then R_Null else radix_tree_lookup tree j)"
  using assms
proof (induction n arbitrary: tree)
  case (Suc n)
  define i :: u64 where "i = ucast (f + of_nat (Suc n))"
  have "unat (f + of_nat (Suc n)) = (unat f + Suc n) mod 2 ^ 32"
    by (simp add: unat_word_ariths unat_of_nat mod_simps del: of_nat_Suc)
  also have "\<dots> = unat f + Suc n" using Suc.prems(2) by simp
  finally have i: "unat i = unat f + Suc n" unfolding i_def by (rule wide_unat)
  obtain ret tree' where d: "radix_tree_delete tree i = (ret, tree')" by (cases "radix_tree_delete tree i")
  from radix_delete_spec [OF Suc.prems(1) d] have ok: "radix_ok tree'"
    and lk: "\<And>j. radix_tree_lookup tree' j = (if j = i then R_Null else radix_tree_lookup tree j)" by auto
  have "perag_unwind (Suc n) f tree = perag_unwind n f tree'" using d by (simp add: i_def)
  moreover have "j = i \<longleftrightarrow> unat j = unat f + Suc n" using i by (metis unsigned_word_eqI)
  ultimately show ?case using Suc.IH [OF ok] Suc.prems(2) lk by auto
qed auto

lemma walk_spec:
  assumes "radix_ok tree" and "\<And>j. radix_tree_lookup tree j = perags i j" and "i \<le> n" and "n < 2 ^ 32"
    and "f = (if i \<le> 1 then 0 else 1)"
    and "perag_walk (map of_nat [i..<n]) f tree w = Some ((stopped, f', tree'), w')"
  shows "case stopped of
      None \<Rightarrow> radix_ok tree' \<and> (\<forall>j. radix_tree_lookup tree' j = perags n j)
    | Some k \<Rightarrow> unat k < n \<and> f' = (if unat k = 0 then 0 else 1) \<and> (0 < unat k \<longrightarrow> radix_ok tree')
        \<and> (\<forall>j. radix_tree_lookup tree' j = perags (unat k) j)"
  using assms
proof (induction "n - i" arbitrary: i f tree w)
  case 0
  then show ?case by simp
next
  case (Suc m)
  let ?x = "of_nat i :: xfs_agnumber_t"
  let ?j = "ucast ?x :: u64"
  have i: "i < n" using Suc.hyps(2) by simp
  then have up: "[i..<n] = i # [Suc i..<n]" by (simp add: upt_rec)
  have x: "unat ?x = i" using i Suc.prems(4) by (simp add: unat_of_nat take_bit_nat_eq_self)
  then have j: "unat ?j = i" by (rule wide_unat)
  have none: "radix_tree_lookup tree ?j = R_Null" using Suc.prems(2) j by (simp add: perags_def)
  define f1 :: xfs_agnumber_t where "f1 = (if f = 0 then ?x else f)"
  have f1: "f1 = (if i = 0 then 0 else 1)"
    using Suc.prems(5) x by (cases "i = 1") (auto simp: f1_def)
  obtain w1 where z: "kmem_zalloc w = Some w1"
    using Suc.prems(6) none by (auto simp: up Let_def split: option.splits)
  have root: "0 < i \<Longrightarrow> rt_rnode tree \<noteq> R_Null"
  proof
    assume "0 < i" "rt_rnode tree = R_Null"
    then show False using Suc.prems(2) [of 0] by (simp add: radix_tree_lookup_def perags_def split: if_splits)
  qed
  obtain ret tree1 w2 where ins: "radix_tree_insert tree ?j \<lparr>pag_agno = ?x, pag_ref = 0\<rparr> w1 = Some ((ret, tree1), w2)"
    and ok: "ret \<noteq> - ENOMEM \<or> rt_rnode tree \<noteq> R_Null \<longrightarrow> radix_ok tree1"
    and lk: "ret = 0 \<and> (\<forall>j. radix_tree_lookup tree1 j =
         (if j = ?j then R_Item \<lparr>pag_agno = ?x, pag_ref = 0\<rparr> else radix_tree_lookup tree j))
       \<or> ret = - ENOMEM \<and> (\<forall>j. radix_tree_lookup tree1 j = radix_tree_lookup tree j)"
    using radix_insert_spec [OF Suc.prems(1), of ?j "\<lparr>pag_agno = ?x, pag_ref = 0\<rparr>" w1] none by auto
  show ?case
  proof (cases "ret = 0")
    case False
    then have "stopped = Some ?x" "f' = f1" "tree' = tree1"
      using Suc.prems(6) none z ins by (simp_all add: up Let_def f1_def)
    with False lk ok root x f1 i Suc.prems(2) show ?thesis by auto
  next
    case True
    then have walk: "perag_walk (map of_nat [Suc i..<n]) f1 tree1 w2 = Some ((stopped, f', tree'), w')"
      using Suc.prems(6) none z ins by (simp add: up Let_def f1_def)
    have ok1: "radix_ok tree1" using ok True by (simp add: ENOMEM_def)
    have "radix_tree_lookup tree1 j = perags (Suc i) j" for j
    proof (cases "j = ?j")
      case True
      then have "ucast j = ?x" by (simp add: ucast_up_ucast_id is_up)
      with True lk \<open>ret = 0\<close> j show ?thesis by (simp add: perags_def ENOMEM_def)
    next
      case False
      then have "unat j \<noteq> i" using j by (metis unsigned_word_eqI)
      with False lk \<open>ret = 0\<close> show ?thesis using Suc.prems(2) by (simp add: perags_def ENOMEM_def less_Suc_eq)
    qed
    from Suc.hyps(1) [OF _ ok1 this _ Suc.prems(4) _ walk] Suc.hyps(2) i f1 show ?thesis by simp
  qed
qed

section \<open>Properties\<close>

text \<open>
  C34: From the empty tree of \<^verbatim>\<open>libxfs_mount\<close>, \<^verbatim>\<open>libxfs_initialize_perag\<close> either builds exactly the
  descriptions of the groups below \<^verbatim>\<open>agcount\<close>, or fails. When it fails at group \<open>k\<close>, its way back does not leave
  the empty tree it started from: since \<^verbatim>\<open>first_initialised\<close> is 0 both for ``not set'' and for the first group,
  and since the loop stops above it, the groups 0 and 1 stay, if they were there.
\<close>

theorem initialize_perag:
  assumes "libxfs_initialize_perag INIT_RADIX_TREE m_flags agcount w = Some ((ret, tree, m_flags', maxagi), w')"
  shows "ret = 0 \<and> maxagi = Some agcount \<and> radix_ok tree \<and> (\<forall>j. radix_tree_lookup tree j = perags (unat agcount) j)
    \<or> ret = - EEXIST \<and> maxagi = None \<and> (\<exists>k < unat agcount. \<forall>j. radix_tree_lookup tree j = perags (min k 2) j)"
proof -
  have n: "unat agcount < 2 ^ 32" using unsigned_less [of agcount] by simp
  have e: "radix_tree_lookup INIT_RADIX_TREE j = perags 0 j" for j by (simp add: lookup_INIT perags_def)
  from assms obtain stopped f tree1 w1 where
    walk: "perag_walk (map of_nat [0..<unat agcount]) 0 INIT_RADIX_TREE w = Some ((stopped, f, tree1), w1)"
    by (auto simp: libxfs_initialize_perag_def split: option.splits prod.splits)
  note spec = walk_spec [OF radix_ok_init e _ n _ walk]
  show ?thesis
  proof (cases stopped)
    case None
    with spec walk assms show ?thesis by (simp add: libxfs_initialize_perag_def)
  next
    case (Some k)
    with spec have k: "unat k < unat agcount" "f = (if unat k = 0 then 0 else 1)" "0 < unat k \<longrightarrow> radix_ok tree1"
      "\<And>j. radix_tree_lookup tree1 j = perags (unat k) j" by auto
    have ret: "ret = - EEXIST" "maxagi = None" "tree = perag_unwind (unat k - unat f) f tree1"
      using Some walk assms by (simp_all add: libxfs_initialize_perag_def)
    have "radix_tree_lookup tree j = perags (min (unat k) 2) j" for j
    proof (cases "unat k = 0")
      case True
      with k ret show ?thesis by simp
    next
      case False
      with k have f: "f = 1" "radix_ok tree1" by simp_all
      then have "unat f + (unat k - unat f) < 2 ^ 32" using k(1) n False by simp
      from unwind_spec [OF f(2) this, of j] show ?thesis
        using f(1) k(4) False unfolding ret(3) by (auto simp: perags_def min_def)
    qed
    with ret(1,2) k(1) show ?thesis by blast
  qed
qed

definition two_groups :: "perag radix_tree_root" where
  "two_groups = \<lparr>rt_height = 1, rt_rnode = R_Node 2
     (R_Item \<lparr>pag_agno = 0, pag_ref = 0\<rparr> # R_Item \<lparr>pag_agno = 1, pag_ref = 0\<rparr> # replicate 62 R_Null) [0, 0]\<rparr>"

lemma two_groups_built:
  "libxfs_initialize_perag INIT_RADIX_TREE 2 2 roomy_world = Some ((0, two_groups, 0, Some 2), roomy_world)"
proof -
  have m: "sys_malloc roomy_world = (True, roomy_world)" by (simp add: sys_malloc_def roomy_world_def)
  have "replicate 64 (R_Null :: perag radix_slot) = R_Null # R_Null # replicate 62 R_Null"
    by (simp add: replicate_Suc [symmetric] del: replicate_Suc)
  moreover have "radix_offset 0 0 = 0" "radix_offset 0 1 = 1"
    by (simp_all add: radix_offset_def RADIX_TREE_MAP_SIZE_def RADIX_TREE_MAP_SHIFT_def)
  moreover have "new_height 0 1 = Some 1"
    by (subst new_height.simps) (simp add: small_maxindex RADIX_TREE_MAX_PATH_def)
  moreover have "map of_nat [0..<unat (2 :: xfs_agnumber_t)] = [0, 1 :: xfs_agnumber_t]" by (simp add: upt_rec)
  ultimately show ?thesis
    by (simp add: libxfs_initialize_perag_def XFS_MOUNT_32BITINODES_def lookup_INIT kmem_zalloc_def m radix_tree_insert_def INIT_RADIX_TREE_def
        small_maxindex radix_tree_extend_def radix_tree_node_alloc_def radix_tree_lookup_def
        set_slot_def two_groups_def RADIX_TREE_MAP_SIZE_def max_tags)
qed

lemma initialize_perag_witness:
  "libxfs_initialize_perag INIT_RADIX_TREE 2 2 roomy_world = Some ((0, two_groups, 0, Some 2), roomy_world) \<and>
   radix_tree_lookup two_groups 1 = R_Item \<lparr>pag_agno = 1, pag_ref = 0\<rparr> \<and> radix_tree_lookup two_groups 2 = R_Null"
  using two_groups_built initialize_perag [OF two_groups_built] by (simp add: EEXIST_def perags_def)

end
