(* ===== verification/XfsCache.thy ===== *)
theory XfsCache
  imports Perag
begin

text \<open>
  \<^verbatim>\<open>src/src/xfs/cache.c\<close> and \<^verbatim>\<open>cache.h\<close>: the cache in which libxfs keeps the blocks that it has read. A node is
  named by its address. The cache keeps the fields of a node, the hash chains and the lists of
  nodes that are not in use (the MRU lists, one per priority and one for dirty nodes); the rest of the
  object that begins with the node belongs to the client, and the cache reaches it through the
  operations that it was given at its creation. These take and return the state of the client.

  The daemon runs one call at a time, so a mutex is never held by somebody else: locking and
  unlocking has no effect, and \<^verbatim>\<open>pthread_mutex_trylock\<close> succeeds. A failed \<^verbatim>\<open>ASSERT\<close> and an access outside an array
  are \<^term>\<open>None\<close>, and so are a search that never ends and an allocation in which the program faults. \<^verbatim>\<open>cache_abort\<close> is empty, because \<^verbatim>\<open>CACHE_ABORT\<close> is not
  defined.
\<close>

section \<open>Data\<close>

datatype cache_result = CACHE_HIT | CACHE_MISS | CACHE_PURGE

definition CACHE_MISCOMPARE_PURGE :: u32 where "CACHE_MISCOMPARE_PURGE = 1"
definition HASH_CACHE_RATIO :: u32 where "HASH_CACHE_RATIO = 8"
definition CACHE_PREFETCH_PRIORITY :: int where "CACHE_PREFETCH_PRIORITY = 8"
definition CACHE_MAX_PRIORITY :: nat where "CACHE_MAX_PRIORITY = 15"
definition CACHE_DIRTY_PRIORITY :: nat where "CACHE_DIRTY_PRIORITY = CACHE_MAX_PRIORITY + 1"
definition CACHE_SHAKE_COUNT :: nat where "CACHE_SHAKE_COUNT = 64"

type_synonym node_addr = nat

record ('k, 'w) cache_operations =
  op_hash :: "'k \<Rightarrow> u32 \<Rightarrow> u32 \<Rightarrow> u32"
  op_alloc :: "'k \<Rightarrow> 'w \<Rightarrow> (node_addr option \<times> 'w) option"
  op_flush :: "node_addr \<Rightarrow> 'w \<Rightarrow> int \<times> 'w"
  op_relse :: "node_addr \<Rightarrow> 'w \<Rightarrow> 'w"
  op_compare :: "node_addr \<Rightarrow> 'k \<Rightarrow> 'w \<Rightarrow> cache_result"
  op_bulkrelse :: "(node_addr list \<Rightarrow> 'w \<Rightarrow> nat \<times> 'w) option"

record cache_hash =
  ch_list :: "node_addr list"
  ch_count :: u32

record cache_mru =
  cm_list :: "node_addr list"
  cm_count :: u32

record cache_node =
  cn_count :: u32
  cn_hashidx :: nat
  cn_priority :: int
  cn_old_priority :: int

record cache =
  c_flags :: u32
  c_maxcount :: u32
  c_count :: u32
  c_hashsize :: u32
  c_hashshift :: u32
  c_hash :: "cache_hash list"
  c_mrus :: "cache_mru list"
  c_misses :: u64
  c_hits :: u64
  c_max :: u32
  c_node :: "node_addr \<Rightarrow> cache_node"

section \<open>Operations\<close>

text \<open>\<^verbatim>\<open>fls\<close> of \<^verbatim>\<open>xfs_sb.c\<close>: the number of the highest bit that is set.\<close>

definition fls_step :: "nat \<Rightarrow> u32 \<times> int \<Rightarrow> u32 \<times> int" where
  "fls_step n st = (case st of (x, r) \<Rightarrow>
     if x AND NOT (mask (32 - n)) = 0 then (push_bit n x, r - int n) else (x, r))"

definition fls :: "u32 \<Rightarrow> int" where
  "fls x = (if x = 0 then 0 else snd (fold fls_step [16, 8, 4, 2, 1] (x, 32)))"

definition cache_init :: "u32 \<Rightarrow> u32 \<Rightarrow> (node_addr \<Rightarrow> cache_node) \<Rightarrow> world \<Rightarrow> cache option \<times> world" where
  "cache_init flags hashsize memory w =
     (let maxcount = hashsize * HASH_CACHE_RATIO
      in case sys_malloc w of
        (False, w) \<Rightarrow> (None, w)
      | (True, w) \<Rightarrow>
          (case sys_malloc w of
             (False, w) \<Rightarrow> (None, w)
           | (True, w) \<Rightarrow>
               (Some \<lparr>c_flags = flags, c_maxcount = maxcount, c_count = 0, c_hashsize = hashsize,
                   c_hashshift = word_of_int (fls hashsize),
                   c_hash = replicate (unat hashsize) \<lparr>ch_list = [], ch_count = 0\<rparr>,
                   c_mrus = replicate (CACHE_DIRTY_PRIORITY + 1) \<lparr>cm_list = [], cm_count = 0\<rparr>,
                   c_misses = 0, c_hits = 0, c_max = 0, c_node = memory\<rparr>, w)))"

definition cache_expand :: "cache \<Rightarrow> cache" where
  "cache_expand c = c\<lparr>c_maxcount := c_maxcount c * 2\<rparr>"

text \<open>The nodes in the order in which \<^verbatim>\<open>cache_walk\<close> visits them.\<close>

definition cache_walk :: "cache \<Rightarrow> node_addr list" where
  "cache_walk c = concat (map ch_list (c_hash c))"

definition cache_generic_bulkrelse :: "('k, 'w) cache_operations \<Rightarrow> node_addr list \<Rightarrow> 'w \<Rightarrow> nat \<times> 'w" where
  "cache_generic_bulkrelse ops nodes w = (length nodes, fold (op_relse ops) nodes w)"

definition cache_bulkrelse :: "('k, 'w) cache_operations \<Rightarrow> node_addr list \<Rightarrow> 'w \<Rightarrow> nat \<times> 'w" where
  "cache_bulkrelse ops = (case op_bulkrelse ops of Some f \<Rightarrow> f | None \<Rightarrow> cache_generic_bulkrelse ops)"

text \<open>Fields of a node; a node put on and taken off the list of a priority and its hash chain.\<close>

definition set_node :: "node_addr \<Rightarrow> (cache_node \<Rightarrow> cache_node) \<Rightarrow> cache \<Rightarrow> cache" where
  "set_node a f c = c\<lparr>c_node := (c_node c)(a := f (c_node c a))\<rparr>"

definition mru_add :: "nat \<Rightarrow> node_addr \<Rightarrow> cache \<Rightarrow> cache" where
  "mru_add p a c = c\<lparr>c_mrus := (c_mrus c)[p := (case c_mrus c ! p of m \<Rightarrow>
     \<lparr>cm_list = a # cm_list m, cm_count = cm_count m + 1\<rparr>)]\<rparr>"

definition mru_del :: "nat \<Rightarrow> node_addr \<Rightarrow> cache \<Rightarrow> cache" where
  "mru_del p a c = c\<lparr>c_mrus := (c_mrus c)[p := (case c_mrus c ! p of m \<Rightarrow>
     \<lparr>cm_list = remove1 a (cm_list m), cm_count = cm_count m - 1\<rparr>)]\<rparr>"

definition chain_add :: "nat \<Rightarrow> node_addr \<Rightarrow> cache \<Rightarrow> cache" where
  "chain_add i a c = c\<lparr>c_hash := (c_hash c)[i := (case c_hash c ! i of h \<Rightarrow>
     \<lparr>ch_list = a # ch_list h, ch_count = ch_count h + 1\<rparr>)]\<rparr>"

definition chain_unlink :: "nat \<Rightarrow> node_addr \<Rightarrow> cache \<Rightarrow> cache" where
  "chain_unlink i a c = c\<lparr>c_hash := (c_hash c)[i := (c_hash c ! i)\<lparr>ch_list := remove1 a (ch_list (c_hash c ! i))\<rparr>]\<rparr>"

definition chain_less :: "nat \<Rightarrow> cache \<Rightarrow> cache" where
  "chain_less i c = c\<lparr>c_hash := (c_hash c)[i := (c_hash c ! i)\<lparr>ch_count := ch_count (c_hash c ! i) - 1\<rparr>]\<rparr>"

definition cache_add_to_dirty_mru :: "node_addr \<Rightarrow> cache \<Rightarrow> cache" where
  "cache_add_to_dirty_mru a c =
     mru_add CACHE_DIRTY_PRIORITY a
       (set_node a (\<lambda>n. n\<lparr>cn_old_priority := cn_priority n, cn_priority := int CACHE_DIRTY_PRIORITY\<rparr>) c)"

text \<open>The loop of \<^verbatim>\<open>cache_shake\<close>, from the tail of the list on: the nodes on \<^verbatim>\<open>temp\<close>, and \<^verbatim>\<open>count\<close>.\<close>

primrec shake_loop ::
    "('k, 'w) cache_operations \<Rightarrow> nat \<Rightarrow> bool \<Rightarrow> node_addr list \<Rightarrow> node_addr list \<Rightarrow> nat \<Rightarrow> cache \<Rightarrow> 'w
     \<Rightarrow> (node_addr list \<times> nat \<times> cache) \<times> 'w" where
  "shake_loop ops priority purge [] temp count c w = ((temp, count, c), w)"
| "shake_loop ops priority purge (a # as) temp count c w =
     (case op_flush ops a w of (r, w) \<Rightarrow>
        if r \<noteq> 0 \<and> \<not> purge
        then shake_loop ops priority purge as temp count
               (cache_add_to_dirty_mru a (set_node a (\<lambda>n. n\<lparr>cn_priority := -1\<rparr>) (mru_del priority a c))) w
        else (let i = cn_hashidx (c_node c a);
                  c = mru_del priority a (chain_less i (chain_unlink i a (set_node a (\<lambda>n. n\<lparr>cn_priority := -1\<rparr>) c)))
              in if \<not> purge \<and> count + 1 = CACHE_SHAKE_COUNT then ((a # temp, count + 1, c), w)
                 else shake_loop ops priority purge as (a # temp) (count + 1) c w))"

definition cache_shake ::
    "('k, 'w) cache_operations \<Rightarrow> nat \<Rightarrow> bool \<Rightarrow> cache \<Rightarrow> 'w \<Rightarrow> ((nat \<times> cache) \<times> 'w) option" where
  "cache_shake ops priority purge c w =
     (if priority > CACHE_DIRTY_PRIORITY then None
      else (let priority = (if priority > CACHE_MAX_PRIORITY \<and> \<not> purge then 0 else priority)
            in case shake_loop ops priority purge (rev (cm_list (c_mrus c ! priority))) [] 0 c w of
                 ((temp, count, c), w) \<Rightarrow>
                   (case (if count > 0
                          then (c\<lparr>c_count := c_count c - of_nat count\<rparr>, snd (cache_bulkrelse ops temp w))
                          else (c, w)) of
                      (c, w) \<Rightarrow> Some ((if count = CACHE_SHAKE_COUNT then priority else priority + 1, c), w))))"

definition cache_node_allocate ::
    "('k, 'w) cache_operations \<Rightarrow> 'k \<Rightarrow> cache \<Rightarrow> 'w \<Rightarrow> ((node_addr option \<times> cache) \<times> 'w) option" where
  "cache_node_allocate ops key c w =
     (let nodesfree = c_count c < c_maxcount c;
          c = (if nodesfree then c\<lparr>c_count := c_count c + 1, c_max := max (c_max c) (c_count c + 1)\<rparr> else c);
          c = c\<lparr>c_misses := c_misses c + 1\<rparr>
      in if \<not> nodesfree then Some ((None, c), w)
         else (case op_alloc ops key w of
                 None \<Rightarrow> None
               | Some (None, w) \<Rightarrow> Some ((None, c\<lparr>c_count := c_count c - 1\<rparr>), w)
               | Some (Some a, w) \<Rightarrow>
                   Some ((Some a, set_node a (\<lambda>n. n\<lparr>cn_count := 1, cn_priority := 0, cn_old_priority := -1\<rparr>) c), w)))"

definition priority_ok :: "int \<Rightarrow> bool" where
  "priority_ok p \<longleftrightarrow> 0 \<le> p \<and> p \<le> int CACHE_DIRTY_PRIORITY"

text \<open>\<^verbatim>\<open>__cache_node_purge\<close>: 0 when the node is gone.\<close>

definition cache_node_purge :: "('k, 'w) cache_operations \<Rightarrow> node_addr \<Rightarrow> cache \<Rightarrow> 'w \<Rightarrow> ((u32 \<times> cache) \<times> 'w) option" where
  "cache_node_purge ops a c w =
     (let n = c_node c a
      in if cn_count n \<noteq> 0 then Some ((cn_count n, c), w)
         else case op_flush ops a w of (r, w) \<Rightarrow>
           if r \<noteq> 0 then Some ((1, c), w)
           else if \<not> priority_ok (cn_priority n) then None
           else Some ((0, chain_unlink (cn_hashidx n) a (mru_del (nat (cn_priority n)) a c)), op_relse ops a w))"

text \<open>What \<^verbatim>\<open>cache_node_get\<close> does to a node that it has found.\<close>

definition node_hit :: "node_addr \<Rightarrow> cache \<Rightarrow> cache option" where
  "node_hit a c =
     (let n = c_node c a
      in case (if cn_count n = 0
               then if \<not> priority_ok (cn_priority n) \<or> a \<notin> set (concat (map cm_list (c_mrus c))) then None
                    else if cn_old_priority n = -1 then Some (mru_del (nat (cn_priority n)) a c)
                    else if cn_priority n \<noteq> int CACHE_DIRTY_PRIORITY then None
                    else Some (set_node a (\<lambda>n. n\<lparr>cn_priority := cn_old_priority n, cn_old_priority := -1\<rparr>)
                                 (mru_del (nat (cn_priority n)) a c))
               else Some c) of
           None \<Rightarrow> None
         | Some c \<Rightarrow>
             (case set_node a (\<lambda>n. n\<lparr>cn_count := cn_count n + 1\<rparr>) c of c \<Rightarrow> Some (c\<lparr>c_hits := c_hits c + 1\<rparr>)))"

primrec get_scan ::
    "('k, 'w) cache_operations \<Rightarrow> 'k \<Rightarrow> nat \<Rightarrow> node_addr list \<Rightarrow> nat \<Rightarrow> cache \<Rightarrow> 'w
     \<Rightarrow> ((node_addr option \<times> nat \<times> cache) \<times> 'w) option" where
  "get_scan ops key hashidx [] purged c w = Some ((None, purged, c), w)"
| "get_scan ops key hashidx (a # as) purged c w =
     (case op_compare ops a key w of
        CACHE_HIT \<Rightarrow> (case node_hit a c of None \<Rightarrow> None | Some c \<Rightarrow> Some ((Some a, purged, c), w))
      | CACHE_PURGE \<Rightarrow>
          if c_flags c AND CACHE_MISCOMPARE_PURGE \<noteq> 0
          then (case cache_node_purge ops a c w of
                  None \<Rightarrow> None
                | Some ((r, c), w) \<Rightarrow>
                    if r = 0 then get_scan ops key hashidx as (purged + 1) (chain_less hashidx c) w
                    else get_scan ops key hashidx as purged c w)
          else get_scan ops key hashidx as purged c w
      | CACHE_MISS \<Rightarrow> get_scan ops key hashidx as purged c w)"

partial_function (option) cache_node_get_loop ::
    "('k, 'w) cache_operations \<Rightarrow> 'k \<Rightarrow> nat \<Rightarrow> nat \<Rightarrow> nat \<Rightarrow> cache \<Rightarrow> 'w
     \<Rightarrow> ((int \<times> node_addr \<times> cache) \<times> 'w) option" where
  "cache_node_get_loop ops key hashidx priority purged c w =
     (case get_scan ops key hashidx (ch_list (c_hash c ! hashidx)) purged c w of
        None \<Rightarrow> None
      | Some ((Some a, purged, c), w) \<Rightarrow> Some ((0, a, c), w)
      | Some ((None, purged, c), w) \<Rightarrow>
          (case cache_node_allocate ops key c w of
             None \<Rightarrow> None
           | Some ((Some a, c), w) \<Rightarrow>
               (let c = chain_add hashidx a (set_node a (\<lambda>n. n\<lparr>cn_hashidx := hashidx\<rparr>) c)
                in Some ((1, a, c\<lparr>c_count := c_count c - of_nat purged\<rparr>), w))
           | Some ((None, c), w) \<Rightarrow>
               (case cache_shake ops priority False c w of
                  None \<Rightarrow> None
                | Some ((priority, c), w) \<Rightarrow>
                    if priority > CACHE_MAX_PRIORITY
                    then cache_node_get_loop ops key hashidx 0 purged (cache_expand c) w
                    else cache_node_get_loop ops key hashidx priority purged c w)))"

declare cache_node_get_loop.simps [code]

definition cache_node_get ::
    "('k, 'w) cache_operations \<Rightarrow> 'k \<Rightarrow> cache \<Rightarrow> 'w \<Rightarrow> ((int \<times> node_addr \<times> cache) \<times> 'w) option" where
  "cache_node_get ops key c w =
     cache_node_get_loop ops key (unat (op_hash ops key (c_hashsize c) (c_hashshift c))) 0 0 c w"

definition cache_node_put :: "node_addr \<Rightarrow> cache \<Rightarrow> cache option" where
  "cache_node_put a c =
     (let c = set_node a (\<lambda>n. n\<lparr>cn_count := cn_count n - 1\<rparr>) c; n = c_node c a
      in if cn_count n \<noteq> 0 then Some c
         else if \<not> priority_ok (cn_priority n) then None
         else Some (mru_add (nat (cn_priority n)) a c))"

definition cache_node_set_priority :: "node_addr \<Rightarrow> int \<Rightarrow> cache \<Rightarrow> cache option" where
  "cache_node_set_priority a priority c =
     (let priority = (if priority < 0 then 0
                      else if priority > int CACHE_MAX_PRIORITY then int CACHE_MAX_PRIORITY else priority)
      in if cn_count (c_node c a) = 0 then None
         else Some (set_node a (\<lambda>n. n\<lparr>cn_priority := priority, cn_old_priority := -1\<rparr>) c))"

definition cache_node_get_priority :: "node_addr \<Rightarrow> cache \<Rightarrow> int" where
  "cache_node_get_priority a c = cn_priority (c_node c a)"

section \<open>The invariant\<close>

text \<open>
  \<open>live\<close> is the set of the nodes that the cache holds. Every one is in the chain of its hash index, and
  the nodes that are not in use are in the list of their priority, once each; the counters
  are the lengths. The saved priority is always -1.
\<close>

definition chain_ok :: "node_addr set \<Rightarrow> cache \<Rightarrow> nat \<Rightarrow> bool" where
  "chain_ok live c i \<longleftrightarrow> distinct (ch_list (c_hash c ! i))
     \<and> set (ch_list (c_hash c ! i)) = {a \<in> live. cn_hashidx (c_node c a) = i}
     \<and> ch_count (c_hash c ! i) = of_nat (length (ch_list (c_hash c ! i)))"

definition mru_ok :: "node_addr set \<Rightarrow> cache \<Rightarrow> nat \<Rightarrow> bool" where
  "mru_ok live c p \<longleftrightarrow> distinct (cm_list (c_mrus c ! p))
     \<and> set (cm_list (c_mrus c ! p)) = {a \<in> live. cn_count (c_node c a) = 0 \<and> cn_priority (c_node c a) = int p}
     \<and> cm_count (c_mrus c ! p) = of_nat (length (cm_list (c_mrus c ! p)))"

definition cnode_ok :: "cache \<Rightarrow> node_addr \<Rightarrow> bool" where
  "cnode_ok c a \<longleftrightarrow> cn_hashidx (c_node c a) < length (c_hash c) \<and> priority_ok (cn_priority (c_node c a))
     \<and> cn_old_priority (c_node c a) = -1"

definition lists_ok :: "node_addr set \<Rightarrow> cache \<Rightarrow> bool" where
  "lists_ok live c \<longleftrightarrow> finite live \<and> length (c_hash c) = unat (c_hashsize c) \<and> 0 < c_hashsize c
     \<and> length (c_mrus c) = CACHE_DIRTY_PRIORITY + 1
     \<and> (\<forall>i < length (c_hash c). chain_ok live c i) \<and> (\<forall>p < length (c_mrus c). mru_ok live c p) \<and> (\<forall>a \<in> live. cnode_ok c a)"

text \<open>
  The counter \<^verbatim>\<open>c_count\<close> is the number of nodes; in a cache that purges it may be more, see below.
\<close>

definition cache_ok :: "node_addr set \<Rightarrow> cache \<Rightarrow> bool" where
  "cache_ok live c \<longleftrightarrow> lists_ok live c \<and> card live \<le> unat (c_count c)
     \<and> (c_flags c AND CACHE_MISCOMPARE_PURGE = 0 \<longrightarrow> unat (c_count c) = card live)"

lemmas cache_ops = set_node_def mru_add_def mru_del_def chain_add_def chain_unlink_def chain_less_def

lemma lists_okD:
  assumes "lists_ok live c"
  shows "finite live" "length (c_hash c) = unat (c_hashsize c)" "0 < c_hashsize c" "length (c_mrus c) = 17"
    "i < length (c_hash c) \<Longrightarrow> chain_ok live c i" "p < 17 \<Longrightarrow> mru_ok live c p" "a \<in> live \<Longrightarrow> cnode_ok c a"
  using assms by (simp_all add: lists_ok_def CACHE_DIRTY_PRIORITY_def CACHE_MAX_PRIORITY_def)

text \<open>An idle node is on the list of its priority, and any node on its chain.\<close>

lemma idle_on_mru:
  assumes "lists_ok live c" and "a \<in> live" and "cn_count (c_node c a) = 0"
  shows "\<exists>p < 17. cn_priority (c_node c a) = int p \<and> a \<in> set (cm_list (c_mrus c ! p))"
proof -
  have "priority_ok (cn_priority (c_node c a))" using lists_okD(7) [OF assms(1,2)] by (simp add: cnode_ok_def)
  then have "cn_priority (c_node c a) = int (nat (cn_priority (c_node c a)))" "nat (cn_priority (c_node c a)) < 17"
    by (auto simp: priority_ok_def CACHE_DIRTY_PRIORITY_def CACHE_MAX_PRIORITY_def)
  moreover from this(2) lists_okD(6) [OF assms(1)] have "mru_ok live c (nat (cn_priority (c_node c a)))" by blast
  ultimately show ?thesis using assms(2,3) unfolding mru_ok_def by blast
qed

text \<open>A count follows its list.\<close>

lemma count_remove1: "a \<in> set xs \<Longrightarrow> (of_nat (length (remove1 a xs)) :: u32) = of_nat (length xs) - 1"
proof -
  assume "a \<in> set xs"
  then obtain n where "length xs = Suc n" by (cases xs) auto
  with \<open>a \<in> set xs\<close> show ?thesis by (simp add: length_remove1)
qed

text \<open>
  A step that changes one node and the two lists of that node: it is enough to look at these.
\<close>

lemma other_chain_ok:
  assumes "chain_ok live c i" and "c_hash c' ! i = c_hash c ! i"
    and "\<And>b. b \<noteq> a \<Longrightarrow> cn_hashidx (c_node c' b) = cn_hashidx (c_node c b)" and "live' - {a} = live - {a}"
    and "a \<in> live \<Longrightarrow> cn_hashidx (c_node c a) = i \<Longrightarrow> a \<in> live' \<and> cn_hashidx (c_node c' a) = i"
    and "a \<in> live' \<Longrightarrow> cn_hashidx (c_node c' a) = i \<Longrightarrow> a \<in> live \<and> cn_hashidx (c_node c a) = i"
  shows "chain_ok live' c' i"
proof -
  have "b \<in> live' \<and> cn_hashidx (c_node c' b) = i \<longleftrightarrow> b \<in> live \<and> cn_hashidx (c_node c b) = i" for b
  proof (cases "b = a")
    case True
    with assms(5,6) show ?thesis by blast
  next
    case False
    with assms(4) have "b \<in> live' \<longleftrightarrow> b \<in> live" by blast
    with assms(3) [OF False] show ?thesis by simp
  qed
  with assms(1,2) show ?thesis by (simp add: chain_ok_def)
qed

lemma other_mru_ok:
  assumes "mru_ok live c p" and "c_mrus c' ! p = c_mrus c ! p"
    and "\<And>b. b \<noteq> a \<Longrightarrow> cn_count (c_node c' b) = cn_count (c_node c b) \<and> cn_priority (c_node c' b) = cn_priority (c_node c b)"
    and "live' - {a} = live - {a}"
    and "(a \<in> live \<and> cn_count (c_node c a) = 0 \<and> cn_priority (c_node c a) = int p) \<longleftrightarrow>
      (a \<in> live' \<and> cn_count (c_node c' a) = 0 \<and> cn_priority (c_node c' a) = int p)"
  shows "mru_ok live' c' p"
proof -
  have "b \<in> live' \<and> cn_count (c_node c' b) = 0 \<and> cn_priority (c_node c' b) = int p \<longleftrightarrow>
      b \<in> live \<and> cn_count (c_node c b) = 0 \<and> cn_priority (c_node c b) = int p" for b
  proof (cases "b = a")
    case True
    with assms(5) show ?thesis by blast
  next
    case False
    with assms(4) have "b \<in> live' \<longleftrightarrow> b \<in> live" by blast
    with assms(3) [OF False] show ?thesis by simp
  qed
  with assms(1,2) show ?thesis by (simp add: mru_ok_def)
qed

text \<open>An idle node leaves the cache.\<close>

lemma drop_node_ok:
  assumes ok: "lists_ok live c" and a: "a \<in> live" "cn_count (c_node c a) = 0" "cn_priority (c_node c a) = int p"
    and i: "cn_hashidx (c_node c a) = i"
    and c': "c_hash c' = (c_hash c)[i := \<lparr>ch_list = remove1 a (ch_list (c_hash c ! i)), ch_count = ch_count (c_hash c ! i) - 1\<rparr>]"
      "c_mrus c' = (c_mrus c)[p := \<lparr>cm_list = remove1 a (cm_list (c_mrus c ! p)), cm_count = cm_count (c_mrus c ! p) - 1\<rparr>]"
      "c_hashsize c' = c_hashsize c" "\<And>b. b \<noteq> a \<Longrightarrow> c_node c' b = c_node c b"
  shows "lists_ok (live - {a}) c'"
proof -
  note ok' = lists_okD [OF ok]
  have il: "i < length (c_hash c)" using ok'(7) [OF a(1)] i by (simp add: cnode_ok_def)
  from idle_on_mru [OF ok a(1,2)] a(3) have pl: "p < 17" and ap: "a \<in> set (cm_list (c_mrus c ! p))" by auto
  have ai: "a \<in> set (ch_list (c_hash c ! i))" using ok'(5) [OF il] a(1) i by (simp add: chain_ok_def)
  have "chain_ok (live - {a}) c' j" if "j < length (c_hash c)" for j
  proof (cases "j = i")
    case True
    with ok'(5) [OF il] ai il show ?thesis
      using c'(4) by (auto simp: chain_ok_def c'(1) count_remove1)
  next
    case False
    with ok'(5) [OF that] show ?thesis by (rule_tac other_chain_ok [where a = a]) (auto simp: c' i)
  qed
  moreover have "mru_ok (live - {a}) c' q" if "q < 17" for q
  proof (cases "q = p")
    case True
    with ok'(6) [OF pl] ap pl show ?thesis
      using c'(4) by (auto simp: mru_ok_def c'(2) count_remove1 ok'(4))
  next
    case False
    with ok'(6) [OF that] show ?thesis by (rule_tac other_mru_ok [where a = a]) (auto simp: c' a)
  qed
  ultimately show ?thesis
    using ok' by (simp add: lists_ok_def c' cnode_ok_def CACHE_DIRTY_PRIORITY_def CACHE_MAX_PRIORITY_def)
qed

text \<open>A node that goes on the list of a priority, and one that leaves it.\<close>

definition idle_at :: "cache \<Rightarrow> nat \<Rightarrow> node_addr \<Rightarrow> bool" where
  "idle_at c p a \<longleftrightarrow> cn_count (c_node c a) = 0 \<and> cn_priority (c_node c a) = int p"

lemma mru_ok_idle: "mru_ok live c p \<longleftrightarrow> distinct (cm_list (c_mrus c ! p))
     \<and> set (cm_list (c_mrus c ! p)) = {a \<in> live. idle_at c p a}
     \<and> cm_count (c_mrus c ! p) = of_nat (length (cm_list (c_mrus c ! p)))"
  by (simp add: mru_ok_def idle_at_def)

lemma mru_kept:
  assumes "mru_ok live c p" and "c_mrus c' ! p = c_mrus c ! p" and "\<And>b. b \<noteq> a \<Longrightarrow> c_node c' b = c_node c b"
    and "idle_at c' p a \<longleftrightarrow> idle_at c p a"
  shows "mru_ok live c' p"
proof -
  have "idle_at c' p b \<longleftrightarrow> idle_at c p b" for b
    using assms(3,4) by (cases "b = a") (simp_all add: idle_at_def)
  with assms(1,2) show ?thesis by (simp add: mru_ok_idle)
qed

lemma mru_gain:
  assumes "mru_ok live c p" and "c_mrus c' ! p = \<lparr>cm_list = a # cm_list (c_mrus c ! p), cm_count = cm_count (c_mrus c ! p) + 1\<rparr>"
    and "\<And>b. b \<noteq> a \<Longrightarrow> c_node c' b = c_node c b" and "a \<in> live" "idle_at c' p a" "\<not> idle_at c p a"
  shows "mru_ok live c' p"
proof -
  have "idle_at c' p b \<longleftrightarrow> b = a \<or> idle_at c p b" for b
    using assms(3,5) by (cases "b = a") (simp_all add: idle_at_def)
  with assms show ?thesis by (auto simp: mru_ok_idle)
qed

lemma mru_lose:
  assumes "mru_ok live c p" and "c_mrus c' ! p = \<lparr>cm_list = remove1 a (cm_list (c_mrus c ! p)), cm_count = cm_count (c_mrus c ! p) - 1\<rparr>"
    and "\<And>b. b \<noteq> a \<Longrightarrow> c_node c' b = c_node c b" and "a \<in> live" "\<not> idle_at c' p a" "idle_at c p a"
  shows "mru_ok live c' p"
proof -
  have "idle_at c' p b \<longleftrightarrow> b \<noteq> a \<and> idle_at c p b" for b
    using assms(3,5) by (cases "b = a") (simp_all add: idle_at_def)
  moreover have "a \<in> set (cm_list (c_mrus c ! p))" using assms(1,4,6) by (simp add: mru_ok_idle)
  ultimately show ?thesis using assms(1,2) by (auto simp: mru_ok_idle count_remove1)
qed

lemma relist_ok:
  assumes "lists_ok live c" and "a \<in> live"
    and "c_hash c' = c_hash c" "c_hashsize c' = c_hashsize c" "length (c_mrus c') = length (c_mrus c)"
    and "\<And>b. b \<noteq> a \<Longrightarrow> c_node c' b = c_node c b" "cn_hashidx (c_node c' a) = cn_hashidx (c_node c a)"
    and "\<And>p. p < 17 \<Longrightarrow> mru_ok live c' p"
    and "priority_ok (cn_priority (c_node c' a))" "cn_old_priority (c_node c' a) = -1"
  shows "lists_ok live c'"
proof -
  note ok' = lists_okD [OF assms(1)]
  have "cn_hashidx (c_node c' b) = cn_hashidx (c_node c b)" for b using assms(6,7) by (cases "b = a") simp_all
  then have "chain_ok live c' i \<longleftrightarrow> chain_ok live c i" for i by (simp add: chain_ok_def assms(3))
  moreover have "cnode_ok c' b" if "b \<in> live" for b
  proof (cases "b = a")
    case True
    with ok'(7) [OF that] show ?thesis using assms(3,7,9,10) by (simp add: cnode_ok_def)
  next
    case False
    with ok'(7) [OF that] show ?thesis using assms(3,6) by (simp add: cnode_ok_def)
  qed
  ultimately show ?thesis using ok' assms(3-5,8)
    by (simp add: lists_ok_def CACHE_DIRTY_PRIORITY_def CACHE_MAX_PRIORITY_def)
qed

text \<open>The counters that are not part of the lists.\<close>

lemma lists_ok_counters [simp]:
  "lists_ok live (c\<lparr>c_count := x\<rparr>) = lists_ok live c"
  "lists_ok live (c\<lparr>c_max := x\<rparr>) = lists_ok live c"
  "lists_ok live (c\<lparr>c_misses := y\<rparr>) = lists_ok live c"
  "lists_ok live (c\<lparr>c_hits := y\<rparr>) = lists_ok live c"
  "lists_ok live (c\<lparr>c_maxcount := x\<rparr>) = lists_ok live c"
  by (simp_all add: lists_ok_def chain_ok_def mru_ok_def cnode_ok_def)

text \<open>What every step of the list operations leaves alone.\<close>

lemma cache_ops_frame [simp]:
  "c_count (set_node a f c) = c_count c" "c_maxcount (set_node a f c) = c_maxcount c" "c_flags (set_node a f c) = c_flags c"
  "c_count (mru_add p a c) = c_count c" "c_maxcount (mru_add p a c) = c_maxcount c" "c_flags (mru_add p a c) = c_flags c"
  "c_count (mru_del p a c) = c_count c" "c_maxcount (mru_del p a c) = c_maxcount c" "c_flags (mru_del p a c) = c_flags c"
  "c_count (chain_add i a c) = c_count c" "c_maxcount (chain_add i a c) = c_maxcount c" "c_flags (chain_add i a c) = c_flags c"
  "c_count (chain_unlink i a c) = c_count c" "c_maxcount (chain_unlink i a c) = c_maxcount c" "c_flags (chain_unlink i a c) = c_flags c"
  "c_count (chain_less i c) = c_count c" "c_maxcount (chain_less i c) = c_maxcount c" "c_flags (chain_less i c) = c_flags c"
  "c_node (set_node a f c) = (c_node c)(a := f (c_node c a))"
  "c_node (mru_add p a c) = c_node c" "c_node (mru_del p a c) = c_node c"
  "c_node (chain_add i a c) = c_node c" "c_node (chain_unlink i a c) = c_node c" "c_node (chain_less i c) = c_node c"
  "c_hash (set_node a f c) = c_hash c" "c_hash (mru_add p a c) = c_hash c" "c_hash (mru_del p a c) = c_hash c"
  "c_mrus (set_node a f c) = c_mrus c" "c_mrus (chain_add i a c) = c_mrus c" "c_mrus (chain_unlink i a c) = c_mrus c"
  "c_mrus (chain_less i c) = c_mrus c"
  "c_hashsize (set_node a f c) = c_hashsize c" "c_hashsize (mru_add p a c) = c_hashsize c" "c_hashsize (mru_del p a c) = c_hashsize c"
  "c_hashsize (chain_add i a c) = c_hashsize c" "c_hashsize (chain_unlink i a c) = c_hashsize c" "c_hashsize (chain_less i c) = c_hashsize c"
  by (simp_all add: cache_ops)

text \<open>
  A node whose flush failed: it goes to the dirty list, and the priority that is saved is -1, not the
  one it had.
\<close>

lemma dirty_node_ok:
  assumes ok: "lists_ok live c" and a: "a \<in> live" "idle_at c p a" and p: "p < 16"
  shows "lists_ok live (cache_add_to_dirty_mru a (set_node a (\<lambda>n. n\<lparr>cn_priority := -1\<rparr>) (mru_del p a c)))"
    (is "lists_ok live ?c")
proof (rule relist_ok [OF ok a(1)])
  note ok' = lists_okD [OF ok]
  have len: "p < length (c_mrus c)" "16 < length (c_mrus c)" using ok'(4) p by simp_all
  have node: "c_node ?c b = c_node c b" if "b \<noteq> a" for b using that by (simp add: cache_add_to_dirty_mru_def)
  show "mru_ok live ?c q" if q: "q < 17" for q
  proof -
    consider "q = p" | "q = 16" | "q \<noteq> p" "q \<noteq> 16" by blast
    then show ?thesis
    proof cases
      case 1
      show ?thesis unfolding 1
        by (rule mru_lose [OF ok'(6) _ node a(1)])
          (use len p a in \<open>simp_all add: cache_add_to_dirty_mru_def mru_add_def mru_del_def nth_list_update idle_at_def
             CACHE_DIRTY_PRIORITY_def CACHE_MAX_PRIORITY_def\<close>)
    next
      case 2
      show ?thesis unfolding 2
        by (rule mru_gain [OF ok'(6) _ node a(1)])
          (use len p a in \<open>simp_all add: cache_add_to_dirty_mru_def mru_add_def mru_del_def nth_list_update idle_at_def
             CACHE_DIRTY_PRIORITY_def CACHE_MAX_PRIORITY_def\<close>)
    next
      case 3
      show ?thesis
        by (rule mru_kept [OF ok'(6) [OF q] _ node])
          (use 3 len p a in \<open>auto simp: cache_add_to_dirty_mru_def mru_add_def mru_del_def nth_list_update idle_at_def
             CACHE_DIRTY_PRIORITY_def CACHE_MAX_PRIORITY_def\<close>)
    qed
  qed
qed (simp_all add: cache_add_to_dirty_mru_def mru_add_def mru_del_def priority_ok_def CACHE_DIRTY_PRIORITY_def CACHE_MAX_PRIORITY_def)

text \<open>A node is found, and taken into use if it was not.\<close>

lemma node_hit_ok:
  assumes ok: "lists_ok live c" and a: "a \<in> live" and over: "cn_count (c_node c a) \<noteq> -1"
  shows "\<exists>c'. node_hit a c = Some c' \<and> lists_ok live c' \<and>
    c_node c' = (c_node c)(a := (c_node c a)\<lparr>cn_count := cn_count (c_node c a) + 1\<rparr>) \<and>
    c_count c' = c_count c \<and> c_maxcount c' = c_maxcount c \<and> c_flags c' = c_flags c"
proof -
  note ok' = lists_okD [OF ok]
  note na = ok'(7) [OF a, unfolded cnode_ok_def]
  let ?up = "\<lambda>c. set_node a (\<lambda>n. n\<lparr>cn_count := cn_count n + 1\<rparr>) c"
  have n0: "cn_count (c_node c a) + 1 \<noteq> 0" using over by (simp add: eq_neg_iff_add_eq_0)
  show ?thesis
  proof (cases "cn_count (c_node c a) = 0")
    case False
    have "lists_ok live (?up c)"
    proof (rule relist_ok [OF ok a])
      show "mru_ok live (?up c) p" if "p < 17" for p
        by (rule mru_kept [OF ok'(6) [OF that], where a = a]) (use False n0 in \<open>simp_all add: idle_at_def\<close>)
    qed (use na in simp_all)
    with False show ?thesis by (simp add: node_hit_def)
  next
    case True
    from idle_on_mru [OF ok a True] obtain p where p: "p < 17" "cn_priority (c_node c a) = int p"
      "a \<in> set (cm_list (c_mrus c ! p))" by blast
    then have on: "a \<in> set (concat (map cm_list (c_mrus c)))" using ok'(4) nth_mem [of p "c_mrus c"] by auto
    have "lists_ok live (?up (mru_del p a c))"
    proof (rule relist_ok [OF ok a])
      show "mru_ok live (?up (mru_del p a c)) q" if q: "q < 17" for q
      proof (cases "q = p")
        case eq: True
        show ?thesis unfolding eq
          by (rule mru_lose [OF ok'(6) [OF p(1)] _ _ a])
            (use p ok'(4) True in \<open>simp_all add: mru_del_def idle_at_def set_node_def\<close>)
      next
        case False
        then show ?thesis
          by (rule_tac mru_kept [OF ok'(6) [OF q], where a = a])
            (use p True in \<open>simp_all add: mru_del_def idle_at_def set_node_def\<close>)
      qed
    qed (use na in \<open>simp_all add: mru_del_def\<close>)
    with True na p on show ?thesis by (auto simp: node_hit_def)
  qed
qed

lemma node_put_ok:
  assumes ok: "lists_ok live c" and a: "a \<in> live" and used: "cn_count (c_node c a) \<noteq> 0"
  shows "\<exists>c'. cache_node_put a c = Some c' \<and> lists_ok live c' \<and>
    c_node c' = (c_node c)(a := (c_node c a)\<lparr>cn_count := cn_count (c_node c a) - 1\<rparr>) \<and>
    c_count c' = c_count c \<and> c_maxcount c' = c_maxcount c \<and> c_flags c' = c_flags c"
proof -
  note ok' = lists_okD [OF ok]
  note na = ok'(7) [OF a, unfolded cnode_ok_def]
  let ?down = "set_node a (\<lambda>n. n\<lparr>cn_count := cn_count n - 1\<rparr>) c"
  show ?thesis
  proof (cases "cn_count (c_node c a) - 1 = 0")
    case False
    have "lists_ok live ?down"
    proof (rule relist_ok [OF ok a])
      show "mru_ok live ?down p" if "p < 17" for p
        by (rule mru_kept [OF ok'(6) [OF that], where a = a]) (use False used in \<open>simp_all add: idle_at_def\<close>)
    qed (use na in simp_all)
    with False show ?thesis by (simp add: cache_node_put_def)
  next
    case True
    define p where "p = nat (cn_priority (c_node c a))"
    have p: "p < 17" "cn_priority (c_node c a) = int p"
      using na by (auto simp: p_def priority_ok_def CACHE_DIRTY_PRIORITY_def CACHE_MAX_PRIORITY_def)
    have "lists_ok live (mru_add p a ?down)"
    proof (rule relist_ok [OF ok a])
      show "mru_ok live (mru_add p a ?down) q" if q: "q < 17" for q
      proof (cases "q = p")
        case eq: True
        show ?thesis unfolding eq
          by (rule mru_gain [OF ok'(6) [OF p(1)] _ _ a])
            (use p ok'(4) True used in \<open>simp_all add: mru_add_def idle_at_def set_node_def\<close>)
      next
        case False
        then show ?thesis
          by (rule_tac mru_kept [OF ok'(6) [OF q], where a = a])
            (use p True used in \<open>simp_all add: mru_add_def idle_at_def set_node_def\<close>)
      qed
    qed (use na in \<open>simp_all add: mru_add_def\<close>)
    with True na show ?thesis by (simp add: cache_node_put_def p_def)
  qed
qed

lemma set_priority_ok:
  assumes ok: "lists_ok live c" and a: "a \<in> live" and used: "cn_count (c_node c a) \<noteq> 0"
  shows "\<exists>c' n. cache_node_set_priority a p c = Some c' \<and> lists_ok live c' \<and>
    c_node c' = (c_node c)(a := n) \<and> cn_count n = cn_count (c_node c a) \<and>
    c_count c' = c_count c \<and> c_maxcount c' = c_maxcount c \<and> c_flags c' = c_flags c"
proof -
  note ok' = lists_okD [OF ok]
  note na = ok'(7) [OF a, unfolded cnode_ok_def]
  define q where "q = (if p < 0 then 0 else if p > int CACHE_MAX_PRIORITY then int CACHE_MAX_PRIORITY else p)"
  let ?c = "set_node a (\<lambda>n. n\<lparr>cn_priority := q, cn_old_priority := -1\<rparr>) c"
  have "lists_ok live ?c"
  proof (rule relist_ok [OF ok a])
    show "mru_ok live ?c p" if "p < 17" for p
      by (rule mru_kept [OF ok'(6) [OF that], where a = a]) (use used in \<open>simp_all add: idle_at_def\<close>)
  qed (auto simp: q_def priority_ok_def CACHE_DIRTY_PRIORITY_def CACHE_MAX_PRIORITY_def)
  moreover have "cache_node_set_priority a p c = Some ?c"
    using used by (simp add: cache_node_set_priority_def q_def)
  ultimately show ?thesis by auto
qed

text \<open>A new node, in use from the start.\<close>

lemma insert_node_ok:
  assumes ok: "lists_ok live c" and a: "a \<notin> live" and i: "i < length (c_hash c)"
  shows "lists_ok (insert a live) (chain_add i a (set_node a (\<lambda>n. n\<lparr>cn_hashidx := i\<rparr>)
    (set_node a (\<lambda>n. n\<lparr>cn_count := 1, cn_priority := 0, cn_old_priority := -1\<rparr>) c)))" (is "lists_ok _ ?c")
proof -
  note ok' = lists_okD [OF ok]
  have "chain_ok (insert a live) ?c j" if j: "j < length (c_hash c)" for j
  proof (cases "j = i")
    case True
    with ok'(5) [OF i] i a show ?thesis by (auto simp: chain_ok_def chain_add_def set_node_def)
  next
    case False
    with ok'(5) [OF j] a show ?thesis by (auto simp: chain_ok_def chain_add_def set_node_def)
  qed
  moreover have "mru_ok (insert a live) ?c p" if "p < 17" for p
    using ok'(6) [OF that] a by (auto simp: mru_ok_def)
  moreover have "length (c_hash ?c) = length (c_hash c)" by (simp add: chain_add_def set_node_def)
  ultimately show ?thesis
    using ok' i by (auto simp: lists_ok_def cnode_ok_def priority_ok_def CACHE_DIRTY_PRIORITY_def CACHE_MAX_PRIORITY_def)
qed

end
