(* ===== verification/CacheClient.thy ===== *)
theory CacheClient
  imports XfsCache
begin

text \<open>
  The buffer cache of libxfs together with a client: the contract \<open>cache_client\<close> of the operations that a client
  gives to \<^verbatim>\<open>cache_init\<close>, and what \<^verbatim>\<open>cache_node_get\<close> promises under it: the invariant stays, what it returns
  matches the key, a node in use is never taken away or changed, and the search ends
  when allocations succeed. The buffers of libxfs fulfil the contract in theory \<open>XfsBuf\<close>.
\<close>

section \<open>What the cache relies on\<close>

text \<open>
  The contract of the client: which addresses it has handed out, what is true of its state, and what
  can be seen of an object. An allocation gives an object that matches the key, at an address that is not
  in use; no operation changes what is seen of another object, and none but the allocation and the releases
  changes what is handed out.
\<close>

locale cache_client =
  fixes ops :: "('k, 'w) cache_operations" and owned :: "'w \<Rightarrow> node_addr set" and good :: "'w \<Rightarrow> bool"
    and key_ok :: "'k \<Rightarrow> bool" and view :: "'w \<Rightarrow> node_addr \<Rightarrow> 'v"
  assumes hash_less: "0 < buckets \<Longrightarrow> op_hash ops key buckets shift < buckets"
    and alloc_some: "\<lbrakk>good w; key_ok key; op_alloc ops key w = Some (Some a, w')\<rbrakk> \<Longrightarrow>
      good w' \<and> a \<notin> owned w \<and> owned w' = insert a (owned w) \<and> op_compare ops a key w' = CACHE_HIT
      \<and> (\<forall>b \<in> owned w. view w' b = view w b)"
    and alloc_none: "\<lbrakk>good w; key_ok key; op_alloc ops key w = Some (None, w')\<rbrakk> \<Longrightarrow>
      good w' \<and> owned w' = owned w \<and> (\<forall>b \<in> owned w. view w' b = view w b)"
    and flush: "\<lbrakk>good w; a \<in> owned w; op_flush ops a w = (r, w')\<rbrakk> \<Longrightarrow>
      good w' \<and> owned w' = owned w \<and> (\<forall>b \<in> owned w - {a}. view w' b = view w b)"
    and relse: "\<lbrakk>good w; a \<in> owned w\<rbrakk> \<Longrightarrow>
      good (op_relse ops a w) \<and> owned (op_relse ops a w) = owned w - {a}
      \<and> (\<forall>b \<in> owned w - {a}. view (op_relse ops a w) b = view w b)"
    and bulkrelse: "\<lbrakk>good w; op_bulkrelse ops = Some f; distinct as; set as \<subseteq> owned w; f as w = (n, w')\<rbrakk> \<Longrightarrow>
      good w' \<and> owned w' = owned w - set as \<and> (\<forall>b \<in> owned w - set as. view w' b = view w b)"
begin

lemma fold_relse:
  assumes "good w" and "distinct as" and "set as \<subseteq> owned w"
  shows "good (fold (op_relse ops) as w) \<and> owned (fold (op_relse ops) as w) = owned w - set as
    \<and> (\<forall>b \<in> owned w - set as. view (fold (op_relse ops) as w) b = view w b)"
  using assms
proof (induction as arbitrary: w)
  case (Cons a as)
  have a: "a \<in> owned w" using Cons.prems(3) by simp
  note r = relse [OF Cons.prems(1) a]
  have "set as \<subseteq> owned (op_relse ops a w)" using Cons.prems r by auto
  with Cons.IH [of "op_relse ops a w"] Cons.prems(2) r show ?case by auto
qed simp

lemma release:
  assumes "good w" and "distinct as" and "set as \<subseteq> owned w" and "cache_bulkrelse ops as w = (n, w')"
  shows "good w' \<and> owned w' = owned w - set as \<and> (\<forall>b \<in> owned w - set as. view w' b = view w b)"
proof (cases "op_bulkrelse ops")
  case None
  with fold_relse [OF assms(1-3)] assms(4) show ?thesis
    by (auto simp: cache_bulkrelse_def cache_generic_bulkrelse_def)
next
  case (Some f)
  with bulkrelse [OF assms(1) Some assms(2,3)] assms(4) show ?thesis by (simp add: cache_bulkrelse_def)
qed

end

lemma hash_record: "h\<lparr>ch_list := x, ch_count := y\<rparr> = \<lparr>ch_list = x, ch_count = y\<rparr>" for h :: cache_hash
  by (cases h) simp

text \<open>The part of a cache that a step has not changed.\<close>

definition same_shape :: "cache \<Rightarrow> cache \<Rightarrow> bool" where
  "same_shape c c' \<longleftrightarrow> c_hashsize c' = c_hashsize c \<and> c_flags c' = c_flags c"

lemma same_shape_refl [simp]: "same_shape c c"
  by (simp add: same_shape_def)

lemma same_shape_trans: "same_shape c c1 \<Longrightarrow> same_shape c1 c2 \<Longrightarrow> same_shape c c2"
  by (simp add: same_shape_def)

text \<open>A node that is in use stays, and nothing of it changes.\<close>

definition in_use_kept ::
    "node_addr set \<Rightarrow> cache \<Rightarrow> (node_addr \<Rightarrow> 'v) \<Rightarrow> node_addr set \<Rightarrow> cache \<Rightarrow> (node_addr \<Rightarrow> 'v) \<Rightarrow> bool" where
  "in_use_kept live c v live' c' v' \<longleftrightarrow>
     live' \<subseteq> live \<and> (\<forall>b \<in> live'. cn_count (c_node c' b) = cn_count (c_node c b))
     \<and> (\<forall>b \<in> live. cn_count (c_node c b) \<noteq> 0 \<longrightarrow> b \<in> live' \<and> c_node c' b = c_node c b \<and> v' b = v b)"

lemma in_use_kept_refl: "(\<And>b. b \<in> live \<Longrightarrow> v' b = v b) \<Longrightarrow> in_use_kept live c v live c v'"
  by (simp add: in_use_kept_def)

lemma in_use_kept_trans:
  assumes 1: "in_use_kept live c v live1 c1 v1" and 2: "in_use_kept live1 c1 v1 live2 c2 v2"
  shows "in_use_kept live c v live2 c2 v2"
proof -
  have "live2 \<subseteq> live" using 1 2 unfolding in_use_kept_def by blast
  moreover have "cn_count (c_node c2 b) = cn_count (c_node c b)" if "b \<in> live2" for b
  proof -
    have "b \<in> live1" using 2 that unfolding in_use_kept_def by blast
    with 1 2 that show ?thesis by (simp add: in_use_kept_def)
  qed
  moreover have "b \<in> live2 \<and> c_node c2 b = c_node c b \<and> v2 b = v b" if "b \<in> live" "cn_count (c_node c b) \<noteq> 0" for b
  proof -
    have "b \<in> live1" "c_node c1 b = c_node c b" "v1 b = v b" using 1 that by (simp_all add: in_use_kept_def)
    with 2 that show ?thesis by (simp add: in_use_kept_def)
  qed
  ultimately show ?thesis by (simp add: in_use_kept_def)
qed

context cache_client
begin

lemma shake_loop_spec:
  assumes "lists_ok (owned w - set temp) c" and "good w" and "distinct temp" and "set temp \<subseteq> owned w" and "n = length temp"
    and "distinct as" and "set as \<inter> set temp = {}" and "\<And>a. a \<in> set as \<Longrightarrow> a \<in> owned w \<and> idle_at c p a" and "purge \<or> p < 16"
    and "shake_loop ops p purge as temp n c w = ((temp', n', c'), w')"
  shows "lists_ok (owned w' - set temp') c' \<and> good w' \<and> owned w' = owned w \<and> distinct temp' \<and> set temp' \<subseteq> owned w \<and>
    n' = length temp' \<and> same_shape c c' \<and> c_count c' = c_count c \<and> c_maxcount c' = c_maxcount c \<and>
    in_use_kept (owned w - set temp) c (view w) (owned w' - set temp') c' (view w')"
  using assms
proof (induction as arbitrary: temp n c w)
  case Nil
  then show ?case by (auto simp: in_use_kept_def)
next
  case (Cons a as)
  have a: "a \<in> owned w" "idle_at c p a" "a \<notin> set temp" "a \<notin> set as" using Cons.prems(6-8) by auto
  obtain r w1 where f: "op_flush ops a w = (r, w1)" by (cases "op_flush ops a w")
  note fl = flush [OF Cons.prems(2) a(1) f]
  have busy: "b \<noteq> a" if "cn_count (c_node c b) \<noteq> 0" for b using that a(2) by (auto simp: idle_at_def)
  show ?case
  proof (cases "r \<noteq> 0 \<and> \<not> purge")
    case True
    define c1 where "c1 = cache_add_to_dirty_mru a (set_node a (\<lambda>n. n\<lparr>cn_priority := -1\<rparr>) (mru_del p a c))"
    have node: "c_node c1 b = c_node c b" if "b \<noteq> a" for b using that by (simp add: c1_def cache_add_to_dirty_mru_def)
    have counts: "cn_count (c_node c1 b) = cn_count (c_node c b)" for b
      by (cases "b = a") (simp_all add: c1_def cache_add_to_dirty_mru_def)
    have frame: "same_shape c c1" "c_count c1 = c_count c" "c_maxcount c1 = c_maxcount c"
      by (simp_all add: c1_def cache_add_to_dirty_mru_def same_shape_def)
    have "lists_ok (owned w - set temp) c1"
      unfolding c1_def using dirty_node_ok [OF Cons.prems(1) _ a(2)] a True Cons.prems(9) by auto
    moreover have "shake_loop ops p purge as temp n c1 w1 = ((temp', n', c'), w')"
      using Cons.prems(10) f True by (simp add: c1_def)
    moreover have "idle_at c1 p b" if "b \<in> set as" for b
      using Cons.prems(8) [of b] that a(4) by (cases "b = a") (auto simp: idle_at_def node)
    ultimately have IH: "lists_ok (owned w' - set temp') c' \<and> good w' \<and> owned w' = owned w1 \<and> distinct temp' \<and> set temp' \<subseteq> owned w1 \<and>
      n' = length temp' \<and> same_shape c1 c' \<and> c_count c' = c_count c1 \<and> c_maxcount c' = c_maxcount c1 \<and>
      in_use_kept (owned w1 - set temp) c1 (view w1) (owned w' - set temp') c' (view w')"
      using Cons.prems fl by (intro Cons.IH) auto
    have "in_use_kept (owned w - set temp) c (view w) (owned w1 - set temp) c1 (view w1)"
      using fl node busy counts by (auto simp: in_use_kept_def)
    with IH frame fl show ?thesis by (auto intro: in_use_kept_trans same_shape_trans)
  next
    case False
    define i where "i = cn_hashidx (c_node c a)"
    define c1 where "c1 = mru_del p a (chain_less i (chain_unlink i a (set_node a (\<lambda>n. n\<lparr>cn_priority := -1\<rparr>) c)))"
    have node: "c_node c1 b = c_node c b" if "b \<noteq> a" for b using that by (simp add: c1_def)
    have counts: "cn_count (c_node c1 b) = cn_count (c_node c b)" for b
      by (cases "b = a") (simp_all add: c1_def cache_add_to_dirty_mru_def)
    have frame: "same_shape c c1" "c_count c1 = c_count c" "c_maxcount c1 = c_maxcount c"
      by (simp_all add: c1_def same_shape_def)
    have il: "i < length (c_hash c)" using lists_okD(7) [OF Cons.prems(1)] a by (simp add: cnode_ok_def i_def)
    have "lists_ok (owned w - set temp - {a}) c1"
    proof (rule drop_node_ok [OF Cons.prems(1)])
      show "c_hash c1 = (c_hash c)[i := \<lparr>ch_list = remove1 a (ch_list (c_hash c ! i)), ch_count = ch_count (c_hash c ! i) - 1\<rparr>]"
        using il by (simp add: c1_def mru_del_def chain_less_def chain_unlink_def set_node_def hash_record)
      show "c_mrus c1 = (c_mrus c)[p := \<lparr>cm_list = remove1 a (cm_list (c_mrus c ! p)), cm_count = cm_count (c_mrus c ! p) - 1\<rparr>]"
        by (simp add: c1_def mru_del_def chain_less_def chain_unlink_def set_node_def)
    qed (use a in \<open>simp_all add: c1_def idle_at_def i_def\<close>)
    moreover have "owned w - set temp - {a} = owned w1 - set (a # temp)" using fl by auto
    ultimately have ok1: "lists_ok (owned w1 - set (a # temp)) c1" by simp
    have kept: "in_use_kept (owned w - set temp) c (view w) (owned w1 - set (a # temp)) c1 (view w1)"
      using fl node busy counts by (auto simp: in_use_kept_def)
    show ?thesis
    proof (cases "\<not> purge \<and> n + 1 = CACHE_SHAKE_COUNT")
      case True
      then have "temp' = a # temp" "n' = n + 1" "c' = c1" "w' = w1"
        using Cons.prems(10) f False by (auto simp: c1_def i_def Let_def)
      with ok1 kept frame fl a Cons.prems(3-5) show ?thesis by auto
    next
      case go: False
      then have "shake_loop ops p purge as (a # temp) (n + 1) c1 w1 = ((temp', n', c'), w')"
        using Cons.prems(10) f False by (auto simp: c1_def i_def Let_def)
      moreover have "idle_at c1 p b" if "b \<in> set as" for b
        using Cons.prems(8) [of b] that a(4) by (cases "b = a") (auto simp: idle_at_def node)
      ultimately have IH: "lists_ok (owned w' - set temp') c' \<and> good w' \<and> owned w' = owned w1 \<and> distinct temp' \<and> set temp' \<subseteq> owned w1 \<and>
        n' = length temp' \<and> same_shape c1 c' \<and> c_count c' = c_count c1 \<and> c_maxcount c' = c_maxcount c1 \<and>
        in_use_kept (owned w1 - set (a # temp)) c1 (view w1) (owned w' - set temp') c' (view w')"
        using Cons.prems fl a ok1 by (intro Cons.IH) auto
      with kept frame fl show ?thesis by (auto intro: in_use_kept_trans same_shape_trans)
    qed
  qed
qed

end

text \<open>
  The counter \<^verbatim>\<open>c_count\<close> during a search: \<open>purged\<close> nodes are gone that it still counts.
\<close>

definition count_ok :: "node_addr set \<Rightarrow> nat \<Rightarrow> cache \<Rightarrow> bool" where
  "count_ok live purged c \<longleftrightarrow> card live + purged \<le> unat (c_count c)
     \<and> (c_flags c AND CACHE_MISCOMPARE_PURGE = 0 \<longrightarrow> purged = 0 \<and> unat (c_count c) = card live)"

lemma cache_ok_alt: "cache_ok live c \<longleftrightarrow> lists_ok live c \<and> count_ok live 0 c"
  by (auto simp: cache_ok_def count_ok_def)

text \<open>Some nodes leave the cache and the counter.\<close>

lemma count_ok_less:
  assumes "count_ok live purged c" and "finite live" and "set as \<subseteq> live" and "distinct as"
  shows "count_ok (live - set as) purged (c\<lparr>c_count := c_count c - of_nat (length as)\<rparr>)"
    and "c_count c - of_nat (length as) \<le> c_count c"
proof -
  have n: "card (live - set as) = card live - length as" "length as \<le> card live"
    using card_Diff_subset [OF finite_set assms(3)] card_mono [OF assms(2,3)] distinct_card [OF assms(4)] by simp_all
  have c: "length as \<le> unat (c_count c)" using n assms(1) by (simp add: count_ok_def)
  moreover have "unat (c_count c) < 2 ^ 32" using unsigned_less [of "c_count c"] by simp
  ultimately have u: "unat (of_nat (length as) :: u32) = length as" by (simp add: unat_of_nat take_bit_nat_eq_self)
  then have le: "of_nat (length as) \<le> c_count c" using c by (simp add: word_le_nat_alt)
  then have "unat (c_count c - of_nat (length as)) = unat (c_count c) - length as" by (simp add: unat_sub u)
  then show "c_count c - of_nat (length as) \<le> c_count c" by (simp add: word_le_nat_alt)
  from \<open>unat (c_count c - of_nat (length as)) = _\<close> show "count_ok (live - set as) purged (c\<lparr>c_count := c_count c - of_nat (length as)\<rparr>)"
    using assms(1) n by (auto simp: count_ok_def intro: order_trans)
qed

context cache_client
begin

lemma cache_shake_spec:
  assumes ok: "lists_ok (owned w) c" and cnt: "count_ok (owned w) purged c" and good: "good w" and p: "p \<le> 15"
  shows "\<exists>p' c' w'. cache_shake ops p False c w = Some ((p', c'), w') \<and>
    lists_ok (owned w') c' \<and> count_ok (owned w') purged c' \<and> good w' \<and> owned w' \<subseteq> owned w \<and>
    same_shape c c' \<and> c_maxcount c' = c_maxcount c \<and> c_count c' \<le> c_count c \<and>
    in_use_kept (owned w) c (view w) (owned w') c' (view w') \<and> (p' = p \<and> card (owned w') < card (owned w) \<or> p' = p + 1)"
proof -
  note ok' = lists_okD [OF ok]
  have pp: "CACHE_MAX_PRIORITY = 15" "CACHE_DIRTY_PRIORITY = 16" by (simp_all add: CACHE_DIRTY_PRIORITY_def CACHE_MAX_PRIORITY_def)
  have "mru_ok (owned w) c p" using ok'(6) p by simp
  then have l: "distinct (rev (cm_list (c_mrus c ! p)))"
    "\<And>a. a \<in> set (rev (cm_list (c_mrus c ! p))) \<Longrightarrow> a \<in> owned w \<and> idle_at c p a"
    by (auto simp: mru_ok_idle)
  obtain temp n c1 w1 where loop: "shake_loop ops p False (rev (cm_list (c_mrus c ! p))) [] 0 c w = ((temp, n, c1), w1)"
    by (cases "shake_loop ops p False (rev (cm_list (c_mrus c ! p))) [] 0 c w") auto
  have sp: "lists_ok (owned w1 - set temp) c1 \<and> good w1 \<and> owned w1 = owned w \<and> distinct temp \<and> set temp \<subseteq> owned w \<and>
    n = length temp \<and> same_shape c c1 \<and> c_count c1 = c_count c \<and> c_maxcount c1 = c_maxcount c \<and>
    in_use_kept (owned w) c (view w) (owned w1 - set temp) c1 (view w1)"
    using shake_loop_spec [of w "[]" c 0 "rev (cm_list (c_mrus c ! p))" p False temp n c1 w1] ok good l p loop by auto
  show ?thesis
  proof (cases "n = 0")
    case True
    with sp have "temp = []" by simp
    with sp True loop p pp cnt show ?thesis
      by (auto simp: cache_shake_def same_shape_def count_ok_def CACHE_SHAKE_COUNT_def)
  next
    case False
    obtain m w2 where r: "cache_bulkrelse ops temp w1 = (m, w2)" by (cases "cache_bulkrelse ops temp w1")
    have rel: "good w2 \<and> owned w2 = owned w1 - set temp \<and> (\<forall>b \<in> owned w1 - set temp. view w2 b = view w1 b)"
      using release [OF _ _ _ r] sp by auto
    let ?c2 = "c1\<lparr>c_count := c_count c1 - of_nat n\<rparr>"
    have sh: "cache_shake ops p False c w = Some ((if n = CACHE_SHAKE_COUNT then p else p + 1, ?c2), w2)"
      using loop r p pp False by (simp add: cache_shake_def)
    have "count_ok (owned w) purged c1" using cnt sp by (simp add: count_ok_def same_shape_def)
    then have cnt2: "count_ok (owned w2) purged ?c2" "c_count ?c2 \<le> c_count c"
      using count_ok_less [of "owned w" purged c1 temp] sp rel ok'(1) by simp_all
    have kept: "in_use_kept (owned w) c (view w) (owned w2) ?c2 (view w2)"
      using sp rel by (auto simp: in_use_kept_def)
    have "card (owned w2) < card (owned w)"
    proof -
      have "owned w2 \<subset> owned w" using sp rel False by (cases temp) auto
      then show ?thesis using ok'(1) by (rule psubset_card_mono [rotated])
    qed
    with sh cnt2 kept sp rel show ?thesis by (auto simp: same_shape_def)
  qed
qed

lemma allocate_spec:
  assumes ok: "lists_ok (owned w) c" and cnt: "count_ok (owned w) purged c" and good: "good w"
    and key: "key_ok key" and al: "cache_node_allocate ops key c w = Some ((r, c1), w1)"
  shows "case r of
      None \<Rightarrow> lists_ok (owned w1) c1 \<and> count_ok (owned w1) purged c1 \<and> good w1 \<and> owned w1 = owned w \<and> same_shape c c1 \<and>
        c_maxcount c1 = c_maxcount c \<and> c_node c1 = c_node c \<and> in_use_kept (owned w) c (view w) (owned w1) c1 (view w1)
    | Some a \<Rightarrow> good w1 \<and> a \<notin> owned w \<and> owned w1 = insert a (owned w) \<and> op_compare ops a key w1 = CACHE_HIT \<and>
        c_count c < c_maxcount c \<and> (\<forall>b \<in> owned w. view w1 b = view w b) \<and>
        (\<exists>c0. c1 = set_node a (\<lambda>n. n\<lparr>cn_count := 1, cn_priority := 0, cn_old_priority := -1\<rparr>) c0 \<and> lists_ok (owned w) c0 \<and>
          same_shape c c0 \<and> c_node c0 = c_node c \<and> c_count c0 = c_count c + 1 \<and> c_maxcount c0 = c_maxcount c \<and> c_hash c0 = c_hash c)"
proof (cases "c_count c < c_maxcount c")
  case False
  with al have "r = None" "c1 = c\<lparr>c_misses := c_misses c + 1\<rparr>" "w1 = w" by (simp_all add: cache_node_allocate_def Let_def)
  with ok cnt good show ?thesis by (simp add: count_ok_def same_shape_def in_use_kept_refl in_use_kept_def)
next
  case True
  with al obtain ra w2 where a: "op_alloc ops key w = Some (ra, w2)"
    by (cases "op_alloc ops key w") (auto simp: cache_node_allocate_def Let_def)
  show ?thesis
  proof (cases ra)
    case None
    with alloc_none [OF good key] a have n: "good w2 \<and> owned w2 = owned w \<and> (\<forall>b \<in> owned w. view w2 b = view w b)" by simp
    from al True a None have "r = None" "w1 = w2" "lists_ok live c1 = lists_ok live c" "c_count c1 = c_count c"
      "c_maxcount c1 = c_maxcount c" "c_flags c1 = c_flags c" "c_hashsize c1 = c_hashsize c" "c_node c1 = c_node c" for live
      by (auto simp: cache_node_allocate_def Let_def)
    with ok cnt n show ?thesis by (simp add: count_ok_def same_shape_def in_use_kept_def)
  next
    case (Some x)
    define c0 where "c0 = c\<lparr>c_count := c_count c + 1, c_max := max (c_max c) (c_count c + 1), c_misses := c_misses c + 1\<rparr>"
    have "r = Some x" "w1 = w2" "c1 = set_node x (\<lambda>n. n\<lparr>cn_count := 1, cn_priority := 0, cn_old_priority := -1\<rparr>) c0"
      using al True a Some by (simp_all add: cache_node_allocate_def Let_def c0_def)
    with alloc_some [OF good key] a Some True ok show ?thesis by (auto simp: c0_def same_shape_def)
  qed
qed

lemma purge_spec:
  assumes ok: "lists_ok (owned w) c" and cnt: "count_ok (owned w) purged c" and good: "good w" and a: "a \<in> owned w"
    and flag: "c_flags c AND CACHE_MISCOMPARE_PURGE \<noteq> 0" and i: "cn_hashidx (c_node c a) = i"
  shows "\<exists>r c1 w1. cache_node_purge ops a c w = Some ((r, c1), w1) \<and> good w1 \<and> owned w1 \<subseteq> owned w \<and> same_shape c c1 \<and>
    c_maxcount c1 = c_maxcount c \<and> c_node c1 = c_node c \<and> in_use_kept (owned w) c (view w) (owned w1) c1 (view w1) \<and>
    (if r = 0 then owned w1 = owned w - {a} \<and> lists_ok (owned w1) (chain_less i c1) \<and> count_ok (owned w1) (purged + 1) (chain_less i c1)
     else owned w1 = owned w \<and> lists_ok (owned w1) c1 \<and> count_ok (owned w1) purged c1)"
proof (cases "cn_count (c_node c a) = 0")
  case False
  with ok cnt good show ?thesis by (simp add: cache_node_purge_def in_use_kept_def)
next
  case True
  obtain r w1 where f: "op_flush ops a w = (r, w1)" by (cases "op_flush ops a w")
  note fl = flush [OF good a f]
  have busy: "b \<noteq> a" if "cn_count (c_node c b) \<noteq> 0" for b using that True by auto
  show ?thesis
  proof (cases "r = 0")
    case False
    with True f fl ok cnt busy show ?thesis by (auto simp: cache_node_purge_def in_use_kept_def)
  next
    case r: True
    from idle_on_mru [OF ok a True] obtain p where p: "p < 17" "cn_priority (c_node c a) = int p" by blast
    define c1 where "c1 = chain_unlink i a (mru_del p a c)"
    note rl = relse [OF conjunct1 [OF fl], of a]
    have il: "i < length (c_hash c)" using lists_okD(7) [OF ok a] i by (simp add: cnode_ok_def)
    have pr: "cache_node_purge ops a c w = Some ((0, c1), op_relse ops a w1)"
      using True f r p i lists_okD(7) [OF ok a] by (simp add: cache_node_purge_def cnode_ok_def c1_def)
    have frame: "same_shape c c1" "c_maxcount c1 = c_maxcount c" "c_node c1 = c_node c" "c_count c1 = c_count c"
      by (simp_all add: c1_def same_shape_def)
    have lists: "lists_ok (owned w - {a}) (chain_less i c1)"
    proof (rule drop_node_ok [OF ok a True p(2) i])
      show "c_hash (chain_less i c1) = (c_hash c)[i := \<lparr>ch_list = remove1 a (ch_list (c_hash c ! i)), ch_count = ch_count (c_hash c ! i) - 1\<rparr>]"
        using il by (simp add: c1_def mru_del_def chain_less_def chain_unlink_def hash_record)
      show "c_mrus (chain_less i c1) = (c_mrus c)[p := \<lparr>cm_list = remove1 a (cm_list (c_mrus c ! p)), cm_count = cm_count (c_mrus c ! p) - 1\<rparr>]"
        by (simp add: c1_def mru_del_def chain_less_def chain_unlink_def)
    qed (simp_all add: c1_def)
    have "card (owned w) = Suc (card (owned w - {a}))"
      using lists_okD(1) [OF ok] a by (rule card.remove)
    then have "count_ok (owned w - {a}) (purged + 1) (chain_less i c1)"
      using cnt flag frame by (simp add: count_ok_def same_shape_def)
    moreover have "in_use_kept (owned w) c (view w) (owned w - {a}) c1 (view (op_relse ops a w1))"
      using fl rl a busy frame(3) by (auto simp: in_use_kept_def)
    ultimately show ?thesis using pr lists frame fl rl a by auto
  qed
qed

end

text \<open>
  What a successful search means, over the nodes before and after it and what is seen of the objects: the
  node is in use once more, or it is new; the others that are in use are as before.
\<close>

definition got ::
    "node_addr set \<Rightarrow> cache \<Rightarrow> (node_addr \<Rightarrow> 'v) \<Rightarrow> int \<Rightarrow> node_addr \<Rightarrow> node_addr set \<Rightarrow> cache \<Rightarrow> (node_addr \<Rightarrow> 'v) \<Rightarrow> bool" where
  "got live c v r a live' c' v' \<longleftrightarrow> a \<in> live'
     \<and> (\<forall>b \<in> live. cn_count (c_node c b) \<noteq> 0 \<longrightarrow> b \<in> live' \<and> v' b = v b \<and> (b \<noteq> a \<longrightarrow> c_node c' b = c_node c b))
     \<and> (r = 0 \<and> a \<in> live \<and> cn_count (c_node c' a) = cn_count (c_node c a) + 1
       \<or> r = 1 \<and> cn_count (c_node c' a) = 1 \<and> (a \<in> live \<longrightarrow> cn_count (c_node c a) = 0))"

lemma got_after:
  assumes k: "in_use_kept live c v live1 c1 v1" and g: "got live1 c1 v1 r a live' c' v'"
  shows "got live c v r a live' c' v'"
proof -
  have sub: "live1 \<subseteq> live" using k by (simp add: in_use_kept_def)
  have cnt: "cn_count (c_node c1 b) = cn_count (c_node c b)" if "b \<in> live1" for b
    using k that by (simp add: in_use_kept_def)
  have use1: "b \<in> live1 \<and> c_node c1 b = c_node c b \<and> v1 b = v b" if "b \<in> live" "cn_count (c_node c b) \<noteq> 0" for b
    using k that by (simp add: in_use_kept_def)
  have a: "a \<in> live'" using g by (simp add: got_def)
  have others: "b \<in> live' \<and> v' b = v b \<and> (b \<noteq> a \<longrightarrow> c_node c' b = c_node c b)"
    if "b \<in> live" "cn_count (c_node c b) \<noteq> 0" for b
    using use1 [OF that] g that(2) by (simp add: got_def)
  have "r = 0 \<and> a \<in> live1 \<and> cn_count (c_node c' a) = cn_count (c_node c1 a) + 1
       \<or> r = 1 \<and> cn_count (c_node c' a) = 1 \<and> (a \<in> live1 \<longrightarrow> cn_count (c_node c1 a) = 0)"
    using g by (simp add: got_def)
  then have "r = 0 \<and> a \<in> live \<and> cn_count (c_node c' a) = cn_count (c_node c a) + 1
       \<or> r = 1 \<and> cn_count (c_node c' a) = 1 \<and> (a \<in> live \<longrightarrow> cn_count (c_node c a) = 0)"
    using cnt sub use1 [of a] by auto
  with a others show ?thesis by (simp add: got_def)
qed

definition no_overflow :: "node_addr set \<Rightarrow> cache \<Rightarrow> bool" where
  "no_overflow live c \<longleftrightarrow> (\<forall>a \<in> live. cn_count (c_node c a) \<noteq> -1)"

lemma no_overflow_kept: "no_overflow live c \<Longrightarrow> in_use_kept live c v live' c' v' \<Longrightarrow> no_overflow live' c'"
  by (auto simp: no_overflow_def in_use_kept_def)

lemma count_ok_weaken: "count_ok live purged c \<Longrightarrow> count_ok live 0 c"
  by (auto simp: count_ok_def)

context cache_client
begin

lemma scan_spec:
  assumes "lists_ok (owned w) c" and "count_ok (owned w) purged c" and "good w" and "no_overflow (owned w) c"
    and "distinct as" and "\<And>a. a \<in> set as \<Longrightarrow> a \<in> owned w \<and> cn_hashidx (c_node c a) = i"
  shows "\<exists>r purged' c' w'. get_scan ops key i as purged c w = Some ((r, purged', c'), w') \<and>
    lists_ok (owned w') c' \<and> count_ok (owned w') purged' c' \<and> good w' \<and> same_shape c c' \<and> c_maxcount c' = c_maxcount c \<and>
    (case r of
       None \<Rightarrow> in_use_kept (owned w) c (view w) (owned w') c' (view w')
     | Some a \<Rightarrow> op_compare ops a key w' = CACHE_HIT \<and> got (owned w) c (view w) 0 a (owned w') c' (view w'))"
  using assms
proof (induction as arbitrary: purged c w)
  case Nil
  then show ?case by (simp add: in_use_kept_refl)
next
  case (Cons a as)
  have a: "a \<in> owned w" "cn_hashidx (c_node c a) = i" "a \<notin> set as" using Cons.prems(5,6) by auto
  have skip: ?case if "get_scan ops key i (a # as) purged c w = get_scan ops key i as purged c w"
    unfolding that using Cons.prems by (intro Cons.IH) auto
  show ?case
  proof (cases "op_compare ops a key w")
    case CACHE_MISS
    then show ?thesis by (intro skip) simp
  next
    case CACHE_HIT
    have "cn_count (c_node c a) \<noteq> -1" using Cons.prems(4) a(1) by (simp add: no_overflow_def)
    from node_hit_ok [OF Cons.prems(1) a(1) this] obtain c' where hit: "node_hit a c = Some c'" "lists_ok (owned w) c'"
      "c_node c' = (c_node c)(a := (c_node c a)\<lparr>cn_count := cn_count (c_node c a) + 1\<rparr>)"
      "c_count c' = c_count c" "c_maxcount c' = c_maxcount c" "c_flags c' = c_flags c" by blast
    then have "c_hashsize c' = c_hashsize c"
      by (auto simp: node_hit_def Let_def split: if_splits option.splits)
    then show ?thesis using CACHE_HIT hit Cons.prems a by (auto simp: same_shape_def count_ok_def got_def)
  next
    case CACHE_PURGE
    show ?thesis
    proof (cases "c_flags c AND CACHE_MISCOMPARE_PURGE = 0")
      case True
      with CACHE_PURGE show ?thesis by (intro skip) simp
    next
      case False
      from purge_spec [OF Cons.prems(1-3) a(1) False a(2)] obtain r c1 w1 where
        p: "cache_node_purge ops a c w = Some ((r, c1), w1)" "good w1" "same_shape c c1" "c_maxcount c1 = c_maxcount c"
          "c_node c1 = c_node c" "in_use_kept (owned w) c (view w) (owned w1) c1 (view w1)"
        and q: "if r = 0 then owned w1 = owned w - {a} \<and> lists_ok (owned w1) (chain_less i c1) \<and> count_ok (owned w1) (purged + 1) (chain_less i c1)
          else owned w1 = owned w \<and> lists_ok (owned w1) c1 \<and> count_ok (owned w1) purged c1" by blast
      define c2 where "c2 = (if r = 0 then chain_less i c1 else c1)"
      define n where "n = (if r = 0 then purged + 1 else purged)"
      have c2: "lists_ok (owned w1) c2" "count_ok (owned w1) n c2" "same_shape c c2" "c_maxcount c2 = c_maxcount c"
        "in_use_kept (owned w) c (view w) (owned w1) c2 (view w1)" "c_node c2 = c_node c"
        using p q by (auto simp: c2_def n_def same_shape_def in_use_kept_def)
      have "b \<in> owned w1 \<and> cn_hashidx (c_node c2 b) = i" if "b \<in> set as" for b
        using Cons.prems(6) [of b] that a(3) q c2(6) by (auto split: if_splits)
      with Cons.IH [OF c2(1,2) p(2) no_overflow_kept [OF Cons.prems(4) c2(5)]] Cons.prems(5) obtain r' purged' c' w' where
        IH: "get_scan ops key i as n c2 w1 = Some ((r', purged', c'), w')" "lists_ok (owned w') c'" "count_ok (owned w') purged' c'"
          "good w'" "same_shape c2 c'" "c_maxcount c' = c_maxcount c2"
          "case r' of
             None \<Rightarrow> in_use_kept (owned w1) c2 (view w1) (owned w') c' (view w')
           | Some a \<Rightarrow> op_compare ops a key w' = CACHE_HIT \<and> got (owned w1) c2 (view w1) 0 a (owned w') c' (view w')" by auto
      have "get_scan ops key i (a # as) purged c w = Some ((r', purged', c'), w')"
        using CACHE_PURGE False p(1) IH(1) by (simp add: c2_def n_def split: if_splits)
      moreover have "same_shape c c'" using c2(3) IH(5) by (rule same_shape_trans)
      moreover have "case r' of
             None \<Rightarrow> in_use_kept (owned w) c (view w) (owned w') c' (view w')
           | Some a \<Rightarrow> op_compare ops a key w' = CACHE_HIT \<and> got (owned w) c (view w) 0 a (owned w') c' (view w')"
        using IH(7) in_use_kept_trans [OF c2(5)] got_after [OF c2(5)] by (cases r') auto
      ultimately show ?thesis using IH(2-4,6) c2(4) by simp
    qed
  qed
qed

text \<open>The new node joins its chain.\<close>

lemma insert_spec:
  assumes ok: "lists_ok (owned w) c" and cnt: "count_ok (owned w) purged c" and good: "good w" and i: "i < length (c_hash c)"
    and key: "key_ok key" and al: "cache_node_allocate ops key c w = Some ((Some a, c1), w1)"
  defines "c2 \<equiv> chain_add i a (set_node a (\<lambda>n. n\<lparr>cn_hashidx := i\<rparr>) c1)"
  shows "lists_ok (owned w1) (c2\<lparr>c_count := c_count c2 - of_nat purged\<rparr>) \<and>
    count_ok (owned w1) 0 (c2\<lparr>c_count := c_count c2 - of_nat purged\<rparr>) \<and> good w1 \<and> same_shape c c2 \<and>
    op_compare ops a key w1 = CACHE_HIT \<and>
    got (owned w) c (view w) 1 a (owned w1) (c2\<lparr>c_count := c_count c2 - of_nat purged\<rparr>) (view w1)"
proof -
  from allocate_spec [OF ok cnt good key al] obtain c0 where
    n: "good w1" "a \<notin> owned w" "owned w1 = insert a (owned w)" "op_compare ops a key w1 = CACHE_HIT"
      "c_count c < c_maxcount c" "\<And>b. b \<in> owned w \<Longrightarrow> view w1 b = view w b"
    and c1: "c1 = set_node a (\<lambda>n. n\<lparr>cn_count := 1, cn_priority := 0, cn_old_priority := -1\<rparr>) c0"
    and c0: "lists_ok (owned w) c0" "same_shape c c0" "c_node c0 = c_node c" "c_count c0 = c_count c + 1"
      "c_maxcount c0 = c_maxcount c" "c_hash c0 = c_hash c" by auto
  have lists: "lists_ok (owned w1) c2"
    unfolding c2_def c1 n(3) by (rule insert_node_ok [OF c0(1) n(2)]) (use i c0(6) in simp)
  have frame: "c_count c2 = c_count c + 1" "c_maxcount c2 = c_maxcount c" "same_shape c c2"
    using c0 by (simp_all add: c2_def c1 same_shape_def)
  have lt: "unat (c_count c) < unat (c_maxcount c)" using n(5) by (simp add: word_less_nat_alt)
  moreover have "unat (c_maxcount c) < 2 ^ 32" using unsigned_less [of "c_maxcount c"] by simp
  ultimately have "unat (c_count c) + 1 < 2 ^ 32" by linarith
  then have u: "unat (c_count c2) = unat (c_count c) + 1" unfolding frame(1) by (subst unat_add_lem [THEN iffD1]) simp_all
  have card: "card (owned w1) = card (owned w) + 1" using n(2,3) lists_okD(1) [OF ok] by simp
  have pl: "purged \<le> unat (c_count c2)" using cnt u by (simp add: count_ok_def)
  moreover have "unat (c_count c2) < 2 ^ 32" using unsigned_less [of "c_count c2"] by simp
  ultimately have up: "unat (of_nat purged :: u32) = purged" by (simp add: unat_of_nat take_bit_nat_eq_self)
  then have "of_nat purged \<le> c_count c2" using pl by (simp add: word_le_nat_alt)
  then have sub: "unat (c_count c2 - of_nat purged) = unat (c_count c) + 1 - purged" using up u by (simp add: unat_sub)
  have "count_ok (owned w1) 0 (c2\<lparr>c_count := c_count c2 - of_nat purged\<rparr>)"
    using cnt card sub lt frame by (auto simp: count_ok_def word_le_nat_alt same_shape_def)
  moreover have "cn_count (c_node c2 a) = 1" "\<And>b. b \<noteq> a \<Longrightarrow> c_node c2 b = c_node c b"
    using c0(3) by (simp_all add: c2_def c1)
  ultimately show ?thesis using lists frame(3) n by (auto simp: got_def)
qed

lemma get_loop_gen:
  "cache_node_get_loop ops' key i p purged c w = Some res \<Longrightarrow> ops' = ops \<and> key_ok key \<Longrightarrow>
   lists_ok (owned w) c \<Longrightarrow> count_ok (owned w) purged c \<Longrightarrow> good w \<Longrightarrow> no_overflow (owned w) c \<Longrightarrow> i < length (c_hash c) \<Longrightarrow> p \<le> 15 \<Longrightarrow>
   (\<forall>r a c' w'. res = ((r, a, c'), w') \<longrightarrow>
     lists_ok (owned w') c' \<and> count_ok (owned w') 0 c' \<and> good w' \<and> same_shape c c' \<and> op_compare ops a key w' = CACHE_HIT \<and>
     got (owned w) c (view w) r a (owned w') c' (view w'))"
proof (induction rule: cache_node_get_loop.raw_induct [rotated, consumes 1, case_names step])
  case (step f ops' key i p purged c w res)
  note ops = step(3) [THEN conjunct1] and key = step(3) [THEN conjunct2] and ok = step(4) and cnt = step(5) and good = step(6) and over = step(7) and i = step(8) and p = step(9)
  have len: "length (c_hash c1) = length (c_hash c)" if "lists_ok l c1" "same_shape c c1" for l c1
    using lists_okD(2) [OF that(1)] lists_okD(2) [OF ok] that(2) by (simp add: same_shape_def)
  have ch: "chain_ok (owned w) c i" using lists_okD(5) [OF ok i] .
  then have "distinct (ch_list (c_hash c ! i))"
    "\<And>a. a \<in> set (ch_list (c_hash c ! i)) \<Longrightarrow> a \<in> owned w \<and> cn_hashidx (c_node c a) = i"
    by (auto simp: chain_ok_def)
  from scan_spec [OF ok cnt good over this, of key] obtain r1 n c1 w1 where
    s: "get_scan ops key i (ch_list (c_hash c ! i)) purged c w = Some ((r1, n, c1), w1)"
    and s1: "lists_ok (owned w1) c1" "count_ok (owned w1) n c1" "good w1" "same_shape c c1"
    and s2: "case r1 of
       None \<Rightarrow> in_use_kept (owned w) c (view w) (owned w1) c1 (view w1)
     | Some a \<Rightarrow> op_compare ops a key w1 = CACHE_HIT \<and> got (owned w) c (view w) 0 a (owned w1) c1 (view w1)" by blast
  note eq = step(2) [unfolded ops, unfolded s, simplified]
  show ?case
  proof (cases r1)
    case (Some a)
    with eq have "res = ((0, a, c1), w1)" by simp
    with Some s1 s2 count_ok_weaken show ?thesis by auto
  next
    case None
    with s2 have k1: "in_use_kept (owned w) c (view w) (owned w1) c1 (view w1)" by simp
    have i1: "i < length (c_hash c1)" using i len [OF s1(1,4)] by simp
    from eq None obtain r2 c2 w2 where al: "cache_node_allocate ops key c1 w1 = Some ((r2, c2), w2)"
      by (cases "cache_node_allocate ops key c1 w1") auto
    show ?thesis
    proof (cases r2)
      case (Some a)
      note ins = insert_spec [OF s1(1-3) i1 key al [unfolded Some]]
      from eq None al Some have "res = ((1, a, (chain_add i a (set_node a (\<lambda>n. n\<lparr>cn_hashidx := i\<rparr>) c2))
          \<lparr>c_count := c_count (chain_add i a (set_node a (\<lambda>n. n\<lparr>cn_hashidx := i\<rparr>) c2)) - of_nat n\<rparr>), w2)"
        by (simp add: Let_def)
      with ins got_after [OF k1] same_shape_trans [OF s1(4)] show ?thesis by (auto simp: same_shape_def)
    next
      case None
      note a2 = allocate_spec [OF s1(1-3) key al, unfolded None, simplified]
      have k2: "in_use_kept (owned w) c (view w) (owned w2) c2 (view w2)"
        using in_use_kept_trans [OF k1] a2 by blast
      have "lists_ok (owned w2) c2" "count_ok (owned w2) n c2" "good w2" using a2 by auto
      from cache_shake_spec [OF this p] obtain p3 c3 w3 where sh: "cache_shake ops p False c2 w2 = Some ((p3, c3), w3)"
        and s3: "lists_ok (owned w3) c3" "count_ok (owned w3) n c3" "good w3" "same_shape c2 c3"
        and k3: "in_use_kept (owned w2) c2 (view w2) (owned w3) c3 (view w3)" by blast
      have shape: "same_shape c c3" using s1(4) a2 s3(4) by (auto simp: same_shape_def)
      have kept: "in_use_kept (owned w) c (view w) (owned w3) c3 (view w3)" using k2 k3 by (rule in_use_kept_trans)
      define c4 where "c4 = (if p3 > CACHE_MAX_PRIORITY then cache_expand c3 else c3)"
      define p4 where "p4 = (if p3 > CACHE_MAX_PRIORITY then 0 else p3)"
      have expand: "lists_ok l (cache_expand c3) = lists_ok l c3" "count_ok l n (cache_expand c3) = count_ok l n c3"
        "same_shape c (cache_expand c3) = same_shape c c3" "c_hash (cache_expand c3) = c_hash c3" "c_node (cache_expand c3) = c_node c3" for l
        by (simp_all add: cache_expand_def count_ok_def same_shape_def)
      have c4: "lists_ok (owned w3) c4" "count_ok (owned w3) n c4" "same_shape c c4" "i < length (c_hash c4)"
        "in_use_kept (owned w) c (view w) (owned w3) c4 (view w3)" "p4 \<le> 15"
        using s3 shape kept expand i len [OF s3(1) shape] by (auto simp: c4_def p4_def in_use_kept_def CACHE_MAX_PRIORITY_def)
      have again: "f ops key i p4 n c4 w3 = Some res"
        using eq None \<open>r1 = None\<close> al sh by (auto simp: c4_def p4_def split: if_splits)
      have goes: "lists_ok (owned w') c' \<and> count_ok (owned w') 0 c' \<and> good w' \<and> same_shape c4 c' \<and> op_compare ops a key w' = CACHE_HIT \<and>
          got (owned w3) c4 (view w3) r a (owned w') c' (view w')" if "res = ((r, a, c'), w')" for r a c' w'
        using step(1) [OF again conjI [OF refl key] c4(1,2) s3(3) no_overflow_kept [OF over c4(5)] c4(4,6)] that by blast
      show ?thesis using goes got_after [OF c4(5)] same_shape_trans [OF c4(3)] by blast
    qed
  qed
qed

lemmas get_loop_spec = get_loop_gen [OF _ conjI [OF refl], rule_format]

text \<open>The search ends as soon as there is room for one more node.\<close>

lemma scan_count: "get_scan ops key i as purged c w = Some ((r, n, c'), w') \<Longrightarrow> c_count c' = c_count c"
proof (induction as arbitrary: purged c w)
  case (Cons a as)
  have hit: "node_hit a c = Some d \<Longrightarrow> c_count d = c_count c" for d
    by (auto simp: node_hit_def Let_def split: if_splits option.splits)
  have purge: "cache_node_purge ops a c w = Some ((r1, d), w1) \<Longrightarrow> c_count d = c_count c" for r1 d w1
    by (auto simp: cache_node_purge_def Let_def split: if_splits prod.splits)
  from Cons show ?case
    by (auto split: cache_result.splits option.splits prod.splits if_splits dest!: hit purge)
qed simp

lemma get_loop_room:
  assumes ok: "lists_ok (owned w) c" and cnt: "count_ok (owned w) purged c" and good: "good w" and over: "no_overflow (owned w) c"
    and i: "i < length (c_hash c)" and total: "\<And>w. good w \<Longrightarrow> \<exists>a w'. op_alloc ops key w = Some (Some a, w')" and room: "c_count c < c_maxcount c"
  shows "\<exists>res. cache_node_get_loop ops key i p purged c w = Some res"
proof -
  from lists_okD(5) [OF ok i] have "distinct (ch_list (c_hash c ! i))"
    "\<And>a. a \<in> set (ch_list (c_hash c ! i)) \<Longrightarrow> a \<in> owned w \<and> cn_hashidx (c_node c a) = i"
    by (auto simp: chain_ok_def)
  from scan_spec [OF ok cnt good over this, of key] obtain r1 n c1 w1 where
    s: "get_scan ops key i (ch_list (c_hash c ! i)) purged c w = Some ((r1, n, c1), w1)" "good w1" "c_maxcount c1 = c_maxcount c" by blast
  have "c_count c1 < c_maxcount c1" using room scan_count [OF s(1)] s(3) by simp
  then obtain a c2 w2 where "cache_node_allocate ops key c1 w1 = Some ((Some a, c2), w2)"
    using total [OF s(2)] by (auto simp: cache_node_allocate_def Let_def)
  with s(1) show ?thesis
    by (subst cache_node_get_loop.simps) (simp add: Let_def split: option.split)
qed

lemma get_loop_ends:
  assumes key: "key_ok key" and total: "\<And>w. good w \<Longrightarrow> \<exists>a w'. op_alloc ops key w = Some (Some a, w')"
    and "lists_ok (owned w) c" and "count_ok (owned w) purged c" and "good w" and "no_overflow (owned w) c"
    and "i < length (c_hash c)" and "p \<le> 15" and "c_count c < c_maxcount c * 2"
  shows "\<exists>res. cache_node_get_loop ops key i p purged c w = Some res"
  using assms(3-)
proof (induction "card (owned w) * 17 + (16 - p)" arbitrary: p purged c w rule: less_induct)
  case less
  note ok = less.prems(1) and cnt = less.prems(2) and good = less.prems(3) and over = less.prems(4) and i = less.prems(5)
    and p = less.prems(6) and grow = less.prems(7)
  have len: "length (c_hash c1) = length (c_hash c)" if "lists_ok l c1" "same_shape c c1" for l c1
    using lists_okD(2) [OF that(1)] lists_okD(2) [OF ok] that(2) by (simp add: same_shape_def)
  from lists_okD(5) [OF ok i] have "distinct (ch_list (c_hash c ! i))"
    "\<And>a. a \<in> set (ch_list (c_hash c ! i)) \<Longrightarrow> a \<in> owned w \<and> cn_hashidx (c_node c a) = i"
    by (auto simp: chain_ok_def)
  from scan_spec [OF ok cnt good over this, of key] obtain r1 n c1 w1 where
    s: "get_scan ops key i (ch_list (c_hash c ! i)) purged c w = Some ((r1, n, c1), w1)"
    and s1: "lists_ok (owned w1) c1" "count_ok (owned w1) n c1" "good w1" "same_shape c c1" "c_maxcount c1 = c_maxcount c"
    and s2: "case r1 of
       None \<Rightarrow> in_use_kept (owned w) c (view w) (owned w1) c1 (view w1)
     | Some a \<Rightarrow> op_compare ops a key w1 = CACHE_HIT \<and> got (owned w) c (view w) 0 a (owned w1) c1 (view w1)" by blast
  from total [OF s1(3)] obtain ra c2 w2 where al: "cache_node_allocate ops key c1 w1 = Some ((ra, c2), w2)"
    by (cases "c_count c1 < c_maxcount c1") (auto simp: cache_node_allocate_def Let_def)
  show ?case
  proof (cases "\<exists>a. r1 = Some a \<or> ra = Some a")
    case True
    with s al show ?thesis by (subst cache_node_get_loop.simps) (auto simp: Let_def split: option.split)
  next
    case False
    then have r1: "r1 = None" "ra = None" by (cases r1; cases ra; auto)+
    with s2 have k1: "in_use_kept (owned w) c (view w) (owned w1) c1 (view w1)" by simp
    note a2 = allocate_spec [OF s1(1-3) key al, unfolded r1, simplified]
    have "\<not> c_count c1 < c_maxcount c1"
      using al r1 total [OF s1(3)] by (auto simp: cache_node_allocate_def Let_def)
    with al have c2: "c_count c2 = c_count c1" by (auto simp: cache_node_allocate_def Let_def)
    have "lists_ok (owned w2) c2" "count_ok (owned w2) n c2" "good w2" using a2 by auto
    from cache_shake_spec [OF this p] obtain p3 c3 w3 where sh: "cache_shake ops p False c2 w2 = Some ((p3, c3), w3)"
      and s3: "lists_ok (owned w3) c3" "count_ok (owned w3) n c3" "good w3" "same_shape c2 c3" "c_maxcount c3 = c_maxcount c2"
        "c_count c3 \<le> c_count c2"
      and k3: "in_use_kept (owned w2) c2 (view w2) (owned w3) c3 (view w3)"
      and less3: "p3 = p \<and> card (owned w3) < card (owned w2) \<or> p3 = p + 1" by blast
    have shape: "same_shape c c3" using s1(4) a2 s3(4) by (auto simp: same_shape_def)
    have kept: "in_use_kept (owned w) c (view w) (owned w3) c3 (view w3)"
      using in_use_kept_trans [OF k1] in_use_kept_trans [OF _ k3] a2 by blast
    have i3: "i < length (c_hash c3)" using i len [OF s3(1) shape] by simp
    have grow3: "c_count c3 < c_maxcount c3 * 2"
      using grow s3(5,6) c2 scan_count [OF s] a2 s1(5) by auto
    have over3: "no_overflow (owned w3) c3" using no_overflow_kept [OF over kept] .
    have loop: "cache_node_get_loop ops key i p purged c w =
      (if p3 > CACHE_MAX_PRIORITY then cache_node_get_loop ops key i 0 n (cache_expand c3) w3
       else cache_node_get_loop ops key i p3 n c3 w3)"
      using s r1 al sh by (subst cache_node_get_loop.simps) simp
    show ?thesis
    proof (cases "p3 > CACHE_MAX_PRIORITY")
      case True
      have "lists_ok (owned w3) (cache_expand c3)" "count_ok (owned w3) n (cache_expand c3)" "no_overflow (owned w3) (cache_expand c3)"
        "i < length (c_hash (cache_expand c3))" "c_count (cache_expand c3) < c_maxcount (cache_expand c3)"
        using s3 over3 i3 grow3 by (simp_all add: cache_expand_def count_ok_def no_overflow_def)
      from get_loop_room [OF this(1,2) s3(3) this(3,4) total this(5)] True show ?thesis by (simp add: loop)
    next
      case False
      have "card (owned w3) \<le> card (owned w)"
        using kept lists_okD(1) [OF ok] by (intro card_mono) (simp_all add: in_use_kept_def)
      moreover have "owned w2 = owned w1" using a2 by auto
      moreover have "card (owned w1) \<le> card (owned w)"
        using k1 lists_okD(1) [OF ok] by (intro card_mono) (simp_all add: in_use_kept_def)
      ultimately have "card (owned w3) * 17 + (16 - p3) < card (owned w) * 17 + (16 - p)"
        using less3 False p by (auto simp: CACHE_MAX_PRIORITY_def)
      from less.hyps [OF this s3(1,2,3) over3 i3 _ grow3] False show ?thesis
        by (simp add: loop CACHE_MAX_PRIORITY_def)
    qed
  qed
qed

lemma hash_in_range:
  assumes "lists_ok live c"
  shows "unat (op_hash ops key (c_hashsize c) (c_hashshift c)) < length (c_hash c)"
  using hash_less [of "c_hashsize c" key "c_hashshift c"] lists_okD(2,3) [OF assms] by (simp add: word_less_nat_alt)

lemma get_spec:
  assumes "cache_ok (owned w) c" and "good w" and "no_overflow (owned w) c" and "key_ok key"
    and "cache_node_get ops key c w = Some ((r, a, c'), w')"
  shows "cache_ok (owned w') c' \<and> good w' \<and> same_shape c c' \<and> op_compare ops a key w' = CACHE_HIT \<and>
    got (owned w) c (view w) r a (owned w') c' (view w')"
proof -
  have ok: "lists_ok (owned w) c" "count_ok (owned w) 0 c" using assms(1) by (simp_all add: cache_ok_alt)
  from get_loop_spec [OF assms(5) [unfolded cache_node_get_def] assms(4) ok assms(2,3) hash_in_range [OF ok(1)] _ refl]
  show ?thesis by (simp add: cache_ok_alt)
qed

lemma get_ends:
  assumes "cache_ok (owned w) c" and "good w" and "no_overflow (owned w) c" and "key_ok key"
    and "\<And>w. good w \<Longrightarrow> \<exists>a w'. op_alloc ops key w = Some (Some a, w')" and "c_count c < c_maxcount c * 2"
  shows "\<exists>res. cache_node_get ops key c w = Some res"
proof -
  have ok: "lists_ok (owned w) c" "count_ok (owned w) 0 c" using assms(1) by (simp_all add: cache_ok_alt)
  show ?thesis unfolding cache_node_get_def
    using get_loop_ends [OF assms(4,5) ok assms(2,3) hash_in_range [OF ok(1)] _ assms(6)] by simp
qed

end

text \<open>The cache that \<^verbatim>\<open>cache_init\<close> returns.\<close>

lemma cache_init_ok:
  assumes "cache_init flags buckets memory w = (Some c, w')" and "0 < buckets"
  shows "cache_ok {} c" and "c_maxcount c = buckets * HASH_CACHE_RATIO" and "c_count c = 0" and "c_flags c = flags"
  using assms by (auto simp: cache_init_def Let_def cache_ok_def lists_ok_def chain_ok_def mru_ok_def
      CACHE_DIRTY_PRIORITY_def CACHE_MAX_PRIORITY_def split: bool.splits prod.splits)

lemma cache_ok_put:
  assumes "cache_ok live c" and "a \<in> live" and "cn_count (c_node c a) \<noteq> 0"
  shows "\<exists>c'. cache_node_put a c = Some c' \<and> cache_ok live c' \<and>
    c_node c' = (c_node c)(a := (c_node c a)\<lparr>cn_count := cn_count (c_node c a) - 1\<rparr>)"
  using node_put_ok [of live c a] assms by (auto simp: cache_ok_def)

lemma cache_ok_set_priority:
  assumes "cache_ok live c" and "a \<in> live" and "cn_count (c_node c a) \<noteq> 0"
  shows "\<exists>c' n. cache_node_set_priority a p c = Some c' \<and> cache_ok live c' \<and>
    c_node c' = (c_node c)(a := n) \<and> cn_count n = cn_count (c_node c a)"
  using set_priority_ok [of live c a p] assms by (auto simp: cache_ok_def)

end
