(* ===== verification/XfsBuf.thy ===== *)
theory XfsBuf
  imports CacheClient
begin

text \<open>
  \<^verbatim>\<open>src/src/xfs/rdwr.c\<close> and \<^verbatim>\<open>libxfs_io.h\<close>: the buffers of libxfs, a client of the cache, and \<^verbatim>\<open>libxfs_readbuf\<close>, through which
  \<^verbatim>\<open>gdbus-xfsfs.c\<close> reads every block; and the proof that they fulfil the contract of the cache. A buffer begins with its cache node and has the address of the node. Buffers
  that the cache has released are kept on a free list for the next allocation.

  The daemon leaves \<^verbatim>\<open>usebuflock\<close> at 0, so buffers are not locked; one call runs at a time, so the mutex of
  the free list has no effect. The verifiers are functions of other files: they are named by a string and
  are an argument. \<^term>\<open>None\<close> is a fault: a write through \<^verbatim>\<open>NULL\<close> or after the end of a buffer.
\<close>

section \<open>Definitions\<close>

type_synonym dev_t = u64

definition BBSHIFT :: nat where "BBSHIFT = 9"
definition BBTOB :: "u32 \<Rightarrow> u32" where "BBTOB bbs = push_bit BBSHIFT bbs"
definition BTOBB :: "u32 \<Rightarrow> u32" where "BTOBB bytes = ucast (drop_bit BBSHIFT (ucast bytes + 511 :: u64))"
definition LIBXFS_BBTOOFF64 :: "u64 \<Rightarrow> u64" where "LIBXFS_BBTOOFF64 bbs = push_bit BBSHIFT bbs"

definition LIBXFS_EXIT_ON_FAILURE :: u32 where "LIBXFS_EXIT_ON_FAILURE = 0x0001"
definition LIBXFS_B_EXIT :: u32 where "LIBXFS_B_EXIT = 0x0001"
definition LIBXFS_B_DIRTY :: u32 where "LIBXFS_B_DIRTY = 0x0002"
definition LIBXFS_B_STALE :: u32 where "LIBXFS_B_STALE = 0x0004"
definition LIBXFS_B_UPTODATE :: u32 where "LIBXFS_B_UPTODATE = 0x0008"
definition LIBXFS_B_DISCONTIG :: u32 where "LIBXFS_B_DISCONTIG = 0x0010"
definition LIBXFS_B_UNCHECKED :: u32 where "LIBXFS_B_UNCHECKED = 0x0020"

type_synonym xfs_buf_map = "u64 \<times> u32"

record xfs_buf =
  b_flags :: u32
  b_bn :: u64
  b_bcount :: u32
  b_length :: u32
  b_target :: dev_t
  b_addr :: "byte list option"
  b_error :: int
  b_ops :: "string option"
  b_maps :: "xfs_buf_map list"

record xfs_bufkey =
  bk_dev :: dev_t
  bk_blkno :: u64
  bk_bblen :: u32
  bk_map :: "xfs_buf_map list option"

text \<open>
  The memory of the buffers (addresses from \<open>xb_next\<close> on have not been given out by \<^verbatim>\<open>malloc\<close>), \<^verbatim>\<open>xfs_buf_freelist\<close>,
  the table \<^verbatim>\<open>dev_map\<close> of \<^verbatim>\<open>xfs_init.c\<close>, and the environment.
\<close>

record xfs_bufs =
  xb_mem :: "node_addr \<Rightarrow> xfs_buf"
  xb_next :: node_addr
  xb_freelist :: "node_addr list"
  xb_dev_map :: "(dev_t \<times> int) list"
  xb_world :: world

definition set_buf :: "node_addr \<Rightarrow> xfs_buf \<Rightarrow> xfs_bufs \<Rightarrow> xfs_bufs" where
  "set_buf a b s = s\<lparr>xb_mem := (xb_mem s)(a := b)\<rparr>"

definition libxfs_device_to_fd :: "dev_t \<Rightarrow> xfs_bufs \<Rightarrow> int" where
  "libxfs_device_to_fd device s =
     (case find (\<lambda>(dev, fd). dev = device) (xb_dev_map s) of Some (dev, fd) \<Rightarrow> fd | None \<Rightarrow> -1)"

definition GOLDEN_RATIO_PRIME :: u64 where "GOLDEN_RATIO_PRIME = 0x9e37fffffffc0001"
definition CACHE_LINE_SIZE :: u64 where "CACHE_LINE_SIZE = 64"

definition libxfs_bhash :: "xfs_bufkey \<Rightarrow> u32 \<Rightarrow> u32 \<Rightarrow> u32" where
  "libxfs_bhash key hashsize hashshift =
     (let hashval = bk_blkno key;
          tmp = hashval XOR ((GOLDEN_RATIO_PRIME + hashval) div CACHE_LINE_SIZE);
          tmp = tmp XOR drop_bit (unat hashshift) (tmp XOR GOLDEN_RATIO_PRIME)
      in ucast (tmp mod ucast hashsize))"

definition libxfs_bcompare :: "node_addr \<Rightarrow> xfs_bufkey \<Rightarrow> xfs_bufs \<Rightarrow> cache_result" where
  "libxfs_bcompare a bkey s =
     (let bp = xb_mem s a
      in if b_target bp = bk_dev bkey \<and> b_bn bp = bk_blkno bkey
         then if b_bcount bp = BBTOB (bk_bblen bkey) then CACHE_HIT else CACHE_PURGE
         else CACHE_MISS)"

text \<open>\<^verbatim>\<open>__initbuf\<close>. The memory of a buffer that has some already must be long enough for \<^verbatim>\<open>memset\<close>.\<close>

definition initbuf :: "xfs_buf \<Rightarrow> dev_t \<Rightarrow> u64 \<Rightarrow> u32 \<Rightarrow> world \<Rightarrow> (xfs_buf \<times> world) option" where
  "initbuf bp btp bno bytes w =
     (let bp = bp\<lparr>b_flags := 0, b_bn := bno, b_bcount := bytes, b_length := BTOBB bytes, b_target := btp, b_error := 0,
                b_ops := None\<rparr>;
          zeros = replicate (unat bytes) 0
      in case b_addr bp of
           None \<Rightarrow>
             (case sys_malloc w of (ok, w) \<Rightarrow> if ok then Some (bp\<lparr>b_addr := Some zeros\<rparr>, w) else None)
         | Some d \<Rightarrow>
             if length d < unat bytes then None
             else Some (bp\<lparr>b_addr := Some (zeros @ drop (unat bytes) d)\<rparr>, w))"

definition initbuf_map :: "xfs_buf \<Rightarrow> dev_t \<Rightarrow> xfs_buf_map list \<Rightarrow> world \<Rightarrow> (xfs_buf \<times> world) option" where
  "initbuf_map bp btp maps w =
     (case sys_malloc w of
        (False, w) \<Rightarrow> Some (bp\<lparr>b_maps := []\<rparr>, w)
      | (True, w) \<Rightarrow>
          (case initbuf (bp\<lparr>b_maps := maps\<rparr>) btp (fst (maps ! 0)) (sum_list (map (\<lambda>(bn, len). BBTOB len) maps)) w of
             None \<Rightarrow> None
           | Some (bp, w) \<Rightarrow> Some (bp\<lparr>b_flags := b_flags bp OR LIBXFS_B_DISCONTIG\<rparr>, w)))"

definition zero_buf :: xfs_buf where
  "zero_buf = \<lparr>b_flags = 0, b_bn = 0, b_bcount = 0, b_length = 0, b_target = 0, b_addr = None, b_error = 0, b_ops = None,
     b_maps = []\<rparr>"

text \<open>\<^verbatim>\<open>kmem_zone_zalloc\<close> and \<^verbatim>\<open>__libxfs_getbufr\<close>.\<close>

definition kmem_zone_zalloc :: "xfs_bufs \<Rightarrow> (node_addr \<times> xfs_bufs) option" where
  "kmem_zone_zalloc s =
     (case sys_malloc (xb_world s) of
        (False, w) \<Rightarrow> None
      | (True, w) \<Rightarrow>
          Some (xb_next s, set_buf (xb_next s) zero_buf (s\<lparr>xb_next := Suc (xb_next s), xb_world := w\<rparr>)))"

definition getbufr_raw :: "u32 \<Rightarrow> xfs_bufs \<Rightarrow> (node_addr \<times> xfs_bufs) option" where
  "getbufr_raw blen s =
     (case (case xb_freelist s of
              [] \<Rightarrow> kmem_zone_zalloc s
            | first # rest \<Rightarrow>
                (case find (\<lambda>a. b_bcount (xb_mem s a) = blen) (first # rest) of
                   Some a \<Rightarrow> Some (a, s\<lparr>xb_freelist := remove1 a (first # rest)\<rparr>)
                 | None \<Rightarrow>
                     Some (first, set_buf first ((xb_mem s first)\<lparr>b_addr := None, b_maps := []\<rparr>) (s\<lparr>xb_freelist := rest\<rparr>)))) of
        None \<Rightarrow> None
      | Some (a, s) \<Rightarrow> Some (a, set_buf a ((xb_mem s a)\<lparr>b_ops := None\<rparr>) s))"

definition libxfs_getbufr :: "dev_t \<Rightarrow> u64 \<Rightarrow> u32 \<Rightarrow> xfs_bufs \<Rightarrow> (node_addr option \<times> xfs_bufs) option" where
  "libxfs_getbufr btp blkno bblen s =
     (case getbufr_raw (BBTOB bblen) s of
        None \<Rightarrow> None
      | Some (a, s) \<Rightarrow>
          (case initbuf (xb_mem s a) btp blkno (BBTOB bblen) (xb_world s) of
             None \<Rightarrow> None
           | Some (bp, w) \<Rightarrow> Some (Some a, set_buf a bp (s\<lparr>xb_world := w\<rparr>))))"

definition libxfs_getbufr_map ::
    "dev_t \<Rightarrow> u64 \<Rightarrow> u32 \<Rightarrow> xfs_buf_map list \<Rightarrow> xfs_bufs \<Rightarrow> (node_addr option \<times> xfs_bufs) option" where
  "libxfs_getbufr_map btp blkno bblen maps s =
     (if maps = [] \<or> blkno \<noteq> fst (maps ! 0) then Some (None, s)
      else case getbufr_raw (BBTOB bblen) s of
        None \<Rightarrow> None
      | Some (a, s) \<Rightarrow>
          (case initbuf_map (xb_mem s a) btp maps (xb_world s) of
             None \<Rightarrow> None
           | Some (bp, w) \<Rightarrow> Some (Some a, set_buf a bp (s\<lparr>xb_world := w\<rparr>))))"

definition libxfs_balloc :: "xfs_bufkey \<Rightarrow> xfs_bufs \<Rightarrow> (node_addr option \<times> xfs_bufs) option" where
  "libxfs_balloc key s =
     (case bk_map key of
        Some maps \<Rightarrow> libxfs_getbufr_map (bk_dev key) (bk_blkno key) (bk_bblen key) maps s
      | None \<Rightarrow> libxfs_getbufr (bk_dev key) (bk_blkno key) (bk_bblen key) s)"

text \<open>
  \<^verbatim>\<open>pread\<close> and \<^verbatim>\<open>pwrite\<close>: as \<^verbatim>\<open>read\<close> and \<^verbatim>\<open>write\<close> at a position of their own.
\<close>

definition at_position :: "int \<Rightarrow> nat \<Rightarrow> (world \<Rightarrow> 'r \<times> world) \<Rightarrow> world \<Rightarrow> 'r \<times> world" where
  "at_position fd pos call w =
     (case fd_lookup w fd of
        None \<Rightarrow> call w
      | Some f \<Rightarrow> (case call (set_pos fd pos w) of (r, w) \<Rightarrow> (r, set_pos fd (o_pos f) w)))"

fun errno_number :: "errno \<Rightarrow> int" where
  "errno_number EAGAIN = 11" | "errno_number EINTR = 4" | "errno_number EIO = 5"
| "errno_number ENOSPC = 28" | "errno_number EBADF = 9"

definition EINVAL :: int where "EINVAL = 22"
definition ESTALE :: int where "ESTALE = 116"

text \<open>\<^verbatim>\<open>__read_buf\<close>: the error, and what has been put into the buffer.\<close>

definition read_buf :: "int \<Rightarrow> nat \<Rightarrow> u64 \<Rightarrow> u32 \<Rightarrow> world \<Rightarrow> (int \<times> byte list) \<times> world" where
  "read_buf fd len offset flags w =
     (case (if sint offset < 0 then (Inl EINVAL, w)
            else (case at_position fd (unat offset) (sys_read fd len) w of
                    (Inl e, w) \<Rightarrow> (Inl (errno_number e), w) | (Inr d, w) \<Rightarrow> (Inr d, w))) of
        (Inl error, w) \<Rightarrow> ((if flags AND LIBXFS_EXIT_ON_FAILURE \<noteq> 0 then -1 else - error, []), w)
      | (Inr d, w) \<Rightarrow>
          ((if length d \<noteq> len then if flags AND LIBXFS_EXIT_ON_FAILURE \<noteq> 0 then -1 else - errno_number EIO else 0, d), w))"

definition write_buf :: "int \<Rightarrow> byte list \<Rightarrow> u64 \<Rightarrow> u32 \<Rightarrow> world \<Rightarrow> int \<times> world" where
  "write_buf fd data offset flags w =
     (case (if sint offset < 0 then (Inl EINVAL, w)
            else (case at_position fd (unat offset) (sys_write fd data) w of
                    (Inl e, w) \<Rightarrow> (Inl (errno_number e), w) | (Inr n, w) \<Rightarrow> (Inr n, w))) of
        (Inl error, w) \<Rightarrow> (if flags AND LIBXFS_B_EXIT \<noteq> 0 then -1 else - error, w)
      | (Inr n, w) \<Rightarrow>
          (if n \<noteq> length data then if flags AND LIBXFS_B_EXIT \<noteq> 0 then -1 else - errno_number EIO else 0, w))"

text \<open>\<^verbatim>\<open>len\<close> is the number of blocks of 512 bytes; the content after a short transfer stays.\<close>

definition libxfs_readbufr :: "dev_t \<Rightarrow> u64 \<Rightarrow> node_addr \<Rightarrow> u32 \<Rightarrow> u32 \<Rightarrow> xfs_bufs \<Rightarrow> (int \<times> xfs_bufs) option" where
  "libxfs_readbufr btp blkno a len flags s =
     (let fd = libxfs_device_to_fd btp s; bytes = BBTOB len; bp = xb_mem s a
      in case b_addr bp of
           None \<Rightarrow> None
         | Some d0 \<Rightarrow>
             if length d0 < unat bytes then None
             else (case read_buf fd (unat bytes) (LIBXFS_BBTOOFF64 blkno) flags (xb_world s) of
                     ((error, d), w) \<Rightarrow>
                       (let bp = bp\<lparr>b_addr := Some (d @ drop (length d) d0)\<rparr>;
                            bp = (if error = 0 \<and> b_target bp = btp \<and> b_bn bp = blkno \<and> b_bcount bp = bytes
                                  then bp\<lparr>b_flags := b_flags bp OR LIBXFS_B_UPTODATE\<rparr> else bp)
                        in Some (error, set_buf a bp (s\<lparr>xb_world := w\<rparr>)))))"

definition libxfs_readbuf_verify :: "(string \<Rightarrow> xfs_buf \<Rightarrow> xfs_buf) \<Rightarrow> string option \<Rightarrow> xfs_buf \<Rightarrow> xfs_buf" where
  "libxfs_readbuf_verify verify_read ops bp =
     (case ops of
        None \<Rightarrow> bp
      | Some name \<Rightarrow>
          (case verify_read name (bp\<lparr>b_ops := ops\<rparr>) of bp \<Rightarrow> bp\<lparr>b_flags := b_flags bp AND NOT LIBXFS_B_UNCHECKED\<rparr>))"

text \<open>The loop of \<^verbatim>\<open>libxfs_writebufr\<close> over the parts of a buffer that is not contiguous.\<close>

primrec write_maps :: "int \<Rightarrow> xfs_buf_map list \<Rightarrow> byte list \<Rightarrow> u32 \<Rightarrow> int \<Rightarrow> world \<Rightarrow> int \<times> world" where
  "write_maps fd [] buf flags error w = (error, w)"
| "write_maps fd (m # maps) buf flags error w =
     (case m of (bn, blen) \<Rightarrow>
        (case write_buf fd (take (unat (BBTOB blen)) buf) (LIBXFS_BBTOOFF64 bn) flags w of
           (error, w) \<Rightarrow> if error \<noteq> 0 then (error, w)
                          else write_maps fd maps (drop (unat (BBTOB blen)) buf) flags error w))"

definition libxfs_writebufr :: "(string \<Rightarrow> xfs_buf \<Rightarrow> xfs_buf) \<Rightarrow> node_addr \<Rightarrow> xfs_bufs \<Rightarrow> int \<times> xfs_bufs" where
  "libxfs_writebufr verify_write a s =
     (let bp = xb_mem s a; fd = libxfs_device_to_fd (b_target bp) s
      in if b_flags bp AND LIBXFS_B_STALE \<noteq> 0 then (- ESTALE, set_buf a (bp\<lparr>b_error := - ESTALE\<rparr>) s)
         else (let bp = bp\<lparr>b_error := 0\<rparr>;
                   bp = (case b_ops bp of None \<Rightarrow> bp | Some name \<Rightarrow> verify_write name bp)
               in if b_error bp \<noteq> 0 then (b_error bp, set_buf a bp s)
                  else (let buf = (case b_addr bp of None \<Rightarrow> [] | Some d \<Rightarrow> d)
                        in case (if b_flags bp AND LIBXFS_B_DISCONTIG = 0
                                 then write_buf fd (take (unat (b_bcount bp)) buf) (LIBXFS_BBTOOFF64 (b_bn bp)) (b_flags bp) (xb_world s)
                                 else write_maps fd (b_maps bp) buf (b_flags bp) 0 (xb_world s)) of
                             (error, w) \<Rightarrow>
                               (let bp = bp\<lparr>b_error := error\<rparr>;
                                    bp = (if error = 0
                                          then bp\<lparr>b_flags := (b_flags bp OR LIBXFS_B_UPTODATE)
                                                    AND NOT (LIBXFS_B_DIRTY OR LIBXFS_B_EXIT OR LIBXFS_B_UNCHECKED)\<rparr> else bp)
                                in (error, set_buf a bp (s\<lparr>xb_world := w\<rparr>))))))"

definition libxfs_brelse :: "node_addr \<Rightarrow> xfs_bufs \<Rightarrow> xfs_bufs" where
  "libxfs_brelse a s = s\<lparr>xb_freelist := a # xb_freelist s\<rparr>"

definition libxfs_bulkrelse :: "node_addr list \<Rightarrow> xfs_bufs \<Rightarrow> nat \<times> xfs_bufs" where
  "libxfs_bulkrelse nodes s =
     (if nodes = [] then (0, s)
      else (length (filter (\<lambda>a. b_flags (xb_mem s a) AND LIBXFS_B_DIRTY \<noteq> 0) nodes), s\<lparr>xb_freelist := nodes @ xb_freelist s\<rparr>))"

definition libxfs_bflush :: "(string \<Rightarrow> xfs_buf \<Rightarrow> xfs_buf) \<Rightarrow> node_addr \<Rightarrow> xfs_bufs \<Rightarrow> int \<times> xfs_bufs" where
  "libxfs_bflush verify_write a s =
     (let bp = xb_mem s a
      in if b_error bp = 0 \<and> b_flags bp AND LIBXFS_B_DIRTY \<noteq> 0 then libxfs_writebufr verify_write a s else (b_error bp, s))"

definition libxfs_bcache_operations :: "(string \<Rightarrow> xfs_buf \<Rightarrow> xfs_buf) \<Rightarrow> (xfs_bufkey, xfs_bufs) cache_operations" where
  "libxfs_bcache_operations verify_write =
     \<lparr>op_hash = libxfs_bhash, op_alloc = libxfs_balloc, op_flush = libxfs_bflush verify_write, op_relse = libxfs_brelse,
      op_compare = libxfs_bcompare, op_bulkrelse = Some libxfs_bulkrelse\<rparr>"

text \<open>\<^verbatim>\<open>__cache_lookup\<close> and \<^verbatim>\<open>libxfs_getbuf_flags\<close>; the cache is the variable \<^verbatim>\<open>libxfs_bcache\<close>.\<close>

definition cache_lookup ::
    "(string \<Rightarrow> xfs_buf \<Rightarrow> xfs_buf) \<Rightarrow> xfs_bufkey \<Rightarrow> cache \<Rightarrow> xfs_bufs \<Rightarrow> (node_addr \<times> cache \<times> xfs_bufs) option" where
  "cache_lookup verify_write key c s =
     (case cache_node_get (libxfs_bcache_operations verify_write) key c s of
        None \<Rightarrow> None
      | Some ((r, a, c), s) \<Rightarrow>
          (case cache_node_set_priority a (cache_node_get_priority a c - CACHE_PREFETCH_PRIORITY) c of
             None \<Rightarrow> None
           | Some c \<Rightarrow> Some (a, c, s)))"

definition libxfs_getbuf_flags ::
    "(string \<Rightarrow> xfs_buf \<Rightarrow> xfs_buf) \<Rightarrow> dev_t \<Rightarrow> u64 \<Rightarrow> u32 \<Rightarrow> cache \<Rightarrow> xfs_bufs \<Rightarrow> (node_addr \<times> cache \<times> xfs_bufs) option" where
  "libxfs_getbuf_flags verify_write btp blkno len c s =
     cache_lookup verify_write \<lparr>bk_dev = btp, bk_blkno = blkno, bk_bblen = len, bk_map = None\<rparr> c s"

definition libxfs_putbuf :: "node_addr \<Rightarrow> cache \<Rightarrow> xfs_bufs \<Rightarrow> (cache \<times> xfs_bufs) option" where
  "libxfs_putbuf a c s =
     (case cache_node_put a c of
        None \<Rightarrow> None
      | Some c \<Rightarrow> Some (c, set_buf a ((xb_mem s a)\<lparr>b_error := 0\<rparr>) s))"

text \<open>\<^verbatim>\<open>verify\<close> holds the two verifiers.\<close>

definition libxfs_readbuf ::
    "(string \<Rightarrow> xfs_buf \<Rightarrow> xfs_buf) \<times> (string \<Rightarrow> xfs_buf \<Rightarrow> xfs_buf) \<Rightarrow> dev_t \<Rightarrow> u64 \<Rightarrow> u32 \<Rightarrow> u32 \<Rightarrow> string option
     \<Rightarrow> cache \<Rightarrow> xfs_bufs \<Rightarrow> (node_addr \<times> cache \<times> xfs_bufs) option" where
  "libxfs_readbuf verify btp blkno len flags ops c s =
     (case libxfs_getbuf_flags (snd verify) btp blkno len c s of
        None \<Rightarrow> None
      | Some (a, c, s) \<Rightarrow>
          (let s = set_buf a ((xb_mem s a)\<lparr>b_error := 0\<rparr>) s
           in if b_flags (xb_mem s a) AND (LIBXFS_B_UPTODATE OR LIBXFS_B_DIRTY) \<noteq> 0
              then (let s = (if b_flags (xb_mem s a) AND LIBXFS_B_UNCHECKED \<noteq> 0
                             then set_buf a (libxfs_readbuf_verify (fst verify) ops (xb_mem s a)) s else s)
                    in Some (a, c, s))
              else (case libxfs_readbufr btp blkno a len flags s of
                      None \<Rightarrow> None
                    | Some (error, s) \<Rightarrow>
                        if error \<noteq> 0 then Some (a, c, set_buf a ((xb_mem s a)\<lparr>b_error := error\<rparr>) s)
                        else Some (a, c, set_buf a (libxfs_readbuf_verify (fst verify) ops (xb_mem s a)) s))))"

section \<open>The contract of the cache\<close>

definition xb_owned :: "xfs_bufs \<Rightarrow> node_addr set" where
  "xb_owned s = {..<xb_next s} - set (xb_freelist s)"

text \<open>The content of the device that a buffer belongs to, at the place of the buffer.\<close>

definition disk :: "xfs_bufs \<Rightarrow> dev_t \<Rightarrow> byte list option" where
  "disk s dev = Option.bind (fd_lookup (xb_world s) (libxfs_device_to_fd dev s))
     (\<lambda>f. if o_write f then None else map_option i_bytes (w_nodes (xb_world s) (o_path f)))"

definition on_disk :: "xfs_bufs \<Rightarrow> dev_t \<Rightarrow> u64 \<Rightarrow> nat \<Rightarrow> byte list \<Rightarrow> bool" where
  "on_disk s dev blkno bytes d \<longleftrightarrow> length d = bytes \<and>
     (\<exists>content. disk s dev = Some content \<and> d = take bytes (drop (unat (LIBXFS_BBTOOFF64 blkno)) content))"

definition buf_ok :: "xfs_bufs \<Rightarrow> xfs_buf \<Rightarrow> bool" where
  "buf_ok s bp \<longleftrightarrow> b_flags bp AND LIBXFS_B_DIRTY = 0 \<and>
     (b_flags bp AND LIBXFS_B_UPTODATE \<noteq> 0 \<longrightarrow>
       (\<exists>d. b_addr bp = Some d \<and> on_disk s (b_target bp) (b_bn bp) (unat (b_bcount bp)) d))"

text \<open>
  The invariant: every buffer has as much memory as it says; the buffers that are given out are not dirty and,
  when they are up to date, hold what is on the disk.
\<close>

definition bufs_ok :: "xfs_bufs \<Rightarrow> bool" where
  "bufs_ok s \<longleftrightarrow> distinct (xb_freelist s) \<and> set (xb_freelist s) \<subseteq> {..<xb_next s}
     \<and> (\<forall>a < xb_next s. \<exists>d. b_addr (xb_mem s a) = Some d \<and> length d = unat (b_bcount (xb_mem s a)))
     \<and> (\<forall>a \<in> xb_owned s. buf_ok s (xb_mem s a))"

lemma disk_world:
  assumes "fd_lookup w' = fd_lookup (xb_world s)" and "w_nodes w' = w_nodes (xb_world s)"
    and "xb_dev_map s' = xb_dev_map s" and "xb_world s' = w'"
  shows "disk s' = disk s"
  using assms by (intro ext) (simp add: disk_def libxfs_device_to_fd_def cong: if_cong)

lemma set_buf_simps [simp]:
  "set_buf a x (set_buf a y s) = set_buf a x s" "xb_mem (set_buf a x s) = (xb_mem s)(a := x)"
  "xb_next (set_buf a x s) = xb_next s" "xb_freelist (set_buf a x s) = xb_freelist s"
  "xb_dev_map (set_buf a x s) = xb_dev_map s" "xb_world (set_buf a x s) = xb_world s"
  "xb_owned (set_buf a x s) = xb_owned s"
  by (simp_all add: set_buf_def xb_owned_def)

lemma malloc_frame:
  "sys_malloc w = (ok, w') \<Longrightarrow> fd_lookup w' = fd_lookup w \<and> w_nodes w' = w_nodes w \<and> (allocs_ok w \<longrightarrow> ok \<and> allocs_ok w')"
  by (auto simp: sys_malloc_def allocs_ok_def split: list.splits)

lemma buf_ok_disk: "disk s' = disk s \<Longrightarrow> buf_ok s' = buf_ok s"
  by (simp add: buf_ok_def on_disk_def fun_eq_iff)

text \<open>A buffer that has just been initialised.\<close>

lemma initbuf_ok:
  assumes "initbuf bp dev bno bytes w = Some (bp', w')" and "\<And>d. b_addr bp = Some d \<Longrightarrow> length d = unat bytes"
  shows "b_flags bp' = 0 \<and> b_bn bp' = bno \<and> b_bcount bp' = bytes \<and> b_target bp' = dev \<and> b_error bp' = 0 \<and>
    b_addr bp' = Some (replicate (unat bytes) 0) \<and> fd_lookup w' = fd_lookup w \<and> w_nodes w' = w_nodes w \<and> (allocs_ok w \<longrightarrow> allocs_ok w')"
proof (cases "b_addr bp")
  case None
  obtain ok w1 where m: "sys_malloc w = (ok, w1)" by (cases "sys_malloc w")
  with None assms(1) malloc_frame [OF m] show ?thesis by (auto simp: initbuf_def Let_def split: if_splits)
next
  case (Some d)
  with assms show ?thesis by (auto simp: initbuf_def Let_def split: if_splits)
qed

lemma find_SomeD: "find P xs = Some x \<Longrightarrow> P x \<and> x \<in> set xs"
  by (induction xs) (auto split: if_splits)

text \<open>The buffer that \<^verbatim>\<open>__libxfs_getbufr\<close> takes: new, or from the free list.\<close>

lemma getbufr_raw_ok:
  assumes ok: "bufs_ok s" and g: "getbufr_raw blen s = Some (a, s')"
  shows "a \<notin> xb_owned s \<and> xb_owned s' = insert a (xb_owned s) \<and> distinct (xb_freelist s') \<and>
    set (xb_freelist s') \<subseteq> {..<xb_next s'} \<and> a < xb_next s' \<and>
    (\<forall>d. b_addr (xb_mem s' a) = Some d \<longrightarrow> length d = unat blen) \<and>
    (\<forall>b. b \<noteq> a \<longrightarrow> xb_mem s' b = xb_mem s b) \<and> (\<forall>b < xb_next s'. b \<noteq> a \<longrightarrow> b < xb_next s) \<and> xb_dev_map s' = xb_dev_map s \<and>
    fd_lookup (xb_world s') = fd_lookup (xb_world s) \<and> w_nodes (xb_world s') = w_nodes (xb_world s) \<and>
    (allocs_ok (xb_world s) \<longrightarrow> allocs_ok (xb_world s'))"
proof (cases "xb_freelist s")
  case Nil
  obtain m w1 where m: "sys_malloc (xb_world s) = (m, w1)" by (cases "sys_malloc (xb_world s)")
  with Nil g have "m" "a = xb_next s"
    "s' = set_buf a (zero_buf\<lparr>b_ops := None\<rparr>) (s\<lparr>xb_next := Suc (xb_next s), xb_world := w1\<rparr>)"
    by (auto simp: getbufr_raw_def kmem_zone_zalloc_def split: bool.splits)
  with Nil malloc_frame [OF m] show ?thesis by (auto simp: xb_owned_def zero_buf_def)
next
  case (Cons x xs)
  from ok Cons have fl: "distinct (x # xs)" "set (x # xs) \<subseteq> {..<xb_next s}" by (simp_all add: bufs_ok_def)
  show ?thesis
  proof (cases "find (\<lambda>a. b_bcount (xb_mem s a) = blen) (x # xs)")
    case None
    with Cons g have "a = x" "s' = set_buf x ((xb_mem s x)\<lparr>b_addr := None, b_maps := [], b_ops := None\<rparr>) (s\<lparr>xb_freelist := xs\<rparr>)"
      by (auto simp: getbufr_raw_def)
    with Cons fl show ?thesis by (auto simp: xb_owned_def)
  next
    case (Some y)
    from find_SomeD [OF Some] have y: "y \<in> set (x # xs)" "b_bcount (xb_mem s y) = blen" by blast+
    from Cons g Some have a: "a = y" "s' = set_buf y ((xb_mem s y)\<lparr>b_ops := None\<rparr>) (s\<lparr>xb_freelist := remove1 y (x # xs)\<rparr>)"
      by (auto simp: getbufr_raw_def simp del: remove1.simps find.simps)
    have "set (remove1 y (x # xs)) = set (x # xs) - {y}" "distinct (remove1 y (x # xs))"
      using fl(1) by (simp_all add: set_remove1_eq del: remove1.simps)
    moreover have "y < xb_next s" using y fl by auto
    moreover have "length d = unat blen" if "b_addr (xb_mem s y) = Some d" for d
      using ok y(2) \<open>y < xb_next s\<close> that by (auto simp: bufs_ok_def)
    ultimately show ?thesis using Cons fl a y(1) by (auto simp: xb_owned_def simp del: remove1.simps)
  qed
qed

text \<open>An allocation for a key without a map.\<close>

lemma balloc_ok:
  assumes ok: "bufs_ok s" and key: "bk_map key = None" and b: "libxfs_balloc key s = Some (r, s')"
  shows "\<exists>a. r = Some a \<and> bufs_ok s' \<and> a \<notin> xb_owned s \<and> xb_owned s' = insert a (xb_owned s) \<and>
    libxfs_bcompare a key s' = CACHE_HIT \<and> (\<forall>b \<in> xb_owned s. xb_mem s' b = xb_mem s b) \<and> disk s' = disk s \<and>
    (allocs_ok (xb_world s) \<longrightarrow> allocs_ok (xb_world s'))"
proof -
  obtain a s1 where g: "getbufr_raw (BBTOB (bk_bblen key)) s = Some (a, s1)"
    using b key by (auto simp: libxfs_balloc_def libxfs_getbufr_def split: option.splits)
  note raw = getbufr_raw_ok [OF ok g]
  obtain bp w where i: "initbuf (xb_mem s1 a) (bk_dev key) (bk_blkno key) (BBTOB (bk_bblen key)) (xb_world s1) = Some (bp, w)"
    and r: "r = Some a" "s' = set_buf a bp (s1\<lparr>xb_world := w\<rparr>)"
    using b key g by (auto simp: libxfs_balloc_def libxfs_getbufr_def split: option.splits)
  from initbuf_ok [OF i] raw have bp: "b_flags bp = 0" "b_bn bp = bk_blkno key" "b_bcount bp = BBTOB (bk_bblen key)"
    "b_target bp = bk_dev key" "b_addr bp = Some (replicate (unat (BBTOB (bk_bblen key))) 0)"
    "fd_lookup w = fd_lookup (xb_world s)" "w_nodes w = w_nodes (xb_world s)" by auto
  have disk: "disk s' = disk s" by (rule disk_world [OF bp(6,7)]) (use r raw in simp_all)
  have mem: "xb_mem s' a = bp" "\<And>b. b \<noteq> a \<Longrightarrow> xb_mem s' b = xb_mem s b" using r raw by simp_all
  have own: "xb_owned s' = insert a (xb_owned s)" "xb_next s' = xb_next s1" "xb_freelist s' = xb_freelist s1"
    using r raw by (simp_all add: xb_owned_def)
  have "\<exists>d. b_addr (xb_mem s' b) = Some d \<and> length d = unat (b_bcount (xb_mem s' b))" if "b < xb_next s'" for b
    using ok raw bp mem own(2) that by (cases "b = a") (auto simp: bufs_ok_def)
  moreover have "buf_ok s' (xb_mem s' b)" if "b \<in> xb_owned s'" for b
    using ok bp mem own(1) that by (cases "b = a") (auto simp: bufs_ok_def buf_ok_disk [OF disk] buf_ok_def [of s bp])
  ultimately have "bufs_ok s'" using raw own by (auto simp: bufs_ok_def)
  moreover have "xb_mem s' b = xb_mem s b" if "b \<in> xb_owned s" for b
    using mem(2) [of b] raw that by (cases "b = a") auto
  moreover have "libxfs_bcompare a key s' = CACHE_HIT" by (simp add: libxfs_bcompare_def mem(1) bp)
  moreover have "allocs_ok (xb_world s) \<longrightarrow> allocs_ok (xb_world s')" using initbuf_ok [OF i] raw r(2) by simp
  ultimately show ?thesis using r(1) raw own(1) disk by blast
qed

lemma bflush_clean:
  assumes "bufs_ok s" and "a \<in> xb_owned s"
  shows "libxfs_bflush verify_write a s = (b_error (xb_mem s a), s)"
  using assms by (auto simp: libxfs_bflush_def bufs_ok_def buf_ok_def Let_def)

lemma bhash_less: "0 < buckets \<Longrightarrow> libxfs_bhash key buckets shift < buckets"
proof -
  assume "0 < buckets"
  define t :: u64 where "t = (let hashval = bk_blkno key;
          tmp = hashval XOR ((GOLDEN_RATIO_PRIME + hashval) div CACHE_LINE_SIZE)
      in tmp XOR drop_bit (unat shift) (tmp XOR GOLDEN_RATIO_PRIME))"
  have h: "libxfs_bhash key buckets shift = ucast (t mod ucast buckets)" by (simp add: libxfs_bhash_def t_def Let_def)
  have b: "0 < unat buckets" "unat buckets < 2 ^ 32"
    using \<open>0 < buckets\<close> unsigned_less [of buckets] by (simp_all add: word_less_nat_alt)
  then have u: "unat (ucast buckets :: u64) = unat buckets" by (simp add: unsigned_ucast_eq take_bit_nat_eq_self)
  have "unat (t mod ucast buckets) = unat t mod unat buckets" by (simp add: unat_mod u)
  then have "unat (t mod ucast buckets) < unat buckets" using b(1) by simp
  then have "unat (ucast (t mod ucast buckets) :: u32) < unat buckets"
    using b(2) by (simp add: unsigned_ucast_eq take_bit_nat_eq_self)
  then show ?thesis by (simp add: h word_less_nat_alt)
qed

lemma release_ok:
  assumes ok: "bufs_ok s" and as: "distinct as" "set as \<subseteq> xb_owned s"
  shows "bufs_ok (s\<lparr>xb_freelist := as @ xb_freelist s\<rparr>) \<and> xb_owned (s\<lparr>xb_freelist := as @ xb_freelist s\<rparr>) = xb_owned s - set as"
proof -
  have "set as \<inter> set (xb_freelist s) = {}" "set as \<subseteq> {..<xb_next s}" using as(2) by (auto simp: xb_owned_def)
  moreover have o: "xb_owned (s\<lparr>xb_freelist := as @ xb_freelist s\<rparr>) = xb_owned s - set as" by (auto simp: xb_owned_def)
  moreover have "buf_ok (s\<lparr>xb_freelist := l\<rparr>) = buf_ok s" for l
    by (intro buf_ok_disk disk_world [OF refl refl]) simp_all
  ultimately show ?thesis using ok as(1) by (auto simp: bufs_ok_def)
qed

lemma balloc_total:
  assumes ok: "bufs_ok s" and key: "bk_map key = None" and mem: "allocs_ok (xb_world s)"
  shows "\<exists>a s'. libxfs_balloc key s = Some (Some a, s')"
proof -
  obtain a s1 where g: "getbufr_raw (BBTOB (bk_bblen key)) s = Some (a, s1)"
  proof (cases "xb_freelist s")
    case Nil
    obtain m w1 where "sys_malloc (xb_world s) = (m, w1)" by (cases "sys_malloc (xb_world s)")
    with malloc_frame [OF this] mem Nil that show thesis by (auto simp: getbufr_raw_def kmem_zone_zalloc_def)
  next
    case (Cons x xs)
    with that show thesis
      by (cases "find (\<lambda>a. b_bcount (xb_mem s a) = BBTOB (bk_bblen key)) (x # xs)")
        (auto simp: getbufr_raw_def simp del: find.simps)
  qed
  note raw = getbufr_raw_ok [OF ok g]
  obtain m w1 where m: "sys_malloc (xb_world s1) = (m, w1)" by (cases "sys_malloc (xb_world s1)")
  obtain bp w where "initbuf (xb_mem s1 a) (bk_dev key) (bk_blkno key) (BBTOB (bk_bblen key)) (xb_world s1) = Some (bp, w)"
  proof (cases "b_addr (xb_mem s1 a)")
    case None
    with that m malloc_frame [OF m] raw mem show thesis by (simp add: initbuf_def)
  next
    case (Some d)
    with that raw show thesis by (simp add: initbuf_def)
  qed
  with g key show ?thesis by (simp add: libxfs_balloc_def libxfs_getbufr_def)
qed

text \<open>
  The contract holds with the content of the disk kept, and, if there is memory enough, with memory enough left.
\<close>

definition xb_good :: "(dev_t \<Rightarrow> byte list option) \<Rightarrow> bool \<Rightarrow> xfs_bufs \<Rightarrow> bool" where
  "xb_good content roomy s \<longleftrightarrow> bufs_ok s \<and> disk s = content \<and> (roomy \<longrightarrow> allocs_ok (xb_world s))"

lemma xb_good_release:
  assumes "xb_good content roomy s" and "distinct as" and "set as \<subseteq> xb_owned s"
  shows "xb_good content roomy (s\<lparr>xb_freelist := as @ xb_freelist s\<rparr>)
    \<and> xb_owned (s\<lparr>xb_freelist := as @ xb_freelist s\<rparr>) = xb_owned s - set as"
proof -
  have "disk (s\<lparr>xb_freelist := as @ xb_freelist s\<rparr>) = disk s" by (rule disk_world [OF refl refl]) simp_all
  then show ?thesis using release_ok [of s as] assms by (simp add: xb_good_def)
qed

interpretation xb: cache_client "libxfs_bcache_operations verify_write" xb_owned "xb_good content roomy"
  "\<lambda>key. bk_map key = None" xb_mem
proof unfold_locales
  fix key :: xfs_bufkey and buckets shift :: u32
  assume "0 < buckets"
  then show "op_hash (libxfs_bcache_operations verify_write) key buckets shift < buckets"
    by (simp add: libxfs_bcache_operations_def bhash_less)
next
  fix s :: xfs_bufs and key a s'
  assume "xb_good content roomy s" "bk_map key = None" "op_alloc (libxfs_bcache_operations verify_write) key s = Some (Some a, s')"
  with balloc_ok [of s key "Some a" s'] show "xb_good content roomy s' \<and> a \<notin> xb_owned s \<and> xb_owned s' = insert a (xb_owned s) \<and>
      op_compare (libxfs_bcache_operations verify_write) a key s' = CACHE_HIT \<and> (\<forall>b \<in> xb_owned s. xb_mem s' b = xb_mem s b)"
    by (simp add: libxfs_bcache_operations_def xb_good_def)
next
  fix s :: xfs_bufs and key s'
  assume "xb_good content roomy s" "bk_map key = None" "op_alloc (libxfs_bcache_operations verify_write) key s = Some (None, s')"
  with balloc_ok [of s key None s']
  show "xb_good content roomy s' \<and> xb_owned s' = xb_owned s \<and> (\<forall>b \<in> xb_owned s. xb_mem s' b = xb_mem s b)"
    by (simp add: libxfs_bcache_operations_def xb_good_def)
next
  fix s :: xfs_bufs and a r s'
  assume "xb_good content roomy s" "a \<in> xb_owned s" "op_flush (libxfs_bcache_operations verify_write) a s = (r, s')"
  then show "xb_good content roomy s' \<and> xb_owned s' = xb_owned s \<and> (\<forall>b \<in> xb_owned s - {a}. xb_mem s' b = xb_mem s b)"
    using bflush_clean [of s a verify_write] by (simp add: libxfs_bcache_operations_def xb_good_def)
next
  fix s :: xfs_bufs and a
  assume "xb_good content roomy s" "a \<in> xb_owned s"
  then show "xb_good content roomy (op_relse (libxfs_bcache_operations verify_write) a s) \<and>
      xb_owned (op_relse (libxfs_bcache_operations verify_write) a s) = xb_owned s - {a} \<and>
      (\<forall>b \<in> xb_owned s - {a}. xb_mem (op_relse (libxfs_bcache_operations verify_write) a s) b = xb_mem s b)"
    using xb_good_release [of content roomy s "[a]"] by (simp add: libxfs_bcache_operations_def libxfs_brelse_def)
next
  fix s :: xfs_bufs and f as n s'
  assume "xb_good content roomy s" "op_bulkrelse (libxfs_bcache_operations verify_write) = Some f" "distinct as"
    "set as \<subseteq> xb_owned s" "f as s = (n, s')"
  then show "xb_good content roomy s' \<and> xb_owned s' = xb_owned s - set as \<and> (\<forall>b \<in> xb_owned s - set as. xb_mem s' b = xb_mem s b)"
    using xb_good_release [of content roomy s as] by (auto simp: libxfs_bcache_operations_def libxfs_bulkrelse_def split: if_splits)
qed

end
