(* ===== verification/XfsRead.thy ===== *)
theory XfsRead
  imports XfsBuf
begin

text \<open>
  What \<^verbatim>\<open>libxfs_readbuf\<close> of \<^verbatim>\<open>src/src/xfs/rdwr.c\<close> promises, over the cache and the buffers together: sessions of reads and
  releases, in which every buffer that is held shows the disk.
\<close>

section \<open>Reading a block\<close>

lemma sys_read_frame:
  assumes "sys_read fd n w = (r, w')" and "fd_lookup w fd = Some f"
  shows "w_nodes w' = w_nodes w \<and> w_allocs w' = w_allocs w \<and> (\<forall>p. fd_lookup (set_pos fd p w') = fd_lookup (set_pos fd p w)) \<and>
    (\<forall>d. r = Inr d \<longrightarrow> length d \<le> n \<and>
      (\<exists>nd. w_nodes w (o_path f) = Some nd \<and> \<not> o_write f \<and> (\<exists>k. d = take k (drop (o_pos f) (i_bytes nd)))))"
  using assms
  by (auto simp: sys_read_def io_limit_def Let_def fun_eq_iff option.map_comp comp_def
      split: option.splits if_splits list.splits io_event.splits prod.splits)

lemma pread_spec:
  assumes "at_position fd pos (sys_read fd n) w = (r, w')"
  shows "w_nodes w' = w_nodes w \<and> w_allocs w' = w_allocs w \<and> fd_lookup w' = fd_lookup w \<and>
    (\<forall>d. r = Inr d \<longrightarrow> length d \<le> n \<and>
      (\<exists>f nd. fd_lookup w fd = Some f \<and> w_nodes w (o_path f) = Some nd \<and> \<not> o_write f \<and> (\<exists>k. d = take k (drop pos (i_bytes nd)))))"
proof (cases "fd_lookup w fd")
  case None
  with assms show ?thesis by (auto simp: at_position_def sys_read_def)
next
  case (Some f)
  obtain r1 w1 where s: "sys_read fd n (set_pos fd pos w) = (r1, w1)" by (cases "sys_read fd n (set_pos fd pos w)")
  have "fd_lookup (set_pos fd pos w) fd = Some (f\<lparr>o_pos := pos\<rparr>)" using Some by simp
  note fr = sys_read_frame [OF s this]
  have "r = r1" "w' = set_pos fd (o_pos f) w1" using assms Some s by (simp_all add: at_position_def)
  moreover have "fd_lookup (set_pos fd (o_pos f) w1) = fd_lookup w" using fr Some by (auto simp: fun_eq_iff)
  ultimately show ?thesis using fr Some by auto
qed

lemma errno_number_pos [simp]: "errno_number e > 0"
  by (cases e) simp_all

lemma read_buf_spec:
  assumes "read_buf fd n off flags w = ((error, d), w')"
  shows "w_nodes w' = w_nodes w \<and> w_allocs w' = w_allocs w \<and> fd_lookup w' = fd_lookup w \<and> length d \<le> n \<and>
    (error = 0 \<longrightarrow> length d = n \<and>
      (\<exists>f nd. fd_lookup w fd = Some f \<and> w_nodes w (o_path f) = Some nd \<and> \<not> o_write f \<and> d = take n (drop (unat off) (i_bytes nd))))"
proof (cases "sint off < 0")
  case True
  with assms show ?thesis by (auto simp: read_buf_def EINVAL_def split: if_splits)
next
  case False
  obtain r w1 where p: "at_position fd (unat off) (sys_read fd n) w = (r, w1)"
    by (cases "at_position fd (unat off) (sys_read fd n) w")
  note sp = pread_spec [OF p]
  show ?thesis
  proof (cases r)
    case (Inl e)
    have "errno_number e \<noteq> 0" using errno_number_pos [of e] by linarith
    with False p Inl assms sp show ?thesis by (auto simp: read_buf_def split: if_splits)
  next
    case (Inr x)
    with False p assms have "d = x" "w' = w1" "error = 0 \<longrightarrow> length x = n" by (auto simp: read_buf_def split: if_splits)
    moreover have "length x = n \<Longrightarrow> x = take k xs \<Longrightarrow> x = take n xs" for k and xs :: "byte list" by (auto simp: min_def)
    ultimately show ?thesis using sp Inr by blast
  qed
qed

lemma readbufr_spec:
  assumes ok: "bufs_ok s" and a: "a \<in> xb_owned s"
    and key: "b_target (xb_mem s a) = dev" "b_bn (xb_mem s a) = blkno" "b_bcount (xb_mem s a) = BBTOB len"
    and stale: "b_flags (xb_mem s a) AND LIBXFS_B_UPTODATE = 0"
  shows "\<exists>error bp w. libxfs_readbufr dev blkno a len flags s = Some (error, set_buf a bp (s\<lparr>xb_world := w\<rparr>)) \<and>
    b_flags bp AND LIBXFS_B_DIRTY = 0 \<and> b_target bp = dev \<and> b_bn bp = blkno \<and> b_bcount bp = BBTOB len \<and>
    (\<exists>d. b_addr bp = Some d \<and> length d = unat (BBTOB len) \<and> (error = 0 \<longrightarrow> on_disk s dev blkno (unat (BBTOB len)) d)) \<and>
    (error = 0) = (b_flags bp AND LIBXFS_B_UPTODATE \<noteq> 0) \<and> b_error bp = b_error (xb_mem s a) \<and>
    w_nodes w = w_nodes (xb_world s) \<and> w_allocs w = w_allocs (xb_world s) \<and> fd_lookup w = fd_lookup (xb_world s)"
proof -
  have "a < xb_next s" using a by (simp add: xb_owned_def)
  with ok key(3) obtain d0 where d0: "b_addr (xb_mem s a) = Some d0" "length d0 = unat (BBTOB len)" by (auto simp: bufs_ok_def)
  have clean: "b_flags (xb_mem s a) AND LIBXFS_B_DIRTY = 0" using ok a by (simp add: bufs_ok_def buf_ok_def)
  obtain error d w where r: "read_buf (libxfs_device_to_fd dev s) (unat (BBTOB len)) (LIBXFS_BBTOOFF64 blkno) flags (xb_world s) = ((error, d), w)"
    by (cases "read_buf (libxfs_device_to_fd dev s) (unat (BBTOB len)) (LIBXFS_BBTOOFF64 blkno) flags (xb_world s)") auto
  note sp = read_buf_spec [OF r]
  define bp where "bp = (xb_mem s a)\<lparr>b_addr := Some (d @ drop (length d) d0),
    b_flags := (if error = 0 then b_flags (xb_mem s a) OR LIBXFS_B_UPTODATE else b_flags (xb_mem s a))\<rparr>"
  have "libxfs_readbufr dev blkno a len flags s = Some (error, set_buf a bp (s\<lparr>xb_world := w\<rparr>))"
    using r d0 key by (simp add: libxfs_readbufr_def Let_def bp_def)
  moreover have "(x OR LIBXFS_B_UPTODATE) AND LIBXFS_B_DIRTY = x AND LIBXFS_B_DIRTY" for x
    by (simp add: LIBXFS_B_UPTODATE_def LIBXFS_B_DIRTY_def bit.conj_disj_distrib2)
  then have "b_flags bp AND LIBXFS_B_DIRTY = 0" using clean by (simp add: bp_def)
  moreover have "on_disk s dev blkno (unat (BBTOB len)) (d @ drop (length d) d0)" if "error = 0"
    using sp that d0(2) by (auto simp: on_disk_def disk_def)
  moreover have "b_target bp = dev" "b_bn bp = blkno" "b_bcount bp = BBTOB len" "b_error bp = b_error (xb_mem s a)"
    "(error = 0) = (b_flags bp AND LIBXFS_B_UPTODATE \<noteq> 0)" "b_addr bp = Some (d @ drop (length d) d0)"
    "length (d @ drop (length d) d0) = unat (BBTOB len)"
    using key stale sp d0(2) by (simp_all add: bp_def bit.conj_disj_distrib2 or_eq_0_iff LIBXFS_B_UPTODATE_def)
  ultimately show ?thesis using sp by blast
qed

text \<open>
  The joint invariant of the cache and the buffers, and that no reference count is about to wrap around.
\<close>

definition xfs_cache_ok :: "cache \<Rightarrow> xfs_bufs \<Rightarrow> bool" where
  "xfs_cache_ok c s \<longleftrightarrow> cache_ok (xb_owned s) c \<and> bufs_ok s"

definition refs :: "cache \<Rightarrow> xfs_bufs \<Rightarrow> node_addr \<Rightarrow> nat" where
  "refs c s a = (if a \<in> xb_owned s then unat (cn_count (c_node c a)) else 0)"

lemma unat_succ: "x \<noteq> -1 \<Longrightarrow> unat (x + 1 :: u32) = unat x + 1"
  by (simp add: unatSuc eq_neg_iff_add_eq_0 add.commute)

definition in_use :: "cache \<Rightarrow> xfs_bufs \<Rightarrow> node_addr \<Rightarrow> bool" where
  "in_use c s a \<longleftrightarrow> a \<in> xb_owned s \<and> cn_count (c_node c a) \<noteq> 0"

lemma getbuf_spec:
  assumes "xfs_cache_ok c s" and "no_overflow (xb_owned s) c"
    and "libxfs_getbuf_flags verify_write dev blkno len c s = Some (a, c', s')"
  shows "xfs_cache_ok c' s' \<and> in_use c' s' a \<and> disk s' = disk s \<and>
    b_target (xb_mem s' a) = dev \<and> b_bn (xb_mem s' a) = blkno \<and> b_bcount (xb_mem s' a) = BBTOB len \<and>
    (\<forall>b. in_use c s b \<longrightarrow> in_use c' s' b \<and> xb_mem s' b = xb_mem s b) \<and>
    (\<forall>b. refs c s b + (if b = a then 1 else 0) \<le> refs c' s' b)"
proof -
  let ?key = "\<lparr>bk_dev = dev, bk_blkno = blkno, bk_bblen = len, bk_map = None\<rparr>"
  obtain r c1 where g: "cache_node_get (libxfs_bcache_operations verify_write) ?key c s = Some ((r, a, c1), s')"
    and p: "cache_node_set_priority a (cache_node_get_priority a c1 - CACHE_PREFETCH_PRIORITY) c1 = Some c'"
    using assms(3) by (auto simp: libxfs_getbuf_flags_def cache_lookup_def split: option.splits prod.splits)
  have "cache_ok (xb_owned s) c" "xb_good (disk s) False s" using assms(1) by (simp_all add: xfs_cache_ok_def xb_good_def)
  from xb.get_spec [OF this assms(2) _ g] have ok1: "cache_ok (xb_owned s') c1" "bufs_ok s'" "disk s' = disk s"
    and hit: "libxfs_bcompare a ?key s' = CACHE_HIT"
    and got: "got (xb_owned s) c (xb_mem s) r a (xb_owned s') c1 (xb_mem s')"
    by (simp_all add: xb_good_def libxfs_bcache_operations_def)
  have a: "a \<in> xb_owned s'" using got by (simp add: got_def)
  have used: "cn_count (c_node c1 a) \<noteq> 0"
  proof (cases "r = 0")
    case True
    with got have "a \<in> xb_owned s" "cn_count (c_node c1 a) = cn_count (c_node c a) + 1" by (simp_all add: got_def)
    with assms(2) show ?thesis by (simp add: no_overflow_def eq_neg_iff_add_eq_0)
  next
    case False
    with got show ?thesis by (simp add: got_def)
  qed
  from cache_ok_set_priority [OF ok1(1) a used, of "cache_node_get_priority a c1 - CACHE_PREFETCH_PRIORITY"] p
  obtain n where c': "cache_ok (xb_owned s') c'" "c_node c' = (c_node c1)(a := n)" "cn_count n = cn_count (c_node c1 a)" by auto
  have "in_use c' s' b \<and> xb_mem s' b = xb_mem s b" if "in_use c s b" for b
    using got that c' used a by (cases "b = a") (auto simp: got_def in_use_def)
  moreover have "in_use c' s' a" using a used c' by (simp add: in_use_def)
  moreover have "refs c s b + (if b = a then 1 else 0) \<le> refs c' s' b" for b
  proof (cases "b = a")
    case False
    show ?thesis
    proof (cases "in_use c s b")
      case True
      with got False c' show ?thesis by (simp add: got_def in_use_def refs_def)
    next
      case idle: False
      with False show ?thesis by (simp add: in_use_def refs_def)
    qed
  next
    case True
    show ?thesis
    proof (cases "r = 0")
      case r0: True
      with got have "a \<in> xb_owned s" "cn_count (c_node c1 a) = cn_count (c_node c a) + 1" by (simp_all add: got_def)
      with assms(2) c' a True show ?thesis by (simp add: refs_def no_overflow_def unat_succ)
    next
      case False
      with got have "cn_count (c_node c1 a) = 1" "a \<in> xb_owned s \<longrightarrow> cn_count (c_node c a) = 0" by (simp_all add: got_def)
      with c' a True show ?thesis by (simp add: refs_def)
    qed
  qed
  ultimately show ?thesis
    using ok1 c'(1) hit by (auto simp: xfs_cache_ok_def libxfs_bcompare_def Let_def split: if_splits)
qed

text \<open>A buffer is changed in place.\<close>

lemma bufs_ok_set:
  assumes ok: "bufs_ok s" and a: "a < xb_next s" and d: "b_addr bp = Some d" "length d = unat (b_bcount bp)"
    and bp: "a \<in> xb_owned s \<Longrightarrow> buf_ok s bp"
    and w: "w_nodes w = w_nodes (xb_world s)" "fd_lookup w = fd_lookup (xb_world s)"
  shows "bufs_ok (set_buf a bp (s\<lparr>xb_world := w\<rparr>)) \<and> disk (set_buf a bp (s\<lparr>xb_world := w\<rparr>)) = disk s"
proof -
  have disk: "disk (set_buf a bp (s\<lparr>xb_world := w\<rparr>)) = disk s" by (rule disk_world [OF w(2,1)]) simp_all
  have own: "xb_owned (s\<lparr>xb_world := w\<rparr>) = xb_owned s" by (simp add: xb_owned_def)
  show ?thesis using ok a d bp disk own by (auto simp: bufs_ok_def buf_ok_disk [OF disk])
qed

lemma readbuf_spec:
  assumes ok: "xfs_cache_ok c s" and over: "no_overflow (xb_owned s) c"
    and r: "libxfs_readbuf verify dev blkno len flags None c s = Some (a, c', s')"
  shows "xfs_cache_ok c' s' \<and> in_use c' s' a \<and> disk s' = disk s \<and>
    (b_error (xb_mem s' a) = 0 \<longrightarrow>
      (\<exists>d. b_addr (xb_mem s' a) = Some d \<and> on_disk s dev blkno (unat (BBTOB len)) d)) \<and>
    (\<forall>b. in_use c s b \<longrightarrow> in_use c' s' b \<and> (b \<noteq> a \<longrightarrow> xb_mem s' b = xb_mem s b)) \<and>
    (\<forall>b. refs c s b + (if b = a then 1 else 0) \<le> refs c' s' b) \<and>
    b_target (xb_mem s' a) = dev \<and> b_bn (xb_mem s' a) = blkno \<and> b_bcount (xb_mem s' a) = BBTOB len \<and>
    ((in_use c s a \<and> b_flags (xb_mem s a) AND LIBXFS_B_UPTODATE \<noteq> 0 \<or> b_error (xb_mem s' a) = 0) \<longrightarrow>
      b_flags (xb_mem s' a) AND LIBXFS_B_UPTODATE \<noteq> 0)"
proof -
  obtain s1 where g: "libxfs_getbuf_flags (snd verify) dev blkno len c s = Some (a, c', s1)"
    using r by (auto simp: libxfs_readbuf_def Let_def split: option.splits prod.splits if_splits)
  note g1 = getbuf_spec [OF ok over g]
  define bp where "bp = (xb_mem s1 a)\<lparr>b_error := 0\<rparr>"
  define s2 where "s2 = set_buf a bp s1"
  have a: "a \<in> xb_owned s1" "a < xb_next s1" using g1 by (simp_all add: in_use_def xb_owned_def)
  have b1: "bufs_ok s1" and d1: "disk s1 = disk s" using g1 by (simp_all add: xfs_cache_ok_def)
  from b1 a obtain d0 where d0: "b_addr (xb_mem s1 a) = Some d0" "length d0 = unat (b_bcount (xb_mem s1 a))"
    and bok: "buf_ok s1 (xb_mem s1 a)" by (auto simp: bufs_ok_def)
  have "bufs_ok (set_buf a bp (s1\<lparr>xb_world := xb_world s1\<rparr>)) \<and> disk (set_buf a bp (s1\<lparr>xb_world := xb_world s1\<rparr>)) = disk s1"
    by (rule bufs_ok_set [OF b1 a(2)]) (use d0 bok in \<open>simp_all add: bp_def buf_ok_def\<close>)
  then have s2: "bufs_ok s2" "disk s2 = disk s" by (simp_all add: s2_def d1)
  have own2: "xb_owned s2 = xb_owned s1" "xb_mem s2 a = bp" "xb_next s2 = xb_next s1" by (simp_all add: s2_def)
  show ?thesis
  proof (cases "b_flags bp AND (LIBXFS_B_UPTODATE OR LIBXFS_B_DIRTY) = 0")
    case False
    then have "s' = s2"
      using r g by (auto simp: libxfs_readbuf_def Let_def bp_def s2_def libxfs_readbuf_verify_def split: if_splits)
    moreover have "b_flags bp AND LIBXFS_B_DIRTY = 0" using bok by (simp add: bp_def buf_ok_def)
    then have up: "b_flags bp AND LIBXFS_B_UPTODATE \<noteq> 0" using False by (simp add: bit.conj_disj_distrib)
    moreover from up have "\<exists>d. b_addr bp = Some d \<and> on_disk s1 (b_target bp) (b_bn bp) (unat (b_bcount bp)) d"
      using bok by (simp add: bp_def buf_ok_def)
    ultimately show ?thesis
      using g1 s2 own2 d1 up by (auto simp: xfs_cache_ok_def in_use_def refs_def bp_def on_disk_def s2_def)
  next
    case True
    then have up: "b_flags (xb_mem s2 a) AND LIBXFS_B_UPTODATE = 0" by (simp add: own2 bit.conj_disj_distrib or_eq_0_iff)
    have key: "b_target (xb_mem s2 a) = dev" "b_bn (xb_mem s2 a) = blkno" "b_bcount (xb_mem s2 a) = BBTOB len"
      using g1 by (simp_all add: own2 bp_def)
    from readbufr_spec [OF s2(1) _ key up, of flags] a own2 obtain error bq w d where
      rd: "libxfs_readbufr dev blkno a len flags s2 = Some (error, set_buf a bq (s2\<lparr>xb_world := w\<rparr>))"
      and bq: "b_flags bq AND LIBXFS_B_DIRTY = 0" "b_target bq = dev" "b_bn bq = blkno" "b_bcount bq = BBTOB len"
        "b_addr bq = Some d" "length d = unat (BBTOB len)" "error = 0 \<longrightarrow> on_disk s2 dev blkno (unat (BBTOB len)) d"
        "(error = 0) = (b_flags bq AND LIBXFS_B_UPTODATE \<noteq> 0)"
      and w: "w_nodes w = w_nodes (xb_world s2)" "fd_lookup w = fd_lookup (xb_world s2)" by auto
    define br where "br = (if error \<noteq> 0 then bq\<lparr>b_error := error\<rparr> else bq)"
    have s': "s' = set_buf a br (s2\<lparr>xb_world := w\<rparr>)"
      using r g True rd by (auto simp: libxfs_readbuf_def Let_def bp_def s2_def br_def libxfs_readbuf_verify_def split: if_splits)
    have b': "bufs_ok s' \<and> disk s' = disk s2"
      unfolding s' by (rule bufs_ok_set [OF s2(1) _ _ _ _ w]) (use bq a own2 in \<open>auto simp: br_def buf_ok_def\<close>)
    have refs': "refs c' s' b = refs c' s1 b" for b by (simp add: refs_def s' s2_def xb_owned_def)
    have fresh: "\<not> (in_use c s a \<and> b_flags (xb_mem s a) AND LIBXFS_B_UPTODATE \<noteq> 0)"
      using g1 up by (auto simp: own2 bp_def)
    have o': "xb_owned s' = xb_owned s1" by (simp add: s' s2_def xb_owned_def)
    have mem': "xb_mem s' b = (if b = a then br else xb_mem s1 b)" for b by (simp add: s' s2_def)
    have use': "in_use c' s' b \<longleftrightarrow> in_use c' s1 b" for b by (simp add: in_use_def o')
    have "xfs_cache_ok c' s'" using g1 b' o' by (simp add: xfs_cache_ok_def)
    moreover have "b_error br = 0 \<longrightarrow> (\<exists>d. b_addr br = Some d \<and> on_disk s dev blkno (unat (BBTOB len)) d)"
    proof
      assume "b_error br = 0"
      then have "error = 0" by (simp add: br_def split: if_splits)
      with bq(5,7) s2(2) show "\<exists>d. b_addr br = Some d \<and> on_disk s dev blkno (unat (BBTOB len)) d"
        by (simp add: br_def on_disk_def)
    qed
    moreover have "b_error br = 0 \<longrightarrow> b_flags br AND LIBXFS_B_UPTODATE \<noteq> 0" using bq(8) by (simp add: br_def split: if_splits)
    moreover have "b_target br = dev" "b_bn br = blkno" "b_bcount br = BBTOB len" using bq(2-4) by (simp_all add: br_def)
    ultimately show ?thesis using g1 s2(2) b' fresh unfolding mem' use' refs' by (simp, blast)
  qed
qed

lemma readbuf_key:
  assumes ok: "xfs_cache_ok c s" and over: "no_overflow (xb_owned s) c"
    and r: "libxfs_readbuf verify dev blkno len flags None c s = Some (a, c', s')" and a: "in_use c s a"
  shows "b_target (xb_mem s a) = dev \<and> b_bn (xb_mem s a) = blkno \<and> b_bcount (xb_mem s a) = BBTOB len"
proof -
  obtain s1 where g: "libxfs_getbuf_flags (snd verify) dev blkno len c s = Some (a, c', s1)"
    using r by (auto simp: libxfs_readbuf_def Let_def split: option.splits prod.splits if_splits)
  from getbuf_spec [OF ok over g] a show ?thesis by auto
qed

lemma putbuf_spec:
  assumes ok: "xfs_cache_ok c s" and a: "in_use c s a"
  shows "\<exists>c' s'. libxfs_putbuf a c s = Some (c', s') \<and> xfs_cache_ok c' s' \<and> disk s' = disk s \<and>
    (\<forall>b. in_use c s b \<and> b \<noteq> a \<longrightarrow> in_use c' s' b) \<and>
    (\<forall>b. refs c' s' b = refs c s b - (if b = a then 1 else 0)) \<and>
    (\<forall>b. \<exists>e. xb_mem s' b = (xb_mem s b)\<lparr>b_error := e\<rparr>)"
proof -
  have own: "a \<in> xb_owned s" "cn_count (c_node c a) \<noteq> 0" "a < xb_next s" using a by (auto simp: in_use_def xb_owned_def)
  have c: "cache_ok (xb_owned s) c" and b: "bufs_ok s" using ok by (simp_all add: xfs_cache_ok_def)
  from cache_ok_put [OF c own(1,2)] obtain c' where c': "cache_node_put a c = Some c'" "cache_ok (xb_owned s) c'"
    "c_node c' = (c_node c)(a := (c_node c a)\<lparr>cn_count := cn_count (c_node c a) - 1\<rparr>)" by blast
  let ?bp = "(xb_mem s a)\<lparr>b_error := 0\<rparr>"
  obtain d where d: "b_addr (xb_mem s a) = Some d" "length d = unat (b_bcount (xb_mem s a))"
    using b own(3) by (auto simp: bufs_ok_def)
  have "bufs_ok (set_buf a ?bp (s\<lparr>xb_world := xb_world s\<rparr>)) \<and> disk (set_buf a ?bp (s\<lparr>xb_world := xb_world s\<rparr>)) = disk s"
    by (rule bufs_ok_set [OF b own(3), of _ d]) (use d b own in \<open>auto simp: bufs_ok_def buf_ok_def\<close>)
  moreover have "unat (cn_count (c_node c a) - 1) = unat (cn_count (c_node c a)) - 1"
    using own(2) by (simp add: unat_minus_one)
  moreover have "\<exists>e. xb_mem s b = (xb_mem s b)\<lparr>b_error := e\<rparr>" for b by (rule exI [of _ "b_error (xb_mem s b)"]) simp
  ultimately show ?thesis using c' own(1) by (auto simp: libxfs_putbuf_def xfs_cache_ok_def in_use_def refs_def)
qed

text \<open>With memory enough, \<^verbatim>\<open>libxfs_readbuf\<close> returns.\<close>

lemma readbuf_ends:
  assumes ok: "xfs_cache_ok c s" and over: "no_overflow (xb_owned s) c" and mem: "allocs_ok (xb_world s)"
    and room: "c_count c < c_maxcount c * 2"
  shows "\<exists>a c' s'. libxfs_readbuf verify dev blkno len flags None c s = Some (a, c', s')"
proof -
  let ?key = "\<lparr>bk_dev = dev, bk_blkno = blkno, bk_bblen = len, bk_map = None\<rparr>"
  have good: "cache_ok (xb_owned s) c" "xb_good (disk s) True s" using ok mem by (simp_all add: xfs_cache_ok_def xb_good_def)
  have total: "xb_good (disk s) True s1 \<Longrightarrow> \<exists>a s2. op_alloc (libxfs_bcache_operations (snd verify)) ?key s1 = Some (Some a, s2)" for s1
    using balloc_total [of s1 ?key] by (simp add: xb_good_def libxfs_bcache_operations_def)
  from xb.get_ends [OF good over _ total room] obtain r a c1 s1 where
    g: "cache_node_get (libxfs_bcache_operations (snd verify)) ?key c s = Some ((r, a, c1), s1)" by auto
  from xb.get_spec [OF good over _ g] have ok1: "cache_ok (xb_owned s1) c1" "bufs_ok s1"
    and hit: "libxfs_bcompare a ?key s1 = CACHE_HIT" and got: "got (xb_owned s) c (xb_mem s) r a (xb_owned s1) c1 (xb_mem s1)"
    by (simp_all add: xb_good_def libxfs_bcache_operations_def)
  have a: "a \<in> xb_owned s1" using got by (simp add: got_def)
  have used: "cn_count (c_node c1 a) \<noteq> 0"
    using got over by (auto simp: got_def no_overflow_def eq_neg_iff_add_eq_0)
  from cache_ok_set_priority [OF ok1(1) a used] obtain c2 where
    p: "cache_node_set_priority a (cache_node_get_priority a c1 - CACHE_PREFETCH_PRIORITY) c1 = Some c2" by blast
  have gb: "libxfs_getbuf_flags (snd verify) dev blkno len c s = Some (a, c2, s1)"
    using g p by (simp add: libxfs_getbuf_flags_def cache_lookup_def)
  have key: "b_target (xb_mem s1 a) = dev" "b_bn (xb_mem s1 a) = blkno" "b_bcount (xb_mem s1 a) = BBTOB len"
    using hit by (auto simp: libxfs_bcompare_def Let_def split: if_splits)
  obtain d where d: "b_addr (xb_mem s1 a) = Some d" "length d = unat (BBTOB len)"
    using ok1(2) a key(3) by (auto simp: bufs_ok_def xb_owned_def)
  let ?s2 = "set_buf a ((xb_mem s1 a)\<lparr>b_error := 0\<rparr>) s1"
  obtain e x w where rb: "read_buf (libxfs_device_to_fd dev ?s2) (unat (BBTOB len)) (LIBXFS_BBTOOFF64 blkno) flags (xb_world ?s2) = ((e, x), w)"
    by (metis prod.exhaust)
  have "\<exists>error s3. libxfs_readbufr dev blkno a len flags ?s2 = Some (error, s3)"
    using d rb by (simp add: libxfs_readbufr_def Let_def)
  with gb show ?thesis by (auto simp: libxfs_readbuf_def Let_def)
qed

section \<open>Sessions\<close>

text \<open>
  Any sequence of \<^verbatim>\<open>libxfs_readbuf\<close> and \<^verbatim>\<open>libxfs_putbuf\<close> on a new cache, with what the caller holds: the
  buffers that it has got without an error and has not put back, and what it asked for.
\<close>

type_synonym held = "(node_addr \<times> dev_t \<times> u64 \<times> u32) list"

inductive xfs_session ::
    "(string \<Rightarrow> xfs_buf \<Rightarrow> xfs_buf) \<times> (string \<Rightarrow> xfs_buf \<Rightarrow> xfs_buf) \<Rightarrow> (dev_t \<Rightarrow> byte list option) \<Rightarrow> cache \<Rightarrow> xfs_bufs
     \<Rightarrow> held \<Rightarrow> bool" for verify content where
  new_cache: "\<lbrakk>cache_init flags buckets memory w = (Some c, w'); 0 < buckets; xb_next s = 0; xb_freelist s = []; disk s = content\<rbrakk>
    \<Longrightarrow> xfs_session verify content c s []"
| readbuf: "\<lbrakk>xfs_session verify content c s held; no_overflow (xb_owned s) c;
      libxfs_readbuf verify dev blkno len flags None c s = Some (a, c', s')\<rbrakk>
    \<Longrightarrow> xfs_session verify content c' s' (if b_error (xb_mem s' a) = 0 then (a, dev, blkno, len) # held else held)"
| putbuf: "\<lbrakk>xfs_session verify content c s held; (a, dev, blkno, len) \<in> set held; libxfs_putbuf a c s = Some (c', s')\<rbrakk>
    \<Longrightarrow> xfs_session verify content c' s' (remove1 (a, dev, blkno, len) held)"

definition held_ok :: "xfs_bufs \<Rightarrow> node_addr \<times> dev_t \<times> u64 \<times> u32 \<Rightarrow> bool" where
  "held_ok s h \<longleftrightarrow> (case h of (a, dev, blkno, len) \<Rightarrow>
     b_flags (xb_mem s a) AND LIBXFS_B_UPTODATE \<noteq> 0 \<and> b_target (xb_mem s a) = dev \<and> b_bn (xb_mem s a) = blkno
     \<and> b_bcount (xb_mem s a) = BBTOB len)"

definition holds :: "held \<Rightarrow> node_addr \<Rightarrow> nat" where
  "holds held a = length (filter (\<lambda>h. fst h = a) held)"

lemma holds_pos: "h \<in> set held \<Longrightarrow> 0 < holds held (fst h)"
  by (auto simp: holds_def filter_empty_conv)

lemma refs_in_use: "0 < refs c s a \<Longrightarrow> in_use c s a"
  by (auto simp: refs_def in_use_def split: if_splits)

lemma session_ok:
  assumes "xfs_session verify content c s held"
  shows "xfs_cache_ok c s \<and> disk s = content \<and> (\<forall>h \<in> set held. held_ok s h) \<and> (\<forall>a. holds held a \<le> refs c s a)"
  using assms
proof induction
  case (new_cache flags buckets memory w c w' s)
  then have "xb_owned s = {}" "bufs_ok s" by (auto simp: xb_owned_def bufs_ok_def)
  with new_cache cache_init_ok(1) [of flags buckets memory w c w'] show ?case by (simp add: xfs_cache_ok_def holds_def)
next
  case (readbuf c s held dev blkno len flags a c' s')
  note sp = readbuf_spec [OF conjunct1 [OF readbuf.IH] readbuf.hyps(2,3)]
  have old: "held_ok s' h" if h: "h \<in> set held" for h
  proof -
    have hs: "held_ok s h" using readbuf.IH h by blast
    have "0 < refs c s (fst h)" using readbuf.IH holds_pos [OF h] by (meson le_less_trans not_le order_less_le_trans)
    then have u: "in_use c s (fst h)" by (rule refs_in_use)
    obtain b q where b: "h = (b, q)" by (cases h)
    show ?thesis
    proof (cases "b = a")
      case False
      with sp u b hs show ?thesis by (simp add: held_ok_def)
    next
      case True
      with u have ua: "in_use c s a" by (simp add: b)
      with True b hs have "in_use c s a \<and> b_flags (xb_mem s a) AND LIBXFS_B_UPTODATE \<noteq> 0" by (auto simp: held_ok_def)
      with sp have "b_flags (xb_mem s' a) AND LIBXFS_B_UPTODATE \<noteq> 0" by blast
      moreover note readbuf_key [OF conjunct1 [OF readbuf.IH] readbuf.hyps(2,3) ua]
      ultimately show ?thesis using True b hs sp by (auto simp: held_ok_def)
    qed
  qed
  have cnt: "holds held x \<le> refs c s x" "refs c s x + (if x = a then 1 else 0) \<le> refs c' s' x" for x
    using readbuf.IH sp by blast+
  show ?case
  proof (cases "b_error (xb_mem s' a) = 0")
    case True
    then have "held_ok s' (a, dev, blkno, len)" using sp by (simp add: held_ok_def)
    moreover have "holds ((a, dev, blkno, len) # held) x \<le> refs c' s' x" for x
      using cnt [of x] by (auto simp: holds_def)
    ultimately show ?thesis using True sp old readbuf.IH by auto
  next
    case False
    have "holds held x \<le> refs c' s' x" for x using cnt [of x] by linarith
    with False sp old readbuf.IH show ?thesis by simp
  qed
next
  case (putbuf c s held a dev blkno len c' s')
  let ?h = "(a, dev, blkno, len)"
  have "0 < refs c s a" using putbuf.IH holds_pos [OF putbuf.hyps(2)] by (metis fst_conv less_le_trans)
  then have "in_use c s a" by (rule refs_in_use)
  from putbuf_spec [OF conjunct1 [OF putbuf.IH] this] putbuf.hyps(3)
  have sp: "xfs_cache_ok c' s'" "disk s' = disk s" "\<And>b. refs c' s' b = refs c s b - (if b = a then 1 else 0)"
    "\<And>b. \<exists>e. xb_mem s' b = (xb_mem s b)\<lparr>b_error := e\<rparr>" by auto
  have "held_ok s' h = held_ok s h" for h
  proof (cases h)
    case (fields b d n l)
    from sp(4) [of b] show ?thesis by (auto simp: held_ok_def fields)
  qed
  moreover have "set (remove1 ?h held) \<subseteq> set held" by (rule set_remove1_subset)
  moreover have "holds (remove1 ?h held) x \<le> refs c' s' x" for x
  proof -
    have "holds (remove1 ?h held) x = holds held x - (if x = a then 1 else 0)"
      using putbuf.hyps(2) by (auto simp: holds_def filter_remove1 length_remove1)
    then show ?thesis using putbuf.IH sp(3) [of x] by (auto intro: diff_le_mono)
  qed
  ultimately show ?case using sp(1,2) putbuf.IH by auto
qed

section \<open>Properties\<close>

text \<open>
  C29: A buffer that the caller holds shows the disk: after any sequence of reads and releases on a new cache,
  whatever the cache released, reused or enlarged in between and however the transfers were
  cut short or failed, every buffer that was got without an error and has not been put back has the content of
  the device at the block that was asked for, and is in use.
\<close>

theorem buffers_show_disk:
  assumes "xfs_session verify content c s held" and "(a, dev, blkno, len) \<in> set held"
  shows "in_use c s a \<and> (\<exists>bytes d. content dev = Some bytes \<and> b_addr (xb_mem s a) = Some d \<and>
    d = take (unat (BBTOB len)) (drop (unat (LIBXFS_BBTOOFF64 blkno)) bytes) \<and> length d = unat (BBTOB len))"
proof -
  note ok = session_ok [OF assms(1)]
  have "0 < refs c s a" using ok holds_pos [OF assms(2)] by (metis fst_conv less_le_trans)
  then have use: "in_use c s a" by (rule refs_in_use)
  have "held_ok s (a, dev, blkno, len)" using ok assms(2) by blast
  moreover have "buf_ok s (xb_mem s a)" using ok use by (simp add: xfs_cache_ok_def bufs_ok_def in_use_def)
  ultimately show ?thesis using ok use by (auto simp: held_ok_def buf_ok_def on_disk_def)
qed

text \<open>A disk of two blocks, of which the second is read.\<close>

definition disk_world :: world where
  "disk_world = (engine_world engine_source 0 engine_source 0)\<lparr>w_allocs := [], w_sched := [],
     w_nodes := [''s'' \<mapsto> \<lparr>i_kind = BLK, i_bytes = replicate 1024 7, i_dirty = False, i_readable = True, i_writable = True\<rparr>]\<rparr>"

definition no_bufs :: "xfs_bufs" where
  "no_bufs = \<lparr>xb_mem = (\<lambda>a. zero_buf), xb_next = 0, xb_freelist = [], xb_dev_map = [(8, 0)], xb_world = disk_world\<rparr>"

definition no_verify :: "(string \<Rightarrow> xfs_buf \<Rightarrow> xfs_buf) \<times> (string \<Rightarrow> xfs_buf \<Rightarrow> xfs_buf)" where
  "no_verify = (\<lambda>name bp. bp, \<lambda>name bp. bp)"

definition empty_memory :: "node_addr \<Rightarrow> cache_node" where
  "empty_memory = (\<lambda>a. \<lparr>cn_count = 0, cn_hashidx = 0, cn_priority = 0, cn_old_priority = 0\<rparr>)"

definition new_cache :: cache where
  "new_cache = (case cache_init 0 2 empty_memory disk_world of (Some c, w) \<Rightarrow> c)"

lemma new_cache_init: "cache_init 0 2 empty_memory disk_world = (Some new_cache, disk_world)"
  by (simp add: new_cache_def cache_init_def Let_def sys_malloc_def disk_world_def)

lemma new_session: "xfs_session verify (disk no_bufs) new_cache no_bufs []"
  by (rule xfs_session.new_cache [OF new_cache_init]) (simp_all add: no_bufs_def)

lemma second_block:
  "case libxfs_readbuf no_verify 8 1 1 0 None new_cache no_bufs of
     None \<Rightarrow> False | Some (a, c, s) \<Rightarrow> a = 0 \<and> b_error (xb_mem s a) = 0"
  by code_simp

lemma buffers_show_disk_witness:
  "\<exists>c s. xfs_session no_verify (disk no_bufs) c s [(0, 8, 1, 1)] \<and> b_addr (xb_mem s 0) = Some (replicate 512 7)"
proof -
  obtain c s where r: "libxfs_readbuf no_verify 8 1 1 0 None new_cache no_bufs = Some (0, c, s)" and e: "b_error (xb_mem s 0) = 0"
    using second_block by (auto split: option.splits)
  have "no_overflow (xb_owned no_bufs) new_cache" by (simp add: no_overflow_def xb_owned_def no_bufs_def)
  from xfs_session.readbuf [OF new_session this r] e have ses: "xfs_session no_verify (disk no_bufs) c s [(0, 8, 1, 1)]" by simp
  moreover have "disk no_bufs 8 = Some (replicate 1024 7)"
    by (simp add: disk_def libxfs_device_to_fd_def no_bufs_def disk_world_def engine_world_def fd_lookup_def)
  ultimately show ?thesis
    using buffers_show_disk [OF ses, of 0 8 1 1] by (auto simp: BBTOB_def BBSHIFT_def LIBXFS_BBTOOFF64_def)
qed

text \<open>
  C31: \<^verbatim>\<open>libxfs_readbuf\<close> returns whenever memory can be allocated: the search of the cache ends, by finding
  room, by releasing buffers that are not in use, or by enlarging the cache, as long as twice its limit is more
  than its count (which fails only when the 32-bit limit wraps around).
\<close>

theorem readbuf_returns:
  assumes "xfs_session verify content c s held" and "no_overflow (xb_owned s) c" and "allocs_ok (xb_world s)"
    and "c_count c < c_maxcount c * 2"
  shows "\<exists>a c' s'. libxfs_readbuf verify dev blkno len flags None c s = Some (a, c', s')"
  using readbuf_ends [OF conjunct1 [OF session_ok [OF assms(1)]] assms(2-4)] .

lemma readbuf_returns_witness:
  "\<exists>a c s. libxfs_readbuf no_verify 8 3 2 0 None new_cache no_bufs = Some (a, c, s)"
proof -
  have "no_overflow (xb_owned no_bufs) new_cache" by (simp add: no_overflow_def xb_owned_def no_bufs_def)
  moreover have "allocs_ok (xb_world no_bufs)" by (simp add: allocs_ok_def no_bufs_def disk_world_def)
  moreover have "c_count new_cache < c_maxcount new_cache * 2"
    using cache_init_ok(2,3) [OF new_cache_init] by (simp add: HASH_CACHE_RATIO_def)
  ultimately show ?thesis using readbuf_returns [OF new_session] by blast
qed



end
