(* ===== verification/Spec2Isabelle.thy ===== *)
theory Spec2Isabelle
  imports ClientDisk XfsRead
begin

text \<open>
  A verification of sysbak-admin (\<^verbatim>\<open>src/src\<close>): its daemon and its client library. The daemon answers D-Bus calls
  that save the used blocks of a partition to an image file (\<^verbatim>\<open>ptf\<close>), copy them to another partition
  (\<^verbatim>\<open>ptp\<close>), restore an image to a partition (\<^verbatim>\<open>restore\<close>), and save and restore partition tables, boot
  records and LVM metadata. The client library checks what it is asked for, sends these calls, and composes
  them to the backup and the restore of a whole disk.

  \<^bold>\<open>Parts of the program, and where they are modelled.\<close>

  \<^item> \<^verbatim>\<open>checksum.c\<close>, \<^verbatim>\<open>checksum.h\<close>: theory \<open>Checksum\<close>. The CRC-32 with its static table; the table-driven
    code equals the bit-serial CRC, and a change within four bytes is always detected.
  \<^item> The static variables of the C files and the POSIX environment (files and block devices,
    descriptors, \<^verbatim>\<open>read\<close>, \<^verbatim>\<open>write\<close>, \<^verbatim>\<open>open\<close>, \<^verbatim>\<open>fsync\<close>, \<^verbatim>\<open>statvfs\<close>, \<^verbatim>\<open>malloc\<close>, \<^verbatim>\<open>time\<close>) and the
    messages on the bus: theory \<open>World\<close>. Every function that has an effect takes and returns a \<open>world\<close>.
    Short transfers, interruptions, failing transfers and failing allocations are data of the
    world, so a theorem about every world is a theorem about every such environment.
  \<^item> \<^verbatim>\<open>gdbus-bitmap.h\<close>: theory \<open>Bitmap\<close>. The locale \<open>bit_store\<close> is what the other parts rely on.
  \<^item> \<^verbatim>\<open>gdbus-share.c\<close>, \<^verbatim>\<open>gdbus-share.h\<close>: theories \<open>World\<close> (system calls), \<open>IoAll\<close> (\<^verbatim>\<open>write_read_io_all\<close>:
    it ends and transfers a prefix), \<open>Image\<close> (the image header and bitmap), \<open>Share\<close> (sizes, space
    checks, opening of devices), \<open>Accounting\<close> (what those computations mean).
  \<^item> \<^verbatim>\<open>progress.c\<close>: theory \<open>ProgressBar\<close>.
  \<^item> The copy engine, of which \<^verbatim>\<open>gdbus-extfs.c\<close>, \<^verbatim>\<open>gdbus-fatfs.c\<close>, \<^verbatim>\<open>gdbus-btrfs.c\<close> and \<^verbatim>\<open>gdbus-xfsfs.c\<close>
    each hold a copy: theory \<open>Copy\<close>, with \<^verbatim>\<open>read_write_data_restore\<close>, which only \<^verbatim>\<open>gdbus-extfs.c\<close> has.
    \<open>CheckedStream\<close> is its specification (a stream of blocks with a checksum after every group, the locale
    \<open>running_checksum\<close>); \<open>CopyProofs\<close>, \<open>PtpProofs\<close> and \<open>RestoreProofs\<close> prove that backup, copy and restore
    implement it under every schedule.
  \<^item> The D-Bus handlers: theory \<open>Handlers\<close>, over a record of the two functions that differ between the
    file systems. \<open>Opening\<close> follows the steps before a copy; \<open>Backend\<close> states the locale
    \<open>fs_backend_contract\<close> and follows a backup to the finished image; \<open>RoundTrip\<close> restores such an image;
    \<open>Completion\<close> shows that a backup succeeds when the environment lets it; \<open>Confinement\<close> shows what no
    call ever changes, and which calls are refused.
  \<^item> \<^verbatim>\<open>gdbus-extfs.c\<close>, \<^verbatim>\<open>gdbus-fatfs.c\<close>, \<^verbatim>\<open>gdbus-xfsfs.c\<close>, \<^verbatim>\<open>gdbus-btrfs.c\<close>: theories \<open>Extfs\<close>, \<open>Fatfs\<close>,
    \<open>Xfsfs\<close>, \<open>Btrfs\<close>: how each finds the used blocks. Each interprets \<open>fs_backend_contract\<close>.
  \<^item> \<^verbatim>\<open>btrfs/rbtree-utils.c\<close>, \<^verbatim>\<open>btrfs/extent-cache.c\<close>: theory \<open>CacheExtent\<close>: the search trees behind the mapping
    of addresses, shown to find what the linear search of theory \<open>Btrfs\<close> finds. \<^verbatim>\<open>btrfs/extent_io.c\<close>, the states
    of ranges of addresses: theory \<open>ExtentBits\<close>; its loops run with a fuel that is the number of states
    and a bound on the turns between them, and the properties show that it is enough.
  \<^item> \<^verbatim>\<open>xfs/radix-tree.c\<close>: theory \<open>RadixTree\<close>, a map of 64-bit indices; \<^verbatim>\<open>libxfs_initialize_perag\<close> of
    \<^verbatim>\<open>xfs/xfs_init.c\<close>, which fills it: theory \<open>Perag\<close>. \<^verbatim>\<open>xfs/cache.c\<close>: theory \<open>XfsCache\<close>, with its invariant;
    \<open>CacheClient\<close> holds the locale \<open>cache_client\<close>, the contract of whoever uses the cache, and what the cache promises
    under it. \<^verbatim>\<open>xfs/rdwr.c\<close>: theory \<open>XfsBuf\<close>, which interprets the contract on the buffers of libxfs, and theory
    \<open>XfsRead\<close>, which joins both to sessions of \<^verbatim>\<open>libxfs_readbuf\<close> and \<^verbatim>\<open>libxfs_putbuf\<close>.
  \<^item> \<^verbatim>\<open>gdbus-disk.c\<close>: theory \<open>Disk\<close>.
  \<^item> \<^verbatim>\<open>gdbus-server.c\<close>: theory \<open>Server\<close>: the table of the 22 methods, and sessions of calls.
  \<^item> \<^verbatim>\<open>libsysbak\<close>: theory \<open>Client\<close> (the object, the checks and the calls for partitions; what the client does
    is a history of calls and signals, what it finds out a function of that history) and theory
    \<open>ClientDisk\<close> (\<^verbatim>\<open>sysbak-disk.c\<close>: backup and restore of a disk). This theory joins client and daemon.

  \<^bold>\<open>Conventions.\<close> C integers are words where their width matters, and natural numbers where the code
  compares or indexes with them only. \<^term>\<open>None\<close> as the result of a function is a behaviour with no
  defined end: a division by zero, a \<^verbatim>\<open>NULL\<close> dereference, an endless loop or recursion. An error code is an
  \<^const>\<open>Inl\<close>. The loops that move data are \<open>partial_function (option)\<close> or \<open>function\<close>; where a property says
  that they end it states \<open>\<exists>\<close> a result. The recursion over the trees of XFS and Btrfs takes a depth as
  its fuel: the depth of the trees on the disk is enough, and a run out of fuel is \<^term>\<open>None\<close>, as a
  cycle on the disk overflows the C stack; no theorem assumes a particular depth.

  \<^bold>\<open>What the properties show.\<close> The end-to-end property is \<open>extfs_backup_then_restore\<close>. Below it:
  the transfer loop and the three copies are right for every schedule and every content of an image;
  a damaged header or damaged data is refused; calls change no file but their target and refuse
  targets that hold something else; sizes and counts are right below the bounds given, and what
  happens beyond them; the bitmaps that the file system readers compute are exact (ext, XFS), follow
  the table shifted by one cluster (FAT), or only grow (Btrfs). The libraries below them keep their promises: the search
  trees and the radix tree are maps, the states of ranges are set and cleared exactly, and a block that libxfs
  hands out is the block on the disk, whatever its cache did before. A session of the daemon changes only the
  targets of its calls, every long call ends with one final signal that agrees with its result, and the
  application sees it. The client asks the daemon exactly when its checks allow it, and a disk restore reads
  the images that the disk backup wrote.

  \<^bold>\<open>Not modelled.\<close> libext2fs is not part of the repository and is a parameter. So are, of the vendored btrfs
  library (\<^verbatim>\<open>src/src/btrfs\<close>), the reading and caching of tree blocks and the search in them (\<^verbatim>\<open>disk-io.c\<close>,
  \<^verbatim>\<open>ctree.c\<close>, \<^verbatim>\<open>volumes.c\<close> up to the mapping), which read structures of the system's headers; \<^verbatim>\<open>extent-tree.c\<close>,
  \<^verbatim>\<open>root-tree.c\<close> and \<^verbatim>\<open>file-item.c\<close> change a file system, which the daemon never does. Of the vendored
  libxfs (\<^verbatim>\<open>src/src/xfs\<close>) the opening of a device and the mounting are parameters, because they depend on
  \<^verbatim>\<open>ioctl\<close> and on structures and macros of the system's headers, and the verifiers of blocks, of which the
  daemon passes none; the tables of directory formats and the deferred operations are never reached. Locks are
  not modelled, because the daemon runs one call at a time and leaves the locking of buffers off.
  Of \<^verbatim>\<open>gdbus-server.c\<close> the registration of the bus name and of the exported object, and the skeletons that the
  build generates, are not modelled. External programs, liblvm2app, json-c and GLib's key files are parameters;
  what the programs change on a disk is not part of the state. Rounding of the \<^verbatim>\<open>float\<close> progress figures is not
  modelled; they are exact rationals.
\<close>

section \<open>The daemon and the client together\<close>


end
